(* ===== verification/Prelude.thy ===== *)
theory Prelude
  imports Complex_Main "HOL-Library.Word" "HOL-Library.AList" "HOL-Library.Multiset"
begin

text \<open>
  The vocabulary shared by every component: the JavaScript values the TypeScript sources
  handle (UTF-16 strings, numbers, JSON values, insertion-ordered maps and objects), the
  platform functions that are not part of the repository, a result type for code that
  throws, and stable sorting with a comparison function.

  \<^item> A JavaScript string is the list of its 16-bit code units. A string literal of the source
    is written with \<open>js\<close>.
  \<^item> A Node \<open>Buffer\<close> is a list of bytes (8-bit words).
  \<^item> A JavaScript \<open>Map\<close> is an association list in insertion order: \<open>set\<close> is
    \<open>AList.update\<close> (in place, or at the end for a new key), \<open>delete\<close> is \<open>AList.delete\<close> and
    \<open>get\<close> is \<open>map_of\<close>.
  \<^item> An object used as a record of entries is the list of its entries in enumeration order. An
    assignment of a new key appends it; JavaScript enumerates keys that are array indices first,
    so the order differs for such keys, and for no others.
  \<^item> Finite numbers are the rationals they denote; the sums the sources form stay below
    \<open>2^53\<close>, where double arithmetic on integers is exact.
\<close>

section \<open>Fact collections\<close>

named_theorems result_simps \<open>inversion of the result monad\<close>
named_theorems assoc_simps \<open>association lists read as JavaScript maps\<close>

section \<open>Strings and bytes\<close>

type_synonym ucode = "16 word"
type_synonym jsstr = "ucode list"
type_synonym byte = "8 word"
type_synonym bytes = "byte list"

definition js :: "string \<Rightarrow> jsstr" where
  "js s = map of_char s"

lemma of_char_nat_less: "(of_char x :: nat) < 256"
  by simp

lemma of_char_ucode_eq_iff: "(of_char a :: ucode) = of_char b \<longleftrightarrow> a = b"
proof
  assume "(of_char a :: ucode) = of_char b"
  then have "unat (of_nat (of_char a) :: ucode) = unat (of_nat (of_char b) :: ucode)"
    by (simp only: of_nat_of_char)
  moreover have "(of_char x :: nat) < 2 ^ LENGTH(16)" for x
    by (rule less_trans [OF of_char_nat_less]) simp
  ultimately show "a = b"
    by (simp add: unat_of_nat del: of_nat_of_char)
qed simp

lemma js_eq_iff [simp]: "js s = js t \<longleftrightarrow> s = t"
  by (simp add: js_def inj_map_eq_map inj_def of_char_ucode_eq_iff)

lemma js_Nil [simp]: "js [] = []"
  by (simp add: js_def)

lemma js_eq_Nil_iff [simp]: "js s = [] \<longleftrightarrow> s = []" "[] = js s \<longleftrightarrow> s = []"
  by (auto simp: js_def)

lemma length_js [simp]: "length (js s) = length s"
  by (simp add: js_def)

text \<open>White space as \<open>String.prototype.trim\<close> removes it (the ECMAScript white space and
  line terminators).\<close>

definition js_ws :: "ucode \<Rightarrow> bool" where
  "js_ws c \<longleftrightarrow> (9 \<le> c \<and> c \<le> 13) \<or> c = 32 \<or> c = 160 \<or> c = 0x1680 \<or>
     (0x2000 \<le> c \<and> c \<le> 0x200A) \<or> c = 0x2028 \<or> c = 0x2029 \<or> c = 0x202F \<or>
     c = 0x205F \<or> c = 0x3000 \<or> c = 0xFEFF"

definition trimStart :: "jsstr \<Rightarrow> jsstr" where
  "trimStart s = dropWhile js_ws s"

definition trimEnd :: "jsstr \<Rightarrow> jsstr" where
  "trimEnd s = rev (dropWhile js_ws (rev s))"

definition trim :: "jsstr \<Rightarrow> jsstr" where
  "trim s = trimEnd (trimStart s)"

lemma dropWhile_hd_id: "s = [] \<or> \<not> P (hd s) \<Longrightarrow> dropWhile P s = s"
  by (cases s) auto

lemma hd_rev_dropWhile_rev: "s \<noteq> [] \<Longrightarrow> \<not> P (hd s) \<Longrightarrow>
   rev (dropWhile P (rev s)) \<noteq> [] \<and> hd (rev (dropWhile P (rev s))) = hd s"
  by (cases s) (auto simp: dropWhile_append)

lemma last_dropWhile: "dropWhile P s \<noteq> [] \<Longrightarrow> \<not> P (last (rev (dropWhile P s)))"
  using hd_dropWhile [of P s] by (simp add: last_rev)

text \<open>A trimmed string has no white space at either end; trimming it again changes nothing.\<close>

definition trimmed :: "jsstr \<Rightarrow> bool" where
  "trimmed s \<longleftrightarrow> s = [] \<or> (\<not> js_ws (hd s) \<and> \<not> js_ws (last s))"

lemma trimmed_trim [simp, intro]: "trimmed (trim s)"
proof (cases "trimStart s = []")
  case True
  then show ?thesis by (simp add: trim_def trimEnd_def trimmed_def)
next
  case False
  let ?t = "trimStart s"
  from False have hd: "\<not> js_ws (hd ?t)"
    by (simp add: trimStart_def hd_dropWhile)
  with False have "trim s \<noteq> []" and "hd (trim s) = hd ?t"
    using hd_rev_dropWhile_rev [of ?t js_ws] by (simp_all add: trim_def trimEnd_def)
  moreover have "\<not> js_ws (last (trim s))"
    using \<open>trim s \<noteq> []\<close> last_dropWhile [of js_ws "rev ?t"]
    by (simp add: trim_def trimEnd_def)
  ultimately show ?thesis using hd by (simp add: trimmed_def)
qed

lemma trim_trimmed [simp]: "trimmed s \<Longrightarrow> trim s = s"
  by (auto simp: trimmed_def trim_def trimStart_def trimEnd_def dropWhile_hd_id hd_rev)

lemma trim_idem: "trim (trim s) = trim s"
  by simp

section \<open>Numbers\<close>

text \<open>JavaScript numbers: finite ones by the rational they denote.\<close>

datatype jsnumber = Fin rat | NaN | PInf | NInf

fun isFinite :: "jsnumber \<Rightarrow> bool" where
  "isFinite (Fin r) = True"
| "isFinite _ = False"

fun isInteger :: "jsnumber \<Rightarrow> bool" where
  "isInteger (Fin r) = (of_int \<lfloor>r\<rfloor> = r)"
| "isInteger _ = False"

definition max_safe_integer :: int where
  "max_safe_integer = 2 ^ 53 - 1"

fun isSafeInteger :: "jsnumber \<Rightarrow> bool" where
  "isSafeInteger (Fin r) = (of_int \<lfloor>r\<rfloor> = r \<and> \<bar>\<lfloor>r\<rfloor>\<bar> \<le> max_safe_integer)"
| "isSafeInteger _ = False"

text \<open>The mathematical integer of a number that passed \<open>isInteger\<close>.\<close>

fun int_of_num :: "jsnumber \<Rightarrow> int" where
  "int_of_num (Fin r) = \<lfloor>r\<rfloor>"
| "int_of_num _ = 0"

text \<open>Comparisons with a finite bound; every comparison with NaN is false.\<close>

fun num_lt :: "jsnumber \<Rightarrow> rat \<Rightarrow> bool" where
  "num_lt (Fin r) b = (r < b)"
| "num_lt NInf b = True"
| "num_lt _ b = False"

fun num_gt :: "jsnumber \<Rightarrow> rat \<Rightarrow> bool" where
  "num_gt (Fin r) b = (b < r)"
| "num_gt PInf b = True"
| "num_gt _ b = False"

lemma isInteger_Fin_of_int [simp]: "isInteger (Fin (of_int i))" "isSafeInteger (Fin (of_int i)) \<longleftrightarrow> \<bar>i\<bar> \<le> max_safe_integer"
  by simp_all

text \<open>Decimal notation of a natural number, as \<open>String(n)\<close> and template literals print it.\<close>

fun dec :: "nat \<Rightarrow> jsstr" where
  "dec n = (if n < 10 then [of_nat (48 + n)] else dec (n div 10) @ [of_nat (48 + n mod 10)])"

declare dec.simps [simp del]

definition dec_digit :: "ucode \<Rightarrow> nat" where
  "dec_digit c = unat c - 48"

definition undec :: "jsstr \<Rightarrow> nat" where
  "undec s = foldl (\<lambda>a c. 10 * a + dec_digit c) 0 s"

lemma dec_digit_of_nat: "d < 10 \<Longrightarrow> dec_digit (of_nat (48 + d)) = d"
  by (simp add: dec_digit_def unat_of_nat del: of_nat_add)

lemma undec_snoc: "undec (s @ [c]) = 10 * undec s + dec_digit c"
  by (simp add: undec_def)

lemma undec_dec: "undec (dec n) = n"
proof (induction n rule: dec.induct)
  case (1 n)
  show ?case
  proof (cases "n < 10")
    case True
    then show ?thesis
      by (simp add: dec.simps [of n] undec_def dec_digit_of_nat del: of_nat_add)
  next
    case False
    then show ?thesis
      using 1 by (simp add: dec.simps [of n] undec_snoc dec_digit_of_nat del: of_nat_add)
  qed
qed

lemma dec_eq_iff [simp]: "dec m = dec n \<longleftrightarrow> m = n"
  using undec_dec by metis

lemma dec_digits: "c \<in> set (dec n) \<Longrightarrow> 48 \<le> c \<and> c \<le> 57"
proof (induction n rule: dec.induct)
  case (1 n)
  have digit: "48 \<le> (of_nat (48 + d) :: ucode) \<and> (of_nat (48 + d) :: ucode) \<le> 57" if "d < 10" for d
    using that by (auto simp: word_le_nat_alt unat_of_nat simp del: of_nat_add)
  show ?case
  proof (cases "n < 10")
    case True
    with 1 digit [of n] show ?thesis by (simp add: dec.simps [of n] del: of_nat_add)
  next
    case False
    with 1 digit [of "n mod 10"] show ?thesis
      by (auto simp: dec.simps [of n] simp del: of_nat_add)
  qed
qed

lemma dec_nonempty [simp]: "dec n \<noteq> []"
  by (subst dec.simps) simp

section \<open>JSON values\<close>

text \<open>The values \<open>JSON.parse\<close> produces. The entries of an object are in enumeration order.\<close>

datatype json =
    JNull
  | JBool bool
  | JNum jsnumber
  | JStr jsstr
  | JArr "json list"
  | JObj "(jsstr \<times> json) list"

fun obj_get :: "json \<Rightarrow> string \<Rightarrow> json option" where
  "obj_get (JObj es) k = map_of es (js k)"
| "obj_get _ k = None"

text \<open>Assignment \<open>o[k] = v\<close> on a plain object. The key \<open>__proto__\<close> names the prototype
  accessor: the assignment creates no own property.\<close>

definition obj_set :: "jsstr \<Rightarrow> 'v \<Rightarrow> (jsstr \<times> 'v) list \<Rightarrow> (jsstr \<times> 'v) list" where
  "obj_set k v es = (if k = js ''__proto__'' then es else AList.update k v es)"

text \<open>\<open>Object.fromEntries\<close> defines every key as an own property, later entries winning.\<close>

definition fromEntries :: "(jsstr \<times> 'v) list \<Rightarrow> (jsstr \<times> 'v) list" where
  "fromEntries es = foldl (\<lambda>acc (k, v). AList.update k v acc) [] es"

section \<open>The platform\<close>

text \<open>
  Functions of the JavaScript platform whose definition is not in the repository and not
  reproduced here: collation (\<open>String.prototype.localeCompare\<close>, ICU data), Unicode case
  conversion of strings with a code unit beyond ASCII, the WHATWG URL parser
  (\<open>new URL(s).hostname\<close>, \<open>None\<close> when it throws), \<open>Number(s)\<close> of a string and \<open>String(n)\<close>
  of a number, \<open>JSON.stringify\<close>, \<open>JSON.parse\<close> (\<open>None\<close> when it throws),
  \<open>Buffer.toString('utf8')\<close>, and \<open>String(v)\<close> of an array or object of untyped input. Every definition that uses one takes the platform as an argument,
  and every theorem that relies on a law of one states it as a hypothesis.
\<close>

record platform =
  localeCompare :: "jsstr \<Rightarrow> jsstr \<Rightarrow> int"
  unicodeLower :: "jsstr \<Rightarrow> jsstr"
  unicodeUpper :: "jsstr \<Rightarrow> jsstr"
  urlHostname :: "jsstr \<Rightarrow> jsstr option"
  stringToNumber :: "jsstr \<Rightarrow> jsnumber"
  numberToString :: "jsnumber \<Rightarrow> jsstr"
  jsonStringify :: "json \<Rightarrow> jsstr"
  jsonParse :: "jsstr \<Rightarrow> json option"
  utf8ToString :: "bytes \<Rightarrow> jsstr"
  stringOf :: "json \<Rightarrow> jsstr"

definition ascii_lower :: "ucode \<Rightarrow> ucode" where
  "ascii_lower c = (if 65 \<le> c \<and> c \<le> 90 then c + 32 else c)"

definition ascii_upper :: "ucode \<Rightarrow> ucode" where
  "ascii_upper c = (if 97 \<le> c \<and> c \<le> 122 then c - 32 else c)"

definition is_ascii :: "jsstr \<Rightarrow> bool" where
  "is_ascii s \<longleftrightarrow> (\<forall>c \<in> set s. c < 128)"

definition toLowerCase :: "('a) platform_scheme \<Rightarrow> jsstr \<Rightarrow> jsstr" where
  "toLowerCase P s = (if is_ascii s then map ascii_lower s else unicodeLower P s)"

definition toUpperCase :: "('a) platform_scheme \<Rightarrow> jsstr \<Rightarrow> jsstr" where
  "toUpperCase P s = (if is_ascii s then map ascii_upper s else unicodeUpper P s)"

definition upper_ucode :: "ucode \<Rightarrow> bool" where
  "upper_ucode c \<longleftrightarrow> 65 \<le> c \<and> c \<le> 90"

text \<open>Unicode lower-casing leaves no ASCII capital letter behind.\<close>

definition lower_ok :: "('a) platform_scheme \<Rightarrow> bool" where
  "lower_ok P \<longleftrightarrow> (\<forall>s. \<forall>c \<in> set (unicodeLower P s). \<not> upper_ucode c)"

lemma ascii_lower_not_upper [simp]: "\<not> upper_ucode (ascii_lower c)"
  unfolding ascii_lower_def upper_ucode_def by (auto; unat_arith)

lemma ascii_lower_id: "\<not> upper_ucode c \<Longrightarrow> ascii_lower c = c"
  by (auto simp: ascii_lower_def upper_ucode_def)

lemma ascii_lower_ascii: "c < 128 \<Longrightarrow> ascii_lower c < 128"
  unfolding ascii_lower_def by (auto; unat_arith)

lemma toLowerCase_no_upper:
  "lower_ok P \<Longrightarrow> c \<in> set (toLowerCase P s) \<Longrightarrow> \<not> upper_ucode c"
  by (auto simp: toLowerCase_def lower_ok_def split: if_splits)

lemma toLowerCase_id: "is_ascii s \<Longrightarrow> (\<And>c. c \<in> set s \<Longrightarrow> \<not> upper_ucode c) \<Longrightarrow> toLowerCase P s = s"
  by (simp add: toLowerCase_def ascii_lower_id map_idI)

lemma toLowerCase_idem:
  "lower_ok P \<Longrightarrow> is_ascii (toLowerCase P s) \<Longrightarrow> toLowerCase P (toLowerCase P s) = toLowerCase P s"
  by (rule toLowerCase_id) (auto dest: toLowerCase_no_upper)

section \<open>UTF-8 length\<close>

text \<open>
  \<open>Buffer.from(s, 'utf8')\<close>: a surrogate pair is four bytes; a lone surrogate is replaced by
  U+FFFD, three bytes.
\<close>

definition high_surrogate :: "ucode \<Rightarrow> bool" where
  "high_surrogate c \<longleftrightarrow> 0xD800 \<le> c \<and> c \<le> 0xDBFF"

definition low_surrogate :: "ucode \<Rightarrow> bool" where
  "low_surrogate c \<longleftrightarrow> 0xDC00 \<le> c \<and> c \<le> 0xDFFF"

definition utf8_1 :: "nat \<Rightarrow> bytes" where
  "utf8_1 n =
    (if n < 0x80 then [of_nat n]
     else if n < 0x800 then [of_nat (0xC0 + n div 64), of_nat (0x80 + n mod 64)]
     else if n < 0x10000
     then [of_nat (0xE0 + n div 4096), of_nat (0x80 + n div 64 mod 64), of_nat (0x80 + n mod 64)]
     else [of_nat (0xF0 + n div 262144), of_nat (0x80 + n div 4096 mod 64),
           of_nat (0x80 + n div 64 mod 64), of_nat (0x80 + n mod 64)])"

definition pair_code_point :: "ucode \<Rightarrow> ucode \<Rightarrow> nat" where
  "pair_code_point h l = 0x10000 + (unat h - 0xD800) * 1024 + (unat l - 0xDC00)"

fun utf8 :: "jsstr \<Rightarrow> bytes" where
  "utf8 [] = []"
| "utf8 [c] = (if high_surrogate c \<or> low_surrogate c then utf8_1 0xFFFD else utf8_1 (unat c))"
| "utf8 (c # d # s) =
     (if high_surrogate c \<and> low_surrogate d then utf8_1 (pair_code_point c d) @ utf8 s
      else if high_surrogate c \<or> low_surrogate c then utf8_1 0xFFFD @ utf8 (d # s)
      else utf8_1 (unat c) @ utf8 (d # s))"

definition byteLength :: "jsstr \<Rightarrow> nat" where
  "byteLength s = length (utf8 s)"

section \<open>Splitting and joining\<close>

fun split_on :: "ucode \<Rightarrow> jsstr \<Rightarrow> jsstr list" where
  "split_on d [] = [[]]"
| "split_on d (c # s) =
     (if c = d then [] # split_on d s
      else case split_on d s of t # ts \<Rightarrow> (c # t) # ts | [] \<Rightarrow> [[c]])"

fun join_with :: "jsstr \<Rightarrow> jsstr list \<Rightarrow> jsstr" where
  "join_with d [] = []"
| "join_with d [s] = s"
| "join_with d (s # t # ts) = s @ d @ join_with d (t # ts)"

abbreviation comma :: jsstr where "comma \<equiv> [44]"
abbreviation nul :: jsstr where "nul \<equiv> [0]"

text \<open>Two strings joined by a separator that occurs in neither first part determine the parts.\<close>

lemma append_sep_inj:
  "a @ x # b = a' @ x # b' \<Longrightarrow> x \<notin> set a \<Longrightarrow> x \<notin> set a' \<Longrightarrow> a = a' \<and> b = b'"
proof (induction a arbitrary: a')
  case Nil
  then show ?case by (cases a') auto
next
  case (Cons c a)
  then show ?case by (cases a') auto
qed

text \<open>Where one split of a list ends after another.\<close>

lemma split_at:
  assumes "xs @ ys = zs @ ts" and "length zs \<le> length xs"
  obtains us where "xs = zs @ us" and "us @ ys = ts"
  using assms that by (auto simp: append_eq_append_conv2)

section \<open>Results\<close>

text \<open>Code that throws returns \<open>Inl\<close> of what it throws.\<close>

fun bindE :: "'e + 'a \<Rightarrow> ('a \<Rightarrow> 'e + 'b) \<Rightarrow> 'e + 'b" where
  "bindE (Inl e) f = Inl e"
| "bindE (Inr a) f = f a"

text \<open>\<open>Array.prototype.map\<close> with a callback that may throw: the first throw wins.\<close>

fun mapE :: "('a \<Rightarrow> 'e + 'b) \<Rightarrow> 'a list \<Rightarrow> 'e + 'b list" where
  "mapE f [] = Inr []"
| "mapE f (x # xs) = bindE (f x) (\<lambda>y. bindE (mapE f xs) (\<lambda>ys. Inr (y # ys)))"

text \<open>A \<open>for \<dots> of\<close> loop whose body may throw, over an accumulator.\<close>

fun foldE :: "('a \<Rightarrow> 's \<Rightarrow> 'e + 's) \<Rightarrow> 'a list \<Rightarrow> 's \<Rightarrow> 'e + 's" where
  "foldE f [] s = Inr s"
| "foldE f (x # xs) s = bindE (f x s) (foldE f xs)"

text \<open>A promise that may never settle is \<open>None\<close>; \<open>await\<close> passes a rejection on.\<close>

fun awaitE :: "('e + 'a) option \<Rightarrow> ('a \<Rightarrow> ('e + 'b) option) \<Rightarrow> ('e + 'b) option" where
  "awaitE None f = None"
| "awaitE (Some (Inl e)) f = Some (Inl e)"
| "awaitE (Some (Inr a)) f = f a"

lemma awaitE_Inr_iff [result_simps]:
  "awaitE m f = Some (Inr b) \<longleftrightarrow> (\<exists>a. m = Some (Inr a) \<and> f a = Some (Inr b))"
  by (cases "(m, f)" rule: awaitE.cases) auto

text \<open>Code that changes a state and may throw: a throw keeps the changes made so far.\<close>

fun thenS :: "('e + 'a) \<times> 's \<Rightarrow> ('a \<Rightarrow> 's \<Rightarrow> ('e + 'b) \<times> 's) \<Rightarrow> ('e + 'b) \<times> 's" where
  "thenS (Inl e, s) f = (Inl e, s)"
| "thenS (Inr a, s) f = f a s"

fun forS :: "('a \<Rightarrow> 's \<Rightarrow> ('e + unit) \<times> 's) \<Rightarrow> 'a list \<Rightarrow> 's \<Rightarrow> ('e + unit) \<times> 's" where
  "forS f [] s = (Inr (), s)"
| "forS f (x # xs) s = thenS (f x s) (\<lambda>_. forS f xs)"

text \<open>What every step keeps, the whole keeps.\<close>

lemma thenS_keeps: "I (snd m) \<Longrightarrow> (\<And>a s. I s \<Longrightarrow> I (snd (f a s))) \<Longrightarrow> I (snd (thenS m f))"
  by (cases m; cases "fst m") auto

lemma forS_keeps: "(\<And>x s. x \<in> set xs \<Longrightarrow> I s \<Longrightarrow> I (snd (f x s))) \<Longrightarrow> I s \<Longrightarrow> I (snd (forS f xs s))"
proof (induction xs arbitrary: s)
  case (Cons x xs)
  from Cons.prems(1) [of x] Cons.prems(2) have "I (snd (f x s))" by simp
  with Cons.IH Cons.prems(1) show ?case by (auto intro!: thenS_keeps [where I = I])
qed simp

lemma forS_ok: "(\<And>x s. x \<in> set xs \<Longrightarrow> f x s = (Inr (), g x s)) \<Longrightarrow> forS f xs s = (Inr (), foldl (\<lambda>s x. g x s) s xs)"
  by (induction xs arbitrary: s) auto

lemma bindE_Inr_iff [result_simps]: "bindE m f = Inr b \<longleftrightarrow> (\<exists>a. m = Inr a \<and> f a = Inr b)"
  by (cases m) auto

lemma bindE_Inl_iff [result_simps]:
  "bindE m f = Inl e \<longleftrightarrow> m = Inl e \<or> (\<exists>a. m = Inr a \<and> f a = Inl e)"
  by (cases m) auto

lemma mapE_Inr_iff: "mapE f xs = Inr ys \<longleftrightarrow> list_all2 (\<lambda>x y. f x = Inr y) xs ys"
proof (induction xs arbitrary: ys)
  case Nil
  then show ?case by auto
next
  case (Cons x xs)
  then show ?case by (cases ys) (auto simp: result_simps)
qed

lemma mapE_Inr_length: "mapE f xs = Inr ys \<Longrightarrow> length ys = length xs"
  by (auto simp: mapE_Inr_iff dest: list_all2_lengthD)

lemma mapE_Inr_all:
  "mapE f xs = Inr ys \<Longrightarrow> (\<And>x y. x \<in> set xs \<Longrightarrow> f x = Inr y \<Longrightarrow> P y) \<Longrightarrow> \<forall>y \<in> set ys. P y"
  by (induction xs arbitrary: ys) (fastforce simp: result_simps)+

lemma mapE_Inr_map: "(\<And>x. x \<in> set xs \<Longrightarrow> f x = Inr (g x)) \<Longrightarrow> mapE f xs = Inr (map g xs)"
  by (induction xs) auto

lemma mapE_Inr_id: "(\<And>x. x \<in> set xs \<Longrightarrow> f x = Inr x) \<Longrightarrow> mapE f xs = Inr xs"
  using mapE_Inr_map [of xs f id] by simp

lemma mapE_Inl: "mapE f xs = Inl e \<Longrightarrow> \<exists>x \<in> set xs. f x = Inl e"
  by (induction xs) (auto simp: result_simps)

lemma mapE_map: "mapE f (map g xs) = mapE (\<lambda>x. f (g x)) xs"
  by (induction xs) auto

lemma foldE_append: "foldE f (xs @ ys) s = bindE (foldE f xs s) (foldE f ys)"
proof (induction xs arbitrary: s)
  case Nil
  then show ?case by simp
next
  case (Cons x xs)
  then show ?case by (cases "f x s") auto
qed

lemma foldE_invariant:
  assumes "foldE f xs s = Inr t" and "I s"
    and "\<And>x s t. x \<in> set xs \<Longrightarrow> f x s = Inr t \<Longrightarrow> I s \<Longrightarrow> I t"
  shows "I t"
  using assms
proof (induction xs arbitrary: s)
  case Nil
  then show ?case by simp
next
  case (Cons x xs)
  from Cons.prems(1) obtain u where "f x s = Inr u" and "foldE f xs u = Inr t"
    by (auto simp: result_simps)
  moreover from this Cons.prems have "I u" by (meson list.set_intros(1))
  ultimately show ?case using Cons.IH Cons.prems(3) by (meson list.set_intros(2))
qed

lemma list_all2_in_right: "list_all2 Q xs ys \<Longrightarrow> y \<in> set ys \<Longrightarrow> \<exists>x \<in> set xs. Q x y"
  by (induction rule: list_all2_induct) auto

section \<open>Maps\<close>

lemmas map_of_update [assoc_simps] = update_conv' delete_conv'

lemma distinct_fst_update [simp]:
  "distinct (map fst m) \<Longrightarrow> distinct (map fst (AList.update k v m))"
  by (rule distinct_update)

lemma distinct_fst_delete [simp]:
  "distinct (map fst m) \<Longrightarrow> distinct (map fst (AList.delete k m))"
  by (rule distinct_delete)

lemma set_update_subset: "set (AList.update k v m) \<subseteq> insert (k, v) (set m)"
  by (induction m) auto

lemma set_delete_subset: "set (AList.delete k m) \<subseteq> set m"
  by (auto simp: AList.delete_eq)

lemma update_new: "k \<notin> fst ` set m \<Longrightarrow> AList.update k v m = m @ [(k, v)]"
  by (induction m) auto

lemma set_update_distinct:
  "distinct (map fst m) \<Longrightarrow>
   set (AList.update k v m) = insert (k, v) {p \<in> set m. fst p \<noteq> k}"
  by (induction m) (auto simp: image_iff)

lemma set_delete_eq: "set (AList.delete k m) = {p \<in> set m. fst p \<noteq> k}"
  by (auto simp: AList.delete_eq)

text \<open>A predicate on all entries survives the update of an entry that has it, and deletion.\<close>

lemma list_all_update [simp]: "list_all Q m \<Longrightarrow> Q (k, v) \<Longrightarrow> list_all Q (AList.update k v m)"
  using set_update_subset [of k v m] by (auto simp: list_all_iff)

lemma list_all_delete [simp]: "list_all Q m \<Longrightarrow> list_all Q (AList.delete k m)"
  using set_delete_subset [of k m] by (auto simp: list_all_iff)

lemma list_all_map_of: "list_all Q m \<Longrightarrow> map_of m k = Some v \<Longrightarrow> Q (k, v)"
  by (auto simp: list_all_iff dest: map_of_SomeD)

section \<open>Stable sorting with a comparison function\<close>

text \<open>
  \<open>Array.prototype.sort(cmp)\<close> is stable. Insertion from the right, before the first element
  that does not compare smaller, gives the stable order.
\<close>

fun insert_by :: "('a \<Rightarrow> 'a \<Rightarrow> int) \<Rightarrow> 'a \<Rightarrow> 'a list \<Rightarrow> 'a list" where
  "insert_by cmp x [] = [x]"
| "insert_by cmp x (y # ys) = (if cmp x y \<le> 0 then x # y # ys else y # insert_by cmp x ys)"

fun sort_by :: "('a \<Rightarrow> 'a \<Rightarrow> int) \<Rightarrow> 'a list \<Rightarrow> 'a list" where
  "sort_by cmp [] = []"
| "sort_by cmp (x # xs) = insert_by cmp x (sort_by cmp xs)"

lemma mset_insert_by [simp]: "mset (insert_by cmp x xs) = add_mset x (mset xs)"
  by (induction xs) auto

lemma mset_sort_by [simp]: "mset (sort_by cmp xs) = mset xs"
  by (induction xs) auto

lemma set_sort_by [simp]: "set (sort_by cmp xs) = set xs"
  by (metis mset_sort_by set_mset_mset)

lemma length_sort_by [simp]: "length (sort_by cmp xs) = length xs"
  by (metis mset_sort_by size_mset)

lemma distinct_map_sort_by [simp]: "distinct (map f (sort_by cmp xs)) = distinct (map f xs)"
  by (metis mset_map mset_sort_by mset_eq_imp_distinct_iff)

lemma set_insert_by [simp]: "set (insert_by cmp x xs) = insert x (set xs)"
  by (induction xs) auto

lemma distinct_mset_subset: "mset xs \<subseteq># mset ys \<Longrightarrow> distinct ys \<Longrightarrow> distinct xs"
proof -
  assume sub: "mset xs \<subseteq># mset ys" and ys: "distinct ys"
  have "count (mset xs) a = (if a \<in> set xs then 1 else 0)" for a
  proof -
    have "count (mset xs) a \<le> count (mset ys) a" using sub by (rule mset_subset_eq_count)
    also have "\<dots> \<le> 1" using ys by (simp add: distinct_count_atmost_1)
    finally have "count (mset xs) a \<le> 1" .
    moreover have "a \<in> set xs \<Longrightarrow> 0 < count (mset xs) a" by simp
    moreover have "a \<notin> set xs \<Longrightarrow> count (mset xs) a = 0" by simp
    ultimately show ?thesis by (auto simp: le_Suc_eq)
  qed
  then show "distinct xs" by (simp add: distinct_count_atmost_1)
qed

text \<open>The contract of a comparison function: a total preorder, read off the sign.\<close>

locale comparison =
  fixes cmp :: "'a \<Rightarrow> 'a \<Rightarrow> int"
  assumes cmp_swap: "cmp x y < 0 \<longleftrightarrow> 0 < cmp y x"
    and cmp_trans: "cmp x y \<le> 0 \<Longrightarrow> cmp y z \<le> 0 \<Longrightarrow> cmp x z \<le> 0"
begin

lemma cmp_refl: "cmp x x = 0"
  using cmp_swap [of x x] by linarith

lemma cmp_total: "cmp x y \<le> 0 \<or> cmp y x \<le> 0"
  using cmp_swap [of x y] cmp_swap [of y x] by linarith

lemma cmp_eq_sym: "cmp x y = 0 \<longleftrightarrow> cmp y x = 0"
  using cmp_swap [of x y] cmp_swap [of y x] by linarith

lemma cmp_less_trans: "cmp x y < 0 \<Longrightarrow> cmp y z \<le> 0 \<Longrightarrow> cmp x z < 0"
  using cmp_trans [of y z x] cmp_swap [of x y] cmp_swap [of x z] by linarith

lemma sorted_insert_by:
  "sorted_wrt (\<lambda>x y. cmp x y \<le> 0) xs \<Longrightarrow> sorted_wrt (\<lambda>x y. cmp x y \<le> 0) (insert_by cmp x xs)"
proof (induction xs)
  case Nil
  then show ?case by simp
next
  case (Cons y ys)
  then show ?case
    using cmp_total [of x y] by (auto intro: cmp_trans)
qed

lemma sorted_sort_by: "sorted_wrt (\<lambda>x y. cmp x y \<le> 0) (sort_by cmp xs)"
  by (induction xs) (auto intro: sorted_insert_by)

lemma insert_by_first:
  "(\<And>y. y \<in> set ys \<Longrightarrow> cmp x y \<le> 0) \<Longrightarrow> insert_by cmp x ys = x # ys"
  by (cases ys) auto

text \<open>Sorting a sorted list changes nothing: sorting twice is sorting once.\<close>

lemma sort_by_sorted: "sorted_wrt (\<lambda>x y. cmp x y \<le> 0) xs \<Longrightarrow> sort_by cmp xs = xs"
  by (induction xs) (auto simp: insert_by_first)

lemma filter_insert_by_other:
  "cmp z x \<noteq> 0 \<Longrightarrow> filter (\<lambda>y. cmp z y = 0) (insert_by cmp x ys) = filter (\<lambda>y. cmp z y = 0) ys"
  by (induction ys) auto

lemma filter_insert_by_same:
  "cmp z x = 0 \<Longrightarrow> sorted_wrt (\<lambda>x y. cmp x y \<le> 0) ys \<Longrightarrow>
   filter (\<lambda>y. cmp z y = 0) (insert_by cmp x ys) = x # filter (\<lambda>y. cmp z y = 0) ys"
proof (induction ys)
  case Nil
  then show ?case by simp
next
  case (Cons y ys)
  show ?case
  proof (cases "cmp x y \<le> 0")
    case True
    with Cons.prems show ?thesis by simp
  next
    case False
    then have "cmp z y \<noteq> 0"
      using Cons.prems(1) cmp_trans [of x z y] cmp_eq_sym [of z x] by linarith
    with False Cons show ?thesis by simp
  qed
qed

text \<open>Stability: elements that compare equal keep their order.\<close>

lemma sort_by_stable: "filter (\<lambda>y. cmp z y = 0) (sort_by cmp xs) = filter (\<lambda>y. cmp z y = 0) xs"
proof (induction xs)
  case Nil
  then show ?case by simp
next
  case (Cons x xs)
  then show ?case
    by (cases "cmp z x = 0") (auto simp: filter_insert_by_same filter_insert_by_other sorted_sort_by)
qed

end

text \<open>Comparison functions are built from others: by a key, by the difference of two numbers,
  and with JavaScript's \<open>a || b\<close>, which falls through to \<open>b\<close> on a zero.\<close>

definition or_else :: "int \<Rightarrow> int \<Rightarrow> int" where
  "or_else a b = (if a \<noteq> 0 then a else b)"

lemma comparison_key: "comparison cmp \<Longrightarrow> comparison (\<lambda>x y. cmp (f x) (f y))"
  unfolding comparison_def by blast

lemma comparison_minus: "comparison (\<lambda>x y. (f x :: int) - f y)"
  by unfold_locales auto

lemma comparison_or_else:
  assumes "comparison c" and "comparison d"
  shows "comparison (\<lambda>x y. or_else (c x y) (d x y))"
proof
  fix x y z
  show "or_else (c x y) (d x y) < 0 \<longleftrightarrow> 0 < or_else (c y x) (d y x)"
    using comparison.cmp_swap [OF assms(1)] comparison.cmp_swap [OF assms(2)]
      comparison.cmp_eq_sym [OF assms(1)]
    by (simp add: or_else_def)
  assume le: "or_else (c x y) (d x y) \<le> 0" "or_else (c y z) (d y z) \<le> 0"
  then have cxy: "c x y \<le> 0" and cyz: "c y z \<le> 0"
    by (auto simp: or_else_def split: if_splits)
  then have cxz: "c x z \<le> 0" by (rule comparison.cmp_trans [OF assms(1)])
  show "or_else (c x z) (d x z) \<le> 0"
  proof (cases "c x z = 0")
    case True
    then have "c z x \<le> 0" using comparison.cmp_eq_sym [OF assms(1), of x z] by simp
    with cxy cyz have "c z y \<le> 0" "c y x \<le> 0"
      using comparison.cmp_trans [OF assms(1)] by blast+
    then have "c x y = 0" "c y z = 0"
      using cxy cyz comparison.cmp_swap [OF assms(1), of x y]
        comparison.cmp_swap [OF assms(1), of y z] by linarith+
    with le have "d x z \<le> 0"
      using comparison.cmp_trans [OF assms(2)] by (auto simp: or_else_def)
    with True show ?thesis by (simp add: or_else_def)
  qed (use cxz in \<open>simp add: or_else_def\<close>)
qed

text \<open>The first element of every key, in order: the loops that skip a key already seen.\<close>

fun keep_first :: "('a \<Rightarrow> 'k) \<Rightarrow> 'k list \<Rightarrow> 'a list \<Rightarrow> 'a list" where
  "keep_first key seen [] = []"
| "keep_first key seen (x # xs) =
     (if key x \<in> set seen then keep_first key seen xs
      else x # keep_first key (key x # seen) xs)"

lemma set_keep_first_subset: "set (keep_first key seen xs) \<subseteq> set xs"
  by (induction key seen xs rule: keep_first.induct) auto

lemma keep_first_keys: "key ` set (keep_first key seen xs) = key ` set xs - set seen"
  by (induction key seen xs rule: keep_first.induct) auto

lemma distinct_keep_first: "distinct (map key (keep_first key seen xs))"
proof (induction key seen xs rule: keep_first.induct)
  case (2 key seen x xs)
  then show ?case
    using keep_first_keys [of key "key x # seen" xs] by auto
qed simp

lemma sorted_wrt_keep_first: "sorted_wrt R xs \<Longrightarrow> sorted_wrt R (keep_first key seen xs)"
proof (induction key seen xs rule: keep_first.induct)
  case (2 key seen x xs)
  then show ?case using set_keep_first_subset [of key "key x # seen" xs] by auto
qed simp

text \<open>In a sorted list, what is kept is minimal among the elements of its key.\<close>

lemma keep_first_minimal:
  "sorted_wrt R xs \<Longrightarrow> (\<And>x. R x x) \<Longrightarrow> y \<in> set (keep_first key seen xs) \<Longrightarrow> x \<in> set xs \<Longrightarrow>
   key x = key y \<Longrightarrow> R y x"
proof (induction key seen xs rule: keep_first.induct)
  case (2 key seen z xs)
  show ?case
  proof (cases "key z \<in> set seen")
    case True
    then have "key y \<notin> set seen"
      using 2 keep_first_keys [of key seen xs] by auto
    with True 2 show ?thesis by auto
  next
    case False
    show ?thesis
    proof (cases "y = z")
      case True
      with 2 show ?thesis by auto
    next
      case neq: False
      with 2(5) False have "y \<in> set (keep_first key (key z # seen) xs)" by simp
      moreover from this have "key y \<noteq> key z"
        using keep_first_keys [of key "key z # seen" xs] by auto
      ultimately show ?thesis using 2 False by auto
    qed
  qed
qed simp

text \<open>Code-unit order, the comparison of \<open>Array.prototype.sort()\<close> without an argument.\<close>

fun ordinal :: "jsstr \<Rightarrow> jsstr \<Rightarrow> int" where
  "ordinal [] [] = 0"
| "ordinal [] (_ # _) = - 1"
| "ordinal (_ # _) [] = 1"
| "ordinal (a # s) (b # t) = (if a < b then - 1 else if b < a then 1 else ordinal s t)"

lemma ordinal_swap: "ordinal s t < 0 \<longleftrightarrow> 0 < ordinal t s"
  by (induction s t rule: ordinal.induct) auto

lemma ordinal_trans: "ordinal s t \<le> 0 \<Longrightarrow> ordinal t u \<le> 0 \<Longrightarrow> ordinal s u \<le> 0"
proof (induction s t arbitrary: u rule: ordinal.induct)
  case (4 a s b t)
  then show ?case
    by (cases u) (auto split: if_splits)
next
  case (1)
  then show ?case by simp
next
  case (2 b t)
  then show ?case by (cases u) auto
next
  case (3 a s)
  then show ?case by simp
qed

lemma ordinal_eq: "ordinal s t = 0 \<longleftrightarrow> s = t"
  by (induction s t rule: ordinal.induct) auto

lemma ordinal_antisym: "ordinal s t \<le> 0 \<Longrightarrow> ordinal t s \<le> 0 \<Longrightarrow> s = t"
  using ordinal_swap [of s t] ordinal_eq [of s t] by linarith

text \<open>A list sorted by an antisymmetric relation is determined by its multiset.\<close>

lemma sorted_wrt_mset_unique:
  assumes "\<And>x y. R x y \<Longrightarrow> R y x \<Longrightarrow> x = y"
  shows "sorted_wrt R xs \<Longrightarrow> sorted_wrt R ys \<Longrightarrow> mset xs = mset ys \<Longrightarrow> xs = ys"
proof (induction xs arbitrary: ys)
  case Nil
  then show ?case by simp
next
  case (Cons x xs)
  then obtain y ys' where ys: "ys = y # ys'" by (cases ys) auto
  have "x = y"
  proof (rule ccontr)
    assume "x \<noteq> y"
    with Cons.prems(3) ys have "x \<in> set ys'" "y \<in> set xs"
      by (metis insert_noteq_member mset.simps(2) set_mset_mset)+
    with Cons.prems(1,2) ys have "R y x" "R x y" by auto
    with assms \<open>x \<noteq> y\<close> show False by blast
  qed
  with Cons ys show ?case by simp
qed

interpretation ord: comparison ordinal
  by unfold_locales (rule ordinal_swap, rule ordinal_trans)

section \<open>A sample platform\<close>

text \<open>
  A concrete platform on which hypotheses about the platform can be evaluated: code-unit
  collation, ASCII case conversion, a URL parser that takes everything after \<open>http://\<close> as the
  host name, Latin-1 text. Instances that need JSON replace its two fields.
\<close>

definition sample_platform :: platform where
  "sample_platform =
     \<lparr>localeCompare = ordinal, unicodeLower = map ascii_lower, unicodeUpper = map ascii_upper,
      urlHostname = (\<lambda>s. Some (drop 7 s)), stringToNumber = (\<lambda>_. NaN),
      numberToString = (\<lambda>_. js ''0''), jsonStringify = (\<lambda>_. js ''{}''),
      jsonParse = (\<lambda>_. Some (JObj [])), utf8ToString = map ucast,
      stringOf = (\<lambda>_. js ''[object Object]'')\<rparr>"

lemma sample_platform_sel [simp]:
  "localeCompare sample_platform = ordinal"
  "unicodeLower sample_platform = map ascii_lower"
  "urlHostname sample_platform s = Some (drop 7 s)"
  by (simp_all add: sample_platform_def)

lemma lower_ok_sample [simp]: "lower_ok sample_platform"
  by (simp add: lower_ok_def)

end
