(* ===== verification/Errors.thy ===== *)
theory Errors
  imports Prelude
begin

text \<open>
  Errors and the small validators of \<open>packages/verser-common/src/lib\<close>: \<open>errors.ts\<close> (the typed
  \<open>VerserError\<close> with its code, message and context), \<open>error-response.ts\<close> (its HTTP form),
  \<open>utils.ts\<close> (the validators every other module calls), \<open>protocol-headers.ts\<close> and
  \<open>constants.ts\<close>.
\<close>

section \<open>Error codes, contexts and values\<close>

datatype VerserErrorCode =
    missing_guest | disconnected_target | timeout | stream_failure | protocol_error
  | local_handler_failure | invalid_registration | certificate_verification_failure
  | upstream_unavailable | route_loop | authorization_denied | unsafe_retry
  | revocation_failed | websocket_negotiation_failed

text \<open>The string a code is on the wire and in messages.\<close>

fun code_string :: "VerserErrorCode \<Rightarrow> jsstr" where
  "code_string missing_guest = js ''missing-guest''"
| "code_string disconnected_target = js ''disconnected-target''"
| "code_string timeout = js ''timeout''"
| "code_string stream_failure = js ''stream-failure''"
| "code_string protocol_error = js ''protocol-error''"
| "code_string local_handler_failure = js ''local-handler-failure''"
| "code_string invalid_registration = js ''invalid-registration''"
| "code_string certificate_verification_failure = js ''certificate-verification-failure''"
| "code_string upstream_unavailable = js ''upstream-unavailable''"
| "code_string route_loop = js ''route-loop''"
| "code_string authorization_denied = js ''authorization-denied''"
| "code_string unsafe_retry = js ''unsafe-retry''"
| "code_string revocation_failed = js ''revocation-failed''"
| "code_string websocket_negotiation_failed = js ''websocket-negotiation-failed''"

text \<open>A context value: string, number, boolean or \<open>undefined\<close>; any other value where the sources
  put unvalidated input into a context.\<close>

datatype ctx_value = CStr jsstr | CNum jsnumber | CBool bool | CUndef | CJson json

type_synonym VerserErrorContext = "(jsstr \<times> ctx_value) list"

record VerserError =
  err_code :: VerserErrorCode
  err_message :: jsstr
  err_context :: VerserErrorContext

text \<open>What the sources throw: a \<open>VerserError\<close>, a \<open>TypeError\<close> of a local API, a plain
  \<open>Error\<close> that may carry a close code, or the \<open>TypeError\<close> of calling a method on a value that
  has none.\<close>

datatype thrown =
    Verser VerserError
  | TypeErr jsstr
  | PlainErr jsstr "int option"
  | NotAFunction

type_synonym 'a result = "thrown + 'a"

fun ctx_string :: "'a platform_scheme \<Rightarrow> ctx_value \<Rightarrow> jsstr" where
  "ctx_string P (CStr s) = s"
| "ctx_string P (CNum n) = numberToString P n"
| "ctx_string P (CBool b) = (if b then js ''true'' else js ''false'')"
| "ctx_string P CUndef = js ''undefined''"
| "ctx_string P (CJson j) = stringOf P j"

text \<open>Unvalidated input as a context value.\<close>

fun json_ctx :: "json option \<Rightarrow> ctx_value" where
  "json_ctx None = CUndef"
| "json_ctx (Some (JStr s)) = CStr s"
| "json_ctx (Some (JNum n)) = CNum n"
| "json_ctx (Some (JBool b)) = CBool b"
| "json_ctx (Some j) = CJson j"

definition defined_entries :: "VerserErrorContext \<Rightarrow> VerserErrorContext" where
  "defined_entries ctx = filter (\<lambda>(k, v). v \<noteq> CUndef) ctx"

definition formatVerserErrorMessage ::
  "'a platform_scheme \<Rightarrow> VerserErrorCode \<Rightarrow> jsstr \<Rightarrow> VerserErrorContext \<Rightarrow> jsstr" where
  "formatVerserErrorMessage P code message context =
    (let contextPairs = map (\<lambda>(key, value). key @ js ''='' @ ctx_string P value)
                            (defined_entries context);
         contextSuffix = (if 0 < length contextPairs
                          then js '' ('' @ join_with (js '', '') contextPairs else [])
     in js ''['' @ code_string code @ js ''] '' @ message @ contextSuffix)"

definition createVerserError ::
  "'a platform_scheme \<Rightarrow> VerserErrorCode \<Rightarrow> jsstr \<Rightarrow> VerserErrorContext \<Rightarrow> VerserError" where
  "createVerserError P code message context =
     \<lparr>err_code = code, err_message = formatVerserErrorMessage P code message context,
      err_context = context\<rparr>"

text \<open>Throwing a \<open>VerserError\<close> whose message and context keys are literals.\<close>

definition throwE :: "'a platform_scheme \<Rightarrow> VerserErrorCode \<Rightarrow> string \<Rightarrow> (string \<times> ctx_value) list
    \<Rightarrow> thrown + 'b" where
  "throwE P code message context =
     Inl (Verser (createVerserError P code (js message) (map (\<lambda>(k, v). (js k, v)) context)))"

fun thrown_code :: "thrown \<Rightarrow> VerserErrorCode option" where
  "thrown_code (Verser e) = Some (err_code e)"
| "thrown_code _ = None"

lemma throwE_not_Inr [simp]: "throwE P c m x \<noteq> Inr b"
  by (simp add: throwE_def)

lemma throwE_code [simp]: "throwE P c m x = Inl e \<Longrightarrow> thrown_code e = Some c"
  by (auto simp: throwE_def createVerserError_def)

lemma bindE_throwE [simp]: "bindE (throwE P c m x) f = throwE P c m x"
  by (simp add: throwE_def)

text \<open>\<open>toVerserError\<close> of \<open>verser-common/errors.ts\<close>: a \<open>VerserError\<close> keeps its identity and
  gets the guest id of the caller; anything else is wrapped as a protocol error.\<close>

fun thrown_message :: "thrown \<Rightarrow> jsstr" where
  "thrown_message (Verser e) = err_message e"
| "thrown_message (TypeErr m) = m"
| "thrown_message (PlainErr m _) = m"
| "thrown_message NotAFunction = js ''value.trim is not a function''"

fun toVerserError :: "'a platform_scheme \<Rightarrow> thrown \<Rightarrow> jsstr option \<Rightarrow> VerserError" where
  "toVerserError P (Verser e) guestId =
     (case guestId of
        Some g \<Rightarrow>
          (if map_of (err_context e) (js ''guestId'') \<noteq> Some (CStr g)
           then e\<lparr>err_context := AList.update (js ''guestId'') (CStr g) (err_context e)\<rparr> else e)
      | None \<Rightarrow> e)"
| "toVerserError P t guestId =
     createVerserError P protocol_error (thrown_message t)
       (case guestId of Some g \<Rightarrow> [(js ''guestId'', CStr g)] | None \<Rightarrow> [])"

section \<open>HTTP error responses\<close>

definition toVerserHttpErrorResponse ::
  "VerserError \<Rightarrow> VerserErrorCode \<times> jsstr \<times> VerserErrorContext" where
  "toVerserHttpErrorResponse error =
     (err_code error, err_message error, defined_entries (err_context error))"

definition all_codes :: "VerserErrorCode list" where
  "all_codes = [missing_guest, disconnected_target, timeout, stream_failure, protocol_error,
     local_handler_failure, invalid_registration, certificate_verification_failure,
     upstream_unavailable, route_loop, authorization_denied, unsafe_retry, revocation_failed,
     websocket_negotiation_failed]"

definition toVerserErrorCode :: "jsstr option \<Rightarrow> VerserErrorCode" where
  "toVerserErrorCode code =
     (case find (\<lambda>c. code = Some (code_string c)) all_codes of
        Some c \<Rightarrow> c | None \<Rightarrow> local_handler_failure)"

lemma code_string_inj: "code_string c = code_string d \<Longrightarrow> c = d"
  by (cases c; cases d) simp_all

text \<open>Every code survives the wire; anything else is read as a local handler failure.\<close>

lemma toVerserErrorCode_code_string: "toVerserErrorCode (Some (code_string c)) = c"
  by (cases c) (simp_all add: toVerserErrorCode_def all_codes_def)

lemma toVerserErrorCode_unknown:
  "(\<And>c. code \<noteq> Some (code_string c)) \<Longrightarrow> toVerserErrorCode code = local_handler_failure"
proof -
  assume "\<And>c. code \<noteq> Some (code_string c)"
  then have "find (\<lambda>c. code = Some (code_string c)) all_codes = None"
    by (simp add: find_None_iff)
  then show ?thesis by (simp add: toVerserErrorCode_def)
qed

section \<open>Validators\<close>

text \<open>\<open>isRecord\<close>: a non-null, non-array object.\<close>

fun isRecord :: "json \<Rightarrow> bool" where
  "isRecord (JObj es) = True"
| "isRecord _ = False"

definition requireNonEmpty :: "'a platform_scheme \<Rightarrow> jsstr \<Rightarrow> string \<Rightarrow> jsstr result" where
  "requireNonEmpty P value label =
    (let normalizedValue = trim value
     in if length normalizedValue = 0
        then throwE P invalid_registration (label @ '' must not be empty'') [(''field'', CStr (js label))]
        else Inr normalizedValue)"

text \<open>The same call on a value that is only cast to a string: \<open>value.trim()\<close> of a value that
  is not a string is a \<open>TypeError\<close>.\<close>

fun requireNonEmptyJson :: "'a platform_scheme \<Rightarrow> json option \<Rightarrow> string \<Rightarrow> jsstr result" where
  "requireNonEmptyJson P (Some (JStr s)) label = requireNonEmpty P s label"
| "requireNonEmptyJson P _ label = Inl NotAFunction"

lemma requireNonEmpty_Inr_iff [result_simps]:
  "requireNonEmpty P v l = Inr s \<longleftrightarrow> s = trim v \<and> trim v \<noteq> []"
  by (auto simp: requireNonEmpty_def Let_def)

lemma requireNonEmptyJson_Inr_iff [result_simps]:
  "requireNonEmptyJson P j l = Inr s \<longleftrightarrow> (\<exists>v. j = Some (JStr v) \<and> s = trim v \<and> trim v \<noteq> [])"
  by (cases "(P, j, l)" rule: requireNonEmptyJson.cases) (auto simp: result_simps)

lemma requireNonEmptyJson_JStr [simp]:
  "requireNonEmptyJson P (Some (JStr s)) l = requireNonEmpty P s l"
  by simp

lemma requireNonEmpty_valid: "trimmed s \<Longrightarrow> s \<noteq> [] \<Longrightarrow> requireNonEmpty P s l = Inr s"
  by (simp add: result_simps)

definition requireValidStatusCode :: "'a platform_scheme \<Rightarrow> jsnumber \<Rightarrow> int result" where
  "requireValidStatusCode P value =
    (if \<not> isInteger value \<or> num_lt value 100 \<or> num_gt value 599
     then throwE P protocol_error ''HTTP status code must be between 100 and 599'' [(''statusCode'', CNum value)]
     else Inr (int_of_num value))"

definition requireFinalResponseStatusCode :: "'a platform_scheme \<Rightarrow> jsnumber \<Rightarrow> int result" where
  "requireFinalResponseStatusCode P value =
    (if \<not> isInteger value \<or> num_lt value 200 \<or> num_gt value 599
     then throwE P protocol_error ''Response status code must be final (200-599)'' [(''statusCode'', CNum value)]
     else Inr (int_of_num value))"

lemma requireFinalResponseStatusCode_Inr:
  "requireFinalResponseStatusCode P v = Inr n \<longleftrightarrow> 200 \<le> n \<and> n \<le> 599 \<and> v = Fin (of_int n)"
proof (cases v)
  case (Fin r)
  have "\<lfloor>r\<rfloor> = n \<and> of_int \<lfloor>r\<rfloor> = r \<and> \<not> r < 200 \<and> \<not> 599 < r \<longleftrightarrow> 200 \<le> n \<and> n \<le> 599 \<and> r = of_int n"
    by (auto simp: not_less le_floor_iff floor_le_iff)
  with Fin show ?thesis
    by (auto simp: requireFinalResponseStatusCode_def)
qed (auto simp: requireFinalResponseStatusCode_def)

text \<open>The token characters of RFC 7230 in lower case: \<open>/^[!#$%&'*+\-.^_`|~0-9a-z]+$/u\<close>.\<close>

definition token_punct :: "ucode \<Rightarrow> bool" where
  "token_punct c \<longleftrightarrow> c \<in> set (js ''!#$%&'') \<or> c = 39 \<or> c \<in> set (js ''*+-.^_`|~'')"

definition lower_token_char :: "ucode \<Rightarrow> bool" where
  "lower_token_char c \<longleftrightarrow> token_punct c \<or> (48 \<le> c \<and> c \<le> 57) \<or> (97 \<le> c \<and> c \<le> 122)"

definition isValidHttpHeaderName :: "jsstr \<Rightarrow> bool" where
  "isValidHttpHeaderName name \<longleftrightarrow> name \<noteq> [] \<and> (\<forall>c \<in> set name. lower_token_char c)"

lemma lower_token_char_ascii: "lower_token_char c \<Longrightarrow> c < 128"
  unfolding lower_token_char_def token_punct_def js_def by (auto; unat_arith)

lemma lower_token_char_not_upper: "lower_token_char c \<Longrightarrow> \<not> upper_ucode c"
  unfolding lower_token_char_def token_punct_def js_def upper_ucode_def by (auto; unat_arith)

section \<open>Lease acquisition timeout\<close>

text \<open>
  \<open>Number(headers[name] ?? 5000)\<close>: the header is absent, a string, a number, or an array of
  strings (whose conversion joins it with commas first).
\<close>

datatype raw_header = RStr jsstr | RNum jsnumber | RArr "jsstr list"

definition parseLeaseAcquireTimeoutMs :: "'a platform_scheme \<Rightarrow> raw_header option \<Rightarrow> jsnumber" where
  "parseLeaseAcquireTimeoutMs P header =
    (let value = (case header of
                    None \<Rightarrow> Fin 5000
                  | Some (RNum n) \<Rightarrow> n
                  | Some (RStr s) \<Rightarrow> stringToNumber P s
                  | Some (RArr ss) \<Rightarrow> stringToNumber P (join_with comma ss))
     in if \<not> isFinite value \<or> num_lt value 0 then Fin 5000 else value)"

lemma parseLeaseAcquireTimeoutMs_nonneg:
  "\<exists>r. parseLeaseAcquireTimeoutMs P h = Fin r \<and> 0 \<le> r"
proof -
  have "\<exists>r. (if \<not> isFinite v \<or> num_lt v 0 then Fin 5000 else v) = Fin r \<and> 0 \<le> r" for v
    by (cases v) auto
  then show ?thesis by (simp add: parseLeaseAcquireTimeoutMs_def Let_def)
qed

section \<open>Constants\<close>

abbreviation VERSER_ENVELOPE_VERSION :: byte where "VERSER_ENVELOPE_VERSION \<equiv> 1"
abbreviation VERSER_ENVELOPE_PREFIX_BYTES :: nat where "VERSER_ENVELOPE_PREFIX_BYTES \<equiv> 6"

definition DEFAULT_MAX_ENVELOPE_METADATA_BYTES :: nat where
  "DEFAULT_MAX_ENVELOPE_METADATA_BYTES = 64 * 1024"

definition VERSER_RESPONSE_METADATA_HEADER :: jsstr where
  "VERSER_RESPONSE_METADATA_HEADER = js ''x-verser-response-metadata''"

definition VERSER_RESPONSE_METADATA_MAX_BYTES :: nat where
  "VERSER_RESPONSE_METADATA_MAX_BYTES = 4096"

definition VERSER_RESPONSE_METADATA_MAX_HEADER_PAIRS :: nat where
  "VERSER_RESPONSE_METADATA_MAX_HEADER_PAIRS = 64"

definition VERSER_RESPONSE_METADATA_MAX_STATUS_TEXT_BYTES :: nat where
  "VERSER_RESPONSE_METADATA_MAX_STATUS_TEXT_BYTES = 1024"

section \<open>Properties\<close>

lemma join_with_notin: "c \<notin> set d \<Longrightarrow> (\<And>s. s \<in> set ss \<Longrightarrow> c \<notin> set s) \<Longrightarrow> c \<notin> set (join_with d ss)"
  by (induction d ss rule: join_with.induct) auto

lemma code_string_no_paren: "41 \<notin> set (code_string c)"
  by (cases c) (simp_all add: js_def)

text \<open>A message that shows a context opens a parenthesis that is never closed: unless the
  message or the context brings one along, the formatted message contains no closing
  parenthesis, although its documented form is \<open>[code] message (key=val, ...)\<close>.\<close>

theorem formatVerserErrorMessage_unclosed:
  assumes "defined_entries ctx \<noteq> []"
    and "41 \<notin> set message"
    and "\<And>k v. (k, v) \<in> set ctx \<Longrightarrow> 41 \<notin> set k \<and> 41 \<notin> set (ctx_string P v)"
  shows "40 \<in> set (formatVerserErrorMessage P code message ctx) \<and>
         41 \<notin> set (formatVerserErrorMessage P code message ctx)"
proof
  let ?pairs = "map (\<lambda>(key, value). key @ js ''='' @ ctx_string P value) (defined_entries ctx)"
  have "41 \<notin> set p" if "p \<in> set ?pairs" for p
    using that assms(3) by (auto simp: defined_entries_def js_def)
  then have "41 \<notin> set (join_with (js '', '') ?pairs)"
    by (intro join_with_notin) (simp add: js_def)
  then show "41 \<notin> set (formatVerserErrorMessage P code message ctx)"
    using assms(2) code_string_no_paren [of code]
    by (auto simp: formatVerserErrorMessage_def Let_def js_def)
  show "40 \<in> set (formatVerserErrorMessage P code message ctx)"
    using assms(1) by (auto simp: formatVerserErrorMessage_def Let_def js_def)
qed

theorem formatVerserErrorMessage_unclosed_witness:
  "40 \<in> set (formatVerserErrorMessage sample_platform protocol_error (js ''m'') [(js ''k'', CStr (js ''v''))]) \<and>
   41 \<notin> set (formatVerserErrorMessage sample_platform protocol_error (js ''m'') [(js ''k'', CStr (js ''v''))])"
  by (rule formatVerserErrorMessage_unclosed) (auto simp: defined_entries_def js_def)

end
