(* ===== verification/Headers.thy ===== *)
theory Headers
  imports Errors
begin

text \<open>
  HTTP headers: \<open>packages/verser-common/src/lib/headers.ts\<close>, \<open>header-serialization.ts\<close> and
  \<open>http2-headers.ts\<close>. A header record is the list of its entries; a record that is built by
  assignment uses \<open>obj_set\<close>, one built by \<open>Object.fromEntries\<close> uses \<open>fromEntries\<close>.
\<close>

section \<open>Header values\<close>

text \<open>The declared element types, and any other JSON value where the headers come unvalidated from
  the wire.\<close>

datatype hatom = AStr jsstr | ANum jsnumber | ABool bool | AOther json

datatype VerserHeaderValue = HAtom hatom | HArr "hatom list" | HNull | HUndef

type_synonym VerserHeaders = "(jsstr \<times> VerserHeaderValue) list"

fun atom_string :: "'p platform_scheme \<Rightarrow> hatom \<Rightarrow> jsstr" where
  "atom_string P (AStr s) = s"
| "atom_string P (ANum n) = numberToString P n"
| "atom_string P (ABool b) = (if b then js ''true'' else js ''false'')"
| "atom_string P (AOther j) = stringOf P j"

text \<open>\<open>Array.isArray(value) ? value.map(String) : [String(value)]\<close>.\<close>

fun header_values :: "'p platform_scheme \<Rightarrow> VerserHeaderValue \<Rightarrow> jsstr list" where
  "header_values P (HArr as) = map (atom_string P) as"
| "header_values P (HAtom a) = [atom_string P a]"
| "header_values P HNull = [js ''null'']"
| "header_values P HUndef = [js ''undefined'']"

text \<open>A validated value: one string, or the array of strings.\<close>

datatype header_out = One jsstr | Many "jsstr list"

definition header_out_of :: "VerserHeaderValue \<Rightarrow> jsstr list \<Rightarrow> header_out" where
  "header_out_of value values = (case value of HArr _ \<Rightarrow> Many values | _ \<Rightarrow> One (hd values))"

section \<open>Validators (headers.ts)\<close>

definition FORBIDDEN_HTTP1_HEADERS :: "jsstr list" where
  "FORBIDDEN_HTTP1_HEADERS = [js ''connection'', js ''upgrade'', js ''keep-alive'']"

definition token_char :: "ucode \<Rightarrow> bool" where
  "token_char c \<longleftrightarrow> lower_token_char c \<or> upper_ucode c"

definition isValidHeaderName :: "jsstr \<Rightarrow> bool" where
  "isValidHeaderName headerName \<longleftrightarrow> headerName \<noteq> [] \<and> (\<forall>c \<in> set headerName. token_char c)"

definition valid_value_char :: "ucode \<Rightarrow> bool" where
  "valid_value_char c \<longleftrightarrow> \<not> (0xff < c \<or> c \<le> 0x08 \<or> (0x0a \<le> c \<and> c \<le> 0x1f) \<or> c = 0x7f)"

definition isValidHeaderValue :: "jsstr \<Rightarrow> bool" where
  "isValidHeaderValue headerValue \<longleftrightarrow> (\<forall>c \<in> set headerValue. valid_value_char c)"

definition isLatin1 :: "jsstr \<Rightarrow> bool" where
  "isLatin1 value \<longleftrightarrow> (\<forall>c \<in> set value. \<not> 0xff < c)"

definition protocolError :: "'p platform_scheme \<Rightarrow> jsstr \<Rightarrow> 'b result" where
  "protocolError P message = Inl (Verser (createVerserError P protocol_error message []))"

definition headerError :: "'p platform_scheme \<Rightarrow> jsstr \<Rightarrow> jsstr \<Rightarrow> 'b result" where
  "headerError P message header =
     Inl (Verser (createVerserError P protocol_error message [(js ''header'', CStr header)]))"

definition validateLocalHeaders ::
  "'p platform_scheme \<Rightarrow> VerserHeaders \<Rightarrow> (jsstr \<times> header_out) list result" where
  "validateLocalHeaders P headers =
     foldE (\<lambda>(name, value) validated.
        if value = HNull \<or> value = HUndef then Inr validated
        else
          (let values = header_values P value; normalizedName = toLowerCase P name in
           if \<not> isValidHeaderName normalizedName
           then Inl (TypeErr (js ''Invalid local HTTP header name: '' @ name))
           else if normalizedName \<in> set FORBIDDEN_HTTP1_HEADERS
           then Inl (TypeErr (js ''Forbidden local HTTP header: '' @ normalizedName))
           else if \<exists>v \<in> set values. \<not> isValidHeaderValue v
           then Inl (TypeErr (js ''Invalid local HTTP header value for '' @ name))
           else Inr (obj_set normalizedName (header_out_of value values) validated)))
       headers []"

definition validateVerserStatusText :: "'p platform_scheme \<Rightarrow> jsstr \<Rightarrow> jsstr result" where
  "validateVerserStatusText P statusText =
     (if VERSER_RESPONSE_METADATA_MAX_STATUS_TEXT_BYTES < byteLength statusText \<or>
         \<not> isValidHeaderValue statusText \<or> \<not> isLatin1 statusText
      then throwE P protocol_error ''Invalid response metadata status text'' []
      else Inr statusText)"

definition validateRuntimeNeutralHeaders :: "(jsstr \<times> jsstr) list \<Rightarrow> (jsstr \<times> jsstr) list result" where
  "validateRuntimeNeutralHeaders headers =
     foldE (\<lambda>(headerName, headerValue) validated.
        if \<not> isValidHeaderName headerName
        then Inl (TypeErr (js ''Invalid local HTTP header name: '' @ headerName))
        else if \<not> isValidHeaderValue headerValue
        then Inl (TypeErr (js ''Invalid local HTTP header value for '' @ headerName))
        else Inr (obj_set headerName headerValue validated))
       headers []"

fun flattenHeaderValue :: "'p platform_scheme \<Rightarrow> VerserHeaderValue \<Rightarrow> jsstr option" where
  "flattenHeaderValue P HNull = None"
| "flattenHeaderValue P HUndef = None"
| "flattenHeaderValue P (HArr as) = Some (join_with comma (map (atom_string P) as))"
| "flattenHeaderValue P (HAtom a) = Some (atom_string P a)"

text \<open>The three shapes of \<open>VerserHeaderInput\<close>: a record, a flat array of names and values
  (an odd array ends with a name whose value is \<open>undefined\<close>), an iterable of pairs.\<close>

datatype VerserHeaderInput =
    HRecord VerserHeaders
  | HFlat "jsstr list"
  | HPairs "(jsstr \<times> VerserHeaderValue) list"

fun flat_pairs :: "jsstr list \<Rightarrow> (jsstr \<times> VerserHeaderValue) list" where
  "flat_pairs [] = []"
| "flat_pairs [name] = [(name, HUndef)]"
| "flat_pairs (name # value # rest) = (name, HAtom (AStr value)) # flat_pairs rest"

definition collect_headers ::
  "'p platform_scheme \<Rightarrow> (jsstr \<times> VerserHeaderValue) list \<Rightarrow> (jsstr \<times> jsstr) list" where
  "collect_headers P entries =
     foldl (\<lambda>normalized (name, value).
        case flattenHeaderValue P value of
          None \<Rightarrow> normalized
        | Some v \<Rightarrow> obj_set (toLowerCase P name) v normalized) [] entries"

definition normalizeHeaders ::
  "'p platform_scheme \<Rightarrow> VerserHeaderInput option \<Rightarrow> (jsstr \<times> jsstr) list result" where
  "normalizeHeaders P headers =
     (case headers of
        None \<Rightarrow> Inr []
      | Some (HFlat xs) \<Rightarrow> validateRuntimeNeutralHeaders (collect_headers P (flat_pairs xs))
      | Some (HPairs ps) \<Rightarrow> validateRuntimeNeutralHeaders (collect_headers P ps)
      | Some (HRecord es) \<Rightarrow> validateRuntimeNeutralHeaders (collect_headers P es))"

text \<open>Node's outgoing header values: a string, a number, an array of strings or \<open>undefined\<close>.\<close>

definition normalizeRequestHeaders ::
  "'p platform_scheme \<Rightarrow> (jsstr \<times> raw_header option) list \<Rightarrow> (jsstr \<times> jsstr) list" where
  "normalizeRequestHeaders P headers =
     foldl (\<lambda>normalized (key, value).
        case value of
          Some (RStr s) \<Rightarrow> obj_set key s normalized
        | Some (RNum n) \<Rightarrow> obj_set key (numberToString P n) normalized
        | Some (RArr ss) \<Rightarrow> obj_set key (join_with comma ss) normalized
        | None \<Rightarrow> normalized) [] headers"

definition validateVerserHeaders ::
  "'p platform_scheme \<Rightarrow> VerserHeaders \<Rightarrow> (jsstr \<times> header_out) list result" where
  "validateVerserHeaders P headers =
     foldE (\<lambda>(name, value) validated.
        (let normalizedName = toLowerCase P name in
         if \<not> isValidHttpHeaderName normalizedName
         then headerError P (js ''Invalid header name'') name
         else if normalizedName \<in> set FORBIDDEN_HTTP1_HEADERS
         then headerError P (js ''Forbidden header for routed metadata'') normalizedName
         else
           (let values = header_values P value in
            if \<exists>v \<in> set values. \<not> isValidHeaderValue v
            then headerError P (js ''Invalid header value'') normalizedName
            else Inr (obj_set normalizedName (header_out_of value values) validated))))
       headers []"

definition HOP_BY_HOP_HEADERS :: "jsstr list" where
  "HOP_BY_HOP_HEADERS =
     [js ''connection'', js ''keep-alive'', js ''proxy-authenticate'', js ''proxy-authorization'',
      js ''te'', js ''trailer'', js ''transfer-encoding'', js ''upgrade'']"

type_synonym VerserHeaderPair = "jsstr \<times> jsstr"

fun pair_of_json :: "json \<Rightarrow> VerserHeaderPair option" where
  "pair_of_json (JArr [JStr name, JStr value]) = Some (name, value)"
| "pair_of_json _ = None"

definition pair_json :: "VerserHeaderPair \<Rightarrow> json" where
  "pair_json p = JArr [JStr (fst p), JStr (snd p)]"

definition normalizeHeaderPair :: "'p platform_scheme \<Rightarrow> json \<Rightarrow> VerserHeaderPair result" where
  "normalizeHeaderPair P pair =
     (case pair_of_json pair of
        None \<Rightarrow> protocolError P (js ''Invalid header pair'')
      | Some (name, value) \<Rightarrow>
          (let normalizedName = toLowerCase P name in
           if \<not> isValidHeaderName normalizedName
           then headerError P (js ''Invalid header name: '' @ name) name
           else if \<not> isValidHeaderValue value
           then headerError P (js ''Invalid header value for '' @ name) name
           else Inr (normalizedName, value)))"

definition normalizeHeaderPairs :: "'p platform_scheme \<Rightarrow> json list \<Rightarrow> VerserHeaderPair list result" where
  "normalizeHeaderPairs P headerPairs = mapE (normalizeHeaderPair P) headerPairs"

text \<open>The lower-cased, non-empty tokens of a \<open>Connection\<close> value.\<close>

definition connection_value_tokens :: "'p platform_scheme \<Rightarrow> jsstr \<Rightarrow> jsstr list" where
  "connection_value_tokens P value =
     filter (\<lambda>t. t \<noteq> []) (map (\<lambda>token. toLowerCase P (trim token)) (split_on 44 value))"

definition connectionTokens :: "'p platform_scheme \<Rightarrow> VerserHeaderPair list \<Rightarrow> jsstr list" where
  "connectionTokens P pairs =
     concat (map (\<lambda>(name, value). if name = js ''connection'' then connection_value_tokens P value else []) pairs)"

definition survives :: "'p platform_scheme \<Rightarrow> VerserHeaderPair list \<Rightarrow> jsstr \<Rightarrow> bool" where
  "survives P pairs name \<longleftrightarrow> name \<notin> set HOP_BY_HOP_HEADERS \<and> name \<notin> set (connectionTokens P pairs) \<and>
     name \<noteq> VERSER_RESPONSE_METADATA_HEADER"

definition sanitizeHttp2ResponseHeaderPairs ::
  "'p platform_scheme \<Rightarrow> json list \<Rightarrow> VerserHeaderPair list result" where
  "sanitizeHttp2ResponseHeaderPairs P headerPairs =
     bindE (normalizeHeaderPairs P headerPairs) (\<lambda>normalizedPairs.
       case find (\<lambda>(name, value). \<not> isLatin1 value) normalizedPairs of
         Some (name, value) \<Rightarrow> headerError P (js ''Invalid response header value for '' @ name) name
       | None \<Rightarrow> Inr (filter (\<lambda>(name, value). survives P normalizedPairs name) normalizedPairs))"

definition record_connectionTokens :: "'p platform_scheme \<Rightarrow> VerserHeaders \<Rightarrow> jsstr list" where
  "record_connectionTokens P headers =
     concat (map (\<lambda>(name, value).
        if toLowerCase P name = js ''connection''
        then (case flattenHeaderValue P value of Some v \<Rightarrow> connection_value_tokens P v | None \<Rightarrow> [])
        else []) headers)"

definition sanitizeHttp2ResponseHeaders ::
  "'p platform_scheme \<Rightarrow> VerserHeaders \<Rightarrow> (jsstr \<times> jsstr) list" where
  "sanitizeHttp2ResponseHeaders P headers =
    (let tokens = record_connectionTokens P headers
     in foldl (\<lambda>sanitized (name, value).
          case flattenHeaderValue P value of
            None \<Rightarrow> sanitized
          | Some v \<Rightarrow>
            (let normalizedName = toLowerCase P name in
             if normalizedName \<in> set HOP_BY_HOP_HEADERS \<or> normalizedName \<in> set tokens \<or>
                normalizedName = VERSER_RESPONSE_METADATA_HEADER
             then sanitized else obj_set name v sanitized)) [] headers)"

section \<open>Serialization (header-serialization.ts)\<close>

fun header_out_string :: "header_out \<Rightarrow> jsstr" where
  "header_out_string (One s) = s"
| "header_out_string (Many ss) = join_with comma ss"

definition flattenVerserHeaders :: "(jsstr \<times> header_out) list \<Rightarrow> (jsstr \<times> jsstr) list" where
  "flattenVerserHeaders headers =
     foldl (\<lambda>flattened (name, value). obj_set name (header_out_string value) flattened) [] headers"

fun string_array :: "json list \<Rightarrow> jsstr list option" where
  "string_array [] = Some []"
| "string_array (JStr s # xs) = map_option ((#) s) (string_array xs)"
| "string_array _ = None"

definition decode_header_entry :: "'p platform_scheme \<Rightarrow> jsstr \<times> json \<Rightarrow> (jsstr \<times> header_out) result" where
  "decode_header_entry P e =
    (let (name, rawValue) = e in
     if \<not> isValidHeaderName name then protocolError P (js ''Invalid header name: '' @ name)
     else case rawValue of
            JStr s \<Rightarrow> (if \<not> isValidHeaderValue s
                       then protocolError P (js ''Invalid header value for '' @ name)
                       else Inr (name, One s))
          | JArr xs \<Rightarrow>
              (case string_array xs of
                 Some ss \<Rightarrow> (if length ss = 0 \<or> (\<exists>v \<in> set ss. \<not> isValidHeaderValue v)
                            then protocolError P (js ''Invalid header value for '' @ name)
                            else Inr (name, Many ss))
               | None \<Rightarrow> protocolError P (js ''Invalid header value for '' @ name))
          | _ \<Rightarrow> protocolError P (js ''Invalid header value for '' @ name))"

definition decodeHeaderMap :: "'p platform_scheme \<Rightarrow> jsstr \<Rightarrow> (jsstr \<times> header_out) list result" where
  "decodeHeaderMap P value =
     (case jsonParse P value of
        None \<Rightarrow> protocolError P (js ''Invalid request header map JSON'')
      | Some (JObj es) \<Rightarrow> bindE (mapE (decode_header_entry P) es) (\<lambda>entries. Inr (fromEntries entries))
      | Some _ \<Rightarrow> protocolError P (js ''Request header map must be an object''))"

definition flattenVerserHeaderPairs :: "'p platform_scheme \<Rightarrow> json list \<Rightarrow> (jsstr \<times> jsstr) list result" where
  "flattenVerserHeaderPairs P headerPairs =
     bindE (normalizeHeaderPairs P headerPairs) (\<lambda>pairs. Inr (fromEntries pairs))"

text \<open>\<open>isWellFormedUnicode\<close>: every surrogate is part of a pair.\<close>

fun isWellFormedUnicode :: "jsstr \<Rightarrow> bool" where
  "isWellFormedUnicode [] = True"
| "isWellFormedUnicode [c] = (\<not> high_surrogate c \<and> \<not> low_surrogate c)"
| "isWellFormedUnicode (c # d # s) =
     (if high_surrogate c then low_surrogate d \<and> isWellFormedUnicode s
      else \<not> low_surrogate c \<and> isWellFormedUnicode (d # s))"

record VerserResponseMetadata =
  md_requestId :: jsstr
  md_statusCode :: int
  md_statusText :: "jsstr option"
  md_headers :: "VerserHeaderPair list"

definition metadata_json :: "VerserResponseMetadata \<Rightarrow> json" where
  "metadata_json m =
     JObj ([(js ''version'', JNum (Fin 1)), (js ''requestId'', JStr (md_requestId m)),
            (js ''statusCode'', JNum (Fin (of_int (md_statusCode m))))] @
           (case md_statusText m of None \<Rightarrow> [] | Some t \<Rightarrow> [(js ''statusText'', JStr t)]) @
           [(js ''headers'', JArr (map pair_json (md_headers m)))])"

definition metadata_keys :: "jsstr list" where
  "metadata_keys = [js ''version'', js ''requestId'', js ''statusCode'', js ''statusText'', js ''headers'']"

text \<open>The pieces of \<open>validateResponseMetadata\<close>, in the order it reads them.\<close>

definition metadata_requestId :: "'p platform_scheme \<Rightarrow> json option \<Rightarrow> jsstr result" where
  "metadata_requestId P v =
     (case v of
        Some (JStr s) \<Rightarrow>
          (if \<not> isWellFormedUnicode s \<or> trim s = []
           then protocolError P (js ''Response metadata requestId must be a non-empty string'') else Inr s)
      | _ \<Rightarrow> protocolError P (js ''Response metadata requestId must be a non-empty string''))"

definition metadata_statusCode :: "'p platform_scheme \<Rightarrow> json option \<Rightarrow> int result" where
  "metadata_statusCode P v =
     (case (case v of Some (JNum n) \<Rightarrow> requireFinalResponseStatusCode P n | _ \<Rightarrow> Inl NotAFunction) of
        Inr n \<Rightarrow> Inr n
      | Inl _ \<Rightarrow> protocolError P (js ''Response metadata statusCode must be a final status (200-599)''))"

definition metadata_statusText :: "'p platform_scheme \<Rightarrow> json option \<Rightarrow> jsstr option result" where
  "metadata_statusText P v =
     (case v of
        None \<Rightarrow> Inr None
      | Some (JStr s) \<Rightarrow>
          (if \<not> isWellFormedUnicode s then protocolError P (js ''Invalid response metadata status text'')
           else case validateVerserStatusText P s of
                  Inr t \<Rightarrow> Inr (Some t)
                | Inl _ \<Rightarrow> protocolError P (js ''Invalid response metadata status text''))
      | Some _ \<Rightarrow> protocolError P (js ''Invalid response metadata status text''))"

definition metadata_rawPair :: "'p platform_scheme \<Rightarrow> json \<Rightarrow> json result" where
  "metadata_rawPair P pair =
     (case pair_of_json pair of
        Some (name, value) \<Rightarrow>
          (if \<not> isWellFormedUnicode value
           then protocolError P (js ''Invalid response metadata header pair'')
           else Inr (pair_json (name, value)))
      | None \<Rightarrow> protocolError P (js ''Invalid response metadata header pair''))"

definition metadata_headers ::
  "'p platform_scheme \<Rightarrow> bool \<Rightarrow> json option \<Rightarrow> VerserHeaderPair list result" where
  "metadata_headers P sanitize v =
     (case v of
        Some (JArr hs) \<Rightarrow>
          (if VERSER_RESPONSE_METADATA_MAX_HEADER_PAIRS < length hs
           then protocolError P (js ''Invalid response metadata header pairs'')
           else
             bindE (mapE (metadata_rawPair P) hs) (\<lambda>rawPairs.
             case normalizeHeaderPairs P rawPairs of
               Inl _ \<Rightarrow> protocolError P (js ''Invalid response metadata header pair'')
             | Inr normalizedHeaders \<Rightarrow>
                 bindE (sanitizeHttp2ResponseHeaderPairs P (map pair_json normalizedHeaders)) (\<lambda>sanitizedHeaders.
                 if \<not> sanitize \<and> length sanitizedHeaders \<noteq> length normalizedHeaders
                 then protocolError P (js ''Response metadata contains forbidden header pair'')
                 else Inr (if sanitize then sanitizedHeaders else normalizedHeaders))))
      | _ \<Rightarrow> protocolError P (js ''Invalid response metadata header pairs''))"

definition validateResponseMetadata ::
  "'p platform_scheme \<Rightarrow> bool \<Rightarrow> json \<Rightarrow> VerserResponseMetadata result" where
  "validateResponseMetadata P sanitize value =
     (case value of
        JObj es \<Rightarrow>
          (if \<exists>k \<in> fst ` set es. k \<notin> set metadata_keys
           then protocolError P (js ''Response metadata has unknown fields'')
           else if obj_get value ''version'' \<noteq> Some (JNum (Fin 1))
           then protocolError P (js ''Unsupported response metadata version'')
           else
             bindE (metadata_requestId P (obj_get value ''requestId'')) (\<lambda>requestId.
             bindE (metadata_statusCode P (obj_get value ''statusCode'')) (\<lambda>statusCode.
             bindE (metadata_statusText P (obj_get value ''statusText'')) (\<lambda>statusText.
             bindE (metadata_headers P sanitize (obj_get value ''headers'')) (\<lambda>headers.
             Inr \<lparr>md_requestId = requestId, md_statusCode = statusCode, md_statusText = statusText,
                  md_headers = headers\<rparr>)))))
      | _ \<Rightarrow> protocolError P (js ''Response metadata must be an object''))"

definition assertMetadataByteLength :: "'p platform_scheme \<Rightarrow> jsstr \<Rightarrow> unit result" where
  "assertMetadataByteLength P value =
     (if VERSER_RESPONSE_METADATA_MAX_BYTES < byteLength value
      then protocolError P (js ''Response metadata exceeds maximum encoded bytes'') else Inr ())"

definition encodeVerserResponseMetadata :: "'p platform_scheme \<Rightarrow> VerserResponseMetadata \<Rightarrow> jsstr result" where
  "encodeVerserResponseMetadata P metadata =
     bindE (validateResponseMetadata P True (metadata_json metadata)) (\<lambda>validated.
       let encoded = jsonStringify P (metadata_json validated)
       in bindE (assertMetadataByteLength P encoded) (\<lambda>_. Inr encoded))"

definition decodeVerserResponseMetadata :: "'p platform_scheme \<Rightarrow> jsstr \<Rightarrow> VerserResponseMetadata result" where
  "decodeVerserResponseMetadata P value =
     bindE (assertMetadataByteLength P value) (\<lambda>_.
       case jsonParse P value of
         None \<Rightarrow> protocolError P (js ''Invalid response metadata JSON'')
       | Some parsed \<Rightarrow> validateResponseMetadata P False parsed)"

datatype VerserResponseClassification =
    application_response "VerserResponseMetadata option"
  | transport_error

definition classifyVerserResponseMetadata ::
  "'p platform_scheme \<Rightarrow> int \<Rightarrow> jsstr \<Rightarrow> jsstr list option \<Rightarrow> VerserResponseClassification result" where
  "classifyVerserResponseMetadata P outerStatusCode expectedRequestId metadataValues =
     (case metadataValues of
        None \<Rightarrow> Inr (if outerStatusCode < 400 then application_response None else transport_error)
      | Some values \<Rightarrow>
          (if length values = 0
           then Inr (if outerStatusCode < 400 then application_response None else transport_error)
           else if length values \<noteq> 1
           then protocolError P (js ''Response metadata header must occur once'')
           else
             bindE (decodeVerserResponseMetadata P (values ! 0)) (\<lambda>metadata.
             if md_requestId metadata \<noteq> expectedRequestId
             then protocolError P (js ''Response metadata requestId mismatch'')
             else if md_statusCode metadata \<noteq> outerStatusCode
             then protocolError P (js ''Response metadata statusCode mismatch'')
             else Inr (application_response (Some metadata)))))"

section \<open>HTTP/2 pseudo-headers (http2-headers.ts)\<close>

definition toHttp2RequestHeaders :: "jsstr \<Rightarrow> jsstr \<Rightarrow> (jsstr \<times> jsstr) list" where
  "toHttp2RequestHeaders method path = [(js '':method'', method), (js '':path'', path)]"

text \<open>\<open>String(headers[name] ?? '')\<close>.\<close>

definition raw_or_empty :: "'p platform_scheme \<Rightarrow> (jsstr \<times> raw_header) list \<Rightarrow> string \<Rightarrow> jsstr" where
  "raw_or_empty P headers name =
     (case map_of headers (js name) of
        None \<Rightarrow> [] | Some (RStr s) \<Rightarrow> s | Some (RNum n) \<Rightarrow> numberToString P n
      | Some (RArr ss) \<Rightarrow> join_with comma ss)"

definition fromHttp2RequestHeaders ::
  "'p platform_scheme \<Rightarrow> (jsstr \<times> raw_header) list \<Rightarrow> (jsstr \<times> jsstr) result" where
  "fromHttp2RequestHeaders P headers =
     bindE (requireNonEmpty P (raw_or_empty P headers '':method'') ''HTTP/2 :method'') (\<lambda>method.
     bindE (requireNonEmpty P (raw_or_empty P headers '':path'') ''HTTP/2 :path'') (\<lambda>path.
     Inr (method, path)))"

definition toHttp2ResponseHeaders :: "int \<Rightarrow> (jsstr \<times> int) list" where
  "toHttp2ResponseHeaders statusCode = [(js '':status'', statusCode)]"

text \<open>\<open>Number(headers[':status'])\<close>; an absent header converts to NaN.\<close>

definition fromHttp2ResponseHeaders :: "'p platform_scheme \<Rightarrow> (jsstr \<times> raw_header) list \<Rightarrow> int result" where
  "fromHttp2ResponseHeaders P headers =
     requireValidStatusCode P
       (case map_of headers (js '':status'') of
          None \<Rightarrow> NaN | Some (RNum n) \<Rightarrow> n | Some (RStr s) \<Rightarrow> stringToNumber P s
        | Some (RArr ss) \<Rightarrow> stringToNumber P (join_with comma ss))"

text \<open>Values are given by their string conversion; \<open>None\<close> is \<open>undefined\<close>.\<close>

definition stripHttp2PseudoHeaders :: "(jsstr \<times> jsstr option) list \<Rightarrow> (jsstr \<times> jsstr) list" where
  "stripHttp2PseudoHeaders headers =
     foldl (\<lambda>normalized (key, value).
        if (key \<noteq> [] \<and> hd key = 58) \<or> value = None then normalized
        else obj_set key (the value) normalized) [] headers"

section \<open>Normalised names\<close>

lemma token_char_ascii: "token_char c \<Longrightarrow> c < 128"
  unfolding token_char_def upper_ucode_def
  by (auto dest: lower_token_char_ascii) (unat_arith)

text \<open>A name that is valid after lower-casing consists of lower-case token characters, and
  lower-casing it again changes nothing.\<close>

lemma lowercase_valid_name:
  assumes "lower_ok P" "isValidHeaderName (toLowerCase P s)"
  shows "isValidHttpHeaderName (toLowerCase P s)" "toLowerCase P (toLowerCase P s) = toLowerCase P s"
proof -
  have "lower_token_char c" if "c \<in> set (toLowerCase P s)" for c
    using that assms toLowerCase_no_upper [OF assms(1) that]
    by (auto simp: isValidHeaderName_def token_char_def)
  then show "isValidHttpHeaderName (toLowerCase P s)"
    using assms(2) by (simp add: isValidHttpHeaderName_def isValidHeaderName_def)
  have "is_ascii (toLowerCase P s)"
    using assms(2) token_char_ascii by (auto simp: isValidHeaderName_def is_ascii_def)
  then show "toLowerCase P (toLowerCase P s) = toLowerCase P s"
    by (rule toLowerCase_idem [OF assms(1)])
qed

text \<open>A pair that is already normalised.\<close>

definition pair_ok :: "'p platform_scheme \<Rightarrow> VerserHeaderPair \<Rightarrow> bool" where
  "pair_ok P p \<longleftrightarrow> isValidHeaderName (fst p) \<and> toLowerCase P (fst p) = fst p \<and> isValidHeaderValue (snd p)"

lemma pair_of_json_pair [simp]: "pair_of_json (pair_json p) = Some p"
  by (simp add: pair_json_def)

lemma normalizeHeaderPair_Inr:
  "normalizeHeaderPair P j = Inr q \<longleftrightarrow>
   (\<exists>name. pair_of_json j = Some (name, snd q) \<and> fst q = toLowerCase P name \<and>
      isValidHeaderName (fst q) \<and> isValidHeaderValue (snd q))"
  by (cases q) (auto simp: normalizeHeaderPair_def protocolError_def headerError_def Let_def split: option.splits)

lemma normalizeHeaderPair_ok: "lower_ok P \<Longrightarrow> normalizeHeaderPair P j = Inr q \<Longrightarrow> pair_ok P q"
  by (auto simp: normalizeHeaderPair_Inr pair_ok_def lowercase_valid_name)

lemma normalizeHeaderPair_id: "pair_ok P q \<Longrightarrow> normalizeHeaderPair P (pair_json q) = Inr q"
  by (cases q) (simp add: normalizeHeaderPair_Inr pair_ok_def)

lemma normalizeHeaderPairs_ok:
  "lower_ok P \<Longrightarrow> normalizeHeaderPairs P raw = Inr ps \<Longrightarrow> \<forall>p \<in> set ps. pair_ok P p"
  unfolding normalizeHeaderPairs_def by (erule mapE_Inr_all) (rule normalizeHeaderPair_ok)

lemma normalizeHeaderPairs_id:
  "\<forall>p \<in> set ps. pair_ok P p \<Longrightarrow> normalizeHeaderPairs P (map pair_json ps) = Inr ps"
  unfolding normalizeHeaderPairs_def mapE_map by (rule mapE_Inr_id) (simp add: normalizeHeaderPair_id)

lemma valid_value_latin1: "isValidHeaderValue v \<Longrightarrow> isLatin1 v"
  by (auto simp: isValidHeaderValue_def isLatin1_def valid_value_char_def)

section \<open>Sanitizing\<close>

text \<open>The value check of the code cannot fail: a valid value is already Latin-1.\<close>

lemma sanitize_eq:
  assumes "\<forall>p \<in> set ps. pair_ok P p"
  shows "sanitizeHttp2ResponseHeaderPairs P (map pair_json ps) = Inr (filter (\<lambda>(n, v). survives P ps n) ps)"
proof -
  have "find (\<lambda>(name, value). \<not> isLatin1 value) ps = None"
    using assms valid_value_latin1 by (auto simp: find_None_iff pair_ok_def)
  then show ?thesis
    by (simp add: sanitizeHttp2ResponseHeaderPairs_def normalizeHeaderPairs_id [OF assms])
qed

lemma survivors_no_connection: "connectionTokens P (filter (\<lambda>(n, v). survives P qs n) ps) = []"
  by (auto simp: connectionTokens_def survives_def HOP_BY_HOP_HEADERS_def)

lemma survives_again:
  "survives P qs n \<Longrightarrow> survives P (filter (\<lambda>(n, v). survives P qs n) ps) n"
  by (simp add: survives_def [of P "filter _ _"] survivors_no_connection) (simp add: survives_def)

lemma sanitize_idem:
  assumes "\<forall>p \<in> set ps. pair_ok P p"
  shows "sanitizeHttp2ResponseHeaderPairs P (map pair_json (filter (\<lambda>(n, v). survives P ps n) ps)) =
    Inr (filter (\<lambda>(n, v). survives P ps n) ps)"
  using assms by (subst sanitize_eq) (auto simp: survives_again intro!: filter_cong)

text \<open>The response headers that reach the wire.\<close>

lemma sanitizeHttp2ResponseHeaderPairs_Inr:
  assumes "sanitizeHttp2ResponseHeaderPairs P raw = Inr out"
  obtains ps where "normalizeHeaderPairs P raw = Inr ps" "out = filter (\<lambda>(n, v). survives P ps n) ps"
  using assms
  by (auto simp: sanitizeHttp2ResponseHeaderPairs_def bindE_Inr_iff headerError_def split: option.splits)

section \<open>Response metadata\<close>

definition metadata_ok :: "'p platform_scheme \<Rightarrow> VerserResponseMetadata \<Rightarrow> bool" where
  "metadata_ok P m \<longleftrightarrow> isWellFormedUnicode (md_requestId m) \<and> trim (md_requestId m) \<noteq> [] \<and>
     200 \<le> md_statusCode m \<and> md_statusCode m \<le> 599 \<and>
     (\<forall>t. md_statusText m = Some t \<longrightarrow> isWellFormedUnicode t \<and> validateVerserStatusText P t = Inr t) \<and>
     length (md_headers m) \<le> VERSER_RESPONSE_METADATA_MAX_HEADER_PAIRS \<and>
     (\<forall>p \<in> set (md_headers m). pair_ok P p \<and> isWellFormedUnicode (snd p)) \<and>
     filter (\<lambda>(n, v). survives P (md_headers m) n) (md_headers m) = md_headers m"

lemma metadata_json_get:
  "obj_get (metadata_json m) ''version'' = Some (JNum (Fin 1))"
  "obj_get (metadata_json m) ''requestId'' = Some (JStr (md_requestId m))"
  "obj_get (metadata_json m) ''statusCode'' = Some (JNum (Fin (of_int (md_statusCode m))))"
  "obj_get (metadata_json m) ''statusText'' = map_option JStr (md_statusText m)"
  "obj_get (metadata_json m) ''headers'' = Some (JArr (map pair_json (md_headers m)))"
  by (auto simp: metadata_json_def split: option.splits)

lemma metadata_json_keys: "fst ` set (case metadata_json m of JObj es \<Rightarrow> es) \<subseteq> set metadata_keys"
  by (auto simp: metadata_json_def metadata_keys_def split: option.splits)

lemma metadata_requestId_Inr: "metadata_requestId P v = Inr s \<longleftrightarrow> v = Some (JStr s) \<and> isWellFormedUnicode s \<and> trim s \<noteq> []"
  by (auto simp: metadata_requestId_def protocolError_def split: option.splits json.splits)

lemma metadata_statusCode_Inr:
  "metadata_statusCode P v = Inr n \<longleftrightarrow> v = Some (JNum (Fin (of_int n))) \<and> 200 \<le> n \<and> n \<le> 599"
  by (auto simp: metadata_statusCode_def protocolError_def requireFinalResponseStatusCode_Inr
        split: option.splits json.splits sum.splits)
     (metis sum.distinct(1) requireFinalResponseStatusCode_Inr)

lemma metadata_statusText_Inr:
  "metadata_statusText P v = Inr t \<longleftrightarrow>
   v = map_option JStr t \<and> (\<forall>s. t = Some s \<longrightarrow> isWellFormedUnicode s \<and> validateVerserStatusText P s = Inr s)"
proof -
  have "validateVerserStatusText P s = Inr u \<Longrightarrow> u = s" for s u
    by (simp add: validateVerserStatusText_def split: if_splits)
  then show ?thesis
    by (cases t)
       (auto simp: metadata_statusText_def protocolError_def split: option.splits json.splits sum.splits if_splits)
qed

lemma metadata_rawPair_Inr:
  "metadata_rawPair P j = Inr r \<longleftrightarrow>
   (\<exists>p. pair_of_json j = Some p \<and> isWellFormedUnicode (snd p) \<and> r = pair_json p)"
  by (auto simp: metadata_rawPair_def protocolError_def split: option.splits)

lemma metadata_rawPairs_Inr:
  "mapE (metadata_rawPair P) hs = Inr raw \<Longrightarrow>
   \<exists>ps. raw = map pair_json ps \<and> length ps = length hs \<and> (\<forall>p \<in> set ps. isWellFormedUnicode (snd p))"
proof (induction hs arbitrary: raw)
  case Nil
  then show ?case by simp
next
  case (Cons h hs)
  from Cons.prems obtain p raw' where p: "isWellFormedUnicode (snd p)" "raw = pair_json p # raw'"
    "mapE (metadata_rawPair P) hs = Inr raw'"
    by (auto simp: result_simps metadata_rawPair_Inr)
  from Cons.IH [OF p(3)] obtain ps where "raw' = map pair_json ps" "length ps = length hs"
    "\<forall>p \<in> set ps. isWellFormedUnicode (snd p)" by blast
  with p show ?case by (intro exI [of _ "p # ps"]) simp
qed

lemma normalizeHeaderPairs_values:
  "normalizeHeaderPairs P (map pair_json ps) = Inr qs \<Longrightarrow> map snd qs = map snd ps"
  unfolding normalizeHeaderPairs_def mapE_map
  by (induction ps arbitrary: qs) (auto simp: result_simps normalizeHeaderPair_Inr)

lemma metadata_headers_ok:
  assumes "lower_ok P" "metadata_headers P True v = Inr hs"
  shows "length hs \<le> VERSER_RESPONSE_METADATA_MAX_HEADER_PAIRS"
    "\<forall>p \<in> set hs. pair_ok P p \<and> isWellFormedUnicode (snd p)"
    "filter (\<lambda>(n, v). survives P hs n) hs = hs"
proof -
  from assms(2) obtain xs raw ps where
    xs: "length xs \<le> VERSER_RESPONSE_METADATA_MAX_HEADER_PAIRS" "mapE (metadata_rawPair P) xs = Inr raw"
    and ps: "normalizeHeaderPairs P raw = Inr ps"
    and out: "sanitizeHttp2ResponseHeaderPairs P (map pair_json ps) = Inr hs"
    by (auto simp: metadata_headers_def protocolError_def bindE_Inr_iff
          split: option.splits json.splits sum.splits if_splits) (metis leI sum.exhaust)
  from metadata_rawPairs_Inr [OF xs(2)] obtain qs where
    qs: "raw = map pair_json qs" "length qs = length xs" "\<forall>p \<in> set qs. isWellFormedUnicode (snd p)" by blast
  have ok: "\<forall>p \<in> set ps. pair_ok P p" using assms(1) ps by (rule normalizeHeaderPairs_ok)
  have vals: "map snd ps = map snd qs" using ps qs(1) normalizeHeaderPairs_values by simp
  have hs: "hs = filter (\<lambda>(n, v). survives P ps n) ps" using sanitize_eq [OF ok] out by simp
  have "length hs \<le> length ps" by (simp add: hs)
  also have "length ps = length xs" using vals qs(2) by (metis length_map)
  finally show "length hs \<le> VERSER_RESPONSE_METADATA_MAX_HEADER_PAIRS" using xs(1) by simp
  have "\<forall>v \<in> set (map snd ps). isWellFormedUnicode v" using vals qs(3) by simp
  then show "\<forall>p \<in> set hs. pair_ok P p \<and> isWellFormedUnicode (snd p)" using ok by (auto simp: hs)
  show "filter (\<lambda>(n, v). survives P hs n) hs = hs"
    by (auto simp: hs survives_again intro!: filter_cong)
qed

lemma metadata_headers_id:
  assumes "length hs \<le> VERSER_RESPONSE_METADATA_MAX_HEADER_PAIRS"
    "\<forall>p \<in> set hs. pair_ok P p \<and> isWellFormedUnicode (snd p)"
    "filter (\<lambda>(n, v). survives P hs n) hs = hs"
  shows "metadata_headers P b (Some (JArr (map pair_json hs))) = Inr hs"
proof -
  have raw: "mapE (metadata_rawPair P) (map pair_json hs) = Inr (map pair_json hs)"
    unfolding mapE_map using assms(2) by (intro mapE_Inr_map) (simp add: metadata_rawPair_Inr)
  have "\<forall>p \<in> set hs. pair_ok P p" using assms(2) by blast
  then show ?thesis
    using assms(1,3) by (simp add: metadata_headers_def raw normalizeHeaderPairs_id sanitize_eq)
qed

lemma validateResponseMetadata_Inr:
  "validateResponseMetadata P b (metadata_json m) = Inr m' \<longleftrightarrow>
   metadata_requestId P (Some (JStr (md_requestId m))) = Inr (md_requestId m') \<and>
   metadata_statusCode P (Some (JNum (Fin (of_int (md_statusCode m))))) = Inr (md_statusCode m') \<and>
   metadata_statusText P (map_option JStr (md_statusText m)) = Inr (md_statusText m') \<and>
   metadata_headers P b (Some (JArr (map pair_json (md_headers m)))) = Inr (md_headers m')"
proof -
  obtain es where es: "metadata_json m = JObj es" by (simp add: metadata_json_def)
  have "\<not> (\<exists>k \<in> fst ` set es. k \<notin> set metadata_keys)"
    using metadata_json_keys [of m] es by auto
  then have "validateResponseMetadata P b (metadata_json m) =
     bindE (metadata_requestId P (Some (JStr (md_requestId m)))) (\<lambda>r.
     bindE (metadata_statusCode P (Some (JNum (Fin (of_int (md_statusCode m)))))) (\<lambda>c.
     bindE (metadata_statusText P (map_option JStr (md_statusText m))) (\<lambda>t.
     bindE (metadata_headers P b (Some (JArr (map pair_json (md_headers m))))) (\<lambda>h.
     Inr \<lparr>md_requestId = r, md_statusCode = c, md_statusText = t, md_headers = h\<rparr>))))"
    using metadata_json_get [of m] unfolding es by (simp add: validateResponseMetadata_def)
  then show ?thesis by (cases m') (auto simp: bindE_Inr_iff)
qed

text \<open>What the encoder validated, the strict decoder accepts unchanged.\<close>

lemma validated_again:
  assumes "lower_ok P" "validateResponseMetadata P True (metadata_json m) = Inr m'"
  shows "validateResponseMetadata P False (metadata_json m') = Inr m'"
    "md_requestId m' = md_requestId m" "md_statusCode m' = md_statusCode m" "md_statusText m' = md_statusText m"
proof -
  note v = assms(2) [unfolded validateResponseMetadata_Inr]
  have "md_statusText m' = md_statusText m"
    using v by (auto simp: metadata_statusText_Inr) (metis json.inject(3) option.inj_map_strong)
  then show "md_requestId m' = md_requestId m" "md_statusCode m' = md_statusCode m"
    "md_statusText m' = md_statusText m"
    using v by (auto simp: metadata_requestId_Inr metadata_statusCode_Inr)
  then show "validateResponseMetadata P False (metadata_json m') = Inr m'"
    using v metadata_headers_id [OF metadata_headers_ok [OF assms(1)]]
    unfolding validateResponseMetadata_Inr by auto
qed

section \<open>Errors and entries\<close>

lemma protocolError_code: "protocolError P m = Inl e \<Longrightarrow> thrown_code e = Some protocol_error"
  by (auto simp: protocolError_def createVerserError_def)

lemma headerError_code: "headerError P m h = Inl e \<Longrightarrow> thrown_code e = Some protocol_error"
  by (auto simp: headerError_def createVerserError_def)

lemma normalizeHeaderPairs_error: "normalizeHeaderPairs P ps = Inl e \<Longrightarrow> thrown_code e = Some protocol_error"
  unfolding normalizeHeaderPairs_def
  by (drule mapE_Inl)
     (auto simp: normalizeHeaderPair_def Let_def dest: protocolError_code headerError_code split: option.splits if_splits)

lemma sanitize_error: "sanitizeHttp2ResponseHeaderPairs P ps = Inl e \<Longrightarrow> thrown_code e = Some protocol_error"
  by (auto simp: sanitizeHttp2ResponseHeaderPairs_def bindE_Inl_iff
        dest: normalizeHeaderPairs_error headerError_code split: option.splits)

lemma metadata_rawPair_error: "metadata_rawPair P j = Inl e \<Longrightarrow> thrown_code e = Some protocol_error"
  by (auto simp: metadata_rawPair_def protocolError_def createVerserError_def split: option.splits if_splits)

lemma metadata_headers_error:
  assumes "metadata_headers P b v = Inl e"
  shows "thrown_code e = Some protocol_error"
proof (cases "\<exists>hs. v = Some (JArr hs) \<and> length hs \<le> VERSER_RESPONSE_METADATA_MAX_HEADER_PAIRS")
  case False
  then show ?thesis
    using assms by (auto simp: metadata_headers_def protocolError_def createVerserError_def not_le
        split: option.splits json.splits if_splits)
next
  case True
  then obtain hs where hs: "v = Some (JArr hs)" "length hs \<le> VERSER_RESPONSE_METADATA_MAX_HEADER_PAIRS" by blast
  show ?thesis
  proof (cases "mapE (metadata_rawPair P) hs")
    case (Inl e')
    then show ?thesis
      using assms hs mapE_Inl [OF Inl] metadata_rawPair_error by (auto simp: metadata_headers_def)
  next
    case (Inr raw)
    then show ?thesis
      using assms hs sanitize_error
      by (cases "normalizeHeaderPairs P raw")
         (auto simp: metadata_headers_def protocolError_def createVerserError_def bindE_Inl_iff split: if_splits)
  qed
qed

lemma metadata_piece_error:
  "metadata_requestId P v = Inl e \<Longrightarrow> thrown_code e = Some protocol_error"
  "metadata_statusCode P v = Inl e \<Longrightarrow> thrown_code e = Some protocol_error"
  "metadata_statusText P v = Inl e \<Longrightarrow> thrown_code e = Some protocol_error"
  by (auto simp: metadata_requestId_def metadata_statusCode_def metadata_statusText_def
        dest: protocolError_code split: option.splits json.splits sum.splits if_splits)

lemma validateResponseMetadata_error:
  "validateResponseMetadata P b v = Inl e \<Longrightarrow> thrown_code e = Some protocol_error"
  by (auto simp: validateResponseMetadata_def bindE_Inl_iff
        dest: protocolError_code metadata_piece_error metadata_headers_error split: json.splits if_splits)

lemma decode_error: "decodeVerserResponseMetadata P s = Inl e \<Longrightarrow> thrown_code e = Some protocol_error"
  by (auto simp: decodeVerserResponseMetadata_def bindE_Inl_iff assertMetadataByteLength_def
        dest: protocolError_code validateResponseMetadata_error split: option.splits if_splits)

lemma obj_set_entries: "(n, v) \<in> set (obj_set k w es) \<Longrightarrow> (n, v) = (k, w) \<or> (n, v) \<in> set es"
  using set_update_subset [of k w es] by (auto simp: obj_set_def split: if_splits)

lemma obj_set_distinct: "distinct (map fst es) \<Longrightarrow> distinct (map fst (obj_set k w es))"
  by (simp add: obj_set_def)

lemma validateRuntimeNeutralHeaders_entries:
  assumes "validateRuntimeNeutralHeaders headers = Inr out" "(n, v) \<in> set out"
  shows "(n, v) \<in> set headers \<and> isValidHeaderName n \<and> isValidHeaderValue v"
proof -
  have "\<forall>(n, v) \<in> set out. (n, v) \<in> set headers \<and> isValidHeaderName n \<and> isValidHeaderValue v"
    using assms(1) unfolding validateRuntimeNeutralHeaders_def
    by (rule foldE_invariant) (auto dest!: obj_set_entries split: if_splits)
  with assms(2) show ?thesis by blast
qed

lemma validateRuntimeNeutralHeaders_distinct:
  "validateRuntimeNeutralHeaders headers = Inr out \<Longrightarrow> distinct (map fst out)"
  unfolding validateRuntimeNeutralHeaders_def
  by (erule foldE_invariant) (auto intro: obj_set_distinct split: if_splits)

lemma collect_headers_lower: "(n, v) \<in> set (collect_headers P es) \<Longrightarrow> \<exists>m. n = toLowerCase P m"
  by (induction es rule: rev_induct)
     (auto simp: collect_headers_def dest!: obj_set_entries split: option.splits)

section \<open>Properties\<close>



text \<open>Response metadata that was encoded is decoded to the validated metadata by the strict
  decoder, with request id, status code and status text unchanged, provided the JSON text of a
  metadata object parses back to it; and the response is classified as the application's.\<close>

theorem response_metadata_roundtrip:
  assumes "lower_ok P" and "encodeVerserResponseMetadata P m = Inr s"
    and "\<And>m'. validateResponseMetadata P True (metadata_json m) = Inr m' \<Longrightarrow>
           jsonParse P (jsonStringify P (metadata_json m')) = Some (metadata_json m')"
  shows "\<exists>m'. decodeVerserResponseMetadata P s = Inr m' \<and> md_requestId m' = md_requestId m \<and>
    md_statusCode m' = md_statusCode m \<and> md_statusText m' = md_statusText m \<and>
    classifyVerserResponseMetadata P (md_statusCode m) (md_requestId m) (Some [s]) =
      Inr (application_response (Some m'))"
proof -
  from assms(2) obtain m' where m': "validateResponseMetadata P True (metadata_json m) = Inr m'"
    and s: "s = jsonStringify P (metadata_json m')" "assertMetadataByteLength P s = Inr ()"
    by (auto simp: encodeVerserResponseMetadata_def result_simps Let_def)
  note again = validated_again [OF assms(1) m']
  have "decodeVerserResponseMetadata P s = Inr m'"
    using s assms(3) [OF m'] again(1) by (simp add: decodeVerserResponseMetadata_def)
  then show ?thesis
    using again(2-4) by (auto simp: classifyVerserResponseMetadata_def)
qed

definition sample_metadata :: VerserResponseMetadata where
  "sample_metadata = \<lparr>md_requestId = js ''r'', md_statusCode = 200, md_statusText = None, md_headers = []\<rparr>"

text \<open>A platform whose JSON functions are right on the sample.\<close>

definition json_platform :: platform where
  "json_platform = sample_platform\<lparr>jsonStringify := (\<lambda>_. js ''{}''), jsonParse := (\<lambda>_. Some (metadata_json sample_metadata))\<rparr>"

lemma sample_metadata_valid: "validateResponseMetadata P True (metadata_json sample_metadata) = Inr sample_metadata"
  unfolding validateResponseMetadata_Inr metadata_requestId_Inr metadata_statusCode_Inr metadata_statusText_Inr
  using metadata_headers_id [of "[]" P True]
  by (simp add: sample_metadata_def js_def high_surrogate_def low_surrogate_def trim_def trimStart_def
        trimEnd_def js_ws_def)

theorem response_metadata_roundtrip_witness:
  "\<exists>m'. decodeVerserResponseMetadata json_platform (js ''{}'') = Inr m' \<and> md_requestId m' = js ''r''"
proof -
  have "byteLength (js ''{}'') = 2"
    by (simp add: byteLength_def js_def utf8_1_def high_surrogate_def low_surrogate_def)
  then have enc: "encodeVerserResponseMetadata json_platform sample_metadata = Inr (js ''{}'')"
    by (simp add: encodeVerserResponseMetadata_def sample_metadata_valid assertMetadataByteLength_def
          VERSER_RESPONSE_METADATA_MAX_BYTES_def json_platform_def)
  have low: "lower_ok json_platform" using lower_ok_sample by (simp add: lower_ok_def json_platform_def)
  have "jsonParse json_platform (jsonStringify json_platform (metadata_json m')) = Some (metadata_json m')"
    if "validateResponseMetadata json_platform True (metadata_json sample_metadata) = Inr m'" for m'
    using that by (simp add: sample_metadata_valid) (simp add: json_platform_def)
  from response_metadata_roundtrip [OF low enc this] show ?thesis
    by (auto simp: sample_metadata_def)
qed

text \<open>Metadata that is present but unusable always fails closed: with at least one metadata
  value the classification is either the application's response whose metadata decodes strictly
  and names this request and this status, or a \<open>protocol-error\<close>.\<close>

theorem classification_fails_closed:
  assumes "values \<noteq> []"
  shows "(\<exists>m. classifyVerserResponseMetadata P status req (Some values) = Inr (application_response (Some m)) \<and>
      values = [hd values] \<and> decodeVerserResponseMetadata P (hd values) = Inr m \<and>
      md_requestId m = req \<and> md_statusCode m = status) \<or>
    (\<exists>e. classifyVerserResponseMetadata P status req (Some values) = Inl e \<and> thrown_code e = Some protocol_error)"
proof (cases "length values = 1")
  case True
  then obtain s where s: "values = [s]" by (auto simp: length_Suc_conv)
  show ?thesis
  proof (cases "decodeVerserResponseMetadata P s")
    case (Inl e)
    then show ?thesis using decode_error [OF Inl] by (simp add: s classifyVerserResponseMetadata_def)
  next
    case (Inr m)
    then show ?thesis
      by (cases "md_requestId m = req"; cases "md_statusCode m = status")
         (simp_all add: s classifyVerserResponseMetadata_def protocolError_def createVerserError_def)
  qed
next
  case False
  then show ?thesis
    using assms by (simp add: classifyVerserResponseMetadata_def protocolError_def createVerserError_def)
qed

theorem classification_fails_closed_witness:
  "(\<exists>m. classifyVerserResponseMetadata sample_platform 200 (js ''r'') (Some [js ''{}'']) = Inr (application_response (Some m)) \<and>
      [js ''{}''] = [hd [js ''{}'']] \<and> decodeVerserResponseMetadata sample_platform (hd [js ''{}'']) = Inr m \<and>
      md_requestId m = js ''r'' \<and> md_statusCode m = 200) \<or>
   (\<exists>e. classifyVerserResponseMetadata sample_platform 200 (js ''r'') (Some [js ''{}'']) = Inl e \<and>
      thrown_code e = Some protocol_error)"
  by (rule classification_fails_closed) simp

text \<open>Normalised local headers are safe to put on the wire: every name is a lower-case token and
  occurs once, and no value contains CR, LF, NUL or a code unit beyond Latin-1.\<close>

theorem normalizeHeaders_safe:
  assumes "lower_ok P" and "normalizeHeaders P headers = Inr out"
  shows "distinct (map fst out) \<and>
    (\<forall>(n, v) \<in> set out. isValidHttpHeaderName n \<and> {0, 10, 13} \<inter> set v = {} \<and> isLatin1 v)"
proof (cases headers)
  case None
  then show ?thesis using assms(2) by (simp add: normalizeHeaders_def)
next
  case (Some h)
  define es where "es = (case h of HFlat xs \<Rightarrow> flat_pairs xs | HPairs ps \<Rightarrow> ps | HRecord rs \<Rightarrow> rs)"
  have v: "validateRuntimeNeutralHeaders (collect_headers P es) = Inr out"
    using assms(2) Some by (cases h) (simp_all add: normalizeHeaders_def es_def)
  note lower = collect_headers_lower [of _ _ P es]
  have "isValidHttpHeaderName n \<and> {0, 10, 13} \<inter> set v = {} \<and> isLatin1 v" if "(n, v) \<in> set out" for n v
  proof -
    from validateRuntimeNeutralHeaders_entries [OF v that] have nv: "(n, v) \<in> set (collect_headers P es)"
      "isValidHeaderName n" "isValidHeaderValue v" by auto
    from collect_headers_lower [OF nv(1)] obtain m where "n = toLowerCase P m" by blast
    with nv lowercase_valid_name(1) [OF assms(1)] have "isValidHttpHeaderName n" by simp
    then show ?thesis
      using nv(3) valid_value_latin1 [OF nv(3)] by (auto simp: isValidHeaderValue_def valid_value_char_def)
  qed
  moreover have "distinct (map fst out)" using v by (rule validateRuntimeNeutralHeaders_distinct)
  ultimately show ?thesis by blast
qed

theorem normalizeHeaders_safe_witness:
  "isValidHttpHeaderName (js ''a'')"
proof -
  have "normalizeHeaders sample_platform (Some (HFlat [js ''A'', js ''1''])) = Inr [(js ''a'', js ''1'')]"
    by (simp add: normalizeHeaders_def collect_headers_def validateRuntimeNeutralHeaders_def obj_set_def
          isValidHeaderName_def isValidHeaderValue_def token_char_def lower_token_char_def valid_value_char_def
          toLowerCase_def is_ascii_def js_def ascii_lower_def)
  from normalizeHeaders_safe [OF lower_ok_sample this] show ?thesis by simp
qed

text \<open>A header value is accepted exactly when it is made of tabs, printable ASCII and the upper
  half of Latin-1; in particular a backslash is accepted, although the documentation of the
  validator says it is rejected.\<close>

theorem header_value_characters:
  "(isValidHeaderValue v \<longleftrightarrow> (\<forall>c \<in> set v. c = 9 \<or> (32 \<le> c \<and> c \<le> 126) \<or> (128 \<le> c \<and> c \<le> 255))) \<and>
   isValidHeaderValue (js ''a'' @ [92] @ js ''b'')"
proof -
  have "valid_value_char c \<longleftrightarrow> c = 9 \<or> (32 \<le> c \<and> c \<le> 126) \<or> (128 \<le> c \<and> c \<le> 255)" for c
    unfolding valid_value_char_def word_le_nat_alt word_less_nat_alt word_unat_eq_iff by auto
  then show ?thesis by (simp add: isValidHeaderValue_def js_def)
qed

theorem header_value_characters_witness: "isValidHeaderValue [9, 92, 255] \<and> \<not> isValidHeaderValue [13, 10]"
  using header_value_characters [of "[9, 92, 255]"] header_value_characters [of "[13, 10]"] by simp



end
