(* ===== verification/Envelope.thy ===== *)
theory Envelope
  imports Headers
begin

text \<open>
  The binary envelopes of the lease streams: \<open>packages/verser-common/src/lib/envelope.ts\<close> (the
  encoder, the push parser and the stream readers) and \<open>stream-readers.ts\<close> (\<open>readExactly\<close>).

  A Node \<open>Readable\<close> in paused mode is its buffered bytes, whether its source has ended, and the
  arrivals still to come. A read that waits for an arrival that never comes is \<open>None\<close>; a promise
  that rejects is \<open>Some (Inl e)\<close>. The metadata is a JSON value, since the sources only cast it.
\<close>

section \<open>Big-endian lengths\<close>

definition writeUInt32BE :: "nat \<Rightarrow> bytes" where
  "writeUInt32BE n = [of_nat (n div 2 ^ 24), of_nat (n div 2 ^ 16), of_nat (n div 2 ^ 8), of_nat n]"

definition readUInt32BE :: "bytes \<Rightarrow> nat \<Rightarrow> nat" where
  "readUInt32BE bs i =
     unat (bs ! i) * 2 ^ 24 + unat (bs ! (i + 1)) * 2 ^ 16 + unat (bs ! (i + 2)) * 2 ^ 8 + unat (bs ! (i + 3))"

section \<open>Envelopes\<close>

datatype VerserEnvelopeTypeName = request | response | error

fun type_string :: "VerserEnvelopeTypeName \<Rightarrow> jsstr" where
  "type_string request = js ''request''"
| "type_string response = js ''response''"
| "type_string error = js ''error''"

text \<open>The entries of the constant object, in the order \<open>Object.entries\<close> gives them.\<close>

definition VERSER_ENVELOPE_TYPES :: "(VerserEnvelopeTypeName \<times> byte) list" where
  "VERSER_ENVELOPE_TYPES = [(request, 1), (response, 2), (error, 3)]"

definition byte_num :: "byte \<Rightarrow> jsnumber" where
  "byte_num b = Fin (of_nat (unat b))"

abbreviation nat_ctx :: "nat \<Rightarrow> ctx_value" where
  "nat_ctx n \<equiv> CNum (Fin (of_nat n))"

definition envelopeTypeNameFromCode ::
  "'p platform_scheme \<Rightarrow> byte \<Rightarrow> (VerserEnvelopeTypeName \<times> byte) list \<Rightarrow> VerserEnvelopeTypeName result" where
  "envelopeTypeNameFromCode P code envelopeTypes =
     (case find (\<lambda>(name, value). value = code) envelopeTypes of
        Some (name, value) \<Rightarrow> Inr name
      | None \<Rightarrow> throwE P protocol_error ''Unknown envelope type'' [(''envelopeType'', CNum (byte_num code))])"

record VerserEnvelopeToEncode =
  env_type :: VerserEnvelopeTypeName
  env_metadata :: json

record ParsedVerserEnvelope =
  pe_type :: VerserEnvelopeTypeName
  pe_metadata :: json
  bodyRemainder :: bytes

text \<open>\<open>writeUInt32BE\<close> throws a \<open>RangeError\<close> for a value of more than 32 bits.\<close>

definition encodeVerserEnvelope :: "'p platform_scheme \<Rightarrow> VerserEnvelopeToEncode \<Rightarrow> bytes result" where
  "encodeVerserEnvelope P envelope =
    (let envelopeType = the (map_of VERSER_ENVELOPE_TYPES (env_type envelope));
         metadata = utf8 (jsonStringify P (env_metadata envelope))
     in if 2 ^ 32 \<le> length metadata then Inl (PlainErr (js ''ERR_OUT_OF_RANGE'') None)
        else Inr ([VERSER_ENVELOPE_VERSION, envelopeType] @ writeUInt32BE (length metadata) @ metadata))"

text \<open>\<open>JSON.parse\<close> may throw a \<open>SyntaxError\<close>, which is replaced; the error of a value that is no
  object is thrown inside the same \<open>try\<close> and passes through as a \<open>VerserError\<close>.\<close>

definition parseEnvelopeMetadata ::
  "'p platform_scheme \<Rightarrow> bytes \<Rightarrow> VerserEnvelopeTypeName \<Rightarrow> json result" where
  "parseEnvelopeMetadata P metadataBytes type =
     (case jsonParse P (utf8ToString P metadataBytes) of
        None \<Rightarrow> throwE P protocol_error ''Invalid envelope metadata JSON'' [(''type'', CStr (type_string type))]
      | Some parsed \<Rightarrow>
          if \<not> isRecord parsed
          then throwE P protocol_error ''Envelope metadata must be a JSON object'' [(''type'', CStr (type_string type))]
          else Inr parsed)"

section \<open>The push parser\<close>

record EnvelopeParser =
  maxMetadataBytes :: nat
  buffered :: bytes

definition createVerserEnvelopeParser :: "nat option \<Rightarrow> EnvelopeParser" where
  "createVerserEnvelopeParser options =
     \<lparr>maxMetadataBytes = (case options of None \<Rightarrow> DEFAULT_MAX_ENVELOPE_METADATA_BYTES | Some n \<Rightarrow> n),
      buffered = []\<rparr>"

text \<open>\<open>push\<close> returns the envelope, or \<open>None\<close> for \<open>undefined\<close>, and the parser with its new buffer;
  a throw leaves what was received in the buffer.\<close>

definition push :: "'p platform_scheme \<Rightarrow> bytes \<Rightarrow> EnvelopeParser
    \<Rightarrow> ParsedVerserEnvelope option result \<times> EnvelopeParser" where
  "push P chunk p =
    (let buf = buffered p @ chunk;
         p' = p\<lparr>buffered := buf\<rparr>;
         maxPendingEnvelopeBytes = VERSER_ENVELOPE_PREFIX_BYTES + maxMetadataBytes p
     in if length buf < VERSER_ENVELOPE_PREFIX_BYTES then (Inr None, p')
        else if buf ! 0 \<noteq> VERSER_ENVELOPE_VERSION
        then (throwE P protocol_error ''Invalid envelope version'' [(''version'', CNum (byte_num (buf ! 0)))], p')
        else case envelopeTypeNameFromCode P (buf ! 1) VERSER_ENVELOPE_TYPES of
          Inl e \<Rightarrow> (Inl e, p')
        | Inr type \<Rightarrow>
          (let metadataLength = readUInt32BE buf 2 in
           if maxMetadataBytes p < metadataLength
           then (throwE P protocol_error ''Envelope metadata length exceeds limit''
                   [(''metadataLength'', nat_ctx metadataLength),
                    (''maxMetadataBytes'', nat_ctx (maxMetadataBytes p))], p')
           else
             (let metadataEnd = VERSER_ENVELOPE_PREFIX_BYTES + metadataLength in
              if length buf < metadataEnd then (Inr None, p')
              else case parseEnvelopeMetadata P (take metadataLength (drop VERSER_ENVELOPE_PREFIX_BYTES buf)) type of
                Inl e \<Rightarrow>
                  (if maxPendingEnvelopeBytes < length buf
                   then throwE P protocol_error ''Pending envelope input exceeds limit''
                          [(''bufferedBytes'', nat_ctx (length buf)),
                           (''maxPendingEnvelopeBytes'', nat_ctx maxPendingEnvelopeBytes),
                           (''maxMetadataBytes'', nat_ctx (maxMetadataBytes p))]
                   else Inl e, p')
              | Inr metadata \<Rightarrow>
                  (Inr (Some \<lparr>pe_type = type, pe_metadata = metadata, bodyRemainder = drop metadataEnd buf\<rparr>),
                   p\<lparr>buffered := []\<rparr>))))"

text \<open>Pushing chunks until the first envelope or error; the chunks after it are left.\<close>

fun push_until :: "'p platform_scheme \<Rightarrow> bytes list \<Rightarrow> EnvelopeParser
    \<Rightarrow> ParsedVerserEnvelope option result \<times> EnvelopeParser \<times> bytes list" where
  "push_until P [] p = (Inr None, p, [])"
| "push_until P (c # cs) p =
     (case push P c p of
        (Inr None, p') \<Rightarrow> push_until P cs p'
      | (r, p') \<Rightarrow> (r, p', cs))"

section \<open>Reading from a stream\<close>

datatype arrival = Chunk bytes | Eof | ErrorEvent thrown | CloseEvent

record Readable =
  rbuf :: bytes
  ended :: bool
  arrivals :: "arrival list"

text \<open>\<open>stream.read(n)\<close>: \<open>n\<close> bytes when that many are buffered, what is left once the source has
  ended, and \<open>null\<close> otherwise.\<close>

definition stream_read :: "nat \<Rightarrow> Readable \<Rightarrow> bytes option \<times> Readable" where
  "stream_read n st =
     (if n \<le> length (rbuf st) then (Some (take n (rbuf st)), st\<lparr>rbuf := drop n (rbuf st)\<rparr>)
      else if ended st \<and> rbuf st \<noteq> [] then (Some (rbuf st), st\<lparr>rbuf := []\<rparr>)
      else (None, st))"

definition unshift :: "bytes \<Rightarrow> Readable \<Rightarrow> Readable" where
  "unshift bs st = st\<lparr>rbuf := bs @ rbuf st\<rparr>"

text \<open>The end of the source first makes the stream readable; \<open>end\<close> is emitted once everything is
  read.\<close>

definition waitForReadable :: "'p platform_scheme \<Rightarrow> VerserErrorContext \<Rightarrow> Readable \<Rightarrow> (Readable result) option" where
  "waitForReadable P context st =
     (if ended st \<and> rbuf st = []
      then Some (Inl (Verser (createVerserError P protocol_error (js ''Lease stream ended before metadata'') context)))
      else case arrivals st of
        [] \<Rightarrow> None
      | Chunk c # es \<Rightarrow> Some (Inr (st\<lparr>rbuf := rbuf st @ c, arrivals := es\<rparr>))
      | Eof # es \<Rightarrow> Some (Inr (st\<lparr>ended := True, arrivals := es\<rparr>))
      | ErrorEvent e # es \<Rightarrow> Some (Inl e)
      | CloseEvent # es \<Rightarrow>
          Some (Inl (Verser (createVerserError P protocol_error (js ''Lease stream closed before metadata'') context))))"

lemma stream_read_arrivals: "stream_read n st = (r, st') \<Longrightarrow> arrivals st' = arrivals st"
  by (auto simp: stream_read_def split: if_splits)

lemma stream_read_None: "stream_read n st = (None, st') \<Longrightarrow> st' = st"
  by (auto simp: stream_read_def split: if_splits)

lemma stream_read_shrinks:
  "stream_read n st = (Some b, st') \<Longrightarrow> 0 < n \<Longrightarrow> length (rbuf st') < length (rbuf st)"
  by (auto simp: stream_read_def split: if_splits)

lemma waitForReadable_arrivals:
  "waitForReadable P context st = Some (Inr st') \<Longrightarrow> length (arrivals st') < length (arrivals st)"
  by (auto simp: waitForReadable_def split: if_splits list.splits arrival.splits)

function read_loop :: "'p platform_scheme \<Rightarrow> VerserErrorContext \<Rightarrow> nat \<Rightarrow> bytes list \<Rightarrow> Readable
    \<Rightarrow> (bytes \<times> Readable) result option" where
  "read_loop P context remainingBytes chunks st =
     (if remainingBytes = 0 then Some (Inr (concat chunks, st))
      else case stream_read remainingBytes st of
        (None, st') \<Rightarrow>
          (case waitForReadable P context st' of
             None \<Rightarrow> None
           | Some (Inl e) \<Rightarrow> Some (Inl e)
           | Some (Inr st2) \<Rightarrow> read_loop P context remainingBytes chunks st2)
      | (Some buffer, st') \<Rightarrow>
          (if remainingBytes < length buffer
           then Some (Inr (concat (chunks @ [take remainingBytes buffer]),
                           unshift (drop remainingBytes buffer) st'))
           else read_loop P context (remainingBytes - length buffer) (chunks @ [buffer]) st'))"
  by pat_completeness auto
termination
  by (relation "measures [\<lambda>(P, c, n, b, st). length (arrivals st), \<lambda>(P, c, n, b, st). length (rbuf st)]")
    (auto dest!: sym [of "(_, _)"] stream_read_None dest: stream_read_arrivals stream_read_shrinks waitForReadable_arrivals)

declare read_loop.simps [simp del]

definition readExactly :: "'p platform_scheme \<Rightarrow> Readable \<Rightarrow> nat \<Rightarrow> VerserErrorContext
    \<Rightarrow> (bytes \<times> Readable) result option" where
  "readExactly P stream byteCount context = read_loop P context byteCount [] stream"

definition readVerserEnvelopeFromStream :: "'p platform_scheme \<Rightarrow> Readable \<Rightarrow> nat option \<Rightarrow> VerserErrorContext
    \<Rightarrow> (ParsedVerserEnvelope \<times> Readable) result option" where
  "readVerserEnvelopeFromStream P stream maxBytes context =
    (let parser = createVerserEnvelopeParser maxBytes in
     awaitE (readExactly P stream 2 context) (\<lambda>(prefix, s1).
     awaitE (readExactly P s1 4 context) (\<lambda>(lengthBytes, s2).
     (let metadataLength = readUInt32BE lengthBytes 0;
          maxMetadata = (case maxBytes of None \<Rightarrow> DEFAULT_MAX_ENVELOPE_METADATA_BYTES | Some n \<Rightarrow> n)
      in if maxMetadata < metadataLength
         then Some (Inl (Verser (createVerserError P protocol_error (js ''Envelope metadata length exceeds limit'')
                (AList.update (js ''maxMetadataBytes'') (nat_ctx maxMetadata)
                  (AList.update (js ''metadataLength'') (nat_ctx metadataLength) context)))))
         else
           awaitE (readExactly P s2 metadataLength context) (\<lambda>(metadataBytes, s3).
           (case fst (push P (prefix @ lengthBytes @ metadataBytes) parser) of
              Inl e \<Rightarrow> Some (Inl e)
            | Inr None \<Rightarrow>
                Some (Inl (Verser (createVerserError P protocol_error
                        (js ''Lease stream metadata parser did not complete'') context)))
            | Inr (Some parsed) \<Rightarrow>
                Some (Inr (parsed, if 0 < length (bodyRemainder parsed) then unshift (bodyRemainder parsed) s3 else s3))))))))"

text \<open>\<open>metadata.requestId !== options.requestId\<close> on the cast metadata.\<close>

definition assertResponseEnvelopeRequestId ::
  "'p platform_scheme \<Rightarrow> json \<Rightarrow> jsstr \<Rightarrow> jsstr \<Rightarrow> unit result" where
  "assertResponseEnvelopeRequestId P metadata requestId targetId =
     (if obj_get metadata ''requestId'' \<noteq> Some (JStr requestId)
      then throwE P protocol_error ''Response envelope requestId mismatch''
             [(''requestId'', CStr requestId), (''targetId'', CStr targetId),
              (''responseRequestId'', json_ctx (obj_get metadata ''requestId''))]
      else Inr ())"

text \<open>Spreading the untyped \<open>context\<close> of an error envelope: nothing for \<open>undefined\<close>, \<open>null\<close>, numbers
  and booleans, the indexed entries of an array or a string.\<close>

fun spread_entries :: "json option \<Rightarrow> (jsstr \<times> json) list" where
  "spread_entries (Some (JObj es)) = es"
| "spread_entries (Some (JArr vs)) = zip (map dec [0..<length vs]) vs"
| "spread_entries (Some (JStr s)) = zip (map dec [0..<length s]) (map (\<lambda>c. JStr [c]) s)"
| "spread_entries _ = []"

definition error_envelope_context :: "json \<Rightarrow> jsstr \<Rightarrow> jsstr \<Rightarrow> VerserErrorContext" where
  "error_envelope_context metadata requestId targetId =
     AList.update (js ''requestId'') (CStr requestId)
       (AList.update (js ''targetId'') (CStr targetId)
          (map (\<lambda>(k, v). (k, json_ctx (Some v))) (spread_entries (obj_get metadata ''context''))))"

definition readLeaseResponseMetadataFromStream ::
  "'p platform_scheme \<Rightarrow> Readable \<Rightarrow> nat option \<Rightarrow> jsstr \<Rightarrow> jsstr \<Rightarrow> (json \<times> Readable) result option" where
  "readLeaseResponseMetadataFromStream P stream maxBytes requestId targetId =
     awaitE (readVerserEnvelopeFromStream P stream maxBytes
               [(js ''requestId'', CStr requestId), (js ''targetId'', CStr targetId)]) (\<lambda>(parsed, st).
     (let metadata = pe_metadata parsed in
      Some (case pe_type parsed of
        response \<Rightarrow> bindE (assertResponseEnvelopeRequestId P metadata requestId targetId) (\<lambda>_. Inr (metadata, st))
      | error \<Rightarrow>
          bindE (assertResponseEnvelopeRequestId P metadata requestId targetId) (\<lambda>_.
            Inl (Verser (createVerserError P
              (if obj_get metadata ''code'' = Some (JStr (code_string local_handler_failure))
               then local_handler_failure else protocol_error)
              (ctx_string P (json_ctx (obj_get metadata ''message'')))
              (error_envelope_context metadata requestId targetId))))
      | request \<Rightarrow>
          throwE P protocol_error ''Lease stream returned a non-response envelope''
            [(''targetId'', CStr targetId), (''requestId'', CStr requestId)])))"

text \<open>\<open>Object.entries\<close> of the untyped headers: a \<open>TypeError\<close> for \<open>undefined\<close> and \<open>null\<close>.\<close>

fun atom_of_json :: "json \<Rightarrow> hatom" where
  "atom_of_json (JStr s) = AStr s"
| "atom_of_json (JNum n) = ANum n"
| "atom_of_json (JBool b) = ABool b"
| "atom_of_json j = AOther j"

fun header_value_of_json :: "json \<Rightarrow> VerserHeaderValue" where
  "header_value_of_json JNull = HNull"
| "header_value_of_json (JArr vs) = HArr (map atom_of_json vs)"
| "header_value_of_json j = HAtom (atom_of_json j)"

fun header_entries :: "json option \<Rightarrow> VerserHeaders result" where
  "header_entries None = Inl (TypeErr (js ''Cannot convert undefined or null to object''))"
| "header_entries (Some JNull) = Inl (TypeErr (js ''Cannot convert undefined or null to object''))"
| "header_entries (Some j) = Inr (map (\<lambda>(k, v). (k, header_value_of_json v)) (spread_entries (Some j)))"

definition header_out_json :: "header_out \<Rightarrow> json" where
  "header_out_json h = (case h of One s \<Rightarrow> JStr s | Many ss \<Rightarrow> JArr (map JStr ss))"

fun with_field :: "string \<Rightarrow> json \<Rightarrow> json \<Rightarrow> json" where
  "with_field k v (JObj es) = JObj (AList.update (js k) v es)"
| "with_field k v j = j"

definition readLeaseRequestMetadataFromStream ::
  "'p platform_scheme \<Rightarrow> Readable \<Rightarrow> nat option \<Rightarrow> jsstr \<Rightarrow> jsstr \<Rightarrow> (json \<times> Readable) result option" where
  "readLeaseRequestMetadataFromStream P stream maxBytes guestId leaseId =
     awaitE (readVerserEnvelopeFromStream P stream maxBytes
               [(js ''guestId'', CStr guestId), (js ''leaseId'', CStr leaseId)]) (\<lambda>(parsed, st).
     Some (case pe_type parsed of
        request \<Rightarrow>
          bindE (header_entries (obj_get (pe_metadata parsed) ''headers'')) (\<lambda>entries.
          bindE (validateVerserHeaders P entries) (\<lambda>headers.
          Inr (with_field ''headers'' (JObj (map (\<lambda>(k, v). (k, header_out_json v)) headers)) (pe_metadata parsed), st)))
      | _ \<Rightarrow> throwE P protocol_error ''Lease stream received a non-request envelope''
               [(''guestId'', CStr guestId), (''leaseId'', CStr leaseId)]))"

section \<open>Lengths and prefixes\<close>

lemma length_writeUInt32BE [simp]: "length (writeUInt32BE n) = 4"
  by (simp add: writeUInt32BE_def)

lemma readUInt32BE_drop: "readUInt32BE (drop k bs) 0 = readUInt32BE bs k" if "k + 4 \<le> length bs"
  using that by (simp add: readUInt32BE_def add.commute)

lemma readUInt32BE_append: "i + 4 \<le> length bs \<Longrightarrow> readUInt32BE (bs @ cs) i = readUInt32BE bs i"
  by (simp add: readUInt32BE_def nth_append)

lemma uint32BE_digits:
  fixes n :: nat
  assumes "n < 2 ^ 32"
  shows "(n div 16777216 mod 256) * 16777216 + (n div 65536 mod 256) * 65536 + (n div 256 mod 256) * 256 + n mod 256 = n"
proof -
  define q1 q2 q3 where "q1 = n div 256" and "q2 = q1 div 256" and "q3 = q2 div 256"
  then have "n = q1 * 256 + n mod 256" "q1 = q2 * 256 + q1 mod 256" "q2 = q3 * 256 + q2 mod 256"
    by (simp_all only: div_mult_mod_eq)
  moreover have "n div 256 = q1" "n div 65536 = q2" "n div 16777216 = q3"
    by (simp_all add: q1_def q2_def q3_def div_mult2_eq [symmetric])
  moreover have "q3 mod 256 = q3"
    using assms by (simp add: \<open>n div 16777216 = q3\<close> [symmetric])
  ultimately show ?thesis by (simp only: mult.commute)
qed

lemma readUInt32BE_write:
  "n < 2 ^ 32 \<Longrightarrow> readUInt32BE (writeUInt32BE n @ bs) 0 = n"
  using uint32BE_digits [of n] by (simp add: readUInt32BE_def writeUInt32BE_def unat_of_nat)

text \<open>An encoded envelope: version, type code, length, metadata.\<close>

lemma encode_InrE:
  assumes "encodeVerserEnvelope P e = Inr bs"
  obtains code md where "bs = [VERSER_ENVELOPE_VERSION, code] @ writeUInt32BE (length md) @ md"
    and "length md < 2 ^ 32" and "md = utf8 (jsonStringify P (env_metadata e))"
    and "envelopeTypeNameFromCode P code VERSER_ENVELOPE_TYPES = Inr (env_type e)"
proof -
  let ?code = "the (map_of VERSER_ENVELOPE_TYPES (env_type e))"
  have "envelopeTypeNameFromCode P ?code VERSER_ENVELOPE_TYPES = Inr (env_type e)"
    by (cases "env_type e") (simp_all add: VERSER_ENVELOPE_TYPES_def envelopeTypeNameFromCode_def)
  with that assms show ?thesis
    by (auto simp: encodeVerserEnvelope_def Let_def not_le split: if_splits)
qed

text \<open>What \<open>push\<close> does with a buffer that begins with a prefix.\<close>

lemma push_prefix:
  assumes "buffered p @ chunk = [VERSER_ENVELOPE_VERSION, code] @ writeUInt32BE n @ bs"
    and "n < 2 ^ 32" and "n \<le> maxMetadataBytes p"
    and "envelopeTypeNameFromCode P code VERSER_ENVELOPE_TYPES = Inr type"
  shows "push P chunk p =
    (if length bs < n then (Inr None, p\<lparr>buffered := buffered p @ chunk\<rparr>)
     else case parseEnvelopeMetadata P (take n bs) type of
        Inl e \<Rightarrow> (if maxMetadataBytes p < length bs
                  then throwE P protocol_error ''Pending envelope input exceeds limit''
                         [(''bufferedBytes'', nat_ctx (6 + length bs)),
                          (''maxPendingEnvelopeBytes'', nat_ctx (6 + maxMetadataBytes p)),
                          (''maxMetadataBytes'', nat_ctx (maxMetadataBytes p))]
                  else Inl e, p\<lparr>buffered := buffered p @ chunk\<rparr>)
      | Inr m \<Rightarrow> (Inr (Some \<lparr>pe_type = type, pe_metadata = m, bodyRemainder = drop n bs\<rparr>), p\<lparr>buffered := []\<rparr>))"
proof -
  let ?buf = "[VERSER_ENVELOPE_VERSION, code] @ writeUInt32BE n @ bs"
  have "readUInt32BE ?buf 2 = n"
    using readUInt32BE_drop [of 2 ?buf] readUInt32BE_write [OF assms(2), of bs] by simp
  moreover have six: "drop 6 ?buf = bs" "length ?buf = 6 + length bs"
    by (simp_all add: writeUInt32BE_def)
  moreover have "drop (6 + n) ?buf = drop n bs"
    using drop_drop [of n 6 ?buf] six(1) by (simp only: add.commute)
  ultimately show ?thesis
    unfolding push_def Let_def assms(1)
    using assms(3,4) by (simp split: sum.split)
qed

section \<open>What a stream will deliver\<close>

text \<open>The stream is open and will deliver the bytes \<open>bs\<close> before the arrivals \<open>rest\<close>, however they are
  cut into chunks.\<close>

definition delivers :: "Readable \<Rightarrow> bytes \<Rightarrow> arrival list \<Rightarrow> bool" where
  "delivers st bs rest \<longleftrightarrow>
     \<not> ended st \<and> (\<exists>cs. arrivals st = map Chunk cs @ rest \<and> rbuf st @ concat cs = bs)"

lemma delivers_read:
  "delivers st bs rest \<Longrightarrow> n \<le> length (rbuf st) \<Longrightarrow>
     rbuf st = take n bs @ drop n (rbuf st) \<and> delivers (st\<lparr>rbuf := drop n (rbuf st)\<rparr>) (drop n bs) rest"
  by (auto simp: delivers_def)

text \<open>As long as the bytes arrive, \<open>readExactly\<close> returns exactly those asked for and leaves the others
  to be read.\<close>

lemma read_loop_delivers:
  assumes "delivers st bs rest" and "n \<le> length bs"
  shows "\<exists>st'. read_loop P ctx n chunks st = Some (Inr (concat chunks @ take n bs, st')) \<and>
    delivers st' (drop n bs) rest"
proof -
  from assms(1) obtain cs where "\<not> ended st" "arrivals st = map Chunk cs @ rest" "rbuf st @ concat cs = bs"
    by (auto simp: delivers_def)
  then show ?thesis
    using assms(2)
  proof (induction cs arbitrary: st)
    case Nil
    then show ?case
      by (auto simp: read_loop.simps [of P ctx n] read_loop.simps [of P ctx 0] stream_read_def delivers_def)
  next
    case (Cons c cs)
    show ?case
    proof (cases "n \<le> length (rbuf st)")
      case True
      with Cons.prems show ?thesis
        by (auto simp: read_loop.simps [of P ctx n] read_loop.simps [of P ctx 0] stream_read_def delivers_def
              intro!: exI [of _ "c # cs"])
    next
      case False
      let ?st = "st\<lparr>rbuf := rbuf st @ c, arrivals := map Chunk cs @ rest\<rparr>"
      from False Cons.prems have "read_loop P ctx n chunks st = read_loop P ctx n chunks ?st"
        by (simp add: read_loop.simps [of P ctx n chunks st] stream_read_def waitForReadable_def)
      moreover have "\<exists>st'. read_loop P ctx n chunks ?st = Some (Inr (concat chunks @ take n bs, st')) \<and>
          delivers st' (drop n bs) rest"
        using Cons.prems by (intro Cons.IH) simp_all
      ultimately show ?thesis by simp
    qed
  qed
qed

lemma readExactly_delivers:
  assumes "delivers st bs rest" and "n \<le> length bs"
  obtains st' where "readExactly P st n ctx = Some (Inr (take n bs, st'))" and "delivers st' (drop n bs) rest"
  using read_loop_delivers [OF assms, of P ctx "[]"] that by (auto simp: readExactly_def)

text \<open>A stream that ends too early makes the read reject.\<close>

lemma read_loop_truncated:
  assumes "delivers st bs (Eof # rest)" and "length bs < n"
  shows "read_loop P ctx n chunks st =
    Some (Inl (Verser (createVerserError P protocol_error (js ''Lease stream ended before metadata'') ctx)))"
proof -
  from assms(1) obtain cs where "\<not> ended st" "arrivals st = map Chunk cs @ Eof # rest" "rbuf st @ concat cs = bs"
    by (auto simp: delivers_def)
  then show ?thesis
    using assms(2)
  proof (induction cs arbitrary: st)
    case Nil
    let ?e = "st\<lparr>ended := True, arrivals := rest\<rparr>"
    have "read_loop P ctx n chunks st = read_loop P ctx n chunks ?e"
      using Nil by (simp add: read_loop.simps [of P ctx n chunks st] stream_read_def waitForReadable_def)
    moreover have "read_loop P ctx m cks (?e\<lparr>rbuf := []\<rparr>) =
        Some (Inl (Verser (createVerserError P protocol_error (js ''Lease stream ended before metadata'') ctx)))"
      if "0 < m" for m cks
      using that by (simp add: read_loop.simps [of P ctx m] stream_read_def waitForReadable_def)
    ultimately show ?case
      using Nil by (cases "rbuf st = []")
        (auto simp: read_loop.simps [of P ctx n chunks ?e] stream_read_def waitForReadable_def)
  next
    case (Cons c cs)
    let ?st = "st\<lparr>rbuf := rbuf st @ c, arrivals := map Chunk cs @ Eof # rest\<rparr>"
    from Cons.prems have "read_loop P ctx n chunks st = read_loop P ctx n chunks ?st"
      by (auto simp: read_loop.simps [of P ctx n chunks st] stream_read_def waitForReadable_def)
    moreover have "read_loop P ctx n chunks ?st =
        Some (Inl (Verser (createVerserError P protocol_error (js ''Lease stream ended before metadata'') ctx)))"
      using Cons.prems by (intro Cons.IH) simp_all
    ultimately show ?case by simp
  qed
qed

section \<open>Properties\<close>

text \<open>\<open>JSON.parse\<close> reads back what \<open>JSON.stringify\<close> wrote for this value, through UTF-8.\<close>

definition json_faithful :: "'p platform_scheme \<Rightarrow> json \<Rightarrow> bool" where
  "json_faithful P m \<longleftrightarrow> jsonParse P (utf8ToString P (utf8 (jsonStringify P m))) = Some m"

lemma parse_faithful:
  "json_faithful P m \<Longrightarrow> isRecord m \<Longrightarrow> parseEnvelopeMetadata P (utf8 (jsonStringify P m)) type = Inr m"
  by (simp add: json_faithful_def parseEnvelopeMetadata_def)

abbreviation limit_of :: "nat option \<Rightarrow> nat" where
  "limit_of maxBytes \<equiv> (case maxBytes of None \<Rightarrow> DEFAULT_MAX_ENVELOPE_METADATA_BYTES | Some n \<Rightarrow> n)"

text \<open>C1: An envelope survives the stream: however the bytes of an encoded envelope and of the body
  behind it are cut into chunks and delayed, \<open>readVerserEnvelopeFromStream\<close> returns (it does not wait
  for more than the envelope), with the type and metadata that were encoded, and the body bytes stay in
  the stream, in order and unread.\<close>

theorem envelope_stream_roundtrip:
  assumes "encodeVerserEnvelope P e = Inr bs" and "json_faithful P (env_metadata e)" and "isRecord (env_metadata e)"
    and "length bs \<le> VERSER_ENVELOPE_PREFIX_BYTES + limit_of maxBytes"
    and "delivers st (bs @ body) rest"
  shows "\<exists>st'. readVerserEnvelopeFromStream P st maxBytes ctx =
      Some (Inr (\<lparr>pe_type = env_type e, pe_metadata = env_metadata e, bodyRemainder = []\<rparr>, st')) \<and>
    delivers st' body rest"
proof -
  from assms(1) obtain code md where bs: "bs = [VERSER_ENVELOPE_VERSION, code] @ writeUInt32BE (length md) @ md"
    and len: "length md < 2 ^ 32" and md: "md = utf8 (jsonStringify P (env_metadata e))"
    and code: "envelopeTypeNameFromCode P code VERSER_ENVELOPE_TYPES = Inr (env_type e)"
    by (rule encode_InrE)
  have max: "length md \<le> limit_of maxBytes" using assms(4) by (simp add: bs)
  obtain s1 where s1: "readExactly P st 2 ctx = Some (Inr ([VERSER_ENVELOPE_VERSION, code], s1))"
      "delivers s1 (writeUInt32BE (length md) @ md @ body) rest"
    using readExactly_delivers [OF assms(5), of 2 P ctx] by (auto simp: bs)
  obtain s2 where s2: "readExactly P s1 4 ctx = Some (Inr (writeUInt32BE (length md), s2))"
      "delivers s2 (md @ body) rest"
    using readExactly_delivers [OF s1(2), of 4 P ctx] by auto
  obtain s3 where s3: "readExactly P s2 (length md) ctx = Some (Inr (md, s3))" "delivers s3 body rest"
    using readExactly_delivers [OF s2(2), of "length md" P ctx] by auto
  have "fst (push P ([VERSER_ENVELOPE_VERSION, code] @ writeUInt32BE (length md) @ md)
          (createVerserEnvelopeParser maxBytes)) =
        Inr (Some \<lparr>pe_type = env_type e, pe_metadata = env_metadata e, bodyRemainder = []\<rparr>)"
    using push_prefix [of "createVerserEnvelopeParser maxBytes" _ code "length md" md P "env_type e"]
      max len code parse_faithful [OF assms(2,3), of "env_type e", folded md]
    by (simp add: createVerserEnvelopeParser_def)
  then have "readVerserEnvelopeFromStream P st maxBytes ctx =
      Some (Inr (\<lparr>pe_type = env_type e, pe_metadata = env_metadata e, bodyRemainder = []\<rparr>, s3))"
    using s1(1) s2(1) s3(1) max readUInt32BE_write [OF len, of "[]"]
    by (simp add: readVerserEnvelopeFromStream_def Let_def)
  with s3(2) show ?thesis by blast
qed

theorem envelope_stream_roundtrip_witness:
  "\<exists>st'. readVerserEnvelopeFromStream sample_platform
      \<lparr>rbuf = [1], ended = False, arrivals = [Chunk [2, 0, 0, 0], Chunk [2, 123, 125, 7], Chunk [8]]\<rparr> None [] =
      Some (Inr (\<lparr>pe_type = response, pe_metadata = JObj [], bodyRemainder = []\<rparr>, st')) \<and>
    delivers st' [7, 8] []"
proof -
  have enc: "encodeVerserEnvelope sample_platform \<lparr>env_type = response, env_metadata = JObj []\<rparr> =
      Inr [1, 2, 0, 0, 0, 2, 123, 125]"
    by (simp add: encodeVerserEnvelope_def VERSER_ENVELOPE_TYPES_def sample_platform_def js_def utf8_1_def
          high_surrogate_def low_surrogate_def writeUInt32BE_def)
  have js: "json_faithful sample_platform (JObj [])"
    by (simp add: json_faithful_def sample_platform_def)
  have "delivers \<lparr>rbuf = [1], ended = False, arrivals = [Chunk [2, 0, 0, 0], Chunk [2, 123, 125, 7], Chunk [8]]\<rparr>
      ([1, 2, 0, 0, 0, 2, 123, 125] @ [7, 8]) []"
    unfolding delivers_def by (simp, intro exI [of _ "[[2, 0, 0, 0], [2, 123, 125, 7], [8]]"]) simp
  from envelope_stream_roundtrip [OF enc _ _ _ this, of None "[]"] js show ?thesis
    by (simp add: DEFAULT_MAX_ENVELOPE_METADATA_BYTES_def)
qed

text \<open>C39: A stream that ends inside the envelope never hangs the reader and never yields an envelope: the
  read rejects with a \<open>protocol-error\<close>.\<close>

theorem truncated_envelope_rejects:
  assumes "encodeVerserEnvelope P e = Inr bs" and "length bs \<le> VERSER_ENVELOPE_PREFIX_BYTES + limit_of maxBytes"
    and "k < length bs" and "delivers st (take k bs) (Eof # rest)"
  shows "readVerserEnvelopeFromStream P st maxBytes ctx =
    Some (Inl (Verser (createVerserError P protocol_error (js ''Lease stream ended before metadata'') ctx)))"
proof -
  from assms(1) obtain code md where bs: "bs = [VERSER_ENVELOPE_VERSION, code] @ writeUInt32BE (length md) @ md"
    and len: "length md < 2 ^ 32" by (rule encode_InrE)
  note cut = read_loop_truncated [of _ _ rest _ P ctx "[]", folded readExactly_def]
  have max: "length md \<le> limit_of maxBytes" using assms(2) by (simp add: bs)
  consider "k < 2" | "2 \<le> k" "k < 6" | "6 \<le> k" by linarith
  then show ?thesis
  proof cases
    case 1
    then show ?thesis using cut [OF assms(4), of 2] by (simp add: readVerserEnvelopeFromStream_def)
  next
    case 2
    obtain s1 where s1: "readExactly P st 2 ctx = Some (Inr (take 2 (take k bs), s1))"
        "delivers s1 (drop 2 (take k bs)) (Eof # rest)"
      using readExactly_delivers [OF assms(4), of 2 P ctx] 2 assms(3) by auto
    then show ?thesis using cut [OF s1(2), of 4] 2 assms(3) by (simp add: readVerserEnvelopeFromStream_def)
  next
    case 3
    then have tk: "take k bs = [VERSER_ENVELOPE_VERSION, code] @ writeUInt32BE (length md) @ take (k - 6) md"
      using take_append [of k "[VERSER_ENVELOPE_VERSION, code] @ writeUInt32BE (length md)" md] by (simp add: bs)
    note d = assms(4) [unfolded tk]
    obtain s1 where s1: "readExactly P st 2 ctx = Some (Inr ([VERSER_ENVELOPE_VERSION, code], s1))"
        "delivers s1 (writeUInt32BE (length md) @ take (k - 6) md) (Eof # rest)"
      using readExactly_delivers [OF d, of 2 P ctx] by auto
    obtain s2 where s2: "readExactly P s1 4 ctx = Some (Inr (writeUInt32BE (length md), s2))"
        "delivers s2 (take (k - 6) md) (Eof # rest)"
      using readExactly_delivers [OF s1(2), of 4 P ctx] by auto
    have "length (take (k - 6) md) < length md" using assms(3) 3 by (simp add: bs)
    from cut [OF s2(2) this] show ?thesis
      using s1(1) s2(1) max readUInt32BE_write [OF len, of "[]"]
      by (simp add: readVerserEnvelopeFromStream_def Let_def)
  qed
qed

theorem truncated_envelope_rejects_witness:
  "\<exists>e. readVerserEnvelopeFromStream sample_platform
      \<lparr>rbuf = [1], ended = False, arrivals = [Chunk [2, 0, 0, 0], Chunk [2, 123], Eof]\<rparr> None [] = Some (Inl e)"
proof -
  have enc: "encodeVerserEnvelope sample_platform \<lparr>env_type = response, env_metadata = JObj []\<rparr> =
      Inr [1, 2, 0, 0, 0, 2, 123, 125]"
    by (simp add: encodeVerserEnvelope_def VERSER_ENVELOPE_TYPES_def sample_platform_def js_def utf8_1_def
          high_surrogate_def low_surrogate_def writeUInt32BE_def)
  have "delivers \<lparr>rbuf = [1], ended = False, arrivals = [Chunk [2, 0, 0, 0], Chunk [2, 123], Eof]\<rparr>
      (take 7 [1, 2, 0, 0, 0, 2, 123, 125]) (Eof # [])"
    unfolding delivers_def by (simp, intro exI [of _ "[[2, 0, 0, 0], [2, 123]]"]) simp
  from truncated_envelope_rejects [OF enc _ _ this, of None "[]"] show ?thesis
    by (simp add: DEFAULT_MAX_ENVELOPE_METADATA_BYTES_def)
qed

lemma push_partial:
  assumes "encodeVerserEnvelope P e = Inr bs" and "length bs \<le> VERSER_ENVELOPE_PREFIX_BYTES + maxMetadataBytes p"
    and "k < length bs" and "buffered p @ chunk = take k bs"
  shows "push P chunk p = (Inr None, p\<lparr>buffered := take k bs\<rparr>)"
proof (cases "k < 6")
  case True
  with assms(3,4) show ?thesis by (simp add: push_def Let_def)
next
  case False
  from assms(1) obtain code md where bs: "bs = [VERSER_ENVELOPE_VERSION, code] @ writeUInt32BE (length md) @ md"
    and len: "length md < 2 ^ 32" and code: "envelopeTypeNameFromCode P code VERSER_ENVELOPE_TYPES = Inr (env_type e)"
    by (rule encode_InrE)
  have tk: "take k bs = [VERSER_ENVELOPE_VERSION, code] @ writeUInt32BE (length md) @ take (k - 6) md"
    using False take_append [of k "[VERSER_ENVELOPE_VERSION, code] @ writeUInt32BE (length md)" md] by (simp add: bs)
  have "k - 6 < length md" using assms(3) False by (simp add: bs)
  with push_prefix [OF assms(4) [unfolded tk] len _ code] show ?thesis
    using assms(2) by (simp add: assms(4) bs)
qed

lemma push_complete:
  assumes "encodeVerserEnvelope P e = Inr bs" and "length bs \<le> VERSER_ENVELOPE_PREFIX_BYTES + maxMetadataBytes p"
    and "json_faithful P (env_metadata e)" and "isRecord (env_metadata e)" and "buffered p @ chunk = bs @ extra"
  shows "push P chunk p =
    (Inr (Some \<lparr>pe_type = env_type e, pe_metadata = env_metadata e, bodyRemainder = extra\<rparr>), p\<lparr>buffered := []\<rparr>)"
proof -
  from assms(1) obtain code md where bs: "bs = [VERSER_ENVELOPE_VERSION, code] @ writeUInt32BE (length md) @ md"
    and len: "length md < 2 ^ 32" and md: "md = utf8 (jsonStringify P (env_metadata e))"
    and code: "envelopeTypeNameFromCode P code VERSER_ENVELOPE_TYPES = Inr (env_type e)"
    by (rule encode_InrE)
  have "buffered p @ chunk = [VERSER_ENVELOPE_VERSION, code] @ writeUInt32BE (length md) @ (md @ extra)"
    by (simp add: assms(5) bs)
  from push_prefix [OF this len _ code] show ?thesis
    using assms(2) parse_faithful [OF assms(3,4), of "env_type e", folded md] by (simp add: bs)
qed

text \<open>The push parser finds the envelope wherever the chunk boundaries fall: pushing the chunks one
  after the other gives \<open>undefined\<close> until the envelope is complete, then the envelope with the body bytes
  of that chunk, and the parser is as new for the next envelope.\<close>

theorem parser_any_chunking:
  assumes "encodeVerserEnvelope P e = Inr bs" and "length bs \<le> VERSER_ENVELOPE_PREFIX_BYTES + limit_of maxBytes"
    and "json_faithful P (env_metadata e)" and "isRecord (env_metadata e)" and "concat cs = bs @ body"
  shows "\<exists>extra rest. push_until P cs (createVerserEnvelopeParser maxBytes) =
      (Inr (Some \<lparr>pe_type = env_type e, pe_metadata = env_metadata e, bodyRemainder = extra\<rparr>),
       createVerserEnvelopeParser maxBytes, rest) \<and>
    extra @ concat rest = body \<and> (\<exists>used. cs = used @ rest \<and> length (concat (butlast used)) < length bs)"
proof -
  let ?p = "createVerserEnvelopeParser maxBytes"
  have p: "maxMetadataBytes ?p = limit_of maxBytes" "buffered ?p = []"
    by (simp_all add: createVerserEnvelopeParser_def)
  have "bs \<noteq> []" using assms(1) by (auto elim: encode_InrE)
  have "\<exists>extra rest used. push_until P cs (?p\<lparr>buffered := take k bs\<rparr>) =
      (Inr (Some \<lparr>pe_type = env_type e, pe_metadata = env_metadata e, bodyRemainder = extra\<rparr>), ?p, rest) \<and>
      extra @ concat rest = body \<and> cs = used @ rest \<and> k + length (concat (butlast used)) < length bs"
    if "k < length bs" and "take k bs @ concat cs = bs @ body" for k
    using that
  proof (induction cs arbitrary: k)
    case Nil
    then have "length (take k bs) = length (bs @ body)" by simp
    with Nil(1) show ?case by simp
  next
    case (Cons c cs)
    let ?q = "?p\<lparr>buffered := take k bs\<rparr>"
    show ?case
    proof (cases "k + length c < length bs")
      case True
      then have tk: "take k bs @ c = take (k + length c) bs"
        using Cons.prems append_eq_conv_conj [of "take k bs @ c" "concat cs" "bs @ body"] by simp
      then have "push P c ?q = (Inr None, ?p\<lparr>buffered := take (k + length c) bs\<rparr>)"
        using push_partial [OF assms(1), of ?q "k + length c" c] True assms(2) by (simp add: p)
      moreover obtain extra rest don where "push_until P cs (?p\<lparr>buffered := take (k + length c) bs\<rparr>) =
          (Inr (Some \<lparr>pe_type = env_type e, pe_metadata = env_metadata e, bodyRemainder = extra\<rparr>), ?p, rest)"
        "extra @ concat rest = body" "cs = don @ rest" "(k + length c) + length (concat (butlast don)) < length bs"
        using Cons.IH [OF True] Cons.prems(2) tk by (metis append.assoc concat.simps(2))
      ultimately show ?thesis
        by (intro exI [of _ extra] exI [of _ rest] exI [of _ "c # don"]) simp
    next
      case False
      then obtain extra where c: "take k bs @ c = bs @ extra" "extra @ concat cs = body"
        using split_at [of "take k bs @ c" "concat cs" bs body] Cons.prems by auto
      have "?q\<lparr>buffered := []\<rparr> = ?p" by (simp add: createVerserEnvelopeParser_def)
      then have "push P c ?q = (Inr (Some \<lparr>pe_type = env_type e, pe_metadata = env_metadata e, bodyRemainder = extra\<rparr>), ?p)"
        using push_complete [OF assms(1) _ assms(3,4), of ?q c extra] assms(2) c(1) by (simp add: p)
      with c(2) Cons.prems(1) show ?thesis
        by (intro exI [of _ extra] exI [of _ cs] exI [of _ "[c]"]) simp
    qed
  qed
  from this [of 0] \<open>bs \<noteq> []\<close> assms(5) p(2) show ?thesis
    by (fastforce simp: createVerserEnvelopeParser_def)
qed

theorem parser_any_chunking_witness:
  "\<exists>extra rest. push_until sample_platform [[1, 2], [], [0, 0, 0, 2, 123], [125, 7], [8]]
      (createVerserEnvelopeParser (Some 2)) =
      (Inr (Some \<lparr>pe_type = response, pe_metadata = JObj [], bodyRemainder = extra\<rparr>),
       createVerserEnvelopeParser (Some 2), rest) \<and> extra @ concat rest = [7, 8]"
proof -
  have enc: "encodeVerserEnvelope sample_platform \<lparr>env_type = response, env_metadata = JObj []\<rparr> =
      Inr [1, 2, 0, 0, 0, 2, 123, 125]"
    by (simp add: encodeVerserEnvelope_def VERSER_ENVELOPE_TYPES_def sample_platform_def js_def utf8_1_def
          high_surrogate_def low_surrogate_def writeUInt32BE_def)
  have js: "json_faithful sample_platform (JObj [])"
    by (simp add: json_faithful_def sample_platform_def)
  have cs: "concat [[1, 2], [], [0, 0, 0, 2, 123], [125, 7], [8]] = [1, 2, 0, 0, 0, 2, 123, 125] @ [7, 8 :: byte]"
    by simp
  from parser_any_chunking [OF enc, of "Some 2", OF _ _ _ cs] js show ?thesis
    by auto
qed

text \<open>The buffers on which \<open>push\<close> throws, given at least a prefix.\<close>

definition bad_buffer :: "'p platform_scheme \<Rightarrow> nat \<Rightarrow> bytes \<Rightarrow> bool" where
  "bad_buffer P limit b \<longleftrightarrow> b ! 0 \<noteq> VERSER_ENVELOPE_VERSION \<or>
     (case envelopeTypeNameFromCode P (b ! 1) VERSER_ENVELOPE_TYPES of
        Inl e \<Rightarrow> True
      | Inr type \<Rightarrow> limit < readUInt32BE b 2 \<or> (6 + readUInt32BE b 2 \<le> length b \<and>
          (case parseEnvelopeMetadata P (take (readUInt32BE b 2) (drop 6 b)) type of Inl e \<Rightarrow> True | Inr m \<Rightarrow> False)))"

lemma bad_buffer_append: "6 \<le> length b \<Longrightarrow> bad_buffer P limit b \<Longrightarrow> bad_buffer P limit (b @ c)"
  by (auto simp: bad_buffer_def nth_append readUInt32BE_append split: sum.splits)

lemma push_throws_iff:
  "(\<exists>e. fst (push P c p) = Inl e) \<longleftrightarrow>
     6 \<le> length (buffered p @ c) \<and> bad_buffer P (maxMetadataBytes p) (buffered p @ c)"
  unfolding push_def Let_def bad_buffer_def by (auto simp: throwE_def split: sum.splits)

lemma envelope_errors:
  "envelopeTypeNameFromCode P code types = Inl e \<Longrightarrow> thrown_code e = Some protocol_error"
  "parseEnvelopeMetadata P bs type = Inl e' \<Longrightarrow> thrown_code e' = Some protocol_error"
  by (auto simp: envelopeTypeNameFromCode_def parseEnvelopeMetadata_def split: option.splits if_splits)

lemma push_throws_buffer:
  "push P c p = (Inl e, p') \<Longrightarrow> p' = p\<lparr>buffered := buffered p @ c\<rparr> \<and> thrown_code e = Some protocol_error"
  by (auto simp: push_def Let_def envelope_errors split: if_splits sum.splits)

text \<open>The parser never hoards input and never recovers from garbage: while it waits it holds fewer
  bytes than a prefix and the largest metadata allowed, and once \<open>push\<close> has thrown, every later \<open>push\<close>
  throws as well, whatever arrives.\<close>

theorem parser_bounded_and_fail_stop:
  "(push P c p = (Inr None, p') \<longrightarrow>
      buffered p' = buffered p @ c \<and> length (buffered p') < VERSER_ENVELOPE_PREFIX_BYTES + max 1 (maxMetadataBytes p)) \<and>
   (push P c p = (Inl e, p') \<longrightarrow> (\<exists>e' p2. push P c' p' = (Inl e', p2) \<and> thrown_code e' = Some protocol_error))"
proof (intro conjI impI)
  assume "push P c p = (Inr None, p')"
  then show "buffered p' = buffered p @ c" "length (buffered p') < 6 + max 1 (maxMetadataBytes p)"
    by (auto simp: push_def Let_def split: if_splits sum.splits)
next
  assume e: "push P c p = (Inl e, p')"
  let ?b = "buffered p @ c"
  have "p' = p\<lparr>buffered := ?b\<rparr>" using push_throws_buffer [OF e] by simp
  moreover have "6 \<le> length ?b" "bad_buffer P (maxMetadataBytes p) ?b"
    using push_throws_iff [of P c p] e by auto
  ultimately have "\<exists>e'. fst (push P c' p') = Inl e'"
    using bad_buffer_append [of ?b P "maxMetadataBytes p" c'] by (simp add: push_throws_iff)
  then obtain e' p2 where "push P c' p' = (Inl e', p2)" by (metis prod.collapse)
  with push_throws_buffer [OF this] show "\<exists>e' p2. push P c' p' = (Inl e', p2) \<and> thrown_code e' = Some protocol_error"
    by blast
qed

theorem parser_bounded_and_fail_stop_witness:
  "\<exists>e' p2. push sample_platform [1, 1, 0, 0, 0, 0]
     (snd (push sample_platform [9, 1, 0, 0, 0, 0] (createVerserEnvelopeParser None))) = (Inl e', p2)"
proof -
  have "push sample_platform [9, 1, 0, 0, 0, 0] (createVerserEnvelopeParser None) =
      (Inl (Verser (createVerserError sample_platform protocol_error (js ''Invalid envelope version'')
          [(js ''version'', CNum (byte_num 9))])),
       snd (push sample_platform [9, 1, 0, 0, 0, 0] (createVerserEnvelopeParser None)))"
    by (simp add: push_def createVerserEnvelopeParser_def throwE_def)
  then show ?thesis using parser_bounded_and_fail_stop by blast
qed

text \<open>A response is only taken from an envelope that answers this request: what
  \<open>readLeaseResponseMetadataFromStream\<close> returns carries the request id that was asked for, and every
  rejection that does not come from the transport is a \<open>protocol-error\<close>, or a \<open>local-handler-failure\<close>
  that an error envelope for this request reported.\<close>

theorem response_matches_request:
  "(readLeaseResponseMetadataFromStream P st maxBytes req target = Some (Inr (m, st')) \<longrightarrow>
      obj_get m ''requestId'' = Some (JStr req)) \<and>
   (readLeaseResponseMetadataFromStream P st maxBytes req target = Some (Inl e) \<longrightarrow>
      thrown_code e = Some protocol_error \<or>
      (\<exists>env s. readVerserEnvelopeFromStream P st maxBytes
           [(js ''requestId'', CStr req), (js ''targetId'', CStr target)] = Some (Inr (env, s)) \<and>
         pe_type env = error \<and> obj_get (pe_metadata env) ''requestId'' = Some (JStr req) \<and>
         thrown_code e = Some local_handler_failure) \<or>
      readVerserEnvelopeFromStream P st maxBytes
           [(js ''requestId'', CStr req), (js ''targetId'', CStr target)] = Some (Inl e))"
proof -
  let ?r = "readVerserEnvelopeFromStream P st maxBytes [(js ''requestId'', CStr req), (js ''targetId'', CStr target)]"
  consider "?r = None" | e where "?r = Some (Inl e)" | env s where "?r = Some (Inr (env, s))"
    by (metis option.exhaust sum.exhaust surj_pair)
  then show ?thesis
  proof cases
    case (3 env s)
    then show ?thesis
      by (cases "pe_type env")
        (auto simp: readLeaseResponseMetadataFromStream_def Let_def assertResponseEnvelopeRequestId_def
          createVerserError_def result_simps throwE_def split: if_splits)
  qed (simp_all add: readLeaseResponseMetadataFromStream_def)
qed

definition reply_platform :: platform where
  "reply_platform = sample_platform\<lparr>jsonParse := (\<lambda>_. Some (JObj [(js ''requestId'', JStr (js ''r''))]))\<rparr>"

lemma reply_platform_reads:
  "readLeaseResponseMetadataFromStream reply_platform
     \<lparr>rbuf = [1, 2, 0, 0, 0, 2, 123, 125], ended = False, arrivals = []\<rparr> None (js ''r'') (js ''g'') =
   Some (Inr (JObj [(js ''requestId'', JStr (js ''r''))], \<lparr>rbuf = [], ended = False, arrivals = []\<rparr>))"
  by (simp add: readLeaseResponseMetadataFromStream_def readVerserEnvelopeFromStream_def readExactly_def
        read_loop.simps stream_read_def push_def createVerserEnvelopeParser_def readUInt32BE_def
        DEFAULT_MAX_ENVELOPE_METADATA_BYTES_def envelopeTypeNameFromCode_def VERSER_ENVELOPE_TYPES_def
        parseEnvelopeMetadata_def reply_platform_def assertResponseEnvelopeRequestId_def Let_def)

theorem response_matches_request_witness:
  "\<exists>m st'. readLeaseResponseMetadataFromStream reply_platform
     \<lparr>rbuf = [1, 2, 0, 0, 0, 2, 123, 125], ended = False, arrivals = []\<rparr> None (js ''r'') (js ''g'') = Some (Inr (m, st')) \<and>
     obj_get m ''requestId'' = Some (JStr (js ''r''))"
  using response_matches_request reply_platform_reads by blast

end
