(* ===== verification/Chunked_Decoder.thy ===== *)
theory Chunked_Decoder
  imports Errors
begin

text \<open>
  The decoder for chunked request bodies of
  \<open>packages/verser2-guest-node/src/lib/chunked-body-decoder.ts\<close>. The output is the list of the
  buffers written to it; whether a \<open>write\<close> to it asks for back pressure is a parameter, a function of
  what has been written.
\<close>

unbundle bit_operations_syntax

section \<open>The output stream\<close>

record PassThrough =
  written :: "bytes list"
  out_ended :: bool

definition out_write :: "(bytes list \<Rightarrow> bool) \<Rightarrow> bytes \<Rightarrow> PassThrough \<Rightarrow> bool \<times> PassThrough" where
  "out_write accepts bs out =
     (if out_ended out then (False, out)
      else (accepts (written out @ [bs]), out\<lparr>written := written out @ [bs]\<rparr>))"

definition out_end :: "PassThrough \<Rightarrow> PassThrough" where
  "out_end out = out\<lparr>out_ended := True\<rparr>"

section \<open>Size lines\<close>

text \<open>\<open>buffer.indexOf('\r\n')\<close>.\<close>

fun index_crlf :: "bytes \<Rightarrow> nat option" where
  "index_crlf (a # b # bs) =
     (if a = 13 \<and> b = 10 then Some 0 else map_option Suc (index_crlf (b # bs)))"
| "index_crlf _ = None"

text \<open>\<open>toString('ascii')\<close> clears the high bit of every byte.\<close>

definition ascii_text :: "bytes \<Rightarrow> jsstr" where
  "ascii_text bs = map (\<lambda>b. ucast (b AND 127)) bs"

definition is_hex :: "ucode \<Rightarrow> bool" where
  "is_hex c \<longleftrightarrow> (48 \<le> c \<and> c \<le> 57) \<or> (97 \<le> c \<and> c \<le> 102) \<or> (65 \<le> c \<and> c \<le> 70)"

definition hex_value :: "ucode \<Rightarrow> nat" where
  "hex_value c = (if c \<le> 57 then unat c - 48 else if c \<le> 70 then unat c - 55 else unat c - 87)"

text \<open>The regular expression \<open>^[0-9a-fA-F]+(?:;.*)?$\<close>, where the dot matches no line terminator.\<close>

definition valid_size_text :: "jsstr \<Rightarrow> bool" where
  "valid_size_text s \<longleftrightarrow> takeWhile is_hex s \<noteq> [] \<and>
     (dropWhile is_hex s = [] \<or>
      (hd (dropWhile is_hex s) = 59 \<and> list_all (\<lambda>c. c \<noteq> 10 \<and> c \<noteq> 13) (tl (dropWhile is_hex s))))"

text \<open>\<open>Number.parseInt(s, 16)\<close> of a valid size text: the value of the leading digits. A value above
  \<open>2^53\<close> is rounded but stays above it, so the safe-integer test sees the same.\<close>

definition parseInt16 :: "jsstr \<Rightarrow> nat" where
  "parseInt16 s = foldl (\<lambda>a c. 16 * a + hex_value c) 0 (takeWhile is_hex s)"

section \<open>The decoder\<close>

record ChunkedBodyDecoder =
  maxChunkSizeLineBytes :: nat
  maxPendingBytes :: nat
  pending :: bytes
  expectedChunkBytes :: "nat option"
  dec_output :: PassThrough

definition new_decoder :: "nat \<Rightarrow> nat \<Rightarrow> PassThrough \<Rightarrow> ChunkedBodyDecoder" where
  "new_decoder maxLine maxPending out =
     \<lparr>maxChunkSizeLineBytes = maxLine, maxPendingBytes = maxPending, pending = [],
      expectedChunkBytes = None, dec_output = out\<rparr>"

definition line_limit_error :: "'p platform_scheme \<Rightarrow> nat \<Rightarrow> nat \<Rightarrow> thrown" where
  "line_limit_error P lineBytes limit =
     Verser (createVerserError P protocol_error (js ''Chunk size line bytes exceed limit'')
       [(js ''lineBytes'', CNum (Fin (of_nat lineBytes))), (js ''maxChunkSizeLineBytes'', CNum (Fin (of_nat limit)))])"

definition size_line_error :: "'p platform_scheme \<Rightarrow> jsstr \<Rightarrow> thrown" where
  "size_line_error P sizeText =
     Verser (createVerserError P protocol_error (js ''Invalid chunk size line'') [(js ''sizeText'', CStr sizeText)])"

definition assertPendingWithinLimit :: "'p platform_scheme \<Rightarrow> ChunkedBodyDecoder \<Rightarrow> unit result" where
  "assertPendingWithinLimit P d =
     (if length (pending d) \<le> maxPendingBytes d then Inr ()
      else throwE P protocol_error ''Chunk decoder pending bytes exceed limit''
             [(''pendingBytes'', CNum (Fin (of_nat (length (pending d))))),
              (''maxPendingBytes'', CNum (Fin (of_nat (maxPendingBytes d))))])"

text \<open>The two halves of the loop body of \<open>flush\<close>: \<open>Some r\<close> leaves \<open>flush\<close> with \<open>r\<close>, \<open>None\<close> goes on.
  The first half runs when no chunk is expected.\<close>

definition read_size_line :: "'p platform_scheme \<Rightarrow> ChunkedBodyDecoder \<Rightarrow> bool result option \<times> ChunkedBodyDecoder" where
  "read_size_line P d =
     (case index_crlf (pending d) of
        None \<Rightarrow>
          (if maxChunkSizeLineBytes d < length (pending d)
           then (Some (Inl (line_limit_error P (length (pending d)) (maxChunkSizeLineBytes d))), d)
           else (Some (Inr True), d))
      | Some lineEnd \<Rightarrow>
          (if maxChunkSizeLineBytes d < lineEnd
           then (Some (Inl (line_limit_error P lineEnd (maxChunkSizeLineBytes d))), d)
           else
             (let sizeText = ascii_text (take lineEnd (pending d)) in
              if \<not> valid_size_text sizeText then (Some (Inl (size_line_error P sizeText)), d)
              else
                (let size = parseInt16 sizeText;
                     d' = d\<lparr>pending := drop (lineEnd + 2) (pending d)\<rparr>
                 in if \<not> isSafeInteger (Fin (of_nat size)) then (Some (Inl (size_line_error P sizeText)), d')
                    else if size = 0
                    then (Some (Inr True), d'\<lparr>dec_output := out_end (dec_output d'), pending := []\<rparr>)
                    else (None, d'\<lparr>expectedChunkBytes := Some size\<rparr>)))))"

definition take_chunk :: "'p platform_scheme \<Rightarrow> (bytes list \<Rightarrow> bool) \<Rightarrow> nat \<Rightarrow> ChunkedBodyDecoder
    \<Rightarrow> bool result option \<times> ChunkedBodyDecoder" where
  "take_chunk P accepts n d =
     (if length (pending d) < n + 2
      then (Some (bindE (assertPendingWithinLimit P d) (\<lambda>_. Inr True)), d)
      else
        (let (accepted, out) = out_write accepts (take n (pending d)) (dec_output d);
             d' = d\<lparr>dec_output := out, pending := drop (n + 2) (pending d), expectedChunkBytes := None\<rparr>
         in (if \<not> accepted then Some (Inr False) else None, d')))"

definition flush_step :: "'p platform_scheme \<Rightarrow> (bytes list \<Rightarrow> bool) \<Rightarrow> ChunkedBodyDecoder
    \<Rightarrow> bool result option \<times> ChunkedBodyDecoder" where
  "flush_step P accepts d =
     (case expectedChunkBytes d of
        Some n \<Rightarrow> take_chunk P accepts n d
      | None \<Rightarrow>
          (case read_size_line P d of
             (Some r, d') \<Rightarrow> (Some r, d')
           | (None, d') \<Rightarrow> take_chunk P accepts (the (expectedChunkBytes d')) d'))"

lemma index_crlf_bound: "index_crlf bs = Some i \<Longrightarrow> i + 2 \<le> length bs"
  by (induction bs arbitrary: i rule: index_crlf.induct) (auto split: if_splits)

lemma read_size_line_shrinks:
  "read_size_line P d = (None, d') \<Longrightarrow> length (pending d') < length (pending d)"
  using index_crlf_bound [of "pending d"]
  by (auto simp: read_size_line_def Let_def split: option.splits if_splits)

lemma take_chunk_shrinks:
  "take_chunk P A n d = (r, d') \<Longrightarrow> length (pending d') \<le> length (pending d)"
  "take_chunk P A n d = (None, d') \<Longrightarrow> length (pending d') < length (pending d)"
  "take_chunk P A n d = (Some (Inr False), d') \<Longrightarrow> length (pending d') < length (pending d)"
  by (auto simp: take_chunk_def Let_def assertPendingWithinLimit_def result_simps throwE_def split: if_splits prod.splits)

lemma flush_step_shrinks:
  "flush_step P A d = (None, d') \<Longrightarrow> length (pending d') < length (pending d)"
  by (fastforce simp: flush_step_def split: option.splits prod.splits
        dest: read_size_line_shrinks take_chunk_shrinks)

function flush :: "'p platform_scheme \<Rightarrow> (bytes list \<Rightarrow> bool) \<Rightarrow> ChunkedBodyDecoder \<Rightarrow> bool result \<times> ChunkedBodyDecoder" where
  "flush P accepts d =
     (if length (pending d) = 0 then (Inr True, d)
      else case flush_step P accepts d of
        (Some r, d') \<Rightarrow> (r, d')
      | (None, d') \<Rightarrow> flush P accepts d')"
  by pat_completeness auto
termination
  by (relation "measure (\<lambda>(P, A, d). length (pending d))") (auto dest!: sym [of "(_, _)"] flush_step_shrinks)

declare flush.simps [simp del]

definition decoder_write :: "'p platform_scheme \<Rightarrow> (bytes list \<Rightarrow> bool) \<Rightarrow> bytes \<Rightarrow> ChunkedBodyDecoder
    \<Rightarrow> bool result \<times> ChunkedBodyDecoder" where
  "decoder_write P accepts chunk d =
    (let d' = d\<lparr>pending := pending d @ chunk\<rparr>
     in case assertPendingWithinLimit P d' of
          Inl e \<Rightarrow> (Inl e, d')
        | Inr u \<Rightarrow> flush P accepts d')"

text \<open>How the Broker socket uses the decoder: after a write or flush that asked for back pressure it waits
  for \<open>drain\<close> and flushes again, until the decoder no longer does.\<close>

lemma flush_False_shrinks:
  "flush P A d = (Inr False, d') \<Longrightarrow> length (pending d') < length (pending d)"
proof (induction P A d rule: flush.induct)
  case (1 P A d)
  have "length (pending d2) < length (pending d)" if "flush_step P A d = (Some (Inr False), d2)" for d2
    using that by (fastforce simp: flush_step_def read_size_line_def Let_def
        split: option.splits prod.splits if_splits dest: read_size_line_shrinks take_chunk_shrinks)
  with 1 show ?case
    by (fastforce simp: flush.simps [of P A d] split: if_splits prod.splits option.splits dest: flush_step_shrinks)
qed

function drain :: "'p platform_scheme \<Rightarrow> (bytes list \<Rightarrow> bool) \<Rightarrow> ChunkedBodyDecoder \<Rightarrow> bool result \<times> ChunkedBodyDecoder" where
  "drain P accepts d =
     (case flush P accepts d of
        (Inr False, d') \<Rightarrow> drain P accepts d'
      | (Inr True, d') \<Rightarrow> (Inr True, d')
      | (Inl e, d') \<Rightarrow> (Inl e, d'))"
  by pat_completeness auto
termination
  by (relation "measure (\<lambda>(P, A, d). length (pending d))") (auto dest!: sym [of "(_, _)"] flush_False_shrinks)

declare drain.simps [simp del]

definition feed :: "'p platform_scheme \<Rightarrow> (bytes list \<Rightarrow> bool) \<Rightarrow> bytes \<Rightarrow> ChunkedBodyDecoder
    \<Rightarrow> bool result \<times> ChunkedBodyDecoder" where
  "feed P accepts chunk d =
     (case decoder_write P accepts chunk d of
        (Inr False, d') \<Rightarrow> drain P accepts d'
      | (Inr True, d') \<Rightarrow> (Inr True, d')
      | (Inl e, d') \<Rightarrow> (Inl e, d'))"

fun feed_all :: "'p platform_scheme \<Rightarrow> (bytes list \<Rightarrow> bool) \<Rightarrow> bytes list \<Rightarrow> ChunkedBodyDecoder
    \<Rightarrow> bool result \<times> ChunkedBodyDecoder" where
  "feed_all P accepts [] d = (Inr True, d)"
| "feed_all P accepts (c # cs) d =
     (case feed P accepts c d of
        (Inl e, d') \<Rightarrow> (Inl e, d')
      | (Inr u, d') \<Rightarrow> feed_all P accepts cs d')"

section \<open>Frames\<close>

text \<open>A size line the decoder accepts, and a chunk: its line, its data and the two bytes after the
  data.\<close>

definition good_line :: "ChunkedBodyDecoder \<Rightarrow> bytes \<Rightarrow> nat \<Rightarrow> bool" where
  "good_line d line n \<longleftrightarrow> valid_size_text (ascii_text line) \<and> parseInt16 (ascii_text line) = n \<and>
     isSafeInteger (Fin (of_nat n)) \<and> length line < maxChunkSizeLineBytes d"

type_synonym frame = "bytes \<times> bytes \<times> bytes"

definition line_of :: "bytes \<Rightarrow> bytes" where
  "line_of line = line @ [13, 10]"

fun frame_bytes :: "frame \<Rightarrow> bytes" where
  "frame_bytes (line, data, tail) = line_of line @ data @ tail"

fun frame_data :: "frame \<Rightarrow> bytes" where
  "frame_data (line, data, tail) = data"

fun frame_ok :: "ChunkedBodyDecoder \<Rightarrow> frame \<Rightarrow> bool" where
  "frame_ok d (line, data, tail) \<longleftrightarrow> good_line d line (length data) \<and> data \<noteq> [] \<and> length tail = 2"

lemma valid_size_text_no_cr: "valid_size_text s \<Longrightarrow> 13 \<notin> set s"
proof
  assume v: "valid_size_text s" and "13 \<in> set s"
  then have "13 \<in> set (takeWhile is_hex s) \<or> 13 \<in> set (dropWhile is_hex s)"
    by (metis UnE set_append takeWhile_dropWhile_id)
  then show False
  proof
    assume "13 \<in> set (takeWhile is_hex s)"
    then have "is_hex 13" by (rule set_takeWhileD [THEN conjunct2])
    then show False by (simp add: is_hex_def)
  next
    assume "13 \<in> set (dropWhile is_hex s)"
    with v show False by (cases "dropWhile is_hex s") (auto simp: valid_size_text_def list_all_iff)
  qed
qed

lemma good_line_no_cr: "good_line d line n \<Longrightarrow> 13 \<notin> set line"
proof
  assume g: "good_line d line n" and "13 \<in> set line"
  then have "ucast ((13 :: byte) AND 127) \<in> set (ascii_text line)" by (force simp: ascii_text_def)
  then have "13 \<in> set (ascii_text line)" by simp
  with g show False by (auto simp: good_line_def dest: valid_size_text_no_cr)
qed

lemma index_crlf_line: "13 \<notin> set line \<Longrightarrow> index_crlf (line @ 13 # 10 # rest) = Some (length line)"
proof (induction line)
  case (Cons a line)
  then show ?case by (cases line) auto
qed simp

lemma index_crlf_none: "13 \<notin> set (butlast bs) \<Longrightarrow> index_crlf bs = None"
  by (induction bs rule: index_crlf.induct) auto

text \<open>A complete size line is consumed; an incomplete one is waited for.\<close>

lemma read_size_line_good:
  assumes "good_line d line n" and "pending d = line_of line @ rest"
  shows "read_size_line P d =
    (if n = 0 then (Some (Inr True), d\<lparr>dec_output := out_end (dec_output d), pending := []\<rparr>)
     else (None, d\<lparr>pending := rest, expectedChunkBytes := Some n\<rparr>))"
  using assms index_crlf_line [OF good_line_no_cr [OF assms(1)], of rest]
  by (simp add: read_size_line_def good_line_def line_of_def Let_def)

lemma read_size_line_partial:
  assumes "good_line d line n" and "line_of line = pending d @ later" and "later \<noteq> []"
  shows "read_size_line P d = (Some (Inr True), d)"
proof -
  have len: "length (pending d) \<le> length line + 1"
    using assms(3) arg_cong [of _ _ length, OF assms(2)] by (cases later) (auto simp: line_of_def)
  have "butlast (pending d) = take (length (pending d) - 1) (line @ [13, 10])"
    using assms(2) by (metis append_eq_conv_conj butlast_conv_take line_of_def take_take min.absorb1 diff_le_self)
  then have "butlast (pending d) = take (length (pending d) - 1) line" using len by simp
  then have "13 \<notin> set (butlast (pending d))"
    using good_line_no_cr [OF assms(1)] by (auto dest: in_set_takeD)
  from index_crlf_none [OF this] show ?thesis
    using len assms(1) by (simp add: read_size_line_def good_line_def)
qed

text \<open>Draining is flushing, as often as needed: one chunk at a time, whatever the output accepts.\<close>

lemma drain_step:
  assumes "pending d \<noteq> []" and "flush_step P A d = (r, d')" and "r = None \<or> r = Some (Inr False)"
  shows "drain P A d = drain P A d'"
  using assms by (auto simp: drain.simps [of P A d] drain.simps [of P A d'] flush.simps [of P A d])

lemma drain_return:
  assumes "pending d \<noteq> []" and "flush_step P A d = (Some (Inr True), d')"
  shows "drain P A d = (Inr True, d')"
  using assms by (auto simp: drain.simps [of P A d] flush.simps [of P A d])

lemma drain_empty [simp]: "pending d = [] \<Longrightarrow> drain P A d = (Inr True, d)"
  by (simp add: drain.simps [of P A d] flush.simps [of P A d])

abbreviation emit :: "bytes list \<Rightarrow> ChunkedBodyDecoder \<Rightarrow> ChunkedBodyDecoder" where
  "emit ds d \<equiv> d\<lparr>dec_output := dec_output d\<lparr>written := written (dec_output d) @ ds\<rparr>\<rparr>"

lemma drain_frame:
  assumes "frame_ok d f" and "expectedChunkBytes d = None" and "pending d = frame_bytes f @ rest"
    and "\<not> out_ended (dec_output d)"
  shows "drain P A d = drain P A (emit [frame_data f] d\<lparr>pending := rest\<rparr>)"
proof -
  obtain line data tail where f: "f = (line, data, tail)" by (cases f)
  let ?d1 = "d\<lparr>pending := data @ tail @ rest, expectedChunkBytes := Some (length data)\<rparr>"
  let ?d2 = "emit [data] d\<lparr>pending := rest\<rparr>"
  have ok: "good_line d line (length data)" "data \<noteq> []" "length tail = 2" using assms(1) by (simp_all add: f)
  have "read_size_line P d = (None, ?d1)"
    using read_size_line_good [OF ok(1), of "data @ tail @ rest" P] ok(2) assms(3) by (simp add: f)
  moreover have "take_chunk P A (length data) ?d1 =
      (if \<not> A (written (dec_output d) @ [data]) then Some (Inr False) else None, ?d2)"
    using ok(3) assms(2,4) by (simp add: take_chunk_def out_write_def Let_def)
  ultimately have "flush_step P A d = (if \<not> A (written (dec_output d) @ [data]) then Some (Inr False) else None, ?d2)"
    using assms(2) by (simp add: flush_step_def)
  from drain_step [OF _ this] show ?thesis
    using assms(3) by (simp add: f line_of_def)
qed

lemma frame_ok_update [simp]:
  "frame_ok (d\<lparr>pending := p\<rparr>) = frame_ok d" "frame_ok (d\<lparr>dec_output := out\<rparr>) = frame_ok d"
  "frame_ok (d\<lparr>expectedChunkBytes := e\<rparr>) = frame_ok d"
  by (auto simp: fun_eq_iff good_line_def)

lemma drain_frames:
  assumes "list_all (frame_ok d) fs" and "expectedChunkBytes d = None"
    and "pending d = concat (map frame_bytes fs) @ rest" and "\<not> out_ended (dec_output d)"
  shows "drain P A d = drain P A (emit (map frame_data fs) d\<lparr>pending := rest\<rparr>)"
  using assms
proof (induction fs arbitrary: d)
  case Nil
  then show ?case by (cases d) simp
next
  case (Cons f fs)
  let ?d = "emit [frame_data f] d\<lparr>pending := concat (map frame_bytes fs) @ rest\<rparr>"
  have "drain P A d = drain P A ?d"
    using Cons.prems by (intro drain_frame) simp_all
  also have "\<dots> = drain P A (emit (map frame_data fs) ?d\<lparr>pending := rest\<rparr>)"
    using Cons.prems by (intro Cons.IH) simp_all
  finally show ?case by simp
qed

text \<open>The bytes \<open>v\<close> received since the last chunk boundary: all of them are pending, or the size line among
  them has been read.\<close>

definition holds :: "ChunkedBodyDecoder \<Rightarrow> bytes \<Rightarrow> bool" where
  "holds d v \<longleftrightarrow> (expectedChunkBytes d = None \<and> pending d = v) \<or>
     (\<exists>line n. good_line d line n \<and> 0 < n \<and> expectedChunkBytes d = Some n \<and> v = line_of line @ pending d)"

lemma good_line_update [simp]:
  "good_line (d\<lparr>pending := p\<rparr>) = good_line d" "good_line (d\<lparr>dec_output := out\<rparr>) = good_line d"
  "good_line (d\<lparr>expectedChunkBytes := e\<rparr>) = good_line d"
  by (auto simp: fun_eq_iff good_line_def)

lemma holds_pending_le: "holds d v \<Longrightarrow> length (pending d) \<le> length v"
  by (auto simp: holds_def)

lemma holds_append: "holds d v \<Longrightarrow> holds (d\<lparr>pending := pending d @ c\<rparr>) (v @ c)"
  by (auto simp: holds_def)

lemma flush_cong:
  "pending d \<noteq> [] \<Longrightarrow> pending d' \<noteq> [] \<Longrightarrow> flush_step P A d = flush_step P A d' \<Longrightarrow> flush P A d = flush P A d'"
  by (simp add: flush.simps [of P A d] flush.simps [of P A d'])

text \<open>Having read the size line makes no difference.\<close>

lemma drain_holds:
  assumes "holds d v"
  shows "drain P A d = drain P A (d\<lparr>pending := v, expectedChunkBytes := None\<rparr>)"
proof (cases "expectedChunkBytes d")
  case None
  with assms show ?thesis by (cases d) (auto simp: holds_def)
next
  case (Some n)
  then obtain line where l: "good_line d line n" "0 < n" "v = line_of line @ pending d"
    using assms by (auto simp: holds_def)
  let ?d = "d\<lparr>pending := v, expectedChunkBytes := None\<rparr>"
  have "d\<lparr>pending := pending d, expectedChunkBytes := Some n\<rparr> = d" using Some by (cases d) simp
  then have "read_size_line P ?d = (None, d)"
    using read_size_line_good [of ?d line n "pending d" P] l by simp
  then have step: "flush_step P A ?d = take_chunk P A n d" using Some by (simp add: flush_step_def)
  show ?thesis
  proof (cases "pending d = []")
    case True
    then have "take_chunk P A n d = (Some (Inr True), d)"
      by (simp add: take_chunk_def assertPendingWithinLimit_def)
    with step drain_return [of ?d P A d] l(3) True show ?thesis by (simp add: line_of_def)
  next
    case False
    have "flush_step P A d = take_chunk P A n d" using Some by (simp add: flush_step_def)
    then have "flush P A ?d = flush P A d"
      using False l(3) step by (intro flush_cong) (simp_all add: line_of_def)
    then show ?thesis by (simp add: drain.simps [of P A d] drain.simps [of P A ?d])
  qed
qed

text \<open>With part of a chunk, or part of a size line, the decoder waits for the rest.\<close>

lemma drain_partial_line:
  assumes "good_line d line n" and "line_of line = v @ later" and "later \<noteq> []"
    and "expectedChunkBytes d = None" and "pending d = v"
  shows "drain P A d = (Inr True, d)"
proof (cases "v = []")
  case False
  have "read_size_line P d = (Some (Inr True), d)"
    using read_size_line_partial [OF assms(1) _ assms(3)] assms(2,5) by simp
  with assms(4) have "flush_step P A d = (Some (Inr True), d)" by (simp add: flush_step_def)
  with drain_return [of d P A d] False assms(5) show ?thesis by simp
qed (use assms in simp)

lemma drain_partial:
  assumes "frame_ok d f" and "frame_bytes f = v @ later" and "later \<noteq> []"
    and "expectedChunkBytes d = None" and "pending d = v" and "length v \<le> maxPendingBytes d"
  shows "\<exists>d'. drain P A d = (Inr True, d') \<and> holds d' v \<and> dec_output d' = dec_output d \<and>
    maxPendingBytes d' = maxPendingBytes d \<and> maxChunkSizeLineBytes d' = maxChunkSizeLineBytes d"
proof -
  obtain line data tail where f: "f = (line, data, tail)" by (cases f)
  have ok: "good_line d line (length data)" "data \<noteq> []" "length tail = 2" using assms(1) by (simp_all add: f)
  show ?thesis
  proof (cases "length v < length (line_of line)")
    case True
    then obtain us where "line_of line = v @ us" "us \<noteq> []"
      using assms(2) by (auto simp: f append_eq_append_conv2)
    with drain_partial_line [OF ok(1) _ _ assms(4,5)] assms(4,5) show ?thesis
      by (auto simp: holds_def)
  next
    case False
    then obtain us where v: "v = line_of line @ us" "us @ later = data @ tail"
      using split_at [of v later "line_of line" "data @ tail"] assms(2) by (auto simp: f)
    let ?d = "d\<lparr>pending := us, expectedChunkBytes := Some (length data)\<rparr>"
    have short: "length us < length data + 2"
      using assms(3) arg_cong [of _ _ length, OF v(2)] ok(3) by (cases later) auto
    have "read_size_line P d = (None, ?d)"
      using read_size_line_good [OF ok(1), of us P] ok(2) assms(5) v(1) by simp
    then have "flush_step P A d = (Some (Inr True), ?d)"
      using short assms(4,6) v(1) by (simp add: flush_step_def take_chunk_def assertPendingWithinLimit_def)
    with drain_return [of d P A ?d] assms(5) v(1) ok(1,2) show ?thesis
      by (auto simp: holds_def line_of_def)
  qed
qed

lemma feed_drain:
  assumes "length (pending d @ c) \<le> maxPendingBytes d"
  shows "feed P A c d = drain P A (d\<lparr>pending := pending d @ c\<rparr>)"
  using assms by (simp add: feed_def decoder_write_def assertPendingWithinLimit_def Let_def drain.simps [of P A "d\<lparr>pending := _\<rparr>"]
      split: prod.splits sum.splits bool.splits)

lemma frames_split:
  assumes "x @ later = concat (map frame_bytes fs) @ z"
  shows "\<exists>fs1 fs2 p. fs = fs1 @ fs2 \<and> x = concat (map frame_bytes fs1) @ p \<and>
    p @ later = concat (map frame_bytes fs2) @ z \<and> (fs2 = [] \<or> length p < length (frame_bytes (hd fs2)))"
  using assms
proof (induction fs arbitrary: x)
  case (Cons f fs)
  show ?case
  proof (cases "length x < length (frame_bytes f)")
    case True
    with Cons.prems show ?thesis by (intro exI [of _ "[]"] exI [of _ "f # fs"] exI [of _ x]) simp
  next
    case False
    then obtain y where y: "x = frame_bytes f @ y" "y @ later = concat (map frame_bytes fs) @ z"
      using split_at [of x later "frame_bytes f" "concat (map frame_bytes fs) @ z"] Cons.prems by auto
    from Cons.IH [OF y(2)] obtain fs1 fs2 p where "fs = fs1 @ fs2" "y = concat (map frame_bytes fs1) @ p"
      "p @ later = concat (map frame_bytes fs2) @ z" "fs2 = [] \<or> length p < length (frame_bytes (hd fs2))"
      by blast
    with y(1) show ?thesis by (intro exI [of _ "f # fs1"] exI [of _ fs2] exI [of _ p]) simp
  qed
qed simp

text \<open>The configuration of a decoder, which no operation changes.\<close>

definition same_limits :: "ChunkedBodyDecoder \<Rightarrow> ChunkedBodyDecoder \<Rightarrow> bool" where
  "same_limits d d' \<longleftrightarrow> maxPendingBytes d' = maxPendingBytes d \<and> maxChunkSizeLineBytes d' = maxChunkSizeLineBytes d"

lemma same_limits_ok:
  "same_limits d d' \<Longrightarrow> good_line d' = good_line d" "same_limits d d' \<Longrightarrow> frame_ok d' = frame_ok d"
  by (auto simp: same_limits_def good_line_def fun_eq_iff)

lemma feed_part:
  assumes "holds d v" and "list_all (frame_ok d) fs" and "good_line d zline 0" and "\<not> out_ended (dec_output d)"
    and "v @ c @ later = concat (map frame_bytes fs) @ line_of zline" and "later \<noteq> []"
    and "length v + length c \<le> maxPendingBytes d" and "\<forall>f \<in> set fs. length (frame_bytes f) \<le> F"
    and "length (line_of zline) \<le> F" and "F \<le> maxPendingBytes d"
  shows "\<exists>fs1 fs2 p d'. fs = fs1 @ fs2 \<and> feed P A c d = (Inr True, d') \<and> holds d' p \<and> length p < F \<and>
    p @ later = concat (map frame_bytes fs2) @ line_of zline \<and> same_limits d d' \<and>
    dec_output d' = dec_output d\<lparr>written := written (dec_output d) @ map frame_data fs1\<rparr>"
proof -
  obtain fs1 fs2 p where fs: "fs = fs1 @ fs2" "v @ c = concat (map frame_bytes fs1) @ p"
      "p @ later = concat (map frame_bytes fs2) @ line_of zline"
    and p: "fs2 = [] \<or> length p < length (frame_bytes (hd fs2))"
    using frames_split [of "v @ c" later fs "line_of zline"] assms(5) by auto
  let ?w = "d\<lparr>pending := v @ c, expectedChunkBytes := None\<rparr>"
  let ?d = "emit (map frame_data fs1) ?w\<lparr>pending := p\<rparr>"
  have "feed P A c d = drain P A ?w"
    using feed_drain [of d c P A] drain_holds [OF holds_append [OF assms(1), of c]] holds_pending_le [OF assms(1)] assms(7)
    by simp
  also have "\<dots> = drain P A ?d"
    using assms(2,4) fs(1,2) by (intro drain_frames) (simp_all add: list_all_append)
  finally have feed: "feed P A c d = drain P A ?d" .
  have "\<exists>d'. drain P A ?d = (Inr True, d') \<and> holds d' p \<and> dec_output d' = dec_output ?d \<and> same_limits d d' \<and> length p < F"
  proof (cases fs2)
    case Nil
    then have z: "line_of zline = p @ later" using fs(3) by simp
    then have "length p < length (line_of zline)" using assms(6) by simp
    moreover have "drain P A ?d = (Inr True, ?d)"
      using assms(3) by (intro drain_partial_line [OF _ z assms(6), where n = 0]) simp_all
    ultimately show ?thesis using assms(9) by (auto simp: holds_def same_limits_def)
  next
    case (Cons f fs')
    then have eq: "frame_bytes f @ (concat (map frame_bytes fs') @ line_of zline) = p @ later"
      and short: "length p < length (frame_bytes f)"
      using fs(3) p by simp_all
    obtain us where us: "frame_bytes f = p @ us"
      by (rule split_at [OF eq less_imp_le [OF short]])
    with short have ne: "us \<noteq> []" by auto
    have F: "length p < F" using p Cons assms(8) fs(1) by auto
    have ok: "frame_ok ?d f" using assms(2) fs(1) Cons by simp
    obtain d' where "drain P A ?d = (Inr True, d')" "holds d' p" "dec_output d' = dec_output ?d"
      "maxPendingBytes d' = maxPendingBytes d" "maxChunkSizeLineBytes d' = maxChunkSizeLineBytes d"
      using drain_partial [OF ok us ne, of P A] F assms(10) by auto
    with F show ?thesis by (auto simp: same_limits_def)
  qed
  then obtain d' where "drain P A ?d = (Inr True, d')" "holds d' p" "dec_output d' = dec_output ?d"
    "same_limits d d'" "length p < F" by blast
  with feed fs(1,3) show ?thesis
    by (intro exI [of _ fs1] exI [of _ fs2] exI [of _ p] exI [of _ d']) simp
qed

lemma feed_end:
  assumes "holds d v" and "list_all (frame_ok d) fs" and "good_line d zline 0" and "\<not> out_ended (dec_output d)"
    and "v @ c = concat (map frame_bytes fs) @ line_of zline @ trailer" and "length v + length c \<le> maxPendingBytes d"
  shows "\<exists>d'. feed P A c d = (Inr True, d') \<and>
    dec_output d' = \<lparr>written = written (dec_output d) @ map frame_data fs, out_ended = True\<rparr>"
proof -
  let ?w = "d\<lparr>pending := v @ c, expectedChunkBytes := None\<rparr>"
  let ?d = "emit (map frame_data fs) ?w\<lparr>pending := line_of zline @ trailer\<rparr>"
  have "feed P A c d = drain P A ?w"
    using feed_drain [of d c P A] drain_holds [OF holds_append [OF assms(1), of c]] holds_pending_le [OF assms(1)] assms(6)
    by simp
  also have "\<dots> = drain P A ?d"
    using assms(2,4,5) by (intro drain_frames) simp_all
  also have "flush_step P A ?d = (Some (Inr True), ?d\<lparr>dec_output := out_end (dec_output ?d), pending := []\<rparr>)"
    using read_size_line_good [of ?d zline 0 trailer P] assms(3) by (simp add: flush_step_def)
  then have "drain P A ?d = (Inr True, ?d\<lparr>dec_output := out_end (dec_output ?d), pending := []\<rparr>)"
    by (intro drain_return) (simp_all add: line_of_def)
  finally show ?thesis by (cases "dec_output d") (simp add: out_end_def)
qed

section \<open>Properties\<close>

lemma feed_all_frames:
  assumes "holds d v" and "list_all (frame_ok d) fs" and "good_line d zline 0" and "\<not> out_ended (dec_output d)"
    and "v @ concat ds @ c = concat (map frame_bytes fs) @ line_of zline @ trailer"
    and "length (v @ concat ds) < length (concat (map frame_bytes fs) @ line_of zline)"
    and "length v < F" and "\<forall>f \<in> set fs. length (frame_bytes f) \<le> F" and "length (line_of zline) \<le> F"
    and "\<forall>x \<in> set (c # ds). F + length x \<le> maxPendingBytes d"
  shows "\<exists>d'. feed_all P A (ds @ [c]) d = (Inr True, d') \<and>
    dec_output d' = \<lparr>written = written (dec_output d) @ map frame_data fs, out_ended = True\<rparr>"
  using assms
proof (induction ds arbitrary: d v fs)
  case Nil
  then obtain d' where "feed P A c d = (Inr True, d')"
    "dec_output d' = \<lparr>written = written (dec_output d) @ map frame_data fs, out_ended = True\<rparr>"
    using feed_end [of d v fs zline c trailer P A] by auto
  then show ?case by simp
next
  case (Cons x ds)
  obtain later where later: "(v @ x) @ later = concat (map frame_bytes fs) @ line_of zline" "later \<noteq> []"
      "later @ trailer = concat ds @ c"
  proof -
    let ?S = "concat (map frame_bytes fs) @ line_of zline"
    obtain us where "?S = (v @ x) @ us" "us @ trailer = concat ds @ c"
      using split_at [of ?S trailer "v @ x" "concat ds @ c"] Cons.prems(5,6) by auto
    moreover from this have "us \<noteq> []" using Cons.prems(6) by auto
    ultimately show ?thesis using that by simp
  qed
  obtain fs1 fs2 p d' where r: "fs = fs1 @ fs2" "feed P A x d = (Inr True, d')" "holds d' p" "length p < F"
      "p @ later = concat (map frame_bytes fs2) @ line_of zline" "same_limits d d'"
      "dec_output d' = dec_output d\<lparr>written := written (dec_output d) @ map frame_data fs1\<rparr>"
    using feed_part [of d v fs zline x later F P A] Cons.prems later by auto
  note lim = same_limits_ok [OF r(6)]
  have "\<exists>e. feed_all P A (ds @ [c]) d' = (Inr True, e) \<and>
      dec_output e = \<lparr>written = written (dec_output d') @ map frame_data fs2, out_ended = True\<rparr>"
  proof (rule Cons.IH [OF r(3)])
    show "p @ concat ds @ c = concat (map frame_bytes fs2) @ line_of zline @ trailer"
      using r(5) later(3) by (metis append.assoc)
    have "length (p @ later) = length (concat (map frame_bytes fs2) @ line_of zline)" using r(5) by simp
    moreover have "length (v @ x) + length later = length (concat (map frame_bytes fs) @ line_of zline)"
      using arg_cong [of _ _ length, OF later(1)] by simp
    ultimately show "length (p @ concat ds) < length (concat (map frame_bytes fs2) @ line_of zline)"
      using Cons.prems(6) by simp
  qed (use Cons.prems r(1,4,6,7) lim in \<open>simp_all add: same_limits_def\<close>)
  with r(1,2,7) show ?case by auto
qed



lemma good_line_zero: "good_line (new_decoder 1024 65536 out) [48] 0"
  by (simp add: good_line_def new_decoder_def ascii_text_def valid_size_text_def parseInt16_def is_hex_def hex_value_def
      max_safe_integer_def)

text \<open>The end of a body depends on the write boundaries: with the default limits, the last chunk
  \<open>0\r\n\r\n\<close> in one write ends the output, but when its final \<open>\r\n\<close> comes in a write of its own the
  decoder takes it for an empty size line and throws a \<open>protocol-error\<close>.\<close>

theorem split_terminator_throws:
  "(\<exists>d'. feed_all P A [[48, 13, 10, 13, 10]] (new_decoder 1024 65536 \<lparr>written = w, out_ended = False\<rparr>) = (Inr True, d') \<and>
      out_ended (dec_output d')) \<and>
   (\<exists>e d'. feed_all P A [[48, 13, 10], [13, 10]] (new_decoder 1024 65536 \<lparr>written = w, out_ended = False\<rparr>) = (Inl e, d') \<and>
      thrown_code e = Some protocol_error)"
proof
  let ?d = "new_decoder 1024 65536 \<lparr>written = w, out_ended = False\<rparr>"
  have d: "holds ?d []" "\<not> out_ended (dec_output ?d)" "expectedChunkBytes ?d = None" "pending ?d = []"
    by (simp_all add: holds_def new_decoder_def)
  show "\<exists>d'. feed_all P A [[48, 13, 10, 13, 10]] ?d = (Inr True, d') \<and> out_ended (dec_output d')"
    using feed_end [OF d(1) _ good_line_zero d(2), of "[]" "[48, 13, 10, 13, 10]" "[13, 10]" P A]
    by (auto simp: line_of_def new_decoder_def)
  let ?e = "?d\<lparr>pending := [], dec_output := out_end (dec_output ?d)\<rparr>"
  have "flush_step P A (?d\<lparr>pending := [48, 13, 10]\<rparr>) = (Some (Inr True), ?e)"
    using read_size_line_good [of "?d\<lparr>pending := [48, 13, 10]\<rparr>" "[48]" 0 "[]" P] good_line_zero d(3)
    by (simp add: flush_step_def line_of_def)
  then have first: "feed P A [48, 13, 10] ?d = (Inr True, ?e)"
    using drain_return [of "?d\<lparr>pending := [48, 13, 10]\<rparr>" P A ?e]
    by (subst feed_drain) (simp_all add: new_decoder_def)
  have "flush_step P A (?e\<lparr>pending := [13, 10]\<rparr>) = (Some (Inl (size_line_error P [])), ?e\<lparr>pending := [13, 10]\<rparr>)"
    by (simp add: flush_step_def read_size_line_def new_decoder_def ascii_text_def valid_size_text_def)
  then have "feed P A [13, 10] ?e = (Inl (size_line_error P []), ?e\<lparr>pending := [13, 10]\<rparr>)"
    by (subst feed_drain) (simp_all add: new_decoder_def drain.simps flush.simps)
  with first show "\<exists>e d'. feed_all P A [[48, 13, 10], [13, 10]] ?d = (Inl e, d') \<and> thrown_code e = Some protocol_error"
    by (simp add: size_line_error_def createVerserError_def)
qed

end
