(* ===== verification/Routing.thy ===== *)
theory Routing
  imports Errors
begin

text \<open>
  Route identities, domains, lifecycle events and registration requests:
  \<open>packages/verser-common/src/lib/routing.ts\<close>, \<open>route-lifecycle.ts\<close>, \<open>registration.ts\<close> and
  \<open>broker-request.ts\<close>.
\<close>

section \<open>Routed domains (routing.ts)\<close>

record RoutedDomainRegistration =
  targetId :: jsstr
  domain :: jsstr

definition createGuestId :: "'p platform_scheme \<Rightarrow> jsstr \<Rightarrow> jsstr result" where
  "createGuestId P value = requireNonEmpty P value ''guest id''"

definition createPeerId :: "'p platform_scheme \<Rightarrow> jsstr \<Rightarrow> jsstr result" where
  "createPeerId P value = requireNonEmpty P value ''peer id''"

definition createRoutedDomainRegistration ::
  "'p platform_scheme \<Rightarrow> RoutedDomainRegistration \<Rightarrow> RoutedDomainRegistration result" where
  "createRoutedDomainRegistration P registration =
     bindE (createGuestId P (targetId registration)) (\<lambda>t.
     bindE (requireNonEmpty P (domain registration) ''routed domain'') (\<lambda>d.
     Inr \<lparr>targetId = t, domain = d\<rparr>))"

text \<open>The pieces of the domain normalisation: \<open>replace(/^\[/, '')\<close>, \<open>replace(/\]$/, '')\<close> and
  \<open>replace(/\.$/, '')\<close>.\<close>

definition strip_open_bracket :: "jsstr \<Rightarrow> jsstr" where
  "strip_open_bracket s = (case s of c # t \<Rightarrow> if c = 91 then t else s | [] \<Rightarrow> [])"

definition strip_last :: "ucode \<Rightarrow> jsstr \<Rightarrow> jsstr" where
  "strip_last c s = (if s \<noteq> [] \<and> last s = c then butlast s else s)"

definition normalizeVerserRouteDomain :: "'p platform_scheme \<Rightarrow> jsstr \<Rightarrow> jsstr" where
  "normalizeVerserRouteDomain P value =
    (let trimmed_value = toLowerCase P (trim value)
     in if length trimmed_value = 0 then []
        else case urlHostname P (js ''http://'' @ trimmed_value) of
               Some hostname \<Rightarrow> strip_last 46 (strip_last 93 (strip_open_bracket hostname))
             | None \<Rightarrow> strip_last 46 trimmed_value)"

definition resolveRouteForHostname ::
  "RoutedDomainRegistration list \<Rightarrow> jsstr \<Rightarrow> RoutedDomainRegistration option" where
  "resolveRouteForHostname routes hostname = find (\<lambda>route. domain route = hostname) routes"

text \<open>\<open>url.hostname\<close> of an already parsed URL.\<close>

definition resolveRouteForUrl ::
  "RoutedDomainRegistration list \<Rightarrow> jsstr \<Rightarrow> RoutedDomainRegistration option" where
  "resolveRouteForUrl routes url_hostname = resolveRouteForHostname routes url_hostname"

lemma createRoutedDomainRegistration_Inr [result_simps]:
  "createRoutedDomainRegistration P r = Inr q \<longleftrightarrow>
   q = \<lparr>targetId = trim (targetId r), domain = trim (domain r)\<rparr> \<and>
   trim (targetId r) \<noteq> [] \<and> trim (domain r) \<noteq> []"
  by (auto simp: createRoutedDomainRegistration_def createGuestId_def result_simps)

section \<open>Route lifecycle (route-lifecycle.ts)\<close>

record VerserRouteGeneration =
  generationId :: jsstr
  sessionId :: "jsstr option"

text \<open>The argument \<open>fresh\<close> is the generated id \<open>gen-<time>-<random>\<close> used when none is given.\<close>

definition createVerserRouteGeneration ::
  "'p platform_scheme \<Rightarrow> jsstr \<Rightarrow> jsstr option \<Rightarrow> jsstr option \<Rightarrow> VerserRouteGeneration result" where
  "createVerserRouteGeneration P fresh generation session =
    (let genId = (case generation of Some g \<Rightarrow> g | None \<Rightarrow> fresh)
     in if length (trim genId) = 0
        then throwE P protocol_error ''generationId must be a non-empty string''
               [(''field'', CStr (js ''generationId''))]
        else Inr \<lparr>generationId = trim genId,
                  sessionId = (case session of
                      Some s \<Rightarrow> (if 0 < length (trim s) then Some (trim s) else None)
                    | None \<Rightarrow> None)\<rparr>)"

datatype VerserRouteLifecycleEventType = added | removed | changed | degraded

datatype VerserRouteEventReason =
    registered | revoked | disconnected | reconnected | restored | timed_out | updated

fun event_type_string :: "VerserRouteLifecycleEventType \<Rightarrow> jsstr" where
  "event_type_string added = js ''added''"
| "event_type_string removed = js ''removed''"
| "event_type_string changed = js ''changed''"
| "event_type_string degraded = js ''degraded''"

fun event_reason_string :: "VerserRouteEventReason \<Rightarrow> jsstr" where
  "event_reason_string registered = js ''registered''"
| "event_reason_string revoked = js ''revoked''"
| "event_reason_string disconnected = js ''disconnected''"
| "event_reason_string reconnected = js ''reconnected''"
| "event_reason_string restored = js ''restored''"
| "event_reason_string timed_out = js ''timeout''"
| "event_reason_string updated = js ''updated''"

text \<open>The lists the code checks membership in.\<close>

definition VALID_EVENT_TYPES :: "VerserRouteLifecycleEventType list" where
  "VALID_EVENT_TYPES = [added, removed, changed, degraded]"

definition VALID_EVENT_REASONS :: "VerserRouteEventReason list" where
  "VALID_EVENT_REASONS = [registered, revoked, disconnected, reconnected, restored, timed_out, updated]"

text \<open>An event before validation, its type and reason still strings.\<close>

record raw_lifecycle_event =
  raw_type :: jsstr
  raw_targetId :: jsstr
  raw_domain :: jsstr
  raw_reason :: "jsstr option"
  raw_generation :: "(jsstr option \<times> jsstr option) option"

record VerserRouteLifecycleEvent =
  ev_type :: VerserRouteLifecycleEventType
  ev_targetId :: jsstr
  ev_domain :: jsstr
  ev_reason :: "VerserRouteEventReason option"
  ev_generation :: "VerserRouteGeneration option"

definition createRouteLifecycleEvent ::
  "'p platform_scheme \<Rightarrow> jsstr \<Rightarrow> raw_lifecycle_event \<Rightarrow> VerserRouteLifecycleEvent result" where
  "createRouteLifecycleEvent P fresh event =
    (case find (\<lambda>t. event_type_string t = raw_type event) VALID_EVENT_TYPES of
       None \<Rightarrow> throwE P protocol_error ''Invalid route lifecycle event type''
                 [(''type'', CStr (raw_type event))]
     | Some ty \<Rightarrow>
       (let reason = map_option (\<lambda>r. find (\<lambda>x. event_reason_string x = r) VALID_EVENT_REASONS)
                                (raw_reason event)
        in if reason = Some None
           then throwE P protocol_error ''Invalid route lifecycle event reason''
                  [(''reason'', CStr (the (raw_reason event)))]
           else
             bindE (requireNonEmpty P (raw_targetId event) ''route lifecycle event targetId'') (\<lambda>t.
             bindE (requireNonEmpty P (raw_domain event) ''route lifecycle event domain'') (\<lambda>d.
             bindE (case raw_generation event of
                      None \<Rightarrow> Inr None
                    | Some (g, s) \<Rightarrow>
                        bindE (createVerserRouteGeneration P fresh g s) (\<lambda>gen. Inr (Some gen)))
               (\<lambda>gen. Inr \<lparr>ev_type = ty, ev_targetId = t, ev_domain = d,
                           ev_reason = Option.bind reason id, ev_generation = gen\<rparr>)))))"

text \<open>The same call with a typed event and reason, as the Host makes it.\<close>

definition typed_event ::
  "VerserRouteLifecycleEventType \<Rightarrow> jsstr \<Rightarrow> jsstr \<Rightarrow> VerserRouteEventReason
    \<Rightarrow> VerserRouteGeneration option \<Rightarrow> raw_lifecycle_event" where
  "typed_event ty t d reason gen =
     \<lparr>raw_type = event_type_string ty, raw_targetId = t, raw_domain = d,
      raw_reason = Some (event_reason_string reason),
      raw_generation = map_option (\<lambda>g. (Some (generationId g), sessionId g)) gen\<rparr>"

lemma find_event_type: "find (\<lambda>t. event_type_string t = event_type_string ty) VALID_EVENT_TYPES = Some ty"
  by (cases ty) (simp_all add: VALID_EVENT_TYPES_def)

lemma find_event_reason:
  "find (\<lambda>r. event_reason_string r = event_reason_string x) VALID_EVENT_REASONS = Some x"
  by (cases x) (simp_all add: VALID_EVENT_REASONS_def)

text \<open>A generation whose ids are already trimmed passes through unchanged.\<close>

definition generation_ok :: "VerserRouteGeneration \<Rightarrow> bool" where
  "generation_ok g \<longleftrightarrow> trimmed (generationId g) \<and> generationId g \<noteq> [] \<and>
     (\<forall>s. sessionId g = Some s \<longrightarrow> trimmed s \<and> s \<noteq> [])"

lemma createVerserRouteGeneration_ok:
  "createVerserRouteGeneration P f g s = Inr gen \<Longrightarrow> generation_ok gen"
  by (auto simp: createVerserRouteGeneration_def generation_ok_def Let_def
        split: if_splits option.splits)

lemma createVerserRouteGeneration_id:
  "generation_ok g \<Longrightarrow> createVerserRouteGeneration P f (Some (generationId g)) (sessionId g) = Inr g"
  by (cases "sessionId g")
     (auto simp: createVerserRouteGeneration_def generation_ok_def Let_def)

text \<open>The Host's own calls never throw on trimmed, non-empty ids and carry their fields over.\<close>

lemma createRouteLifecycleEvent_typed:
  assumes "trimmed t" "t \<noteq> []" "trimmed d" "d \<noteq> []" "\<And>g. gen = Some g \<Longrightarrow> generation_ok g"
  shows "createRouteLifecycleEvent P fresh (typed_event ty t d reason gen) =
    Inr \<lparr>ev_type = ty, ev_targetId = t, ev_domain = d, ev_reason = Some reason, ev_generation = gen\<rparr>"
  using assms
  by (cases gen)
     (simp_all add: createRouteLifecycleEvent_def typed_event_def find_event_type find_event_reason
        requireNonEmpty_valid createVerserRouteGeneration_id)

definition createBrokerRouteLifecycleControlFrame ::
  "'p platform_scheme \<Rightarrow> jsstr \<Rightarrow> raw_lifecycle_event list \<Rightarrow> VerserRouteLifecycleEvent list result" where
  "createBrokerRouteLifecycleControlFrame P fresh events = mapE (createRouteLifecycleEvent P fresh) events"

text \<open>The argument is \<open>request.domains\<close>: an array of strings or not an array.\<close>

definition createGuestRevocationRequest ::
  "'p platform_scheme \<Rightarrow> jsstr list option \<Rightarrow> jsstr list result" where
  "createGuestRevocationRequest P domains =
     (case domains of
        None \<Rightarrow> throwE P revocation_failed ''Revocation request must include at least one domain'' []
      | Some ds \<Rightarrow>
          (if length ds = 0
           then throwE P revocation_failed ''Revocation request must include at least one domain''
                  [(''domains'', CStr [])]
           else mapE (\<lambda>d. requireNonEmpty P d ''revocation domain'') ds))"

datatype revocation_status = ack | partial | rev_error

record VerserGuestRevocationResponse =
  rev_status :: revocation_status
  rev_message :: "jsstr option"
  rev_failedDomains :: "(jsstr \<times> jsstr option) list option"

definition createGuestRevocationResponse ::
  "'p platform_scheme \<Rightarrow> revocation_status \<Rightarrow> jsstr option \<Rightarrow> (jsstr \<times> jsstr option) list option
    \<Rightarrow> VerserGuestRevocationResponse result" where
  "createGuestRevocationResponse P status message failed =
     bindE (case failed of
              Some fds \<Rightarrow>
                (if 0 < length fds
                 then bindE (mapE (\<lambda>(d, e). bindE (requireNonEmpty P d ''revocation failure domain'')
                                              (\<lambda>d'. Inr (d', e))) fds) (\<lambda>x. Inr (Some x))
                 else Inr None)
            | None \<Rightarrow> Inr None)
       (\<lambda>failedDomains.
         Inr \<lparr>rev_status = status, rev_message = message, rev_failedDomains = failedDomains\<rparr>)"

section \<open>Registration requests (registration.ts)\<close>

datatype VerserPeerRole = broker | guest

record VerserRegistrationRequest =
  reg_peerId :: jsstr
  reg_role :: VerserPeerRole
  reg_routedDomains :: "json"
  reg_brokerDomain :: "jsstr option"

text \<open>\<open>String(v ?? '')\<close> of the peer id, which the sender writes as a string.\<close>

fun json_to_id :: "json option \<Rightarrow> jsstr" where
  "json_to_id (Some (JStr s)) = s"
| "json_to_id _ = []"

definition role_of_json :: "json option \<Rightarrow> VerserPeerRole option" where
  "role_of_json v = (if v = Some (JStr (js ''broker'')) then Some broker
                     else if v = Some (JStr (js ''guest'')) then Some guest else None)"

text \<open>
  The argument is the parsed body; \<open>JSON.parse\<close> throws before this point on malformed text.
  A peer id that is not a string is outside the declared type of the request.
\<close>

definition parseRegistrationRequest ::
  "'p platform_scheme \<Rightarrow> json \<Rightarrow> VerserRegistrationRequest result" where
  "parseRegistrationRequest P parsed =
    (case role_of_json (obj_get parsed ''role'') of
       None \<Rightarrow> throwE P invalid_registration ''Registration role must be broker or guest''
                 [(''role'', CStr (json_to_id (obj_get parsed ''role'')))]
     | Some role \<Rightarrow>
       (let peerId = json_to_id (obj_get parsed ''peerId'') in
        if obj_get parsed ''brokerHopDomain'' \<noteq> None
        then throwE P invalid_registration ''brokerHopDomain is not supported; use brokerDomain''
               [(''peerId'', CStr peerId)]
        else
          (let supplied = obj_get parsed ''brokerDomain'';
               hasBrokerDomain = (supplied \<noteq> None \<and> supplied \<noteq> Some JNull);
               domains = (case obj_get parsed ''routedDomains'' of
                            Some JNull \<Rightarrow> JArr [] | None \<Rightarrow> JArr [] | Some d \<Rightarrow> d)
           in if hasBrokerDomain \<and> role \<noteq> broker
              then throwE P invalid_registration ''brokerDomain is only valid for broker registrations''
                     [(''role'', CStr (js ''guest''))]
              else if \<not> hasBrokerDomain
              then Inr \<lparr>reg_peerId = peerId, reg_role = role, reg_routedDomains = domains,
                        reg_brokerDomain = None\<rparr>
              else case supplied of
                     Some (JStr s) \<Rightarrow>
                       (let brokerDomain = normalizeVerserRouteDomain P s
                        in if length brokerDomain = 0
                           then throwE P invalid_registration ''brokerDomain must be a non-empty domain''
                                  [(''peerId'', CStr peerId)]
                           else Inr \<lparr>reg_peerId = peerId, reg_role = role,
                                     reg_routedDomains = domains,
                                     reg_brokerDomain = Some brokerDomain\<rparr>)
                   | _ \<Rightarrow> throwE P invalid_registration ''brokerDomain must be a string''
                            [(''peerId'', CStr peerId)])))"

definition createBrokerRoutesControlFrame ::
  "('r) RoutedDomainRegistration_scheme list \<Rightarrow> RoutedDomainRegistration list" where
  "createBrokerRoutesControlFrame routes =
     map (\<lambda>route. \<lparr>targetId = targetId route, domain = domain route\<rparr>) routes"

section \<open>Broker requests (broker-request.ts)\<close>

definition normalizeBrokerRequestMethod :: "'p platform_scheme \<Rightarrow> jsstr \<Rightarrow> jsstr result" where
  "normalizeBrokerRequestMethod P method =
     requireNonEmpty P (toUpperCase P (trim method)) ''request method''"

definition normalizeBrokerRequestPath :: "jsstr \<Rightarrow> jsstr" where
  "normalizeBrokerRequestPath path =
    (let normalizedPath = trim path
     in if normalizedPath = js ''*'' then normalizedPath
        else if length normalizedPath = 0 then js ''/''
        else if hd normalizedPath = 47 then normalizedPath
        else js ''/'' @ normalizedPath)"

section \<open>Properties\<close>

text \<open>A registration that is accepted names a Broker or a Guest, carries no legacy
  \<open>brokerHopDomain\<close>, and has a Broker domain only for a Broker, normalised and not empty.\<close>

theorem parseRegistrationRequest_sound:
  assumes "parseRegistrationRequest P parsed = Inr q"
  shows "obj_get parsed ''brokerHopDomain'' = None \<and>
     role_of_json (obj_get parsed ''role'') = Some (reg_role q) \<and>
     (\<forall>d. reg_brokerDomain q = Some d \<longrightarrow>
        reg_role q = broker \<and> d \<noteq> [] \<and>
        (\<exists>s. obj_get parsed ''brokerDomain'' = Some (JStr s) \<and> d = normalizeVerserRouteDomain P s))"
proof -
  obtain role where r: "role_of_json (obj_get parsed ''role'') = Some role"
    using assms by (auto simp: parseRegistrationRequest_def split: option.splits)
  show ?thesis
    using assms r
    by (auto simp: parseRegistrationRequest_def Let_def split: if_splits option.splits json.splits)
qed

theorem parseRegistrationRequest_sound_witness:
  "reg_brokerDomain (\<lparr>reg_peerId = js ''b'', reg_role = broker, reg_routedDomains = JArr [],
       reg_brokerDomain = Some (js ''x.y'')\<rparr>) = Some (js ''x.y'') \<and>
   obj_get (JObj [(js ''role'', JStr (js ''broker'')), (js ''peerId'', JStr (js ''b'')),
                  (js ''brokerDomain'', JStr (js '' X.y''))]) ''brokerHopDomain'' = None"
proof -
  let ?j = "JObj [(js ''role'', JStr (js ''broker'')), (js ''peerId'', JStr (js ''b'')),
                  (js ''brokerDomain'', JStr (js '' X.y''))]"
  let ?q = "\<lparr>reg_peerId = js ''b'', reg_role = broker, reg_routedDomains = JArr [],
             reg_brokerDomain = Some (js ''x.y'')\<rparr>"
  have "normalizeVerserRouteDomain sample_platform (js '' X.y'') = js ''x.y''"
    by (simp add: normalizeVerserRouteDomain_def js_def trim_def trimStart_def trimEnd_def js_ws_def
          toLowerCase_def is_ascii_def ascii_lower_def strip_last_def strip_open_bracket_def Let_def)
  then have "parseRegistrationRequest sample_platform ?j = Inr ?q"
    by (simp add: parseRegistrationRequest_def role_of_json_def Let_def)
  from parseRegistrationRequest_sound [OF this] show ?thesis by simp
qed

end
