(* ===== verification/Federation_Common.thy ===== *)
theory Federation_Common
  imports Routing
begin

text \<open>
  Host-to-Host route metadata: \<open>packages/verser-common/src/lib/federation.ts\<close>. The validators
  take what the peer sent as a JSON value and return the typed record or throw.
\<close>

section \<open>Route records\<close>

datatype VerserFederatedRouteSource = src_local | src_upstream

record FederatedRouteRegistration = RoutedDomainRegistration +
  originHostId :: jsstr
  nextHopHostId :: jsstr
  hopCount :: int
  viaHostIds :: "jsstr list"
  source :: VerserFederatedRouteSource

fun source_string :: "VerserFederatedRouteSource \<Rightarrow> jsstr" where
  "source_string src_local = js ''local''"
| "source_string src_upstream = js ''upstream''"

definition source_of_json :: "json option \<Rightarrow> VerserFederatedRouteSource option" where
  "source_of_json v = (if v = Some (JStr (js ''local'')) then Some src_local
                       else if v = Some (JStr (js ''upstream'')) then Some src_upstream else None)"

section \<open>Validators\<close>

text \<open>\<open>typeof value === 'number' && Number.isInteger(value) && value >= 0\<close>.\<close>

fun isValidHopCount :: "json option \<Rightarrow> bool" where
  "isValidHopCount (Some (JNum n)) = (isInteger n \<and> \<not> num_lt n 0)"
| "isValidHopCount _ = False"

fun json_int :: "json option \<Rightarrow> int" where
  "json_int (Some (JNum n)) = int_of_num n"
| "json_int _ = 0"

fun numericContextValue :: "json option \<Rightarrow> ctx_value" where
  "numericContextValue (Some (JNum n)) = CNum n"
| "numericContextValue _ = CUndef"

fun createVerserHostId :: "'p platform_scheme \<Rightarrow> json option \<Rightarrow> jsstr result" where
  "createVerserHostId P (Some (JStr s)) = requireNonEmpty P s ''host id''"
| "createVerserHostId P _ =
     throwE P protocol_error ''host id must be a string'' [(''field'', CStr (js ''host id''))]"

definition assertOptionalBoolean :: "'p platform_scheme \<Rightarrow> json option \<Rightarrow> string \<Rightarrow> unit result" where
  "assertOptionalBoolean P value field =
     (case value of
        None \<Rightarrow> Inr ()
      | Some (JBool b) \<Rightarrow> Inr ()
      | _ \<Rightarrow> throwE P protocol_error (''Federation '' @ field @ '' must be a boolean'')
               [(''field'', CStr (js field))])"

definition createFederatedRouteRegistration ::
  "'p platform_scheme \<Rightarrow> json \<Rightarrow> FederatedRouteRegistration result" where
  "createFederatedRouteRegistration P registration =
    (if \<not> isRecord registration
     then throwE P protocol_error ''Federated route registration must be an object'' []
     else if \<not> isValidHopCount (obj_get registration ''hopCount'')
     then throwE P protocol_error ''Federated route hop count must be non-negative''
            [(''hopCount'', numericContextValue (obj_get registration ''hopCount''))]
     else case source_of_json (obj_get registration ''source'') of
            None \<Rightarrow> throwE P protocol_error ''Federated route source must be local or upstream'' []
          | Some src \<Rightarrow>
            (case obj_get registration ''viaHostIds'' of
               Some (JArr vias) \<Rightarrow>
                 bindE (requireNonEmptyJson P (obj_get registration ''targetId'') ''guest id'') (\<lambda>t.
                 bindE (requireNonEmptyJson P (obj_get registration ''domain'') ''routed domain'') (\<lambda>d.
                 bindE (createVerserHostId P (obj_get registration ''originHostId'')) (\<lambda>origin.
                 bindE (createVerserHostId P (obj_get registration ''nextHopHostId'')) (\<lambda>next.
                 bindE (mapE (\<lambda>v. createVerserHostId P (Some v)) vias) (\<lambda>via.
                 Inr \<lparr>targetId = t, domain = d, originHostId = origin, nextHopHostId = next,
                      hopCount = json_int (obj_get registration ''hopCount''),
                      viaHostIds = via, source = src\<rparr>)))))
             | _ \<Rightarrow> throwE P protocol_error ''Federated route viaHostIds must be an array''
                      [(''field'', CStr (js ''viaHostIds''))]))"

text \<open>The route object as the code builds it before validating it again.\<close>

definition route_json :: "FederatedRouteRegistration \<Rightarrow> json" where
  "route_json r =
     JObj [(js ''targetId'', JStr (targetId r)), (js ''domain'', JStr (domain r)),
           (js ''originHostId'', JStr (originHostId r)),
           (js ''nextHopHostId'', JStr (nextHopHostId r)),
           (js ''hopCount'', JNum (Fin (of_int (hopCount r)))),
           (js ''viaHostIds'', JArr (map JStr (viaHostIds r))),
           (js ''source'', JStr (source_string (source r)))]"

definition isFederatedRouteLoop ::
  "'p platform_scheme \<Rightarrow> FederatedRouteRegistration \<Rightarrow> jsstr \<Rightarrow> bool result" where
  "isFederatedRouteLoop P route hostId =
     bindE (createVerserHostId P (Some (JStr hostId))) (\<lambda>normalizedHostId.
       Inr (originHostId route = normalizedHostId \<or> normalizedHostId \<in> set (viaHostIds route)))"

definition exceedsFederatedRouteHopLimit ::
  "'p platform_scheme \<Rightarrow> FederatedRouteRegistration \<Rightarrow> int \<Rightarrow> bool result" where
  "exceedsFederatedRouteHopLimit P route maxHopCount =
     (if \<not> isValidHopCount (Some (JNum (Fin (of_int maxHopCount))))
      then throwE P protocol_error ''Federation max hop count must be non-negative''
             [(''maxHopCount'', CNum (Fin (of_int maxHopCount)))]
      else Inr (maxHopCount < hopCount route))"

definition createFederatedRoutesControlFrame ::
  "'p platform_scheme \<Rightarrow> FederatedRouteRegistration list \<Rightarrow> FederatedRouteRegistration list result" where
  "createFederatedRoutesControlFrame P routes =
     mapE (\<lambda>r. createFederatedRouteRegistration P (route_json r)) routes"

section \<open>Handshake\<close>

record VerserHostFederationHandshake =
  hs_protocolVersion :: int
  hs_hostId :: jsstr
  hs_maxHopCount :: "int option"
  hs_importRoutes :: "bool option"
  hs_exportRoutes :: "bool option"

fun json_bool :: "json option \<Rightarrow> bool option" where
  "json_bool (Some (JBool b)) = Some b"
| "json_bool _ = None"

text \<open>\<open>Number.isInteger(v)\<close> is false for anything that is not a number. A hop limit that is
  present is converted with \<open>Number\<close>; a limit that is not a number there is given by \<open>toNum\<close>.\<close>

definition createVerserHostFederationHandshake ::
  "'p platform_scheme \<Rightarrow> (json \<Rightarrow> jsnumber) \<Rightarrow> json \<Rightarrow> VerserHostFederationHandshake result" where
  "createVerserHostFederationHandshake P toNum handshake =
    (if \<not> isRecord handshake
     then throwE P protocol_error ''Federation handshake must be an object'' []
     else if obj_get handshake ''type'' \<notin> {None, Some (JStr (js ''verser-host-federation-handshake''))}
     then throwE P protocol_error ''Federation handshake type is invalid'' []
     else
       (let version = (case obj_get handshake ''protocolVersion'' of
                         Some (JNum n) \<Rightarrow> if isInteger n \<and> \<not> num_lt n 1 then Some (int_of_num n) else None
                       | _ \<Rightarrow> None)
        in case version of
             None \<Rightarrow> throwE P protocol_error ''Federation protocol version must be positive''
                       [(''protocolVersion'', numericContextValue (obj_get handshake ''protocolVersion''))]
           | Some v \<Rightarrow>
             bindE (assertOptionalBoolean P (obj_get handshake ''importRoutes'') ''importRoutes'') (\<lambda>_.
             bindE (assertOptionalBoolean P (obj_get handshake ''exportRoutes'') ''exportRoutes'') (\<lambda>_.
             bindE (createVerserHostId P (obj_get handshake ''hostId'')) (\<lambda>host.
             (let maxHop = map_option toNum (obj_get handshake ''maxHopCount'')
              in case maxHop of
                   None \<Rightarrow>
                     Inr \<lparr>hs_protocolVersion = v, hs_hostId = host, hs_maxHopCount = None,
                          hs_importRoutes = json_bool (obj_get handshake ''importRoutes''),
                          hs_exportRoutes = json_bool (obj_get handshake ''exportRoutes'')\<rparr>
                 | Some n \<Rightarrow>
                   (if \<not> isValidHopCount (Some (JNum n))
                    then throwE P protocol_error ''Federation max hop count must be non-negative''
                           [(''maxHopCount'', CNum n)]
                    else Inr \<lparr>hs_protocolVersion = v, hs_hostId = host,
                              hs_maxHopCount = Some (int_of_num n),
                              hs_importRoutes = json_bool (obj_get handshake ''importRoutes''),
                              hs_exportRoutes = json_bool (obj_get handshake ''exportRoutes'')\<rparr>)))))))"

section \<open>Well-formed routes\<close>

definition id_ok :: "jsstr \<Rightarrow> bool" where
  "id_ok s \<longleftrightarrow> trimmed s \<and> s \<noteq> []"

definition route_ok :: "FederatedRouteRegistration \<Rightarrow> bool" where
  "route_ok r \<longleftrightarrow> id_ok (targetId r) \<and> id_ok (domain r) \<and> id_ok (originHostId r) \<and>
     id_ok (nextHopHostId r) \<and> 0 \<le> hopCount r \<and> (\<forall>v \<in> set (viaHostIds r). id_ok v)"

lemma createVerserHostId_Inr [result_simps]:
  "createVerserHostId P j = Inr s \<longleftrightarrow> (\<exists>v. j = Some (JStr v) \<and> s = trim v \<and> trim v \<noteq> [])"
  by (cases "(P, j)" rule: createVerserHostId.cases) (auto simp: result_simps)

lemma createVerserHostId_id: "id_ok s \<Longrightarrow> createVerserHostId P (Some (JStr s)) = Inr s"
  by (simp add: id_ok_def requireNonEmpty_valid)

lemma isValidHopCount_nonneg: "isValidHopCount j \<Longrightarrow> 0 \<le> json_int j"
  by (cases j rule: isValidHopCount.cases) (auto simp: not_less elim: isInteger.elims)

lemma isValidHopCount_of_int [simp]: "isValidHopCount (Some (JNum (Fin (of_int i)))) \<longleftrightarrow> 0 \<le> i"
  by (auto simp: not_less)

lemma source_of_json_string [simp]: "source_of_json (Some (JStr (source_string s))) = Some s"
  by (cases s) (simp_all add: source_of_json_def)

text \<open>Whatever is accepted is well-formed, and a well-formed route passes unchanged.\<close>

lemma createFederatedRouteRegistration_InrE:
  assumes "createFederatedRouteRegistration P j = Inr r"
  obtains vias where "isValidHopCount (obj_get j ''hopCount'')"
    "mapE (\<lambda>v. createVerserHostId P (Some v)) vias = Inr (viaHostIds r)"
    "requireNonEmptyJson P (obj_get j ''targetId'') ''guest id'' = Inr (targetId r)"
    "requireNonEmptyJson P (obj_get j ''domain'') ''routed domain'' = Inr (domain r)"
    "createVerserHostId P (obj_get j ''originHostId'') = Inr (originHostId r)"
    "createVerserHostId P (obj_get j ''nextHopHostId'') = Inr (nextHopHostId r)"
    "hopCount r = json_int (obj_get j ''hopCount'')"
    "source_of_json (obj_get j ''source'') = Some (source r)"
proof -
  from assms obtain vias where "obj_get j ''viaHostIds'' = Some (JArr vias)" and
    "isValidHopCount (obj_get j ''hopCount'')"
    by (auto simp: createFederatedRouteRegistration_def split: if_splits option.splits json.splits)
  moreover from assms obtain src where "source_of_json (obj_get j ''source'') = Some src"
    by (auto simp: createFederatedRouteRegistration_def split: if_splits option.splits)
  ultimately show thesis
    using assms that
    by (simp add: createFederatedRouteRegistration_def bindE_Inr_iff split: if_splits)
       (elim exE conjE, force)
qed

lemma createFederatedRouteRegistration_ok:
  assumes "createFederatedRouteRegistration P j = Inr r"
  shows "route_ok r"
  using assms
proof (rule createFederatedRouteRegistration_InrE)
  fix vias
  assume hop: "isValidHopCount (obj_get j ''hopCount'')"
    and via: "mapE (\<lambda>v. createVerserHostId P (Some v)) vias = Inr (viaHostIds r)"
    and t: "requireNonEmptyJson P (obj_get j ''targetId'') ''guest id'' = Inr (targetId r)"
    and d: "requireNonEmptyJson P (obj_get j ''domain'') ''routed domain'' = Inr (domain r)"
    and orig: "createVerserHostId P (obj_get j ''originHostId'') = Inr (originHostId r)"
    and nxt: "createVerserHostId P (obj_get j ''nextHopHostId'') = Inr (nextHopHostId r)"
    and h: "hopCount r = json_int (obj_get j ''hopCount'')"
  have "\<forall>v \<in> set (viaHostIds r). id_ok v"
    using via by (rule mapE_Inr_all) (auto simp: result_simps id_ok_def)
  moreover from t d have "id_ok (targetId r)" "id_ok (domain r)"
    unfolding requireNonEmptyJson_Inr_iff id_ok_def by auto
  moreover from orig nxt have "id_ok (originHostId r)" "id_ok (nextHopHostId r)"
    unfolding createVerserHostId_Inr id_ok_def by auto
  ultimately show "route_ok r"
    using isValidHopCount_nonneg [OF hop] by (simp add: route_ok_def h)
qed

lemma createFederatedRouteRegistration_id:
  assumes "route_ok r"
  shows "createFederatedRouteRegistration P (route_json r) = Inr r"
proof -
  have "mapE (\<lambda>v. createVerserHostId P (Some v)) (map JStr (viaHostIds r)) = Inr (viaHostIds r)"
    unfolding mapE_map using assms
    by (intro mapE_Inr_id) (simp add: route_ok_def createVerserHostId_id del: createVerserHostId.simps)
  then show ?thesis
    using assms
    by (simp add: createFederatedRouteRegistration_def route_json_def route_ok_def id_ok_def
          requireNonEmpty_valid)
qed

lemma isFederatedRouteLoop_eq:
  "id_ok h \<Longrightarrow> isFederatedRouteLoop P r h = Inr (originHostId r = h \<or> h \<in> set (viaHostIds r))"
  by (simp add: isFederatedRouteLoop_def createVerserHostId_id del: createVerserHostId.simps)

lemma exceedsFederatedRouteHopLimit_eq:
  "0 \<le> m \<Longrightarrow> exceedsFederatedRouteHopLimit P r m = Inr (m < hopCount r)"
  by (simp add: exceedsFederatedRouteHopLimit_def del: isValidHopCount.simps)

section \<open>Properties\<close>

text \<open>Routes accepted from a peer are well-formed (trimmed, non-empty identifiers, a
  non-negative hop count), and sending them on through the control frame validator returns
  them unchanged.\<close>

theorem federated_routes_roundtrip:
  assumes "mapE (createFederatedRouteRegistration P) received = Inr routes"
  shows "(\<forall>r \<in> set routes. route_ok r) \<and> createFederatedRoutesControlFrame P routes = Inr routes"
proof
  show ok: "\<forall>r \<in> set routes. route_ok r"
    using assms by (rule mapE_Inr_all) (rule createFederatedRouteRegistration_ok)
  then show "createFederatedRoutesControlFrame P routes = Inr routes"
    unfolding createFederatedRoutesControlFrame_def
    by (intro mapE_Inr_id) (simp add: createFederatedRouteRegistration_id)
qed

definition sample_route :: FederatedRouteRegistration where
  "sample_route = \<lparr>targetId = js ''g'', domain = js ''d'', originHostId = js ''h2'',
     nextHopHostId = js ''h2'', hopCount = 1, viaHostIds = [js ''h2''], source = src_upstream\<rparr>"

lemma id_ok_js: "id_ok (js s) \<longleftrightarrow> s \<noteq> [] \<and> \<not> js_ws (of_char (hd s)) \<and> \<not> js_ws (of_char (last s))"
  by (auto simp: id_ok_def trimmed_def js_def hd_map last_map)

lemma route_ok_sample: "route_ok sample_route"
  by (simp add: route_ok_def sample_route_def id_ok_js js_ws_def)

theorem federated_routes_roundtrip_witness:
  "route_ok sample_route \<and>
   createFederatedRoutesControlFrame sample_platform [sample_route] = Inr [sample_route]"
  using federated_routes_roundtrip [where P = sample_platform and received = "[route_json sample_route]" and
      routes = "[sample_route]"]
  by (simp add: createFederatedRouteRegistration_id route_ok_sample)

end
