(* ===== verification/Route_Registry.thy ===== *)
theory Route_Registry
  imports Federation_Common
begin

text \<open>
  The Host's route registry, \<open>packages/verser2-host/src/lib/route-registry.ts\<close>: the routes of
  connected Guests, the routes imported from federated Hosts, and the degraded routes of Guests
  that disconnected. The state is a record of the three maps and the generation counter; an
  operation that may throw returns the outcome together with the state it leaves behind.
\<close>

section \<open>State\<close>

record StoredRouteCandidate =
  ownerId :: jsstr
  route :: FederatedRouteRegistration

record DegradedRouteEntry =
  de_routes :: "FederatedRouteRegistration list"
  degradedAt :: rat
  de_generation :: VerserRouteGeneration

record HostRouteRegistry =
  hostId :: jsstr
  maxFederationHopCount :: int
  localRoutes :: "(jsstr \<times> FederatedRouteRegistration list) list"
  importedRoutes :: "(jsstr \<times> FederatedRouteRegistration list) list"
  degradedRoutes :: "(jsstr \<times> DegradedRouteEntry) list"
  routeGenerationCounter :: nat

type_synonym registry = HostRouteRegistry

definition createHostRouteRegistry ::
  "'p platform_scheme \<Rightarrow> jsstr option \<Rightarrow> jsnumber option \<Rightarrow> registry result" where
  "createHostRouteRegistry P host maxHop =
    bindE (createVerserHostId P (Some (JStr (case host of Some h \<Rightarrow> h | None \<Rightarrow> js ''host-local'')))) (\<lambda>h.
      let m = (case maxHop of Some n \<Rightarrow> n | None \<Rightarrow> Fin 8)
      in if \<not> isInteger m \<or> num_lt m 0
         then throwE P protocol_error ''maxFederationHopCount must be non-negative''
                [(''maxFederationHopCount'', CNum m)]
         else Inr \<lparr>hostId = h, maxFederationHopCount = int_of_num m, localRoutes = [],
                   importedRoutes = [], degradedRoutes = [], routeGenerationCounter = 0\<rparr>)"

section \<open>Candidate order and route keys\<close>

fun sourceRank :: "VerserFederatedRouteSource \<Rightarrow> int" where
  "sourceRank src_local = 0"
| "sourceRank src_upstream = 1"

definition compareCandidates ::
  "'p platform_scheme \<Rightarrow> StoredRouteCandidate \<Rightarrow> StoredRouteCandidate \<Rightarrow> int" where
  "compareCandidates P left right =
    (let sourcePriority = sourceRank (source (route left)) - sourceRank (source (route right))
     in if sourcePriority \<noteq> 0 then sourcePriority
        else or_else (hopCount (route left) - hopCount (route right))
            (or_else (localeCompare P (targetId (route left)) (targetId (route right)))
            (or_else (localeCompare P (domain (route left)) (domain (route right)))
            (or_else (localeCompare P (nextHopHostId (route left)) (nextHopHostId (route right)))
                     (localeCompare P (ownerId left) (ownerId right))))))"

definition routeIdentity :: "'r RoutedDomainRegistration_scheme \<Rightarrow> jsstr" where
  "routeIdentity r = targetId r @ nul @ domain r"

definition appendHostId :: "jsstr list \<Rightarrow> jsstr \<Rightarrow> jsstr list" where
  "appendHostId hostIds h = (if h \<in> set hostIds then hostIds else hostIds @ [h])"

definition routeFingerprint :: "'p platform_scheme \<Rightarrow> FederatedRouteRegistration \<Rightarrow> jsstr" where
  "routeFingerprint P r =
     join_with nul [targetId r, domain r, originHostId r, nextHopHostId r,
                    numberToString P (Fin (of_int (hopCount r))),
                    join_with comma (viaHostIds r), source_string (source r)]"

definition routeSetKey :: "'p platform_scheme \<Rightarrow> FederatedRouteRegistration list \<Rightarrow> jsstr" where
  "routeSetKey P routes =
     jsonStringify P (JArr (map JStr (sort_by ordinal (map (routeFingerprint P) routes))))"

definition selectCandidates ::
  "'p platform_scheme \<Rightarrow> StoredRouteCandidate list \<Rightarrow> StoredRouteCandidate list" where
  "selectCandidates P candidates =
    (let selected =
       foldl (\<lambda>selected candidate.
                let key = routeIdentity (route candidate)
                in if map_of selected key = None then AList.update key candidate selected else selected)
             [] (sort_by (compareCandidates P) candidates)
     in sort_by (compareCandidates P) (map snd selected))"

section \<open>Local routes\<close>

text \<open>The object literal built for a local route.\<close>

definition local_route :: "jsstr \<Rightarrow> RoutedDomainRegistration \<Rightarrow> FederatedRouteRegistration" where
  "local_route h r =
     \<lparr>targetId = targetId r, domain = domain r, originHostId = h, nextHopHostId = h,
      hopCount = 0, viaHostIds = [h], source = src_local\<rparr>"

definition setLocalRoutes ::
  "'p platform_scheme \<Rightarrow> jsstr \<Rightarrow> RoutedDomainRegistration list \<Rightarrow> registry \<Rightarrow> unit result \<times> registry" where
  "setLocalRoutes P peerId routes reg =
    (case mapE (\<lambda>r. bindE (createRoutedDomainRegistration P r) (\<lambda>d.
                createFederatedRouteRegistration P (route_json (local_route (hostId reg) d)))) routes of
       Inl e \<Rightarrow> (Inl e, reg)
     | Inr rs \<Rightarrow> (Inr (), reg\<lparr>localRoutes := AList.update peerId rs (localRoutes reg)\<rparr>))"

definition removeLocalRoutes :: "jsstr \<Rightarrow> registry \<Rightarrow> registry" where
  "removeLocalRoutes peerId reg = reg\<lparr>localRoutes := AList.delete peerId (localRoutes reg)\<rparr>"

definition revokeRoutes :: "jsstr \<Rightarrow> jsstr list \<Rightarrow> registry \<Rightarrow> (jsstr list \<times> jsstr list) \<times> registry" where
  "revokeRoutes peerId domains reg =
    (case map_of (localRoutes reg) peerId of
       None \<Rightarrow> (([], domains), reg)
     | Some peerRoutes \<Rightarrow>
       (let revoked_domains = map domain (filter (\<lambda>r. domain r \<in> set domains) peerRoutes);
            remaining = filter (\<lambda>r. domain r \<notin> set domains) peerRoutes;
            notFound = filter (\<lambda>d. d \<notin> set revoked_domains) domains
        in ((revoked_domains, notFound),
            reg\<lparr>localRoutes := (if 0 < length remaining
                               then AList.update peerId remaining (localRoutes reg)
                               else AList.delete peerId (localRoutes reg))\<rparr>)))"

section \<open>Imported routes\<close>

text \<open>\<open>{ ...routeInput, source: 'upstream' }\<close>: an object keeps its entries; spreading anything
  else contributes none of the fields the validator reads.\<close>

fun with_source_upstream :: "json \<Rightarrow> json" where
  "with_source_upstream (JObj es) = JObj (AList.update (js ''source'') (JStr (source_string src_upstream)) es)"
| "with_source_upstream _ = JObj [(js ''source'', JStr (source_string src_upstream))]"

definition getImportedRouteRejection ::
  "'p platform_scheme \<Rightarrow> registry \<Rightarrow> FederatedRouteRegistration \<Rightarrow> VerserError option result" where
  "getImportedRouteRejection P reg r =
    bindE (isFederatedRouteLoop P r (hostId reg)) (\<lambda>is_loop.
      if is_loop
      then Inr (Some (createVerserError P route_loop (js ''Federated route would revisit this Host'')
             [(js ''targetId'', CStr (targetId r)), (js ''domain'', CStr (domain r)),
              (js ''hostId'', CStr (hostId reg))]))
      else
        bindE (exceedsFederatedRouteHopLimit P r (maxFederationHopCount reg)) (\<lambda>exceeds.
          if exceeds
          then Inr (Some (createVerserError P route_loop (js ''Federated route exceeds maximum hop count'')
                 [(js ''targetId'', CStr (targetId r)), (js ''domain'', CStr (domain r)),
                  (js ''hopCount'', CNum (Fin (of_int (hopCount r)))),
                  (js ''maxHopCount'', CNum (Fin (of_int (maxFederationHopCount reg))))]))
          else Inr None))"

record ImportedRouteUpdate =
  up_rejected :: "(FederatedRouteRegistration \<times> VerserError) list"
  up_changed :: bool

text \<open>The loop of \<open>setImportedRoutes\<close>: validate a route, then file it as accepted or rejected.\<close>

definition import_route ::
  "'p platform_scheme \<Rightarrow> registry \<Rightarrow> json
    \<Rightarrow> FederatedRouteRegistration list \<times> (FederatedRouteRegistration \<times> VerserError) list
    \<Rightarrow> (FederatedRouteRegistration list \<times> (FederatedRouteRegistration \<times> VerserError) list) result" where
  "import_route P reg routeInput acc =
    bindE (createFederatedRouteRegistration P (with_source_upstream routeInput)) (\<lambda>r.
    bindE (getImportedRouteRejection P reg r) (\<lambda>routeError.
      case routeError of
        None \<Rightarrow> Inr (fst acc @ [r], snd acc)
      | Some e \<Rightarrow> Inr (fst acc, snd acc @ [(r, e)])))"

definition setImportedRoutes ::
  "'p platform_scheme \<Rightarrow> jsstr \<Rightarrow> json list \<Rightarrow> registry \<Rightarrow> ImportedRouteUpdate result \<times> registry" where
  "setImportedRoutes P upstreamId routes reg =
    (case foldE (import_route P reg) routes ([], []) of
       Inl e \<Rightarrow> (Inl e, reg)
     | Inr (accepted, rejected) \<Rightarrow>
       (let previous = (case map_of (importedRoutes reg) upstreamId of Some rs \<Rightarrow> rs | None \<Rightarrow> [])
        in (Inr \<lparr>up_rejected = rejected,
                 up_changed = (routeSetKey P previous \<noteq> routeSetKey P accepted)\<rparr>,
            reg\<lparr>importedRoutes := AList.update upstreamId accepted (importedRoutes reg)\<rparr>)))"

definition removeImportedRoutes :: "jsstr \<Rightarrow> registry \<Rightarrow> registry" where
  "removeImportedRoutes upstreamId reg =
     reg\<lparr>importedRoutes := AList.delete upstreamId (importedRoutes reg)\<rparr>"

definition removeImportedRoute :: "jsstr \<Rightarrow> jsstr \<Rightarrow> jsstr \<Rightarrow> registry \<Rightarrow> bool \<times> registry" where
  "removeImportedRoute upstreamId target dmn reg =
    (case map_of (importedRoutes reg) upstreamId of
       None \<Rightarrow> (False, reg)
     | Some routes \<Rightarrow>
       if length routes = 0 then (False, reg)
       else
         (let remaining = filter (\<lambda>r. \<not> (targetId r = target \<and> domain r = dmn)) routes
          in if length remaining = length routes then (False, reg)
             else if 0 < length remaining
             then (True, reg\<lparr>importedRoutes := AList.update upstreamId remaining (importedRoutes reg)\<rparr>)
             else (True, reg\<lparr>importedRoutes := AList.delete upstreamId (importedRoutes reg)\<rparr>)))"

definition clear :: "registry \<Rightarrow> registry" where
  "clear reg = reg\<lparr>localRoutes := [], importedRoutes := [], degradedRoutes := [],
                  routeGenerationCounter := 0\<rparr>"

section \<open>Degraded routes\<close>

text \<open>\<open>time\<close> is \<open>Date.now()\<close>. The generation id \<open>gen-<counter>\<close> is given, so no fresh one is
  drawn.\<close>

definition gen_id :: "nat \<Rightarrow> jsstr" where
  "gen_id n = js ''gen-'' @ dec n"

definition setDegraded :: "'p platform_scheme \<Rightarrow> rat \<Rightarrow> jsstr \<Rightarrow> registry \<Rightarrow> unit result \<times> registry" where
  "setDegraded P time peerId reg =
    (case map_of (localRoutes reg) peerId of
       None \<Rightarrow> (Inr (), reg)
     | Some peerRoutes \<Rightarrow>
       if map_of (degradedRoutes reg) peerId \<noteq> None then (Inr (), reg)
       else
         (let counter = routeGenerationCounter reg + 1;
              reg' = reg\<lparr>routeGenerationCounter := counter\<rparr>
          in case createVerserRouteGeneration P [] (Some (gen_id counter)) (Some peerId) of
               Inl e \<Rightarrow> (Inl e, reg')
             | Inr gen \<Rightarrow>
                 (Inr (),
                  reg'\<lparr>degradedRoutes := AList.update peerId
                         \<lparr>de_routes = peerRoutes, degradedAt = time, de_generation = gen\<rparr>
                         (degradedRoutes reg'),
                       localRoutes := AList.delete peerId (localRoutes reg')\<rparr>)))"

definition restoreRoutes :: "'p platform_scheme \<Rightarrow> jsstr \<Rightarrow> registry \<Rightarrow> bool result \<times> registry" where
  "restoreRoutes P peerId reg =
    (case map_of (degradedRoutes reg) peerId of
       None \<Rightarrow> (Inr False, reg)
     | Some entry \<Rightarrow>
       (let reg' = reg\<lparr>routeGenerationCounter := routeGenerationCounter reg + 1\<rparr>
        in case mapE (\<lambda>r. createFederatedRouteRegistration P (route_json r)) (de_routes entry) of
             Inl e \<Rightarrow> (Inl e, reg')
           | Inr rs \<Rightarrow>
               (Inr True,
                reg'\<lparr>localRoutes := AList.update peerId rs (localRoutes reg'),
                     degradedRoutes := AList.delete peerId (degradedRoutes reg')\<rparr>)))"

definition getRouteGeneration :: "jsstr \<Rightarrow> jsstr \<Rightarrow> registry \<Rightarrow> VerserRouteGeneration option" where
  "getRouteGeneration peerId dmn reg =
    (case map_of (degradedRoutes reg) peerId of
       None \<Rightarrow> None
     | Some entry \<Rightarrow>
         (case find (\<lambda>r. domain r = dmn) (de_routes entry) of
            Some r \<Rightarrow> Some (de_generation entry) | None \<Rightarrow> None))"

definition hasDegradedRoutes :: "jsstr \<Rightarrow> registry \<Rightarrow> bool" where
  "hasDegradedRoutes peerId reg \<longleftrightarrow> map_of (degradedRoutes reg) peerId \<noteq> None"

definition hasAnyDegradedRoutes :: "registry \<Rightarrow> bool" where
  "hasAnyDegradedRoutes reg \<longleftrightarrow> 0 < length (degradedRoutes reg)"

definition broker_route :: "FederatedRouteRegistration \<Rightarrow> RoutedDomainRegistration" where
  "broker_route r = \<lparr>targetId = targetId r, domain = domain r\<rparr>"

definition getDegradedBrokerRoutes :: "registry \<Rightarrow> RoutedDomainRegistration list" where
  "getDegradedBrokerRoutes reg =
     concat (map (\<lambda>(_, entry). map broker_route (de_routes entry)) (degradedRoutes reg))"

definition getDegradedBrokerRoutesForPeer :: "jsstr \<Rightarrow> registry \<Rightarrow> RoutedDomainRegistration list" where
  "getDegradedBrokerRoutesForPeer peerId reg =
     (case map_of (degradedRoutes reg) peerId of
        None \<Rightarrow> [] | Some entry \<Rightarrow> map broker_route (de_routes entry))"

record RemoveExpiredDegradedResult =
  expiredPeers :: "jsstr list"
  expiredRoutes :: nat
  expiredRouteEntries :: "(jsstr \<times> jsstr) list"

definition removeExpiredDegradedRoutes ::
  "rat \<Rightarrow> rat \<Rightarrow> registry \<Rightarrow> RemoveExpiredDegradedResult \<times> registry" where
  "removeExpiredDegradedRoutes now timeoutMs reg =
    (let expired = filter (\<lambda>(_, entry). timeoutMs \<le> now - degradedAt entry) (degradedRoutes reg);
         peers = map fst expired
     in (\<lparr>expiredPeers = peers,
          expiredRoutes = sum_list (map (\<lambda>(_, entry). length (de_routes entry)) expired),
          expiredRouteEntries =
            concat (map (\<lambda>(peerId, entry). map (\<lambda>r. (peerId, domain r)) (de_routes entry)) expired)\<rparr>,
         reg\<lparr>degradedRoutes := foldl (\<lambda>m peerId. AList.delete peerId m) (degradedRoutes reg) peers\<rparr>))"

section \<open>Queries\<close>

definition stored :: "(jsstr \<times> FederatedRouteRegistration list) list \<Rightarrow> StoredRouteCandidate list" where
  "stored m = concat (map (\<lambda>(owner, routes). map (\<lambda>r. \<lparr>ownerId = owner, route = r\<rparr>) routes) m)"

definition getLocalCandidates :: "registry \<Rightarrow> StoredRouteCandidate list" where
  "getLocalCandidates reg = stored (localRoutes reg)"

definition getActiveCandidates :: "registry \<Rightarrow> StoredRouteCandidate list" where
  "getActiveCandidates reg = getLocalCandidates reg @ stored (importedRoutes reg)"

definition getSelectedCandidates :: "'p platform_scheme \<Rightarrow> registry \<Rightarrow> StoredRouteCandidate list" where
  "getSelectedCandidates P reg = selectCandidates P (getActiveCandidates reg)"

definition getBrokerRoutes :: "'p platform_scheme \<Rightarrow> registry \<Rightarrow> RoutedDomainRegistration list" where
  "getBrokerRoutes P reg =
    (let active = map (\<lambda>c. broker_route (route c)) (getSelectedCandidates P reg)
     in keep_first routeIdentity [] (active @ getDegradedBrokerRoutes reg))"

definition getCandidates ::
  "'p platform_scheme \<Rightarrow> jsstr option \<Rightarrow> jsstr option \<Rightarrow> registry \<Rightarrow> FederatedRouteRegistration list" where
  "getCandidates P target dmn reg =
     map route (sort_by (compareCandidates P)
       (filter (\<lambda>c. (target = None \<or> Some (targetId (route c)) = target) \<and>
                    (dmn = None \<or> Some (domain (route c)) = dmn))
         (getActiveCandidates reg)))"

text \<open>The object literal built for an exported route.\<close>

definition exported_route :: "registry \<Rightarrow> FederatedRouteRegistration \<Rightarrow> FederatedRouteRegistration" where
  "exported_route reg r =
     r\<lparr>nextHopHostId := hostId reg, hopCount := hopCount r + 1,
       viaHostIds := appendHostId (viaHostIds r) (hostId reg)\<rparr>"

definition getFederatedRoutesForExport ::
  "'p platform_scheme \<Rightarrow> jsstr option \<Rightarrow> registry \<Rightarrow> FederatedRouteRegistration list result" where
  "getFederatedRoutesForExport P peerHostId reg =
    (let candidates = map route (getSelectedCandidates P reg);
         visible = filter (\<lambda>r. case peerHostId of
                               None \<Rightarrow> True
                             | Some p \<Rightarrow> originHostId r \<noteq> p \<and> p \<notin> set (viaHostIds r)) candidates;
         bounded = filter (\<lambda>r. hopCount r + 1 \<le> maxFederationHopCount reg) visible
     in mapE (\<lambda>r. createFederatedRouteRegistration P (route_json (exported_route reg r))) bounded)"

section \<open>The candidate order is a comparison\<close>

text \<open>Collation is a total preorder on strings; the candidate order inherits the contract.\<close>

locale collation = lc: comparison "localeCompare P" for P :: "'p platform_scheme"

lemma compareCandidates_chain:
  "compareCandidates P =
    (\<lambda>l r. or_else (sourceRank (source (route l)) - sourceRank (source (route r)))
          (or_else (hopCount (route l) - hopCount (route r))
          (or_else (localeCompare P (targetId (route l)) (targetId (route r)))
          (or_else (localeCompare P (domain (route l)) (domain (route r)))
          (or_else (localeCompare P (nextHopHostId (route l)) (nextHopHostId (route r)))
                   (localeCompare P (ownerId l) (ownerId r)))))))"
  by (intro ext) (simp add: compareCandidates_def or_else_def Let_def)

lemma compareCandidates_comparison:
  "comparison (localeCompare P) \<Longrightarrow> comparison (compareCandidates P)"
  unfolding compareCandidates_chain
  by (intro comparison_or_else comparison_minus)
     (rule comparison_key [where cmp = "localeCompare P"], assumption)+

sublocale collation \<subseteq> cand: comparison "compareCandidates P"
  by (rule compareCandidates_comparison) (rule lc.comparison_axioms)

interpretation sample: collation sample_platform
  by (rule collation.intro) (simp add: ord.comparison_axioms)

text \<open>The selection loop keeps the first candidate of every identity.\<close>

lemma map_snd_AList_update_new:
  "map_of m k = None \<Longrightarrow> map snd (AList.update k v m) = map snd m @ [v]"
  by (simp add: update_new map_of_eq_None_iff)

lemma keep_first_cong: "set s = set t \<Longrightarrow> keep_first key s xs = keep_first key t xs"
  by (induction key s xs arbitrary: t rule: keep_first.induct) auto

lemma select_loop:
  "map snd (foldl (\<lambda>m c. let k = key c in if map_of m k = None then AList.update k c m else m) m xs) =
   map snd m @ keep_first key (map fst m) xs"
proof (induction xs arbitrary: m)
  case Nil
  then show ?case by simp
next
  case (Cons x xs)
  have "keep_first key (map fst (AList.update (key x) x m)) xs = keep_first key (key x # map fst m) xs"
    by (rule keep_first_cong) (simp add: dom_update)
  with Cons show ?case
    by (simp add: map_snd_AList_update_new map_of_eq_None_iff image_iff Let_def)
qed

context collation
begin

lemma selectCandidates_keep_first:
  "selectCandidates P cs = keep_first (\<lambda>c. routeIdentity (route c)) [] (sort_by (compareCandidates P) cs)"
proof -
  let ?key = "\<lambda>c. routeIdentity (route c)"
  have "selectCandidates P cs =
        sort_by (compareCandidates P) (keep_first ?key [] (sort_by (compareCandidates P) cs))"
    using select_loop [of ?key "[]" "sort_by (compareCandidates P) cs"]
    by (simp add: selectCandidates_def Let_def)
  also have "\<dots> = keep_first ?key [] (sort_by (compareCandidates P) cs)"
    by (intro cand.sort_by_sorted sorted_wrt_keep_first cand.sorted_sort_by)
  finally show ?thesis .
qed

lemma selectCandidates_set: "set (selectCandidates P cs) \<subseteq> set cs"
  using set_keep_first_subset [of _ "[]" "sort_by (compareCandidates P) cs"]
  by (simp add: selectCandidates_keep_first)

lemma selectCandidates_minimal:
  "c \<in> set (selectCandidates P cs) \<Longrightarrow> d \<in> set cs \<Longrightarrow>
   routeIdentity (route d) = routeIdentity (route c) \<Longrightarrow> compareCandidates P c d \<le> 0"
  using keep_first_minimal [OF cand.sorted_sort_by, of c "\<lambda>c. routeIdentity (route c)" "[]" cs d]
  by (simp add: selectCandidates_keep_first cand.cmp_refl)

lemma selectCandidates_identities:
  "(\<lambda>c. routeIdentity (route c)) ` set (selectCandidates P cs) = (\<lambda>c. routeIdentity (route c)) ` set cs"
  using keep_first_keys [of "\<lambda>c. routeIdentity (route c)" "[]" "sort_by (compareCandidates P) cs"]
  by (simp add: selectCandidates_keep_first)

lemma selectCandidates_distinct:
  "distinct (map (\<lambda>c. routeIdentity (route c)) (selectCandidates P cs))"
  by (simp add: selectCandidates_keep_first distinct_keep_first)

lemma selectCandidates_sorted:
  "sorted_wrt (\<lambda>x y. compareCandidates P x y \<le> 0) (selectCandidates P cs)"
  unfolding selectCandidates_keep_first
  by (intro sorted_wrt_keep_first cand.sorted_sort_by)

end

section \<open>Invariant\<close>

text \<open>A local route as this Host makes it, and an imported route as it accepts it.\<close>

definition local_ok :: "registry \<Rightarrow> FederatedRouteRegistration \<Rightarrow> bool" where
  "local_ok reg r \<longleftrightarrow> id_ok (targetId r) \<and> id_ok (domain r) \<and> originHostId r = hostId reg \<and>
     nextHopHostId r = hostId reg \<and> hopCount r = 0 \<and> viaHostIds r = [hostId reg] \<and> source r = src_local"

definition imported_ok :: "registry \<Rightarrow> FederatedRouteRegistration \<Rightarrow> bool" where
  "imported_ok reg r \<longleftrightarrow> route_ok r \<and> source r = src_upstream \<and> originHostId r \<noteq> hostId reg \<and>
     hostId reg \<notin> set (viaHostIds r) \<and> hopCount r \<le> maxFederationHopCount reg"

definition entry_ok :: "registry \<Rightarrow> DegradedRouteEntry \<Rightarrow> bool" where
  "entry_ok reg entry \<longleftrightarrow> (\<forall>r \<in> set (de_routes entry). local_ok reg r) \<and>
     generation_ok (de_generation entry) \<and>
     (\<exists>n \<le> routeGenerationCounter reg. generationId (de_generation entry) = gen_id n)"

definition reg_inv :: "registry \<Rightarrow> bool" where
  "reg_inv reg \<longleftrightarrow> id_ok (hostId reg) \<and> 0 \<le> maxFederationHopCount reg \<and>
     distinct (map fst (localRoutes reg)) \<and> distinct (map fst (importedRoutes reg)) \<and>
     distinct (map fst (degradedRoutes reg)) \<and>
     list_all (\<lambda>e. list_all (local_ok reg) (snd e)) (localRoutes reg) \<and>
     list_all (\<lambda>e. list_all (imported_ok reg) (snd e)) (importedRoutes reg) \<and>
     list_all (\<lambda>e. entry_ok reg (snd e)) (degradedRoutes reg) \<and>
     distinct (map (\<lambda>(p, entry). generationId (de_generation entry)) (degradedRoutes reg))"

lemma reg_invD:
  assumes "reg_inv reg"
  shows "id_ok (hostId reg)" "0 \<le> maxFederationHopCount reg"
    "distinct (map fst (localRoutes reg))" "distinct (map fst (importedRoutes reg))"
    "distinct (map fst (degradedRoutes reg))"
    "(p, rs) \<in> set (localRoutes reg) \<Longrightarrow> r \<in> set rs \<Longrightarrow> local_ok reg r"
    "(p, rs) \<in> set (importedRoutes reg) \<Longrightarrow> r \<in> set rs \<Longrightarrow> imported_ok reg r"
    "(p, entry) \<in> set (degradedRoutes reg) \<Longrightarrow> entry_ok reg entry"
    "distinct (map (\<lambda>(p, entry). generationId (de_generation entry)) (degradedRoutes reg))"
  using assms by (auto simp: reg_inv_def list_all_iff)

lemma gen_id_inj [simp]: "gen_id m = gen_id n \<longleftrightarrow> m = n"
  by (simp add: gen_id_def)

lemma gen_id_trimmed [simp]: "trim (gen_id n) = gen_id n" "gen_id n \<noteq> []"
proof -
  have "\<not> js_ws (last (dec n))"
    using dec_digits [of "last (dec n)" n] by (auto simp: js_ws_def) (unat_arith, unat_arith)
  then show "trim (gen_id n) = gen_id n"
    by (intro trim_trimmed) (simp add: trimmed_def gen_id_def js_def js_ws_def)
qed (simp add: gen_id_def)

lemma createVerserRouteGeneration_gen:
  "\<exists>g. createVerserRouteGeneration P [] (Some (gen_id n)) s = Inr g \<and> generation_ok g \<and>
       generationId g = gen_id n"
proof -
  obtain g where g: "createVerserRouteGeneration P [] (Some (gen_id n)) s = Inr g" "generationId g = gen_id n"
    by (simp add: createVerserRouteGeneration_def)
  then show ?thesis using createVerserRouteGeneration_ok by blast
qed

lemma local_ok_route_ok: "id_ok (hostId reg) \<Longrightarrow> local_ok reg r \<Longrightarrow> route_ok r"
  by (simp add: local_ok_def route_ok_def)

lemma createFederated_local:
  "id_ok (hostId reg) \<Longrightarrow> createRoutedDomainRegistration P d = Inr d' \<Longrightarrow>
   createFederatedRouteRegistration P (route_json (local_route (hostId reg) d')) =
     Inr (local_route (hostId reg) d') \<and> local_ok reg (local_route (hostId reg) d')"
proof -
  assume host: "id_ok (hostId reg)" and d: "createRoutedDomainRegistration P d = Inr d'"
  from d have "local_ok reg (local_route (hostId reg) d')"
    by (auto simp: local_ok_def local_route_def result_simps id_ok_def)
  with host show ?thesis
    by (simp add: createFederatedRouteRegistration_id local_ok_route_ok)
qed

lemma source_with_upstream:
  "source_of_json (obj_get (with_source_upstream j) ''source'') = Some src_upstream"
  by (cases j rule: with_source_upstream.cases) (simp_all add: update_conv' source_of_json_def)

lemma getImportedRouteRejection_eq:
  assumes "reg_inv reg"
  shows "(getImportedRouteRejection P reg r = Inr None \<longleftrightarrow>
            originHostId r \<noteq> hostId reg \<and> hostId reg \<notin> set (viaHostIds r) \<and>
            hopCount r \<le> maxFederationHopCount reg) \<and>
         (\<exists>v. getImportedRouteRejection P reg r = Inr v \<and>
              (\<forall>e. v = Some e \<longrightarrow> err_code e = route_loop))"
  using reg_invD(1,2) [OF assms]
  by (auto simp: getImportedRouteRejection_def isFederatedRouteLoop_eq exceedsFederatedRouteHopLimit_eq
        createVerserError_def)

text \<open>What an import does to a whole list: validate every route, then split by acceptance.\<close>

definition accepts :: "registry \<Rightarrow> FederatedRouteRegistration \<Rightarrow> bool" where
  "accepts reg r \<longleftrightarrow> originHostId r \<noteq> hostId reg \<and> hostId reg \<notin> set (viaHostIds r) \<and>
     hopCount r \<le> maxFederationHopCount reg"

definition rejection_error :: "'p platform_scheme \<Rightarrow> registry \<Rightarrow> FederatedRouteRegistration \<Rightarrow> VerserError" where
  "rejection_error P reg r = the (projr (getImportedRouteRejection P reg r))"

lemma getImportedRouteRejection_cases:
  assumes "reg_inv reg"
  shows "getImportedRouteRejection P reg r =
           Inr (if accepts reg r then None else Some (rejection_error P reg r))"
    and "\<not> accepts reg r \<Longrightarrow> err_code (rejection_error P reg r) = route_loop"
proof -
  from getImportedRouteRejection_eq [OF assms, of P r] obtain v where
    v: "getImportedRouteRejection P reg r = Inr v" "v = None \<longleftrightarrow> accepts reg r"
       "\<And>e. v = Some e \<Longrightarrow> err_code e = route_loop"
    by (auto simp: accepts_def)
  then show "getImportedRouteRejection P reg r =
               Inr (if accepts reg r then None else Some (rejection_error P reg r))"
    and "\<not> accepts reg r \<Longrightarrow> err_code (rejection_error P reg r) = route_loop"
    by (auto simp: rejection_error_def)
qed

lemma import_loop:
  assumes "reg_inv reg"
  shows "foldE (import_route P reg) inputs acc =
    bindE (mapE (\<lambda>j. createFederatedRouteRegistration P (with_source_upstream j)) inputs) (\<lambda>rs.
      Inr (fst acc @ filter (accepts reg) rs,
           snd acc @ map (\<lambda>r. (r, rejection_error P reg r)) (filter (\<lambda>r. \<not> accepts reg r) rs)))"
proof (induction inputs arbitrary: acc)
  case Nil
  then show ?case by simp
next
  case (Cons j inputs)
  show ?case
  proof (cases "createFederatedRouteRegistration P (with_source_upstream j)")
    case (Inl e)
    then show ?thesis by (simp add: import_route_def)
  next
    case (Inr r)
    then show ?thesis
      using Cons
      by (cases "mapE (\<lambda>j. createFederatedRouteRegistration P (with_source_upstream j)) inputs")
         (auto simp: import_route_def getImportedRouteRejection_cases(1) [OF assms])
  qed
qed

lemma imported_okI:
  assumes "mapE (\<lambda>j. createFederatedRouteRegistration P (with_source_upstream j)) inputs = Inr rs"
    and "r \<in> set rs" "accepts reg r"
  shows "imported_ok reg r"
proof -
  have "\<forall>r \<in> set rs. route_ok r \<and> source r = src_upstream"
    using assms(1)
  proof (rule mapE_Inr_all)
    fix j r
    assume "createFederatedRouteRegistration P (with_source_upstream j) = Inr r"
    then show "route_ok r \<and> source r = src_upstream"
      using createFederatedRouteRegistration_ok [of P "with_source_upstream j" r] source_with_upstream [of j]
      by (auto elim!: createFederatedRouteRegistration_InrE)
  qed
  with assms show ?thesis by (auto simp: imported_ok_def accepts_def)
qed

section \<open>Every operation preserves the invariant\<close>

lemma inv_fields:
  "local_ok (reg\<lparr>localRoutes := l\<rparr>) = local_ok reg"
  "local_ok (reg\<lparr>importedRoutes := i\<rparr>) = local_ok reg"
  "local_ok (reg\<lparr>degradedRoutes := d\<rparr>) = local_ok reg"
  "local_ok (reg\<lparr>routeGenerationCounter := c\<rparr>) = local_ok reg"
  "imported_ok (reg\<lparr>localRoutes := l\<rparr>) = imported_ok reg"
  "imported_ok (reg\<lparr>importedRoutes := i\<rparr>) = imported_ok reg"
  "imported_ok (reg\<lparr>degradedRoutes := d\<rparr>) = imported_ok reg"
  "imported_ok (reg\<lparr>routeGenerationCounter := c\<rparr>) = imported_ok reg"
  "entry_ok (reg\<lparr>localRoutes := l\<rparr>) = entry_ok reg"
  "entry_ok (reg\<lparr>importedRoutes := i\<rparr>) = entry_ok reg"
  "entry_ok (reg\<lparr>degradedRoutes := d\<rparr>) = entry_ok reg"
  by (auto simp: local_ok_def imported_ok_def entry_ok_def fun_eq_iff)

lemma entry_ok_mono:
  "entry_ok reg e \<Longrightarrow> routeGenerationCounter reg \<le> c \<Longrightarrow> entry_ok (reg\<lparr>routeGenerationCounter := c\<rparr>) e"
  by (force simp: entry_ok_def inv_fields)

lemma inv_set_local:
  assumes "reg_inv reg" "list_all (local_ok reg) rs"
  shows "reg_inv (reg\<lparr>localRoutes := AList.update p rs (localRoutes reg)\<rparr>)"
  using assms by (simp add: reg_inv_def inv_fields)

lemma inv_del_local:
  "reg_inv reg \<Longrightarrow> reg_inv (reg\<lparr>localRoutes := AList.delete p (localRoutes reg)\<rparr>)"
  by (simp add: reg_inv_def inv_fields)

lemma inv_set_imported:
  assumes "reg_inv reg" "list_all (imported_ok reg) rs"
  shows "reg_inv (reg\<lparr>importedRoutes := AList.update p rs (importedRoutes reg)\<rparr>)"
  using assms by (simp add: reg_inv_def inv_fields)

lemma inv_del_imported:
  "reg_inv reg \<Longrightarrow> reg_inv (reg\<lparr>importedRoutes := AList.delete p (importedRoutes reg)\<rparr>)"
  by (simp add: reg_inv_def inv_fields)

lemma inv_del_degraded:
  assumes "reg_inv reg"
  shows "reg_inv (reg\<lparr>degradedRoutes := AList.delete p (degradedRoutes reg)\<rparr>)"
proof -
  have "distinct (map (\<lambda>(p, entry). generationId (de_generation entry)) (AList.delete p (degradedRoutes reg)))"
    using reg_invD(9) [OF assms] unfolding AList.delete_eq by (rule distinct_map_filter)
  then show ?thesis
    using assms by (simp add: reg_inv_def inv_fields)
qed

lemma inv_bump: "reg_inv reg \<Longrightarrow> reg_inv (reg\<lparr>routeGenerationCounter := routeGenerationCounter reg + 1\<rparr>)"
  by (auto simp: reg_inv_def inv_fields list_all_iff intro: entry_ok_mono)

lemma local_lookup: "reg_inv reg \<Longrightarrow> map_of (localRoutes reg) p = Some rs \<Longrightarrow> r \<in> set rs \<Longrightarrow> local_ok reg r"
  by (blast dest: map_of_SomeD reg_invD(6))

lemma imported_lookup:
  "reg_inv reg \<Longrightarrow> map_of (importedRoutes reg) p = Some rs \<Longrightarrow> r \<in> set rs \<Longrightarrow> imported_ok reg r"
  by (blast dest: map_of_SomeD reg_invD(7))

lemma setLocalRoutes_cases:
  assumes "reg_inv reg"
  obtains e where "setLocalRoutes P p ds reg = (Inl e, reg)"
  | ds' where "mapE (createRoutedDomainRegistration P) ds = Inr ds'"
      "setLocalRoutes P p ds reg =
        (Inr (), reg\<lparr>localRoutes := AList.update p (map (local_route (hostId reg)) ds') (localRoutes reg)\<rparr>)"
      "list_all (local_ok reg) (map (local_route (hostId reg)) ds')"
proof -
  let ?f = "\<lambda>r. bindE (createRoutedDomainRegistration P r) (\<lambda>d.
                createFederatedRouteRegistration P (route_json (local_route (hostId reg) d)))"
  note host = reg_invD(1) [OF assms]
  have "(\<exists>e. mapE ?f ds = Inl e) \<or>
    (\<exists>ds'. mapE (createRoutedDomainRegistration P) ds = Inr ds' \<and>
       mapE ?f ds = Inr (map (local_route (hostId reg)) ds') \<and>
       (\<forall>d \<in> set ds'. local_ok reg (local_route (hostId reg) d)))"
  proof (induction ds)
    case (Cons d ds)
    then show ?case
      by (cases "createRoutedDomainRegistration P d") (auto dest: createFederated_local [OF host])
  qed simp
  then show thesis
    using that by (auto simp: setLocalRoutes_def list_all_iff)
qed

lemma setLocalRoutes_inv: "reg_inv reg \<Longrightarrow> reg_inv (snd (setLocalRoutes P p ds reg))"
  by (rule setLocalRoutes_cases [of reg P p ds]) (simp_all add: inv_set_local)

lemma revokeRoutes_inv: "reg_inv reg \<Longrightarrow> reg_inv (snd (revokeRoutes p ds reg))"
  by (auto simp: list_all_iff revokeRoutes_def Let_def split: option.splits
        intro!: inv_set_local inv_del_local dest: local_lookup)

lemma setImportedRoutes_inv:
  assumes "reg_inv reg"
  shows "reg_inv (snd (setImportedRoutes P u inputs reg))"
  using assms
  by (cases "mapE (\<lambda>j. createFederatedRouteRegistration P (with_source_upstream j)) inputs")
     (auto simp: list_all_iff setImportedRoutes_def import_loop Let_def intro!: inv_set_imported dest: imported_okI)

lemma removeImportedRoute_inv: "reg_inv reg \<Longrightarrow> reg_inv (snd (removeImportedRoute u t d reg))"
  by (auto simp: list_all_iff removeImportedRoute_def Let_def split: option.splits
        intro!: inv_set_imported inv_del_imported dest: imported_lookup)

lemma clear_inv: "reg_inv reg \<Longrightarrow> reg_inv (clear reg)"
  by (auto simp: clear_def reg_inv_def)

lemma degraded_lookup: "reg_inv reg \<Longrightarrow> map_of (degradedRoutes reg) p = Some e \<Longrightarrow> entry_ok reg e"
  by (blast dest: map_of_SomeD reg_invD(8))

lemma generation_fresh:
  assumes "reg_inv reg" "(p, e) \<in> set (degradedRoutes reg)"
  shows "generationId (de_generation e) \<noteq> gen_id (routeGenerationCounter reg + 1)"
  using reg_invD(8) [OF assms] by (auto simp: entry_ok_def)

text \<open>The entry and the state \<open>setDegraded\<close> leaves when it acts.\<close>

lemma setDegraded_acts:
  assumes "map_of (localRoutes reg) p = Some rs" "map_of (degradedRoutes reg) p = None"
  obtains gen where "generation_ok gen" "generationId gen = gen_id (routeGenerationCounter reg + 1)"
    "setDegraded P time p reg = (Inr (), reg\<lparr>routeGenerationCounter := routeGenerationCounter reg + 1,
       degradedRoutes := degradedRoutes reg @ [(p, \<lparr>de_routes = rs, degradedAt = time, de_generation = gen\<rparr>)],
       localRoutes := AList.delete p (localRoutes reg)\<rparr>)"
proof -
  obtain gen where "createVerserRouteGeneration P [] (Some (gen_id (routeGenerationCounter reg + 1))) (Some p) = Inr gen"
    "generation_ok gen" "generationId gen = gen_id (routeGenerationCounter reg + 1)"
    using createVerserRouteGeneration_gen by blast
  moreover have "p \<notin> fst ` set (degradedRoutes reg)"
    using assms(2) by (simp add: map_of_eq_None_iff)
  ultimately show thesis
    using assms that by (simp add: setDegraded_def Let_def update_new)
qed

lemma setDegraded_idle:
  "map_of (localRoutes reg) p = None \<or> map_of (degradedRoutes reg) p \<noteq> None \<Longrightarrow>
   setDegraded P time p reg = (Inr (), reg)"
  by (auto simp: setDegraded_def split: option.splits)

lemma setDegraded_inv:
  assumes "reg_inv reg"
  shows "reg_inv (snd (setDegraded P time p reg))"
proof (cases "map_of (localRoutes reg) p = None \<or> map_of (degradedRoutes reg) p \<noteq> None")
  case True
  then show ?thesis using assms by (simp add: setDegraded_idle)
next
  case False
  then obtain rs where rs: "map_of (localRoutes reg) p = Some rs" "map_of (degradedRoutes reg) p = None"
    by auto
  then obtain gen where gen: "generation_ok gen" "generationId gen = gen_id (routeGenerationCounter reg + 1)"
    and eq: "setDegraded P time p reg = (Inr (), reg\<lparr>routeGenerationCounter := routeGenerationCounter reg + 1,
       degradedRoutes := degradedRoutes reg @ [(p, \<lparr>de_routes = rs, degradedAt = time, de_generation = gen\<rparr>)],
       localRoutes := AList.delete p (localRoutes reg)\<rparr>)"
    by (rule setDegraded_acts)
  let ?reg = "reg\<lparr>routeGenerationCounter := routeGenerationCounter reg + 1\<rparr>"
  have "entry_ok ?reg \<lparr>de_routes = rs, degradedAt = time, de_generation = gen\<rparr>"
    using gen local_lookup [OF assms rs(1)] by (auto simp: entry_ok_def inv_fields)
  moreover have "gen_id (routeGenerationCounter reg + 1) \<notin>
      (\<lambda>(p, e). generationId (de_generation e)) ` set (degradedRoutes reg)"
    using generation_fresh [OF assms] by force
  ultimately show ?thesis
    using inv_bump [OF assms] rs(2) gen(2) unfolding eq
    by (simp add: reg_inv_def inv_fields map_of_eq_None_iff)
qed

text \<open>Restoring never throws: the degraded routes were validated when they were local.\<close>

lemma restoreRoutes_eq:
  assumes "reg_inv reg"
  shows "restoreRoutes P p reg =
    (case map_of (degradedRoutes reg) p of
       None \<Rightarrow> (Inr False, reg)
     | Some entry \<Rightarrow>
         (Inr True, reg\<lparr>routeGenerationCounter := routeGenerationCounter reg + 1,
                       localRoutes := AList.update p (de_routes entry) (localRoutes reg),
                       degradedRoutes := AList.delete p (degradedRoutes reg)\<rparr>))"
proof (cases "map_of (degradedRoutes reg) p")
  case None
  then show ?thesis by (simp add: restoreRoutes_def)
next
  case (Some entry)
  then have "mapE (\<lambda>r. createFederatedRouteRegistration P (route_json r)) (de_routes entry) = Inr (de_routes entry)"
    using degraded_lookup [OF assms Some] local_ok_route_ok [OF reg_invD(1) [OF assms]]
    by (intro mapE_Inr_id createFederatedRouteRegistration_id) (auto simp: entry_ok_def)
  then show ?thesis by (simp add: restoreRoutes_def Some Let_def)
qed

lemma restoreRoutes_inv:
  assumes "reg_inv reg"
  shows "reg_inv (snd (restoreRoutes P p reg))"
proof (cases "map_of (degradedRoutes reg) p")
  case None
  then show ?thesis using assms by (simp add: restoreRoutes_eq)
next
  case (Some entry)
  let ?reg = "reg\<lparr>routeGenerationCounter := routeGenerationCounter reg + 1\<rparr>"
  let ?reg' = "?reg\<lparr>localRoutes := AList.update p (de_routes entry) (localRoutes ?reg)\<rparr>"
  have "list_all (local_ok ?reg) (de_routes entry)"
    using degraded_lookup [OF assms Some] by (simp add: entry_ok_def inv_fields list_all_iff)
  with inv_bump [OF assms] have "reg_inv ?reg'" by (rule inv_set_local)
  from inv_del_degraded [OF this, of p] show ?thesis
    by (simp add: restoreRoutes_eq [OF assms] Some)
qed

lemma foldl_delete_filter:
  "foldl (\<lambda>m k. AList.delete k m) m ks = filter (\<lambda>(k, v). k \<notin> set ks) m"
proof (induction ks arbitrary: m)
  case Nil
  then show ?case by (simp add: case_prod_beta)
next
  case (Cons k ks)
  then show ?case by (auto simp: AList.delete_eq case_prod_beta intro: filter_cong)
qed

lemma removeExpired_state:
  assumes "distinct (map fst (degradedRoutes reg))"
  shows "snd (removeExpiredDegradedRoutes now t reg) =
    reg\<lparr>degradedRoutes := filter (\<lambda>(p, e). now - degradedAt e < t) (degradedRoutes reg)\<rparr>"
proof -
  have "filter (\<lambda>(p, e). p \<notin> fst ` {x \<in> set (degradedRoutes reg). case x of (p, e) \<Rightarrow> t \<le> now - degradedAt e})
          (degradedRoutes reg) =
        filter (\<lambda>(p, e). now - degradedAt e < t) (degradedRoutes reg)"
    using assms by (intro filter_cong) (force dest: eq_key_imp_eq_value simp: not_le image_iff)+
  then show ?thesis
    by (simp add: removeExpiredDegradedRoutes_def Let_def foldl_delete_filter)
qed

lemma list_all_filter: "list_all Q xs \<Longrightarrow> list_all Q (filter R xs)"
  by (auto simp: list_all_iff)

lemma removeExpired_inv:
  assumes "reg_inv reg"
  shows "reg_inv (snd (removeExpiredDegradedRoutes now t reg))"
  using assms unfolding removeExpired_state [OF reg_invD(5) [OF assms]]
  by (simp add: reg_inv_def inv_fields list_all_filter distinct_map_filter)

section \<open>Reachable registries\<close>

inductive registry_step :: "'p platform_scheme \<Rightarrow> registry \<Rightarrow> registry \<Rightarrow> bool" for P where
  set_local: "registry_step P reg (snd (setLocalRoutes P peer ds reg))"
| remove_local: "registry_step P reg (removeLocalRoutes peer reg)"
| revoke: "registry_step P reg (snd (revokeRoutes peer domains reg))"
| set_imported: "registry_step P reg (snd (setImportedRoutes P upstream inputs reg))"
| remove_imported: "registry_step P reg (removeImportedRoutes upstream reg)"
| remove_one: "registry_step P reg (snd (removeImportedRoute upstream t d reg))"
| degrade: "registry_step P reg (snd (setDegraded P time peer reg))"
| restore: "registry_step P reg (snd (restoreRoutes P peer reg))"
| expire: "registry_step P reg (snd (removeExpiredDegradedRoutes now timeoutMs reg))"
| clear_all: "registry_step P reg (clear reg)"

inductive registry_reachable :: "'p platform_scheme \<Rightarrow> registry \<Rightarrow> bool" for P where
  created: "createHostRouteRegistry P host maxHop = Inr reg \<Longrightarrow> registry_reachable P reg"
| stepped: "registry_reachable P reg \<Longrightarrow> registry_step P reg reg' \<Longrightarrow> registry_reachable P reg'"

lemma createHostRouteRegistry_inv:
  assumes "createHostRouteRegistry P h m = Inr reg"
  shows "reg_inv reg"
proof -
  have "0 \<le> int_of_num n" if "isInteger n" "\<not> num_lt n 0" for n
    using that by (cases n) auto
  then show ?thesis
    using assms
    by (auto simp: createHostRouteRegistry_def reg_inv_def result_simps id_ok_def Let_def split: if_splits)
qed

lemma registry_step_inv: "registry_step P reg reg' \<Longrightarrow> reg_inv reg \<Longrightarrow> reg_inv reg'"
  by (cases rule: registry_step.cases)
     (auto simp: setLocalRoutes_inv revokeRoutes_inv setImportedRoutes_inv removeImportedRoute_inv
        setDegraded_inv restoreRoutes_inv removeExpired_inv clear_inv removeLocalRoutes_def
        removeImportedRoutes_def inv_del_local inv_del_imported)

lemma reachable_inv: "registry_reachable P reg \<Longrightarrow> reg_inv reg"
  by (induction rule: registry_reachable.induct)
     (blast intro: createHostRouteRegistry_inv registry_step_inv)+

section \<open>Queries on the stored routes\<close>

lemma map_route_stored: "map route (stored m) = concat (map snd m)"
  by (induction m) (auto simp: stored_def comp_def)

lemma active_routes:
  "map route (getActiveCandidates reg) = concat (map snd (localRoutes reg)) @ concat (map snd (importedRoutes reg))"
  by (simp add: getActiveCandidates_def getLocalCandidates_def map_route_stored)

lemma compareCandidates_le:
  "compareCandidates P c d \<le> 0 \<Longrightarrow>
   sourceRank (source (route c)) < sourceRank (source (route d)) \<or>
   (source (route c) = source (route d) \<and> hopCount (route c) \<le> hopCount (route d))"
  by (cases "source (route c)"; cases "source (route d)")
     (auto simp: compareCandidates_def or_else_def Let_def split: if_splits)

text \<open>The routes of one peer, none when it has no entry.\<close>

definition peer_routes :: "registry \<Rightarrow> jsstr \<Rightarrow> FederatedRouteRegistration list" where
  "peer_routes reg p = (case map_of (localRoutes reg) p of Some rs \<Rightarrow> rs | None \<Rightarrow> [])"

lemma active_ok:
  assumes "reg_inv reg" "c \<in> set (getActiveCandidates reg)"
  shows "local_ok reg (route c) \<or> imported_ok reg (route c)"
proof -
  have "route c \<in> set (map route (getActiveCandidates reg))" using assms(2) by simp
  then show ?thesis
    unfolding active_routes using reg_invD(6,7) [OF assms(1)] by auto
qed

lemma exported_route_ok:
  assumes "reg_inv reg" "local_ok reg r \<or> imported_ok reg r"
  shows "route_ok (exported_route reg r)"
proof -
  have "route_ok r" using assms local_ok_route_ok reg_invD(1) by (auto simp: imported_ok_def)
  then show ?thesis
    using reg_invD(1) [OF assms(1)] by (auto simp: route_ok_def exported_route_def appendHostId_def)
qed

context collation
begin

text \<open>Exporting never throws, and what it returns.\<close>

lemma export_eq:
  assumes "reg_inv reg"
  shows "getFederatedRoutesForExport P peer reg =
    Inr (map (exported_route reg)
      (filter (\<lambda>r. hopCount r + 1 \<le> maxFederationHopCount reg)
        (filter (\<lambda>r. case peer of None \<Rightarrow> True | Some p \<Rightarrow> originHostId r \<noteq> p \<and> p \<notin> set (viaHostIds r))
          (map route (getSelectedCandidates P reg)))))"
  unfolding getFederatedRoutesForExport_def Let_def
proof (rule mapE_Inr_map)
  fix r
  assume "r \<in> set (filter (\<lambda>r. hopCount r + 1 \<le> maxFederationHopCount reg)
        (filter (\<lambda>r. case peer of None \<Rightarrow> True | Some p \<Rightarrow> originHostId r \<noteq> p \<and> p \<notin> set (viaHostIds r))
          (map route (getSelectedCandidates P reg))))"
  then obtain c where "c \<in> set (getActiveCandidates reg)" "r = route c"
    using selectCandidates_set by (auto simp: getSelectedCandidates_def)
  then show "createFederatedRouteRegistration P (route_json (exported_route reg r)) = Inr (exported_route reg r)"
    using active_ok [OF assms] assms by (auto intro: createFederatedRouteRegistration_id exported_route_ok)
qed

lemma export_routes:
  assumes "reg_inv reg" "getFederatedRoutesForExport P peer reg = Inr rs" "r \<in> set rs"
  shows "route_ok r" "hopCount r \<le> maxFederationHopCount reg" "hostId reg \<in> set (viaHostIds r)"
    "nextHopHostId r = hostId reg"
    "peer = Some p \<Longrightarrow> p \<noteq> hostId reg \<Longrightarrow> originHostId r \<noteq> p \<and> p \<notin> set (viaHostIds r)"
proof -
  from assms(2,3) obtain s where s: "s \<in> route ` set (getActiveCandidates reg)" "r = exported_route reg s"
    "hopCount s + 1 \<le> maxFederationHopCount reg"
    "peer = Some p \<Longrightarrow> originHostId s \<noteq> p \<and> p \<notin> set (viaHostIds s)"
    using selectCandidates_set by (fastforce simp: export_eq [OF assms(1)] getSelectedCandidates_def)
  from s(1,2) show "route_ok r"
    using active_ok [OF assms(1)] assms(1) by (auto intro: exported_route_ok)
  from s show "hopCount r \<le> maxFederationHopCount reg" "hostId reg \<in> set (viaHostIds r)"
    "nextHopHostId r = hostId reg"
    "peer = Some p \<Longrightarrow> p \<noteq> hostId reg \<Longrightarrow> originHostId r \<noteq> p \<and> p \<notin> set (viaHostIds r)"
    by (auto simp: exported_route_def appendHostId_def)
qed

end

text \<open>Importing well-formed routes: validation keeps them, with the source overwritten.\<close>

definition as_upstream :: "FederatedRouteRegistration \<Rightarrow> FederatedRouteRegistration" where
  "as_upstream r = r\<lparr>source := src_upstream\<rparr>"

lemma with_source_route_json: "with_source_upstream (route_json r) = route_json (as_upstream r)"
  by (simp add: route_json_def as_upstream_def)

lemma as_upstream_simps [simp]:
  "route_ok (as_upstream r) = route_ok r" "accepts reg (as_upstream r) = accepts reg r"
  "hopCount (as_upstream r) = hopCount r" "source (as_upstream r) = src_upstream"
  "viaHostIds (as_upstream r) = viaHostIds r" "originHostId (as_upstream r) = originHostId r"
  by (simp_all add: as_upstream_def route_ok_def accepts_def)

lemma setImportedRoutes_ok:
  assumes "reg_inv reg" "\<forall>r \<in> set rs. route_ok r"
  shows "setImportedRoutes P u (map route_json rs) reg =
    (Inr \<lparr>up_rejected = map (\<lambda>r. (as_upstream r, rejection_error P reg (as_upstream r)))
                         (filter (\<lambda>r. \<not> accepts reg r) rs),
          up_changed = (routeSetKey P (case map_of (importedRoutes reg) u of Some q \<Rightarrow> q | None \<Rightarrow> []) \<noteq>
                        routeSetKey P (map as_upstream (filter (accepts reg) rs)))\<rparr>,
     reg\<lparr>importedRoutes := AList.update u (map as_upstream (filter (accepts reg) rs)) (importedRoutes reg)\<rparr>)"
proof -
  have "mapE (\<lambda>j. createFederatedRouteRegistration P (with_source_upstream j)) (map route_json rs) =
        Inr (map as_upstream rs)"
    unfolding mapE_map with_source_route_json using assms(2)
    by (intro mapE_Inr_map) (simp add: createFederatedRouteRegistration_id)
  then show ?thesis
    by (simp add: setImportedRoutes_def import_loop [OF assms(1)] filter_map comp_def Let_def)
qed

lemma expired_peers_iff:
  assumes "distinct (map fst (degradedRoutes reg))"
  shows "p \<in> set (expiredPeers (fst (removeExpiredDegradedRoutes now t reg))) \<longleftrightarrow>
         (\<exists>e. map_of (degradedRoutes reg) p = Some e \<and> t \<le> now - degradedAt e)"
  by (force simp: removeExpiredDegradedRoutes_def Let_def map_of_eq_Some_iff [OF assms])

lemma expired_entries_iff:
  assumes "distinct (map fst (degradedRoutes reg))"
  shows "(p, d) \<in> set (expiredRouteEntries (fst (removeExpiredDegradedRoutes now t reg))) \<longleftrightarrow>
         (\<exists>e. map_of (degradedRoutes reg) p = Some e \<and> t \<le> now - degradedAt e \<and> d \<in> domain ` set (de_routes e))"
  by (force simp: removeExpiredDegradedRoutes_def Let_def map_of_eq_Some_iff [OF assms])

lemma expired_routes_count:
  "expiredRoutes (fst (removeExpiredDegradedRoutes now t reg)) =
   length (expiredRouteEntries (fst (removeExpiredDegradedRoutes now t reg)))"
  by (simp add: removeExpiredDegradedRoutes_def Let_def length_concat comp_def case_prod_beta')

lemma expired_kept_iff:
  assumes "distinct (map fst (degradedRoutes reg))"
  shows "map_of (degradedRoutes (snd (removeExpiredDegradedRoutes now t reg))) p = Some e \<longleftrightarrow>
         map_of (degradedRoutes reg) p = Some e \<and> now - degradedAt e < t"
proof -
  have "distinct (map fst (filter (\<lambda>(p, e). now - degradedAt e < t) (degradedRoutes reg)))"
    using assms by (rule distinct_map_filter)
  then show ?thesis
    by (simp add: removeExpired_state [OF assms] map_of_eq_Some_iff [OF assms] map_of_eq_Some_iff)
qed

lemma degraded_domains:
  "domain ` set (getDegradedBrokerRoutesForPeer p reg) =
   (case map_of (degradedRoutes reg) p of None \<Rightarrow> {} | Some e \<Rightarrow> domain ` set (de_routes e))"
  by (auto simp: getDegradedBrokerRoutesForPeer_def broker_route_def image_image split: option.splits)

text \<open>The ordinal sort of a multiset of strings is unique.\<close>

lemma sort_by_ordinal_cong:
  "mset xs = mset ys \<Longrightarrow> sort_by ordinal xs = sort_by ordinal ys"
proof -
  assume "mset xs = mset ys"
  then have "mset (sort_by ordinal xs) = mset (sort_by ordinal ys)" by simp
  moreover have "sorted_wrt (\<lambda>s t. ordinal s t \<le> 0) (sort_by ordinal xs)"
    "sorted_wrt (\<lambda>s t. ordinal s t \<le> 0) (sort_by ordinal ys)"
    by (rule ord.sorted_sort_by)+
  ultimately show ?thesis
    by (intro sorted_wrt_mset_unique [where R = "\<lambda>s t. ordinal s t \<le> 0"] ordinal_antisym)
qed

section \<open>Properties\<close>

text \<open>C37: In every registry reachable through the public operations, in any order and with any
  input: local and degraded routes start at this Host with hop count 0, imported routes come
  from upstream, never list this Host and respect its hop limit, every identifier is trimmed and
  non-empty, and the generations of degraded peers are pairwise different.\<close>

theorem registry_invariant:
  assumes "registry_reachable P reg"
  shows "reg_inv reg"
  using assms by (rule reachable_inv)

definition sample_registry :: registry where
  "sample_registry = \<lparr>hostId = js ''h1'', maxFederationHopCount = 8, localRoutes = [],
     importedRoutes = [], degradedRoutes = [], routeGenerationCounter = 0\<rparr>"

lemma sample_registry_created:
  "createHostRouteRegistry P (Some (js ''h1'')) None = Inr sample_registry"
  using id_ok_js [of "''h1''"]
  by (simp add: createHostRouteRegistry_def sample_registry_def createVerserHostId_id js_ws_def
        del: createVerserHostId.simps)

lemma sample_registry_inv: "reg_inv sample_registry"
  using createHostRouteRegistry_inv [OF sample_registry_created] .

theorem registry_invariant_witness:
  "reg_inv (snd (setImportedRoutes sample_platform (js ''up'') [route_json sample_route] sample_registry))"
  by (rule registry_invariant [of sample_platform])
     (rule registry_reachable.stepped [OF registry_reachable.created [OF sample_registry_created]
        registry_step.set_imported])

text \<open>\<open>getCandidates\<close> returns exactly the stored routes of the target and domain asked for,
  each as often as it is stored: local before upstream, and within a source by hop count.\<close>

theorem getCandidates_ordered:
  assumes "collation P"
  shows "mset (getCandidates P t d reg) =
           mset (filter (\<lambda>r. (t = None \<or> Some (targetId r) = t) \<and> (d = None \<or> Some (domain r) = d))
             (concat (map snd (localRoutes reg)) @ concat (map snd (importedRoutes reg)))) \<and>
         sorted_wrt (\<lambda>r s. sourceRank (source r) < sourceRank (source s) \<or>
           (source r = source s \<and> hopCount r \<le> hopCount s)) (getCandidates P t d reg)"
proof
  show "mset (getCandidates P t d reg) =
           mset (filter (\<lambda>r. (t = None \<or> Some (targetId r) = t) \<and> (d = None \<or> Some (domain r) = d))
             (concat (map snd (localRoutes reg)) @ concat (map snd (importedRoutes reg))))"
    by (simp add: getCandidates_def active_routes [symmetric] filter_map comp_def)
  show "sorted_wrt (\<lambda>r s. sourceRank (source r) < sourceRank (source s) \<or>
           (source r = source s \<and> hopCount r \<le> hopCount s)) (getCandidates P t d reg)"
    unfolding getCandidates_def sorted_wrt_map
    using comparison.sorted_sort_by [OF compareCandidates_comparison [OF collation.axioms [OF assms]]]
    by (rule sorted_wrt_mono_rel [rotated]) (rule compareCandidates_le)
qed

theorem getCandidates_ordered_witness:
  "sorted_wrt (\<lambda>r s. sourceRank (source r) < sourceRank (source s) \<or>
      (source r = source s \<and> hopCount r \<le> hopCount s)) (getCandidates sample_platform None None sample_registry)"
  using getCandidates_ordered [OF sample.collation_axioms] by blast

text \<open>C38: The selection keeps, for every pair of target and domain with a candidate, exactly one
  candidate, and one that no other candidate of the pair precedes; it is the stable sort of the
  input with later duplicates dropped, so the second sort of the code changes nothing.\<close>

theorem selectCandidates_correct:
  assumes "collation P"
  shows "selectCandidates P cs =
           keep_first (\<lambda>c. routeIdentity (route c)) [] (sort_by (compareCandidates P) cs) \<and>
         set (selectCandidates P cs) \<subseteq> set cs \<and>
         distinct (map (\<lambda>c. routeIdentity (route c)) (selectCandidates P cs)) \<and>
         (\<forall>d \<in> set cs. \<exists>c \<in> set (selectCandidates P cs).
            routeIdentity (route c) = routeIdentity (route d) \<and> compareCandidates P c d \<le> 0)"
proof (intro conjI ballI)
  fix d
  assume d: "d \<in> set cs"
  then have "routeIdentity (route d) \<in> (\<lambda>c. routeIdentity (route c)) ` set (selectCandidates P cs)"
    unfolding collation.selectCandidates_identities [OF assms] by blast
  then obtain c where c: "c \<in> set (selectCandidates P cs)" "routeIdentity (route c) = routeIdentity (route d)"
    by auto
  with collation.selectCandidates_minimal [OF assms c(1) d]
  show "\<exists>c \<in> set (selectCandidates P cs).
          routeIdentity (route c) = routeIdentity (route d) \<and> compareCandidates P c d \<le> 0"
    by auto
qed (fact collation.selectCandidates_keep_first [OF assms],
     fact collation.selectCandidates_set [OF assms],
     fact collation.selectCandidates_distinct [OF assms])

theorem selectCandidates_correct_witness:
  "distinct (map (\<lambda>c. routeIdentity (route c))
     (selectCandidates sample_platform [\<lparr>ownerId = js ''up'', route = sample_route\<rparr>,
                                        \<lparr>ownerId = js ''up2'', route = sample_route\<rparr>]))"
  using selectCandidates_correct [OF sample.collation_axioms] by blast

text \<open>Whatever Host A exports to a different Host B is accepted there, up to B's own hop
  limit, with its fields unchanged but for the source; nothing is reported to B that visited it.\<close>

theorem export_accepted_by_peer:
  assumes "collation P" and "reg_inv A" and "reg_inv B" and "hostId A \<noteq> hostId B"
  shows "\<exists>rs upd. getFederatedRoutesForExport P (Some (hostId B)) A = Inr rs \<and>
    setImportedRoutes P u (map route_json rs) B =
      (Inr upd, B\<lparr>importedRoutes := AList.update u
          (map as_upstream (filter (\<lambda>r. hopCount r \<le> maxFederationHopCount B) rs)) (importedRoutes B)\<rparr>) \<and>
    map fst (up_rejected upd) = map as_upstream (filter (\<lambda>r. maxFederationHopCount B < hopCount r) rs)"
proof -
  obtain rs where rs: "getFederatedRoutesForExport P (Some (hostId B)) A = Inr rs"
    using collation.export_eq [OF assms(1,2)] by blast
  note ex = collation.export_routes [OF assms(1,2) rs]
  have acc: "accepts B r \<longleftrightarrow> hopCount r \<le> maxFederationHopCount B" if "r \<in> set rs" for r
    using ex(5) [OF that, of "hostId B"] assms(4) by (auto simp: accepts_def)
  then have f: "filter (accepts B) rs = filter (\<lambda>r. hopCount r \<le> maxFederationHopCount B) rs"
    "filter (\<lambda>r. \<not> accepts B r) rs = filter (\<lambda>r. maxFederationHopCount B < hopCount r) rs"
    by (auto intro!: filter_cong)
  have "\<forall>r \<in> set rs. route_ok r" using ex(1) by blast
  from setImportedRoutes_ok [OF assms(3) this, of P u] rs show ?thesis
    unfolding f by (auto simp: comp_def)
qed

definition sample_peer :: registry where
  "sample_peer = sample_registry\<lparr>hostId := js ''h9''\<rparr>"

lemma sample_peer_inv: "reg_inv sample_peer"
  using sample_registry_inv
  by (simp add: reg_inv_def sample_peer_def sample_registry_def id_ok_js js_ws_def)

theorem export_accepted_by_peer_witness:
  "\<exists>rs. getFederatedRoutesForExport sample_platform (Some (hostId sample_peer)) sample_registry = Inr rs"
  using export_accepted_by_peer [OF sample.collation_axioms sample_registry_inv sample_peer_inv]
  by (force simp: sample_peer_def sample_registry_def)

text \<open>A route that a Host exported is refused when it comes back, however it was relayed: any
  route whose path still lists the Host is rejected with \<open>route-loop\<close>, and an import made only
  of such routes leaves no route behind. Every exported route lists the exporter.\<close>

theorem returning_routes_rejected:
  assumes "collation P" and "reg_inv A" and "getFederatedRoutesForExport P peer A = Inr rs"
    and "list_all2 (\<lambda>r s. route_ok s \<and> set (viaHostIds r) \<subseteq> set (viaHostIds s)) rs relayed"
  shows "\<exists>upd. setImportedRoutes P u (map route_json relayed) A =
      (Inr upd, A\<lparr>importedRoutes := AList.update u [] (importedRoutes A)\<rparr>) \<and>
    map fst (up_rejected upd) = map as_upstream relayed \<and>
    (\<forall>(r, e) \<in> set (up_rejected upd). err_code e = route_loop)"
proof -
  have ok: "route_ok s \<and> \<not> accepts A s" if "s \<in> set relayed" for s
  proof -
    from that assms(4) obtain r where "r \<in> set rs" "route_ok s" "set (viaHostIds r) \<subseteq> set (viaHostIds s)"
      by (blast dest: list_all2_in_right)
    then show ?thesis
      using collation.export_routes(3) [OF assms(1-3)] by (auto simp: accepts_def)
  qed
  then have "filter (accepts A) relayed = []" "filter (\<lambda>r. \<not> accepts A r) relayed = relayed"
    by auto
  moreover have "\<forall>r \<in> set relayed. route_ok r" using ok by blast
  ultimately show ?thesis
    using ok setImportedRoutes_ok [OF assms(2), of relayed P u]
    by (auto simp: comp_def intro!: getImportedRouteRejection_cases(2) [OF assms(2)])
qed

definition sample_local :: FederatedRouteRegistration where
  "sample_local = local_route (js ''h1'') \<lparr>targetId = js ''g'', domain = js ''d''\<rparr>"

definition sample_registered :: registry where
  "sample_registered = sample_registry\<lparr>localRoutes := [(js ''g'', [sample_local])]\<rparr>"

lemma sample_local_ok: "local_ok sample_registry sample_local"
  by (simp add: local_ok_def sample_local_def local_route_def sample_registry_def id_ok_js js_ws_def)

lemma sample_registered_inv: "reg_inv sample_registered"
  using inv_set_local [OF sample_registry_inv, of "[sample_local]" "js ''g''"] sample_local_ok
  by (simp add: sample_registered_def sample_registry_def)

lemma sample_registered_exports:
  "getFederatedRoutesForExport sample_platform None sample_registered = Inr [sample_local\<lparr>hopCount := 1\<rparr>]"
  unfolding sample.export_eq [OF sample_registered_inv]
  by (simp add: getSelectedCandidates_def getActiveCandidates_def getLocalCandidates_def
        stored_def sample_registry_def selectCandidates_def exported_route_def local_route_def
        appendHostId_def sample_registered_def sample_local_def)

theorem returning_routes_rejected_witness:
  "\<exists>upd. setImportedRoutes sample_platform (js ''up'') [route_json (sample_local\<lparr>hopCount := 1\<rparr>)] sample_registered =
      (Inr upd, sample_registered\<lparr>importedRoutes := AList.update (js ''up'') [] (importedRoutes sample_registered)\<rparr>)"
proof -
  have "route_ok (sample_local\<lparr>hopCount := 1\<rparr>)"
    using local_ok_route_ok [OF reg_invD(1) [OF sample_registry_inv] sample_local_ok]
    by (simp add: route_ok_def)
  then show ?thesis
    using returning_routes_rejected [OF sample.collation_axioms sample_registered_inv sample_registered_exports,
        of "[sample_local\<lparr>hopCount := 1\<rparr>]" "js ''up''"]
    by force
qed

text \<open>Revoking domains of a peer removes exactly its routes with those domains, reports every
  requested domain as revoked or not found (never both), and leaves other peers, imported and
  degraded routes alone.\<close>

theorem revokeRoutes_partition:
  "case revokeRoutes p ds reg of ((rv, nf), reg') \<Rightarrow>
     set rv = set ds \<inter> domain ` set (peer_routes reg p) \<and> set nf = set ds - domain ` set (peer_routes reg p) \<and>
     peer_routes reg' q = (if q = p then filter (\<lambda>r. domain r \<notin> set ds) (peer_routes reg p) else peer_routes reg q) \<and>
     importedRoutes reg' = importedRoutes reg \<and> degradedRoutes reg' = degradedRoutes reg"
proof (cases "map_of (localRoutes reg) p")
  case None
  then show ?thesis by (auto simp: revokeRoutes_def peer_routes_def)
next
  case (Some rs)
  then show ?thesis
    by (auto simp: revokeRoutes_def peer_routes_def Let_def assoc_simps)
qed

text \<open>Degrading a connected peer takes its routes out of the candidates while Brokers still see
  them; restoring puts exactly the same routes back, succeeds, and uses two generations.\<close>

theorem degrade_restore_roundtrip:
  assumes "collation P" and "reg_inv reg"
    and "map_of (localRoutes reg) p = Some rs" and "map_of (degradedRoutes reg) p = None"
    and reg1_def: "reg1 = snd (setDegraded P time p reg)"
    and reg2_def: "reg2 = snd (restoreRoutes P p reg1)"
  shows "map_of (localRoutes reg1) p = None \<and>
    (\<forall>r \<in> set rs. routeIdentity r \<in> routeIdentity ` set (getBrokerRoutes P reg1)) \<and>
    fst (restoreRoutes P p reg1) = Inr True \<and> map_of (localRoutes reg2) = map_of (localRoutes reg) \<and>
    degradedRoutes reg2 = degradedRoutes reg \<and> importedRoutes reg2 = importedRoutes reg \<and>
    routeGenerationCounter reg2 = routeGenerationCounter reg + 2"
proof -
  from assms(3,4) obtain gen where
    eq: "setDegraded P time p reg = (Inr (), reg\<lparr>routeGenerationCounter := routeGenerationCounter reg + 1,
       degradedRoutes := degradedRoutes reg @ [(p, \<lparr>de_routes = rs, degradedAt = time, de_generation = gen\<rparr>)],
       localRoutes := AList.delete p (localRoutes reg)\<rparr>)"
    by (rule setDegraded_acts)
  have fresh: "p \<notin> fst ` set (degradedRoutes reg)"
    using assms(4) by (simp add: map_of_eq_None_iff)
  then have look: "map_of (degradedRoutes reg1) p = Some \<lparr>de_routes = rs, degradedAt = time, de_generation = gen\<rparr>"
    using assms(4) by (simp add: reg1_def eq map_add_def)
  have "reg_inv reg1" unfolding reg1_def by (rule setDegraded_inv [OF assms(2)])
  note restored = restoreRoutes_eq [OF this, of P p, unfolded look]
  have "routeIdentity r \<in> routeIdentity ` set (getBrokerRoutes P reg1)" if "r \<in> set rs" for r
  proof -
    have "broker_route r \<in> set (getDegradedBrokerRoutes reg1)"
      using that by (force simp: getDegradedBrokerRoutes_def reg1_def eq)
    then have "routeIdentity (broker_route r) \<in> routeIdentity ` set (getBrokerRoutes P reg1)"
      by (auto simp: getBrokerRoutes_def keep_first_keys Let_def)
    then show ?thesis by (simp add: routeIdentity_def broker_route_def)
  qed
  moreover have "AList.delete p (degradedRoutes reg1) = degradedRoutes reg"
    using fresh by (force simp: reg1_def eq AList.delete_eq filter_id_conv)
  ultimately show ?thesis
    using assms(3) by (auto simp: reg2_def restored) (auto simp: reg1_def eq assoc_simps)
qed

lemma sample_registered_lookup:
  "map_of (localRoutes sample_registered) (js ''g'') = Some [sample_local]"
  "map_of (degradedRoutes sample_registered) (js ''g'') = None"
  by (simp_all add: sample_registered_def sample_registry_def)

theorem degrade_restore_roundtrip_witness:
  "fst (restoreRoutes sample_platform (js ''g'')
     (snd (setDegraded sample_platform 7 (js ''g'') sample_registered))) = Inr True"
  using degrade_restore_roundtrip [OF sample.collation_axioms sample_registered_inv
      sample_registered_lookup refl refl, of 7] by blast

text \<open>Expiry removes exactly the degraded peers whose age has reached the timeout, reports each
  once with all its domains, and keeps the others.\<close>

theorem removeExpired_exact:
  assumes "reg_inv reg" and "removeExpiredDegradedRoutes now t reg = (res, reg')"
  shows "distinct (expiredPeers res) \<and>
    (\<forall>p. p \<in> set (expiredPeers res) \<longleftrightarrow>
        (\<exists>e. map_of (degradedRoutes reg) p = Some e \<and> t \<le> now - degradedAt e)) \<and>
    (\<forall>p e. map_of (degradedRoutes reg') p = Some e \<longleftrightarrow>
        map_of (degradedRoutes reg) p = Some e \<and> now - degradedAt e < t) \<and>
    (\<forall>p d. (p, d) \<in> set (expiredRouteEntries res) \<longleftrightarrow>
        p \<in> set (expiredPeers res) \<and> d \<in> domain ` set (getDegradedBrokerRoutesForPeer p reg)) \<and>
    expiredRoutes res = length (expiredRouteEntries res)"
proof -
  have dm: "distinct (map fst (degradedRoutes reg))" by (rule reg_invD(5) [OF assms(1)])
  have res: "res = fst (removeExpiredDegradedRoutes now t reg)"
    and reg': "reg' = snd (removeExpiredDegradedRoutes now t reg)"
    using assms(2) by simp_all
  have "distinct (expiredPeers res)"
    using distinct_map_filter [OF dm] by (simp add: res removeExpiredDegradedRoutes_def Let_def)
  moreover have "(p, d) \<in> set (expiredRouteEntries res) \<longleftrightarrow>
      p \<in> set (expiredPeers res) \<and> d \<in> domain ` set (getDegradedBrokerRoutesForPeer p reg)" for p d
    unfolding res expired_entries_iff [OF dm] expired_peers_iff [OF dm] degraded_domains by auto
  ultimately show ?thesis
    by (intro conjI allI)
       (simp_all add: res reg' expired_peers_iff [OF dm] expired_kept_iff [OF dm] expired_routes_count)
qed

lemma sample_degraded_inv: "reg_inv (snd (setDegraded sample_platform 7 (js ''g'') sample_registered))"
  by (rule setDegraded_inv) (rule sample_registered_inv)

theorem removeExpired_exact_witness:
  "expiredRoutes (fst (removeExpiredDegradedRoutes 10 3 (snd (setDegraded sample_platform 7 (js ''g'') sample_registered)))) =
   length (expiredRouteEntries (fst (removeExpiredDegradedRoutes 10 3
     (snd (setDegraded sample_platform 7 (js ''g'') sample_registered)))))"
  using removeExpired_exact [OF sample_degraded_inv, of 10 3] by (metis prod.collapse)

text \<open>Reordering the routes of an upstream is not reported as a change; but the fingerprint
  joins the path with commas, so a different path can also go unreported: the stored routes
  change and \<open>changed\<close> is false.\<close>

theorem import_change_detection:
  shows "(\<forall>prev rs. mset prev = mset rs \<longrightarrow> routeSetKey P prev = routeSetKey P rs) \<and>
    (let old = sample_route\<lparr>viaHostIds := [js ''h2'', js ''h3'']\<rparr>;
         new = sample_route\<lparr>viaHostIds := [js ''h2,h3'']\<rparr>;
         reg = snd (setImportedRoutes P (js ''up'') [route_json old] sample_registry);
         (res, reg') = setImportedRoutes P (js ''up'') [route_json new] reg
     in res = Inr \<lparr>up_rejected = [], up_changed = False\<rparr> \<and>
        map_of (importedRoutes reg) (js ''up'') = Some [old] \<and>
        map_of (importedRoutes reg') (js ''up'') = Some [new])"
proof
  show "\<forall>prev rs. mset prev = mset rs \<longrightarrow> routeSetKey P prev = routeSetKey P rs"
  proof (intro allI impI)
    fix prev rs :: "FederatedRouteRegistration list"
    assume "mset prev = mset rs"
    then have "mset (map (routeFingerprint P) prev) = mset (map (routeFingerprint P) rs)" by simp
    then have "sort_by ordinal (map (routeFingerprint P) prev) = sort_by ordinal (map (routeFingerprint P) rs)"
      by (rule sort_by_ordinal_cong)
    then show "routeSetKey P prev = routeSetKey P rs" by (simp add: routeSetKey_def)
  qed
  let ?old = "sample_route\<lparr>viaHostIds := [js ''h2'', js ''h3'']\<rparr>"
  let ?new = "sample_route\<lparr>viaHostIds := [js ''h2,h3'']\<rparr>"
  let ?set = "\<lambda>r reg. setImportedRoutes P (js ''up'') (map route_json [r]) reg"
  have ok: "route_ok ?old" "route_ok ?new"
    by (simp_all add: route_ok_def sample_route_def id_ok_js js_ws_def)
  have key: "routeSetKey P [?old] = routeSetKey P [?new]"
    by (simp add: routeSetKey_def routeFingerprint_def js_def)
  have first: "snd (?set ?old sample_registry) =
      sample_registry\<lparr>importedRoutes := [(js ''up'', [?old])]\<rparr>"
    by (subst setImportedRoutes_ok [OF sample_registry_inv])
       (use ok in \<open>simp_all add: accepts_def as_upstream_def sample_registry_def sample_route_def\<close>)
  have inv: "reg_inv (snd (?set ?old sample_registry))"
    by (rule setImportedRoutes_inv) (rule sample_registry_inv)
  have "?set ?new (snd (?set ?old sample_registry)) =
      (Inr \<lparr>up_rejected = [], up_changed = False\<rparr>, sample_registry\<lparr>importedRoutes := [(js ''up'', [?new])]\<rparr>)"
    unfolding first using key
    by (subst setImportedRoutes_ok [OF inv [unfolded first]])
       (use ok in \<open>simp_all add: accepts_def as_upstream_def sample_registry_def sample_route_def\<close>)
  with first show "let old = ?old; new = ?new;
         reg = snd (setImportedRoutes P (js ''up'') [route_json old] sample_registry);
         (res, reg') = setImportedRoutes P (js ''up'') [route_json new] reg
     in res = Inr \<lparr>up_rejected = [], up_changed = False\<rparr> \<and>
        map_of (importedRoutes reg) (js ''up'') = Some [old] \<and>
        map_of (importedRoutes reg') (js ''up'') = Some [new]"
    by simp
qed

theorem import_change_detection_witness:
  "routeSetKey sample_platform [sample_route, sample_local] = routeSetKey sample_platform [sample_local, sample_route]"
  using import_change_detection [of sample_platform] by (simp add: add_mset_commute)

end
