(* ===== verification/Route_Authorizer.thy ===== *)
theory Route_Authorizer
  imports Routing
begin

text \<open>
  The Host's hop-local authorization cache, \<open>packages/verser2-host/src/lib/route-authorizer.ts\<close>.
  A pending decision is an object compared by identity: decisions live in a store, named by
  their address, and the promise of a decision is named by the same address. \<open>decided\<close> records
  every call that settles a promise. The continuation of the awaited callback is an operation of
  its own, so that other operations interleave with it. \<open>now\<close> is \<open>Date.now()\<close>.
\<close>

section \<open>State\<close>

datatype verdict = allow | deny

record NormalizedAuthorizationResult =
  decision :: verdict
  expiresAt :: "jsnumber option"

record PendingDecision =
  pd_key :: jsstr
  pd_generation :: nat
  pd_revoked :: bool

datatype settlement = Answered bool | Failed thrown

record FederatedRouteAuthorizer =
  allowTtlMs :: rat
  denyTtlMs :: rat
  allowedPairs :: "(jsstr \<times> jsnumber) list"
  deniedPairs :: "(jsstr \<times> jsnumber) list"
  pendingDecisions :: "(jsstr \<times> nat) list"
  generation :: nat
  decisions :: "PendingDecision list"
  decided :: "(nat \<times> settlement) list"

type_synonym authorizer = FederatedRouteAuthorizer

definition new_authorizer :: "rat \<Rightarrow> rat \<Rightarrow> authorizer" where
  "new_authorizer allowTtl denyTtl =
     \<lparr>allowTtlMs = allowTtl, denyTtlMs = denyTtl, allowedPairs = [], deniedPairs = [],
      pendingDecisions = [], generation = 0, decisions = [], decided = []\<rparr>"

section \<open>Normalising a callback result\<close>

definition verdict_of_json :: "json option \<Rightarrow> verdict option" where
  "verdict_of_json v = (if v = Some (JStr (js ''allow'')) then Some allow
                        else if v = Some (JStr (js ''deny'')) then Some deny else None)"

fun json_string_ctx :: "json option \<Rightarrow> ctx_value" where
  "json_string_ctx (Some (JStr s)) = CStr s"
| "json_string_ctx _ = CUndef"

text \<open>The expiry of an explicit \<open>cacheTtlMs\<close>; \<open>Inr None\<close> when the result is not cached.\<close>

definition override_expiry :: "'p platform_scheme \<Rightarrow> rat \<Rightarrow> json \<Rightarrow> jsnumber option result" where
  "override_expiry P now raw =
    (if raw = JNum PInf then Inr (Some PInf)
     else case raw of
        JNum n \<Rightarrow>
          (if \<not> isSafeInteger n \<or> num_lt n 0
           then throwE P protocol_error ''Route authorizer cacheTtlMs must be 0, a positive safe integer, or Number.POSITIVE_INFINITY'' []
           else if n = Fin 0 then Inr None
           else (let expires = Fin (now + of_int (int_of_num n))
                 in if \<not> isSafeInteger expires
                    then throwE P protocol_error ''Route authorizer cacheTtlMs must produce a safe representable expiry'' []
                    else Inr (Some expires)))
      | _ \<Rightarrow> throwE P protocol_error ''Route authorizer cacheTtlMs must be 0, a positive safe integer, or Number.POSITIVE_INFINITY'' [])"

text \<open>The outcome is a string, an object or anything else (\<open>None\<close> is \<open>undefined\<close>).\<close>

definition normalizeAuthorizationResult ::
  "'p platform_scheme \<Rightarrow> rat \<Rightarrow> rat \<Rightarrow> rat \<Rightarrow> json option \<Rightarrow> NormalizedAuthorizationResult result" where
  "normalizeAuthorizationResult P now allowTtl denyTtl outcome =
    (let class_expiry = (\<lambda>d. let ttl = (if d = allow then allowTtl else denyTtl)
                             in if ttl = 0 then None else Some (Fin (now + ttl)))
     in case verdict_of_json outcome of
          Some d \<Rightarrow> Inr \<lparr>decision = d, expiresAt = class_expiry d\<rparr>
        | None \<Rightarrow>
          (case outcome of
             Some (JObj es) \<Rightarrow>
               (case verdict_of_json (obj_get (JObj es) ''decision'') of
                  None \<Rightarrow> throwE P protocol_error ''Route authorizer returned a missing or invalid decision''
                            [(''decision'', json_string_ctx (obj_get (JObj es) ''decision''))]
                | Some d \<Rightarrow>
                  (case obj_get (JObj es) ''cacheTtlMs'' of
                     None \<Rightarrow> Inr \<lparr>decision = d, expiresAt = class_expiry d\<rparr>
                   | Some raw \<Rightarrow>
                       bindE (override_expiry P now raw) (\<lambda>e. Inr \<lparr>decision = d, expiresAt = e\<rparr>)))
           | _ \<Rightarrow> throwE P protocol_error ''Route authorizer returned a missing or invalid decision'' []))"

section \<open>Operations\<close>

record pair =
  previousAdvertisedDomain :: jsstr
  nextSelectedDomain :: jsstr

definition federatedRouteAuthorizationPairKey :: "'p platform_scheme \<Rightarrow> pair \<Rightarrow> jsstr" where
  "federatedRouteAuthorizationPairKey P p =
     normalizeVerserRouteDomain P (previousAdvertisedDomain p) @ nul @
     normalizeVerserRouteDomain P (nextSelectedDomain p)"

fun expired :: "jsnumber \<Rightarrow> rat \<Rightarrow> bool" where
  "expired (Fin r) now = (r \<le> now)"
| "expired NInf now = True"
| "expired _ now = False"

text \<open>A look-up drops an expired entry.\<close>

definition isLive :: "(jsstr \<times> jsnumber) list \<Rightarrow> jsstr \<Rightarrow> rat \<Rightarrow> bool \<times> (jsstr \<times> jsnumber) list" where
  "isLive cache key now =
    (case map_of cache key of
       None \<Rightarrow> (False, cache)
     | Some e \<Rightarrow> if expired e now then (False, AList.delete key cache) else (True, cache))"

definition insert_cache :: "(jsstr \<times> jsnumber) list \<Rightarrow> jsstr \<Rightarrow> jsnumber option \<Rightarrow> (jsstr \<times> jsnumber) list" where
  "insert_cache cache key expires =
     (case expires of None \<Rightarrow> cache | Some e \<Rightarrow> AList.update key e cache)"

definition liveCount :: "(jsstr \<times> jsnumber) list \<Rightarrow> rat \<Rightarrow> nat" where
  "liveCount cache now = length (filter (\<lambda>e. num_gt e now) (map snd cache))"

text \<open>What \<open>authorizeHop\<close> returns: a resolved promise, the promise of a decision already
  running, or the promise of a decision whose callback was just started.\<close>

datatype answer = Immediate bool | Joined nat | Started nat

definition authorizeHop :: "'p platform_scheme \<Rightarrow> pair \<Rightarrow> rat \<Rightarrow> authorizer \<Rightarrow> answer \<times> authorizer" where
  "authorizeHop P p now s =
    (let key = federatedRouteAuthorizationPairKey P p;
         (allowed, allowedPairs') = isLive (allowedPairs s) key now;
         s1 = s\<lparr>allowedPairs := allowedPairs'\<rparr>
     in if allowed then (Immediate True, s1)
        else
          (let (denied, deniedPairs') = isLive (deniedPairs s1) key now;
               s2 = s1\<lparr>deniedPairs := deniedPairs'\<rparr>
           in if denied then (Immediate False, s2)
              else case map_of (pendingDecisions s2) key of
                     Some e \<Rightarrow> (Joined e, s2)
                   | None \<Rightarrow>
                     (let e = length (decisions s2)
                      in (Started e,
                          s2\<lparr>decisions := decisions s2 @ [\<lparr>pd_key = key, pd_generation = generation s2, pd_revoked = False\<rparr>],
                             pendingDecisions := AList.update key e (pendingDecisions s2)\<rparr>))))"

text \<open>
  The body after the awaited callback, with the \<open>finally\<close> clause: the callback has rejected
  (\<open>Inl\<close>) or returned (\<open>Inr\<close>).
\<close>

definition settle_promise :: "nat \<Rightarrow> settlement \<Rightarrow> authorizer \<Rightarrow> authorizer" where
  "settle_promise e v s = s\<lparr>decided := decided s @ [(e, v)]\<rparr>"

definition drop_pending :: "nat \<Rightarrow> authorizer \<Rightarrow> authorizer" where
  "drop_pending e s =
    (let key = pd_key (decisions s ! e)
     in if map_of (pendingDecisions s) key = Some e
        then s\<lparr>pendingDecisions := AList.delete key (pendingDecisions s)\<rparr> else s)"

definition finish_decision ::
  "'p platform_scheme \<Rightarrow> nat \<Rightarrow> thrown + json option \<Rightarrow> rat \<Rightarrow> authorizer \<Rightarrow> authorizer" where
  "finish_decision P e outcome now s =
    (let entry = decisions s ! e; key = pd_key entry in
     drop_pending e
       (case bindE outcome (normalizeAuthorizationResult P now (allowTtlMs s) (denyTtlMs s)) of
          Inl err \<Rightarrow> settle_promise e (Failed err) s
        | Inr result \<Rightarrow>
            (if pd_revoked entry \<or> pd_generation entry \<noteq> generation s
             then settle_promise e (Answered False) s
             else if decision result = allow
             then settle_promise e (Answered True)
                    (s\<lparr>allowedPairs := insert_cache (allowedPairs s) key (expiresAt result)\<rparr>)
             else settle_promise e (Answered False)
                    (s\<lparr>deniedPairs := insert_cache (deniedPairs s) key (expiresAt result)\<rparr>))))"

definition revokePair :: "'p platform_scheme \<Rightarrow> pair \<Rightarrow> authorizer \<Rightarrow> bool \<times> authorizer" where
  "revokePair P p s =
    (let key = federatedRouteAuthorizationPairKey P p;
         pending = map_of (pendingDecisions s) key;
         s1 = (case pending of
                 Some e \<Rightarrow> s\<lparr>decisions := (decisions s)[e := (decisions s ! e)\<lparr>pd_revoked := True\<rparr>],
                             pendingDecisions := AList.delete key (pendingDecisions s)\<rparr>
               | None \<Rightarrow> s);
         removedAllow = (map_of (allowedPairs s1) key \<noteq> None);
         removedDeny = (map_of (deniedPairs s1) key \<noteq> None)
     in (removedAllow \<or> removedDeny \<or> pending \<noteq> None,
         s1\<lparr>allowedPairs := AList.delete key (allowedPairs s1),
            deniedPairs := AList.delete key (deniedPairs s1)\<rparr>))"

definition invalidate :: "authorizer \<Rightarrow> authorizer" where
  "invalidate s = s\<lparr>generation := generation s + 1, allowedPairs := [], deniedPairs := []\<rparr>"

section \<open>Invariant\<close>

text \<open>A decision is in flight until its promise is settled.\<close>

definition in_flight :: "authorizer \<Rightarrow> nat \<Rightarrow> bool" where
  "in_flight s e \<longleftrightarrow> e < length (decisions s) \<and> e \<notin> fst ` set (decided s)"

text \<open>The table of pending decisions holds exactly the decisions in flight that were not revoked,
  under their keys: one callback per pair at a time.\<close>

definition pending_ok :: "authorizer \<Rightarrow> bool" where
  "pending_ok s \<longleftrightarrow> distinct (map fst (pendingDecisions s)) \<and> distinct (map fst (decided s)) \<and>
     (\<forall>e \<in> fst ` set (decided s). e < length (decisions s)) \<and>
     (\<forall>k e. map_of (pendingDecisions s) k = Some e \<longleftrightarrow>
        in_flight s e \<and> pd_key (decisions s ! e) = k \<and> \<not> pd_revoked (decisions s ! e))"

text \<open>A pair is in at most one of the three tables.\<close>

definition caches_ok :: "authorizer \<Rightarrow> bool" where
  "caches_ok s \<longleftrightarrow> distinct (map fst (allowedPairs s)) \<and> distinct (map fst (deniedPairs s)) \<and>
     (\<forall>k. map_of (allowedPairs s) k \<noteq> None \<longrightarrow> map_of (deniedPairs s) k = None) \<and>
     (\<forall>k. map_of (allowedPairs s) k \<noteq> None \<longrightarrow> map_of (pendingDecisions s) k = None) \<and>
     (\<forall>k. map_of (deniedPairs s) k \<noteq> None \<longrightarrow> map_of (pendingDecisions s) k = None)"

text \<open>A decision that backs a cached answer: of this generation, not revoked, and answered so.\<close>

definition backed :: "authorizer \<Rightarrow> bool \<Rightarrow> jsstr \<Rightarrow> bool" where
  "backed s b k \<longleftrightarrow> (\<exists>e < length (decisions s). pd_key (decisions s ! e) = k \<and>
     pd_generation (decisions s ! e) = generation s \<and> \<not> pd_revoked (decisions s ! e) \<and>
     (e, Answered b) \<in> set (decided s))"

definition provenance_ok :: "authorizer \<Rightarrow> bool" where
  "provenance_ok s \<longleftrightarrow> (\<forall>k. map_of (allowedPairs s) k \<noteq> None \<longrightarrow> backed s True k) \<and>
     (\<forall>k. map_of (deniedPairs s) k \<noteq> None \<longrightarrow> backed s False k)"

definition auth_inv :: "authorizer \<Rightarrow> bool" where
  "auth_inv s \<longleftrightarrow> pending_ok s \<and> caches_ok s \<and> provenance_ok s"

lemma isLive_eq:
  "isLive cache key now =
    (case map_of cache key of
       Some x \<Rightarrow> (\<not> expired x now, if expired x now then AList.delete key cache else cache)
     | None \<Rightarrow> (False, cache))"
  by (simp add: isLive_def split: option.splits)

lemma isLive_False: "isLive cache key now = (False, c) \<Longrightarrow> map_of c key = None"
  by (auto simp: isLive_eq delete_conv' split: option.splits if_splits)

lemma isLive_sub: "isLive cache key now = (b, c) \<Longrightarrow> map_of c k \<noteq> None \<Longrightarrow> map_of c k = map_of cache k"
  by (auto simp: isLive_eq delete_conv' split: option.splits if_splits)

lemma isLive_distinct: "isLive cache key now = (b, c) \<Longrightarrow> distinct (map fst cache) \<Longrightarrow> distinct (map fst c)"
  by (auto simp: isLive_eq split: option.splits if_splits)

lemma pending_cong:
  "pendingDecisions s = pendingDecisions t \<Longrightarrow> decided s = decided t \<Longrightarrow> decisions s = decisions t \<Longrightarrow>
   pending_ok s = pending_ok t"
  by (simp add: pending_ok_def in_flight_def)

lemma pending_iff:
  "pending_ok s \<Longrightarrow> map_of (pendingDecisions s) k = Some e \<longleftrightarrow>
     in_flight s e \<and> pd_key (decisions s ! e) = k \<and> \<not> pd_revoked (decisions s ! e)"
  by (simp only: pending_ok_def)

lemma pendingD:
  assumes "pending_ok s" "map_of (pendingDecisions s) k = Some e"
  shows "e < length (decisions s)" "e \<notin> fst ` set (decided s)" "pd_key (decisions s ! e) = k"
    "\<not> pd_revoked (decisions s ! e)"
  using assms by (auto simp: pending_ok_def in_flight_def)

lemma auth_inv_shrink:
  assumes "auth_inv s" "distinct (map fst a)" "distinct (map fst d)"
    "\<And>k. map_of a k \<noteq> None \<Longrightarrow> map_of (allowedPairs s) k \<noteq> None"
    "\<And>k. map_of d k \<noteq> None \<Longrightarrow> map_of (deniedPairs s) k \<noteq> None"
  shows "auth_inv (s\<lparr>allowedPairs := a, deniedPairs := d\<rparr>)"
proof -
  have "pending_ok (s\<lparr>allowedPairs := a, deniedPairs := d\<rparr>)"
    using assms(1) pending_cong [of "s\<lparr>allowedPairs := a, deniedPairs := d\<rparr>" s] by (simp add: auth_inv_def)
  moreover have "caches_ok (s\<lparr>allowedPairs := a, deniedPairs := d\<rparr>)"
    using assms unfolding auth_inv_def caches_ok_def by (simp del: not_None_eq) metis
  moreover have "provenance_ok (s\<lparr>allowedPairs := a, deniedPairs := d\<rparr>)"
    using assms by (simp add: auth_inv_def provenance_ok_def backed_def)
  ultimately show ?thesis by (simp add: auth_inv_def)
qed

lemma start_inv:
  assumes "auth_inv s" "map_of (allowedPairs s) k = None" "map_of (deniedPairs s) k = None"
    "map_of (pendingDecisions s) k = None"
  shows "auth_inv (s\<lparr>decisions := decisions s @ [\<lparr>pd_key = k, pd_generation = generation s, pd_revoked = False\<rparr>],
     pendingDecisions := AList.update k (length (decisions s)) (pendingDecisions s)\<rparr>)" (is "auth_inv ?s")
proof -
  from assms(1) have p: "pending_ok s" and c: "caches_ok s" and v: "provenance_ok s" by (auto simp: auth_inv_def)
  let ?n = "length (decisions s)"
  have n: "?n \<notin> fst ` set (decided s)" using p by (auto simp: pending_ok_def)
  have flight: "in_flight ?s e \<longleftrightarrow> in_flight s e \<or> e = ?n" for e
    using n by (auto simp: in_flight_def less_Suc_eq)
  have "map_of (pendingDecisions ?s) k' = Some e \<longleftrightarrow>
      in_flight ?s e \<and> pd_key (decisions ?s ! e) = k' \<and> \<not> pd_revoked (decisions ?s ! e)" for k' e
  proof (cases "e = ?n")
    case True
    moreover have "map_of (pendingDecisions s) k' \<noteq> Some ?n" using pendingD(1) [OF p] by blast
    ultimately show ?thesis by (auto simp: flight assoc_simps)
  next
    case False
    have "map_of (pendingDecisions ?s) k' = Some e \<longleftrightarrow> map_of (pendingDecisions s) k' = Some e"
      using False assms(4) by (auto simp: assoc_simps)
    also have "\<dots> \<longleftrightarrow> in_flight s e \<and> pd_key (decisions s ! e) = k' \<and> \<not> pd_revoked (decisions s ! e)"
      using p by (simp add: pending_ok_def)
    also have "\<dots> \<longleftrightarrow> in_flight ?s e \<and> pd_key (decisions ?s ! e) = k' \<and> \<not> pd_revoked (decisions ?s ! e)"
      using False by (auto simp: flight nth_append) (auto simp: in_flight_def)
    finally show ?thesis .
  qed
  then have "pending_ok ?s" using p by (auto simp: pending_ok_def)
  moreover have "caches_ok ?s" using c assms(2,3) by (auto simp: caches_ok_def assoc_simps)
  moreover have "backed s b k' \<Longrightarrow> backed ?s b k'" for b k'
    unfolding backed_def by (auto simp: nth_append intro: exI)
  then have "provenance_ok ?s" using v by (simp add: provenance_ok_def)
  ultimately show ?thesis by (simp add: auth_inv_def)
qed

lemma authorizeHop_inv:
  assumes "auth_inv s"
  shows "auth_inv (snd (authorizeHop P p now s))"
proof -
  let ?k = "federatedRouteAuthorizationPairKey P p"
  obtain b a where a: "isLive (allowedPairs s) ?k now = (b, a)" by force
  obtain b' d where d: "isLive (deniedPairs s) ?k now = (b', d)" by force
  have da: "distinct (map fst a)" "distinct (map fst d)" "distinct (map fst (deniedPairs s))"
    using assms isLive_distinct [OF a] isLive_distinct [OF d] by (auto simp: auth_inv_def caches_ok_def)
  have sub: "map_of a k \<noteq> None \<Longrightarrow> map_of (allowedPairs s) k \<noteq> None"
    "map_of d k \<noteq> None \<Longrightarrow> map_of (deniedPairs s) k \<noteq> None" for k
    using isLive_sub [OF a, of k] isLive_sub [OF d, of k] by metis+
  have i1: "auth_inv (s\<lparr>allowedPairs := a\<rparr>)"
    using auth_inv_shrink [OF assms da(1,3), of] sub by simp
  have i2: "auth_inv (s\<lparr>allowedPairs := a, deniedPairs := d\<rparr>)"
    using auth_inv_shrink [OF assms da(1,2)] sub by simp
  show ?thesis
  proof (cases "b \<or> b'")
    case True
    then show ?thesis using i1 i2 a d by (auto simp: authorizeHop_def Let_def)
  next
    case False
    then have "map_of a ?k = None" "map_of d ?k = None"
      using isLive_False a d by auto
    then show ?thesis
      using False i2 a d start_inv [OF i2, of ?k] by (simp add: authorizeHop_def Let_def split: option.splits)
  qed
qed

lemma drop_settle_sel [simp]:
  "decisions (drop_pending e (settle_promise e' v s)) = decisions s"
  "decided (drop_pending e (settle_promise e' v s)) = decided s @ [(e', v)]"
  "allowedPairs (drop_pending e (settle_promise e' v s)) = allowedPairs s"
  "deniedPairs (drop_pending e (settle_promise e' v s)) = deniedPairs s"
  "generation (drop_pending e (settle_promise e' v s)) = generation s"
  by (simp_all add: drop_pending_def settle_promise_def Let_def)

lemma drop_settle_pending:
  "map_of (pendingDecisions (drop_pending e (settle_promise e v s))) k =
   (if k = pd_key (decisions s ! e) \<and> map_of (pendingDecisions s) k = Some e then None
    else map_of (pendingDecisions s) k)"
  by (auto simp: drop_pending_def settle_promise_def Let_def assoc_simps)

lemma finish_pending_ok:
  assumes "pending_ok s" "in_flight s e"
  shows "pending_ok (drop_pending e (settle_promise e v s))" (is "pending_ok ?s")
proof -
  have "map_of (pendingDecisions ?s) k = Some e' \<longleftrightarrow>
      in_flight ?s e' \<and> pd_key (decisions ?s ! e') = k \<and> \<not> pd_revoked (decisions ?s ! e')" for k e'
  proof -
    have "map_of (pendingDecisions ?s) k = Some e' \<longleftrightarrow> map_of (pendingDecisions s) k = Some e' \<and> e' \<noteq> e"
      using pendingD(3) [OF assms(1), of k e] unfolding drop_settle_pending by auto
    moreover have "in_flight ?s e' \<longleftrightarrow> in_flight s e' \<and> e' \<noteq> e"
      by (auto simp: in_flight_def)
    ultimately show ?thesis using pending_iff [OF assms(1), of k e'] by simp blast
  qed
  moreover have "distinct (map fst (pendingDecisions ?s))"
    using assms(1) by (simp add: pending_ok_def drop_pending_def settle_promise_def Let_def)
  ultimately show ?thesis
    using assms by (auto simp: pending_ok_def in_flight_def)
qed

lemma finish_untouched:
  assumes "auth_inv s" "in_flight s e"
  shows "auth_inv (drop_pending e (settle_promise e v s))" (is "auth_inv ?s")
proof -
  from assms(1) have p: "pending_ok s" and c: "caches_ok s" and v: "provenance_ok s" by (auto simp: auth_inv_def)
  have "caches_ok ?s" using c by (auto simp: caches_ok_def drop_settle_pending)
  moreover have "backed s b k \<Longrightarrow> backed ?s b k" for b k by (auto simp: backed_def)
  then have "provenance_ok ?s" using v by (simp add: provenance_ok_def)
  ultimately show ?thesis using finish_pending_ok [OF p assms(2)] by (simp add: auth_inv_def)
qed

lemma insert_cache_lookup:
  "map_of (insert_cache c key x) k = (case x of None \<Rightarrow> map_of c k | Some e \<Rightarrow> if k = key then Some e else map_of c k)"
  by (auto simp: insert_cache_def assoc_simps split: option.splits)

lemma insert_cache_distinct: "distinct (map fst c) \<Longrightarrow> distinct (map fst (insert_cache c key x))"
  by (simp add: insert_cache_def split: option.splits)

text \<open>A current, unrevoked decision may cache its answer under its key.\<close>

lemma finish_caches:
  assumes "auth_inv s" "in_flight s e" "\<not> pd_revoked (decisions s ! e)" "pd_generation (decisions s ! e) = generation s"
    and dist: "distinct (map fst a)" "distinct (map fst d)"
    and old: "\<And>k. k \<noteq> pd_key (decisions s ! e) \<Longrightarrow> map_of a k = map_of (allowedPairs s) k"
      "\<And>k. k \<noteq> pd_key (decisions s ! e) \<Longrightarrow> map_of d k = map_of (deniedPairs s) k"
    and new: "map_of a (pd_key (decisions s ! e)) \<noteq> None \<Longrightarrow> b" "map_of d (pd_key (decisions s ! e)) \<noteq> None \<Longrightarrow> \<not> b"
  shows "auth_inv (drop_pending e (settle_promise e (Answered b) (s\<lparr>allowedPairs := a, deniedPairs := d\<rparr>)))"
    (is "auth_inv ?t")
proof -
  from assms(1) have p: "pending_ok s" and c: "caches_ok s" and v: "provenance_ok s" by (auto simp: auth_inv_def)
  let ?k = "pd_key (decisions s ! e)"
  have pk: "map_of (pendingDecisions s) ?k = Some e"
    using pending_iff [OF p] assms(2,3) by blast
  have pend: "map_of (pendingDecisions ?t) k = (if k = ?k then None else map_of (pendingDecisions s) k)" for k
    using pk by (auto simp: drop_settle_pending)
  have "pending_ok ?t"
    using p assms(2) pending_cong [of "s\<lparr>allowedPairs := a, deniedPairs := d\<rparr>" s]
    by (intro finish_pending_ok) (simp_all add: in_flight_def)
  moreover have "caches_ok ?t"
    unfolding caches_ok_def pend
  proof (intro conjI allI impI)
    fix k
    show "map_of (allowedPairs ?t) k \<noteq> None \<Longrightarrow> map_of (deniedPairs ?t) k = None"
      using c old [of k] new by (cases "k = ?k") (auto simp: caches_ok_def simp del: map_of_eq_None_iff not_None_eq)
    show "map_of (allowedPairs ?t) k \<noteq> None \<Longrightarrow> (if k = ?k then None else map_of (pendingDecisions s) k) = None"
      using c old [of k] by (cases "k = ?k") (auto simp: caches_ok_def simp del: map_of_eq_None_iff not_None_eq)
    show "map_of (deniedPairs ?t) k \<noteq> None \<Longrightarrow> (if k = ?k then None else map_of (pendingDecisions s) k) = None"
      using c old [of k] by (cases "k = ?k") (auto simp: caches_ok_def simp del: map_of_eq_None_iff not_None_eq)
  qed (simp_all add: dist)
  moreover have bk: "backed ?t b' k" if "backed s b' k \<or> k = ?k \<and> b' = b" for b' k
    using that assms(2-4) by (auto simp: backed_def in_flight_def)
  have "provenance_ok ?t"
    unfolding provenance_ok_def
  proof (intro conjI allI impI)
    fix k
    show "map_of (allowedPairs ?t) k \<noteq> None \<Longrightarrow> backed ?t True k"
      using v old [of k] new bk [of True k]
      by (cases "k = ?k") (simp_all add: provenance_ok_def del: map_of_eq_None_iff not_None_eq)
    show "map_of (deniedPairs ?t) k \<noteq> None \<Longrightarrow> backed ?t False k"
      using v old [of k] new bk [of False k]
      by (cases "k = ?k") (simp_all add: provenance_ok_def del: map_of_eq_None_iff not_None_eq)
  qed
  ultimately show ?thesis by (simp add: auth_inv_def)
qed

lemma finish_cached:
  assumes "auth_inv s" "in_flight s e" "\<not> pd_revoked (decisions s ! e)" "pd_generation (decisions s ! e) = generation s"
  shows "auth_inv (drop_pending e (settle_promise e (Answered True)
           (s\<lparr>allowedPairs := insert_cache (allowedPairs s) (pd_key (decisions s ! e)) x\<rparr>)))"
    and "auth_inv (drop_pending e (settle_promise e (Answered False)
           (s\<lparr>deniedPairs := insert_cache (deniedPairs s) (pd_key (decisions s ! e)) x\<rparr>)))"
proof -
  let ?k = "pd_key (decisions s ! e)"
  from assms(1) have p: "pending_ok s" and c: "caches_ok s" by (auto simp: auth_inv_def)
  have "map_of (pendingDecisions s) ?k = Some e" using pending_iff [OF p] assms(2,3) by blast
  then have none: "map_of (allowedPairs s) ?k = None" "map_of (deniedPairs s) ?k = None"
    using c unfolding caches_ok_def by (metis option.distinct(1))+
  have d: "distinct (map fst (allowedPairs s))" "distinct (map fst (deniedPairs s))"
    using c by (auto simp: caches_ok_def)
  have "auth_inv (drop_pending e (settle_promise e (Answered True)
      (s\<lparr>allowedPairs := insert_cache (allowedPairs s) ?k x, deniedPairs := deniedPairs s\<rparr>)))"
    using none by (intro finish_caches [OF assms])
      (simp_all add: d insert_cache_distinct insert_cache_lookup del: map_of_eq_None_iff split: option.splits)
  then show "auth_inv (drop_pending e (settle_promise e (Answered True)
      (s\<lparr>allowedPairs := insert_cache (allowedPairs s) ?k x\<rparr>)))" by simp
  have "auth_inv (drop_pending e (settle_promise e (Answered False)
      (s\<lparr>allowedPairs := allowedPairs s, deniedPairs := insert_cache (deniedPairs s) ?k x\<rparr>)))"
    using none by (intro finish_caches [OF assms])
      (simp_all add: d insert_cache_distinct insert_cache_lookup del: map_of_eq_None_iff split: option.splits)
  then show "auth_inv (drop_pending e (settle_promise e (Answered False)
      (s\<lparr>deniedPairs := insert_cache (deniedPairs s) ?k x\<rparr>)))" by simp
qed

lemma finish_decision_inv:
  assumes "auth_inv s" "in_flight s e"
  shows "auth_inv (finish_decision P e outcome now s)"
  using finish_untouched [OF assms] finish_cached [OF assms]
  by (auto simp: finish_decision_def Let_def split: sum.splits)

lemma revoked_pending_ok:
  assumes "pending_ok s" "map_of (pendingDecisions s) k = Some e"
  shows "pending_ok (s\<lparr>decisions := (decisions s)[e := (decisions s ! e)\<lparr>pd_revoked := True\<rparr>],
           pendingDecisions := AList.delete k (pendingDecisions s)\<rparr>)" (is "pending_ok ?s")
proof -
  note e = pendingD [OF assms]
  have "map_of (pendingDecisions ?s) k' = Some e' \<longleftrightarrow>
      in_flight ?s e' \<and> pd_key (decisions ?s ! e') = k' \<and> \<not> pd_revoked (decisions ?s ! e')" for k' e'
  proof (cases "e' = e")
    case True
    then show ?thesis using e pendingD(3) [OF assms(1), of k' e] by (auto simp: assoc_simps)
  next
    case False
    then have "map_of (pendingDecisions ?s) k' = Some e' \<longleftrightarrow> map_of (pendingDecisions s) k' = Some e'"
      using assms(2) by (auto simp: assoc_simps)
    then show ?thesis
      using False pending_iff [OF assms(1), of k' e'] by (simp add: in_flight_def)
  qed
  then show ?thesis using assms(1) by (simp add: pending_ok_def)
qed

lemma revokePair_inv:
  assumes "auth_inv s"
  shows "auth_inv (snd (revokePair P p s))"
proof -
  let ?k = "federatedRouteAuthorizationPairKey P p"
  from assms have p: "pending_ok s" and c: "caches_ok s" and v: "provenance_ok s" by (auto simp: auth_inv_def)
  show ?thesis
  proof (cases "map_of (pendingDecisions s) ?k")
    case None
    then have "snd (revokePair P p s) =
        s\<lparr>allowedPairs := AList.delete ?k (allowedPairs s), deniedPairs := AList.delete ?k (deniedPairs s)\<rparr>"
      by (simp add: revokePair_def Let_def)
    then show ?thesis
      using c by (simp, intro auth_inv_shrink [OF assms]) (simp_all add: caches_ok_def assoc_simps split: if_splits)
  next
    case (Some e)
    let ?s1 = "s\<lparr>decisions := (decisions s)[e := (decisions s ! e)\<lparr>pd_revoked := True\<rparr>],
                 pendingDecisions := AList.delete ?k (pendingDecisions s)\<rparr>"
    have eq: "snd (revokePair P p s) =
        ?s1\<lparr>allowedPairs := AList.delete ?k (allowedPairs s), deniedPairs := AList.delete ?k (deniedPairs s)\<rparr>"
      using Some by (simp add: revokePair_def Let_def)
    have "caches_ok ?s1" using c by (auto simp: caches_ok_def assoc_simps)
    moreover have "backed s b k \<Longrightarrow> backed ?s1 b k" for b k
      using pendingD(2) [OF p Some] by (force simp: backed_def nth_list_update)
    then have "provenance_ok ?s1" using v by (simp add: provenance_ok_def)
    ultimately have i1: "auth_inv ?s1"
      using revoked_pending_ok [OF p Some] by (simp add: auth_inv_def)
    show ?thesis
      unfolding eq using c
      by (intro auth_inv_shrink [OF i1]) (simp_all add: caches_ok_def assoc_simps split: if_splits)
  qed
qed

lemma invalidate_inv:
  assumes "auth_inv s"
  shows "auth_inv (invalidate s)"
proof -
  have "pending_ok (invalidate s)"
    using assms pending_cong [of "invalidate s" s] by (simp add: auth_inv_def invalidate_def)
  then show ?thesis by (simp add: auth_inv_def invalidate_def caches_ok_def provenance_ok_def)
qed

section \<open>Reachable authorizers\<close>

inductive auth_step :: "'p platform_scheme \<Rightarrow> authorizer \<Rightarrow> authorizer \<Rightarrow> bool" for P where
  hop: "auth_step P s (snd (authorizeHop P p now s))"
| finish: "in_flight s e \<Longrightarrow> auth_step P s (finish_decision P e outcome now s)"
| revoke: "auth_step P s (snd (revokePair P p s))"
| invalidated: "auth_step P s (invalidate s)"

inductive auth_reachable :: "'p platform_scheme \<Rightarrow> authorizer \<Rightarrow> bool" for P where
  created: "auth_reachable P (new_authorizer allowTtl denyTtl)"
| stepped: "auth_reachable P s \<Longrightarrow> auth_step P s s' \<Longrightarrow> auth_reachable P s'"

lemma new_authorizer_inv: "auth_inv (new_authorizer a d)"
  by (simp add: auth_inv_def pending_ok_def caches_ok_def provenance_ok_def in_flight_def new_authorizer_def)

lemma auth_step_inv: "auth_step P s s' \<Longrightarrow> auth_inv s \<Longrightarrow> auth_inv s'"
  by (induction rule: auth_step.induct)
     (simp_all add: authorizeHop_inv finish_decision_inv revokePair_inv invalidate_inv)

lemma auth_reachable_inv: "auth_reachable P s \<Longrightarrow> auth_inv s"
  by (induction rule: auth_reachable.induct) (blast intro: new_authorizer_inv auth_step_inv)+

text \<open>A dead decision: revoked, or of an older generation. It stays dead and never allows.\<close>

definition dead :: "authorizer \<Rightarrow> nat \<Rightarrow> bool" where
  "dead s e \<longleftrightarrow> e < length (decisions s) \<and> (e, Answered True) \<notin> set (decided s) \<and>
     (pd_revoked (decisions s ! e) \<or> pd_generation (decisions s ! e) < generation s)"

lemma authorizeHop_log:
  "decided (snd (authorizeHop P p now s)) = decided s \<and> generation (snd (authorizeHop P p now s)) = generation s \<and>
   (\<exists>xs. decisions (snd (authorizeHop P p now s)) = decisions s @ xs \<and> (\<forall>x \<in> set xs. pd_generation x = generation s))"
  by (auto simp: authorizeHop_def Let_def split: prod.splits option.splits)

lemma finish_decision_log:
  "decisions (finish_decision P e outcome now s) = decisions s"
  "generation (finish_decision P e outcome now s) = generation s"
  "\<exists>v. decided (finish_decision P e outcome now s) = decided s @ [(e, v)] \<and>
     (v = Answered True \<longrightarrow> \<not> pd_revoked (decisions s ! e) \<and> pd_generation (decisions s ! e) = generation s)"
  by (auto simp: finish_decision_def Let_def split: sum.splits)

lemma revokePair_log:
  "decided (snd (revokePair P p s)) = decided s" "generation (snd (revokePair P p s)) = generation s"
  "length (decisions (snd (revokePair P p s))) = length (decisions s)"
  "pd_generation (decisions (snd (revokePair P p s)) ! e) = pd_generation (decisions s ! e)"
  "pd_revoked (decisions s ! e) \<Longrightarrow> pd_revoked (decisions (snd (revokePair P p s)) ! e)"
proof -
  have "pd_generation (xs[i := (xs ! i)\<lparr>pd_revoked := True\<rparr>] ! e) = pd_generation (xs ! e)"
    "pd_revoked (xs ! e) \<Longrightarrow> pd_revoked (xs[i := (xs ! i)\<lparr>pd_revoked := True\<rparr>] ! e)" for xs i
    by (cases "i < length xs"; cases "i = e"; simp add: list_update_beyond)+
  then show "decided (snd (revokePair P p s)) = decided s" "generation (snd (revokePair P p s)) = generation s"
    "length (decisions (snd (revokePair P p s))) = length (decisions s)"
    "pd_generation (decisions (snd (revokePair P p s)) ! e) = pd_generation (decisions s ! e)"
    "pd_revoked (decisions s ! e) \<Longrightarrow> pd_revoked (decisions (snd (revokePair P p s)) ! e)"
    by (auto simp: revokePair_def Let_def split: option.splits)
qed

lemma dead_step: "auth_step P s s' \<Longrightarrow> dead s e \<Longrightarrow> dead s' e"
proof (induction rule: auth_step.induct)
  case (hop s p now)
  then show ?case using authorizeHop_log [of P p now s] by (auto simp: dead_def nth_append)
next
  case (finish s e' outcome now)
  then show ?case
    using finish_decision_log [of P e' outcome now s] by (auto simp: dead_def)
next
  case (revoke s p)
  then show ?case by (auto simp: dead_def revokePair_log)
next
  case (invalidated s)
  then show ?case by (auto simp: dead_def invalidate_def)
qed

lemma dead_steps: "(auth_step P)\<^sup>*\<^sup>* s s' \<Longrightarrow> dead s e \<Longrightarrow> dead s' e"
  by (induction rule: rtranclp_induct) (auto intro: dead_step)

definition generations_ok :: "authorizer \<Rightarrow> bool" where
  "generations_ok s \<longleftrightarrow> (\<forall>e < length (decisions s). pd_generation (decisions s ! e) \<le> generation s)"

lemma generations_step: "auth_step P s s' \<Longrightarrow> generations_ok s \<Longrightarrow> generations_ok s'"
proof (induction rule: auth_step.induct)
  case (hop s p now)
  then show ?case using authorizeHop_log [of P p now s]
    by (auto simp: generations_ok_def nth_append all_set_conv_all_nth)
next
  case (revoke s p)
  then show ?case by (simp add: generations_ok_def revokePair_log)
qed (auto simp: generations_ok_def finish_decision_log invalidate_def le_SucI)

lemma reachable_generations: "auth_reachable P s \<Longrightarrow> generations_ok s"
proof (induction rule: auth_reachable.induct)
  case (created allowTtl denyTtl)
  then show ?case by (simp add: generations_ok_def new_authorizer_def)
next
  case (stepped s s')
  then show ?case by (blast intro: generations_step)
qed

section \<open>Properties\<close>




text \<open>A small scenario: one request for the pair \<open>a\<close>, \<open>b\<close> is waiting for its callback.\<close>

definition sample_pair :: pair where
  "sample_pair = \<lparr>previousAdvertisedDomain = js ''a'', nextSelectedDomain = js ''b''\<rparr>"

definition sample_started :: authorizer where
  "sample_started = snd (authorizeHop sample_platform sample_pair 0 (new_authorizer 1000 500))"

lemma sample_started_reachable: "auth_reachable sample_platform sample_started"
  unfolding sample_started_def by (rule auth_reachable.stepped [OF auth_reachable.created auth_step.hop])

lemma sample_started_pending:
  "map_of (pendingDecisions sample_started) (federatedRouteAuthorizationPairKey sample_platform sample_pair) = Some 0"
  "in_flight sample_started 0"
  "decisions sample_started = [\<lparr>pd_key = federatedRouteAuthorizationPairKey sample_platform sample_pair,
     pd_generation = 0, pd_revoked = False\<rparr>]"
  "generation sample_started = 0" "allowTtlMs sample_started = 1000" "denyTtlMs sample_started = 500"
  by (simp_all add: sample_started_def authorizeHop_def new_authorizer_def isLive_def in_flight_def Let_def)


text \<open>A request made after an invalidation joins a decision that was already running for its
  pair and is therefore never authorised by it, whatever the callback returns, although nothing
  was revoked after the request was made.\<close>

theorem request_after_invalidation_is_denied:
  assumes "auth_reachable P s" and "map_of (pendingDecisions s) (federatedRouteAuthorizationPairKey P p) = Some e"
  shows "fst (authorizeHop P p now (invalidate s)) = Joined e \<and>
    (e, Answered True) \<notin> set (decided (finish_decision P e outcome now' (snd (authorizeHop P p now (invalidate s)))))"
proof
  have pend: "pending_ok s" using auth_reachable_inv [OF assms(1)] by (simp add: auth_inv_def)
  show "fst (authorizeHop P p now (invalidate s)) = Joined e"
    using assms(2) by (simp add: authorizeHop_def invalidate_def isLive_def Let_def)
  let ?t = "snd (authorizeHop P p now (invalidate s))"
  have e: "in_flight s e" using pending_iff [OF pend] assms(2) by blast
  then have "dead (invalidate s) e"
    using reachable_generations [OF assms(1)] by (force simp: dead_def invalidate_def in_flight_def generations_ok_def)
  then have d: "dead ?t e" by (rule dead_step [OF auth_step.hop])
  have "in_flight ?t e"
    using e authorizeHop_log [of P p now "invalidate s"] by (auto simp: in_flight_def invalidate_def)
  then have "dead (finish_decision P e outcome now' ?t) e"
    by (rule dead_step [OF auth_step.finish d])
  then show "(e, Answered True) \<notin> set (decided (finish_decision P e outcome now' ?t))" by (simp add: dead_def)
qed

theorem request_after_invalidation_is_denied_witness:
  "fst (authorizeHop sample_platform sample_pair 1 (invalidate sample_started)) = Joined 0 \<and>
   (0, Answered True) \<notin> set (decided (finish_decision sample_platform 0 (Inr (Some (JStr (js ''allow'')))) 5
      (snd (authorizeHop sample_platform sample_pair 1 (invalidate sample_started)))))"
  by (rule request_after_invalidation_is_denied [OF sample_started_reachable sample_started_pending(1)])

text \<open>An allow that takes effect is answered from the cache, without a callback, exactly until
  its expiry: a later request of the same pair is allowed at once before the expiry computed
  when the result was normalised, and starts a new decision from then on or when the result
  was not to be cached.\<close>

theorem allow_cached_until_expiry:
  assumes "auth_reachable P s" and "in_flight s e" and "\<not> pd_revoked (decisions s ! e)"
    and "pd_generation (decisions s ! e) = generation s"
    and "pd_key (decisions s ! e) = federatedRouteAuthorizationPairKey P p"
    and "normalizeAuthorizationResult P t (allowTtlMs s) (denyTtlMs s) outcome = Inr r" and "decision r = allow"
  shows "(e, Answered True) \<in> set (decided (finish_decision P e (Inr outcome) t s)) \<and>
    fst (authorizeHop P p now (finish_decision P e (Inr outcome) t s)) =
      (case expiresAt r of
         Some x \<Rightarrow> if expired x now then Started (length (decisions s)) else Immediate True
       | None \<Rightarrow> Started (length (decisions s)))"
proof -
  let ?k = "federatedRouteAuthorizationPairKey P p"
  let ?t = "finish_decision P e (Inr outcome) t s"
  from auth_reachable_inv [OF assms(1)] have p: "pending_ok s" and c: "caches_ok s" by (auto simp: auth_inv_def)
  have pk: "map_of (pendingDecisions s) ?k = Some e"
    using pending_iff [OF p] assms(2,3,5) by blast
  then have none: "map_of (allowedPairs s) ?k = None" "map_of (deniedPairs s) ?k = None"
    using c unfolding caches_ok_def by (metis option.distinct(1))+
  have eq: "?t = drop_pending e (settle_promise e (Answered True)
      (s\<lparr>allowedPairs := insert_cache (allowedPairs s) ?k (expiresAt r)\<rparr>))"
    using assms by (simp add: finish_decision_def Let_def)
  define u where "u = ?t"
  have "map_of (pendingDecisions u) ?k = None"
    using pk assms(5) by (simp add: u_def eq drop_settle_pending del: map_of_eq_None_iff)
  moreover have "map_of (allowedPairs u) ?k = expiresAt r"
    using none by (simp add: u_def eq insert_cache_lookup del: map_of_eq_None_iff split: option.splits)
  moreover have "map_of (deniedPairs u) ?k = None" "length (decisions u) = length (decisions s)"
    using none by (simp_all add: u_def eq del: map_of_eq_None_iff)
  ultimately have "fst (authorizeHop P p now u) = (case expiresAt r of
         Some x \<Rightarrow> if expired x now then Started (length (decisions s)) else Immediate True
       | None \<Rightarrow> Started (length (decisions s)))"
    by (simp add: authorizeHop_def isLive_def Let_def del: map_of_eq_None_iff split: option.splits)
  moreover have "(e, Answered True) \<in> set (decided u)" by (simp add: u_def eq)
  ultimately show ?thesis by (simp add: u_def)
qed

theorem allow_cached_until_expiry_witness:
  "fst (authorizeHop sample_platform sample_pair 999
     (finish_decision sample_platform 0 (Inr (Some (JStr (js ''allow'')))) 0 sample_started)) = Immediate True"
  using allow_cached_until_expiry [OF sample_started_reachable sample_started_pending(2), of sample_pair 0
      "Some (JStr (js ''allow''))" "\<lparr>decision = allow, expiresAt = Some (Fin 1000)\<rparr>" 999]
  by (simp add: sample_started_pending normalizeAuthorizationResult_def verdict_of_json_def)

end
