(* ===== verification/Lease_Pool.thy ===== *)
theory Lease_Pool
  imports Routing
begin

text \<open>
  The pool of Guest lease streams, \<open>packages/verser2-host/src/lib/lease-pool.ts\<close>, and the Host
  method that feeds it, \<open>attachGuestLeaseStream\<close> of \<open>node-http2-verser-host.ts\<close>. Lease objects
  live in a store and are named by their address, since the pool compares them by identity and
  their streams close behind its back. A promise is named by a number; \<open>settled\<close> records every
  call of its resolve or reject function, and \<open>timers\<close> the acquisitions whose timeout is
  pending.
\<close>

section \<open>State\<close>

text \<open>The part of an HTTP/2 stream the pool reads. Closing a closed stream has no effect.\<close>

record ServerHttp2Stream =
  closed :: bool
  rstCode :: nat

abbreviation (input) NGHTTP2_NO_ERROR :: nat where "NGHTTP2_NO_ERROR \<equiv> 0"
abbreviation NGHTTP2_CANCEL :: nat where "NGHTTP2_CANCEL \<equiv> 8"

definition stream_close :: "nat \<Rightarrow> ServerHttp2Stream \<Rightarrow> ServerHttp2Stream" where
  "stream_close code st = (if closed st then st else \<lparr>closed = True, rstCode = code\<rparr>)"

record GuestLeaseStream =
  ls_guestId :: jsstr
  ls_leaseId :: jsstr
  ls_stream :: ServerHttp2Stream
  ls_active :: bool

record QueuedLeaseAcquisition =
  q_id :: nat
  q_guestId :: jsstr
  q_requestId :: jsstr
  q_timeoutMs :: jsnumber

datatype outcome = Resolved nat | Rejected VerserError

record LeasePool =
  leases :: "GuestLeaseStream list"
  idleLeases :: "(jsstr \<times> nat list) list"
  activeLeases :: "(jsstr \<times> nat) list"
  queuedLeaseAcquisitions :: "(jsstr \<times> QueuedLeaseAcquisition list) list"
  timers :: "QueuedLeaseAcquisition list"
  nextPromise :: nat
  settled :: "(nat \<times> outcome) list"

definition empty_pool :: LeasePool where
  "empty_pool = \<lparr>leases = [], idleLeases = [], activeLeases = [], queuedLeaseAcquisitions = [],
     timers = [], nextPromise = 0, settled = []\<rparr>"

text \<open>\<open>map.get(key) ?? []\<close>.\<close>

definition get_list :: "(jsstr \<times> 'a list) list \<Rightarrow> jsstr \<Rightarrow> 'a list" where
  "get_list m k = (case map_of m k of Some xs \<Rightarrow> xs | None \<Rightarrow> [])"

definition leaseKey :: "GuestLeaseStream \<Rightarrow> jsstr" where
  "leaseKey l = ls_guestId l @ js '':'' @ ls_leaseId l"

definition isClosed :: "LeasePool \<Rightarrow> nat \<Rightarrow> bool" where
  "isClosed s a \<longleftrightarrow> closed (ls_stream (leases s ! a)) \<or> rstCode (ls_stream (leases s ! a)) \<noteq> NGHTTP2_NO_ERROR"

definition settle :: "nat \<Rightarrow> outcome \<Rightarrow> LeasePool \<Rightarrow> LeasePool" where
  "settle pid out s = s\<lparr>settled := settled s @ [(pid, out)]\<rparr>"

definition clearTimeout :: "QueuedLeaseAcquisition \<Rightarrow> LeasePool \<Rightarrow> LeasePool" where
  "clearTimeout q s = s\<lparr>timers := filter (\<lambda>t. q_id t \<noteq> q_id q) (timers s)\<rparr>"

text \<open>\<open>lease.active = true; activeLeases.set(key, lease)\<close>.\<close>

definition activate :: "nat \<Rightarrow> LeasePool \<Rightarrow> LeasePool" where
  "activate a s =
     s\<lparr>leases := (leases s)[a := (leases s ! a)\<lparr>ls_active := True\<rparr>],
       activeLeases := AList.update (leaseKey (leases s ! a)) a (activeLeases s)\<rparr>"

definition close_lease :: "nat \<Rightarrow> LeasePool \<Rightarrow> LeasePool" where
  "close_lease a s =
     s\<lparr>leases := (leases s)[a := (leases s ! a)\<lparr>ls_stream := stream_close NGHTTP2_CANCEL (ls_stream (leases s ! a))\<rparr>]\<rparr>"

section \<open>Operations\<close>

definition addIdleLease :: "nat \<Rightarrow> LeasePool \<Rightarrow> LeasePool" where
  "addIdleLease a s =
    (if isClosed s a then s
     else
       (let g = ls_guestId (leases s ! a) in
        case get_list (queuedLeaseAcquisitions s) g of
          q # qs \<Rightarrow>
            settle (q_id q) (Resolved a)
              (activate a
                (clearTimeout q
                  (s\<lparr>queuedLeaseAcquisitions := AList.update g qs (queuedLeaseAcquisitions s)\<rparr>)))
        | [] \<Rightarrow> s\<lparr>idleLeases := AList.update g (get_list (idleLeases s) g @ [a]) (idleLeases s)\<rparr>))"

text \<open>The loop that shifts closed leases off the front.\<close>

fun shift_open :: "LeasePool \<Rightarrow> nat list \<Rightarrow> nat option \<times> nat list" where
  "shift_open s [] = (None, [])"
| "shift_open s (a # as) = (if isClosed s a then shift_open s as else (Some a, as))"

definition store_idle :: "jsstr \<Rightarrow> nat list \<Rightarrow> LeasePool \<Rightarrow> LeasePool" where
  "store_idle g xs s =
     s\<lparr>idleLeases := (if length xs = 0 then AList.delete g (idleLeases s)
                     else AList.update g xs (idleLeases s))\<rparr>"

definition acquireLease :: "jsstr \<Rightarrow> jsstr \<Rightarrow> jsnumber \<Rightarrow> LeasePool \<Rightarrow> nat \<times> LeasePool" where
  "acquireLease g requestId timeoutMs s =
    (let pid = nextPromise s;
         (lease, rest) = shift_open s (get_list (idleLeases s) g);
         s1 = (store_idle g rest s)\<lparr>nextPromise := pid + 1\<rparr>
     in case lease of
          Some a \<Rightarrow> (pid, settle pid (Resolved a) (activate a s1))
        | None \<Rightarrow>
          (let acquisition = \<lparr>q_id = pid, q_guestId = g, q_requestId = requestId, q_timeoutMs = timeoutMs\<rparr>
           in (pid, s1\<lparr>timers := timers s1 @ [acquisition],
                      queuedLeaseAcquisitions := AList.update g
                        (get_list (queuedLeaseAcquisitions s1) g @ [acquisition])
                        (queuedLeaseAcquisitions s1)\<rparr>)))"

definition tryAcquireLease :: "jsstr \<Rightarrow> jsstr \<Rightarrow> jsnumber \<Rightarrow> LeasePool \<Rightarrow> nat option \<times> LeasePool" where
  "tryAcquireLease g requestId timeoutMs s =
    (let rest = dropWhile (isClosed s) (get_list (idleLeases s) g);
         s1 = store_idle g rest s
     in if length rest = 0 then (None, s1)
        else (let (pid, s2) = acquireLease g requestId timeoutMs s1 in (Some pid, s2)))"

definition removeQueuedLeaseAcquisition :: "QueuedLeaseAcquisition \<Rightarrow> LeasePool \<Rightarrow> LeasePool" where
  "removeQueuedLeaseAcquisition q s =
     s\<lparr>queuedLeaseAcquisitions := AList.update (q_guestId q)
         (filter (\<lambda>c. q_id c \<noteq> q_id q) (get_list (queuedLeaseAcquisitions s) (q_guestId q)))
         (queuedLeaseAcquisitions s)\<rparr>"

text \<open>The timer callback of a queued acquisition; the timer is spent.\<close>

definition acquisition_timeout :: "'p platform_scheme \<Rightarrow> QueuedLeaseAcquisition \<Rightarrow> LeasePool \<Rightarrow> LeasePool" where
  "acquisition_timeout P q s =
     settle (q_id q)
       (Rejected (createVerserError P timeout (js ''Timed out waiting for a Guest lease stream'')
          [(js ''targetId'', CStr (q_guestId q)), (js ''requestId'', CStr (q_requestId q)),
           (js ''timeoutMs'', CNum (q_timeoutMs q))]))
       (removeQueuedLeaseAcquisition q (clearTimeout q s))"

definition removeLease :: "nat \<Rightarrow> LeasePool \<Rightarrow> LeasePool" where
  "removeLease a s =
    (let l = leases s ! a;
         s1 = store_idle (ls_guestId l) (filter (\<lambda>c. c \<noteq> a) (get_list (idleLeases s) (ls_guestId l))) s
     in s1\<lparr>leases := (leases s1)[a := (leases s1 ! a)\<lparr>ls_active := False\<rparr>],
           activeLeases := AList.delete (leaseKey l) (activeLeases s1)\<rparr>)"

definition closeGuestLeases :: "jsstr \<Rightarrow> LeasePool \<Rightarrow> LeasePool" where
  "closeGuestLeases g s =
    (let s1 = fold close_lease (get_list (idleLeases s) g) s;
         s2 = s1\<lparr>idleLeases := AList.delete g (idleLeases s1)\<rparr>
     in fold (\<lambda>(key, a) s'. if ls_guestId (leases s' ! a) = g
                            then (close_lease a s')\<lparr>activeLeases := AList.delete key (activeLeases s')\<rparr>
                            else s')
          (activeLeases s2) s2)"

definition closeAllLeases :: "LeasePool \<Rightarrow> LeasePool" where
  "closeAllLeases s =
    (let s1 = fold close_lease (concat (map snd (idleLeases s))) s;
         s2 = fold close_lease (map snd (activeLeases s)) s1
     in s2\<lparr>idleLeases := [], activeLeases := []\<rparr>)"

definition disconnected_error :: "'p platform_scheme \<Rightarrow> jsstr \<Rightarrow> QueuedLeaseAcquisition \<Rightarrow> jsstr \<Rightarrow> VerserError" where
  "disconnected_error P g q reason =
     createVerserError P disconnected_target (js ''Guest disconnected while waiting for a lease'')
       [(js ''targetId'', CStr g), (js ''requestId'', CStr (q_requestId q)), (js ''reason'', CStr reason)]"

definition failQueuedLeaseAcquisitions :: "'p platform_scheme \<Rightarrow> jsstr \<Rightarrow> jsstr \<Rightarrow> LeasePool \<Rightarrow> LeasePool" where
  "failQueuedLeaseAcquisitions P g reason s =
     fold (\<lambda>q s'. settle (q_id q) (Rejected (disconnected_error P g q reason)) (clearTimeout q s'))
       (get_list (queuedLeaseAcquisitions s) g)
       (s\<lparr>queuedLeaseAcquisitions := AList.delete g (queuedLeaseAcquisitions s)\<rparr>)"

definition failAllQueuedLeaseAcquisitions :: "'p platform_scheme \<Rightarrow> jsstr \<Rightarrow> LeasePool \<Rightarrow> LeasePool" where
  "failAllQueuedLeaseAcquisitions P reason s =
     fold (\<lambda>g s'. failQueuedLeaseAcquisitions P g reason s') (map fst (queuedLeaseAcquisitions s)) s"

text \<open>
  A Guest opens a lease stream. \<open>roles\<close> looks a peer up in the Host's table, the two header
  values are already converted to strings, and \<open>st\<close> is the state of the stream by the time it
  joins the pool.
\<close>

definition attachGuestLeaseStream ::
  "'p platform_scheme \<Rightarrow> (jsstr \<Rightarrow> VerserPeerRole option) \<Rightarrow> jsstr \<Rightarrow> jsstr \<Rightarrow> ServerHttp2Stream
    \<Rightarrow> LeasePool \<Rightarrow> unit result \<times> LeasePool" where
  "attachGuestLeaseStream P roles peerHeader leaseHeader st s =
    (case createPeerId P peerHeader of
       Inl e \<Rightarrow> (Inl e, s)
     | Inr g \<Rightarrow>
       (let l = trim leaseHeader in
        if roles g \<noteq> Some guest
        then (throwE P disconnected_target ''Guest lease stream has no registered peer''
                [(''targetId'', CStr g)], s)
        else if length l = 0
        then (throwE P protocol_error ''Guest lease stream requires a lease id''
                [(''targetId'', CStr g)], s)
        else
          (let a = length (leases s);
               s1 = s\<lparr>leases := leases s @ [\<lparr>ls_guestId = g, ls_leaseId = l, ls_stream = st, ls_active = False\<rparr>]\<rparr>
           in (Inr (), addIdleLease a s1))))"

section \<open>Invariant\<close>

definition idle_addrs :: "LeasePool \<Rightarrow> nat list" where
  "idle_addrs s = concat (map snd (idleLeases s))"

definition waiting :: "LeasePool \<Rightarrow> QueuedLeaseAcquisition list" where
  "waiting s = concat (map snd (queuedLeaseAcquisitions s))"

definition granted :: "LeasePool \<Rightarrow> nat list" where
  "granted s = concat (map (\<lambda>(pid, out). case out of Resolved a \<Rightarrow> [a] | Rejected e \<Rightarrow> []) (settled s))"

definition lease_guest :: "LeasePool \<Rightarrow> nat \<Rightarrow> jsstr" where
  "lease_guest s a = ls_guestId (leases s ! a)"

text \<open>
  Every promise ever made is either settled once or waiting, a waiting one has its timer
  pending, and every lease is idle once, granted once or neither.
\<close>

definition promises_ok :: "LeasePool \<Rightarrow> bool" where
  "promises_ok s \<longleftrightarrow>
     mset (map q_id (waiting s)) + mset (map fst (settled s)) = mset [0..<nextPromise s] \<and>
     set (timers s) = set (waiting s)"

definition leases_ok :: "LeasePool \<Rightarrow> bool" where
  "leases_ok s \<longleftrightarrow> mset (idle_addrs s) + mset (granted s) \<subseteq># mset [0..<length (leases s)]"

definition tables_ok :: "LeasePool \<Rightarrow> bool" where
  "tables_ok s \<longleftrightarrow> distinct (map fst (idleLeases s)) \<and> distinct (map fst (queuedLeaseAcquisitions s)) \<and>
     distinct (map fst (activeLeases s)) \<and>
     list_all (\<lambda>e. snd e \<noteq> [] \<and> (\<forall>a \<in> set (snd e). lease_guest s a = fst e)) (idleLeases s) \<and>
     list_all (\<lambda>e. snd e < length (leases s) \<and> fst e = leaseKey (leases s ! snd e)) (activeLeases s) \<and>
     list_all (\<lambda>e. (\<forall>q \<in> set (snd e). q_guestId q = fst e) \<and> sorted_wrt (<) (map q_id (snd e)))
       (queuedLeaseAcquisitions s) \<and>
     (\<forall>g. get_list (queuedLeaseAcquisitions s) g \<noteq> [] \<longrightarrow> get_list (idleLeases s) g = [])"

definition pool_inv :: "LeasePool \<Rightarrow> bool" where
  "pool_inv s \<longleftrightarrow> promises_ok s \<and> leases_ok s \<and> tables_ok s"

lemmas pool_inv_defs = pool_inv_def promises_ok_def leases_ok_def tables_ok_def

subsection \<open>Maps of lists\<close>

lemma get_list_update [simp]: "get_list (AList.update k xs m) g = (if g = k then xs else get_list m g)"
  by (simp add: get_list_def assoc_simps)

lemma get_list_delete [simp]: "get_list (AList.delete k m) g = (if g = k then [] else get_list m g)"
  by (simp add: get_list_def assoc_simps)

lemma delete_notin: "k \<notin> fst ` set m \<Longrightarrow> AList.delete k m = m"
  by (induction m) auto

lemma mset_concat_split:
  "distinct (map fst m) \<Longrightarrow>
   mset (concat (map snd m)) = mset (get_list m k) + mset (concat (map snd (AList.delete k m)))"
proof (induction m)
  case Nil
  then show ?case by (simp add: get_list_def)
next
  case (Cons e m)
  then show ?case
    by (cases "fst e = k") (simp_all add: get_list_def delete_notin case_prod_beta)
qed

lemma mset_concat_update:
  "distinct (map fst m) \<Longrightarrow>
   mset (concat (map snd (AList.update k xs m))) = mset xs + mset (concat (map snd (AList.delete k m)))"
proof (induction m)
  case Nil
  then show ?case by simp
next
  case (Cons e m)
  then show ?case by (cases e; cases "fst e = k") (simp_all add: delete_notin)
qed

lemma get_list_elem: "x \<in> set (get_list m k) \<Longrightarrow> \<exists>xs. (k, xs) \<in> set m \<and> x \<in> set xs"
  by (cases "map_of m k") (auto simp: get_list_def dest: map_of_SomeD)

lemma list_all_get_list:
  "list_all Q m \<Longrightarrow> get_list m k \<noteq> [] \<Longrightarrow> Q (k, get_list m k)"
  by (cases "map_of m k") (auto simp: get_list_def intro: list_all_map_of)

subsection \<open>Fields a helper leaves alone\<close>

lemma nth_update_same: "(\<And>l. f (h l) = f l) \<Longrightarrow> f (xs[a := h (xs ! a)] ! b) = f (xs ! b)"
  by (cases "a < length xs") (simp_all add: nth_list_update list_update_beyond not_less)

lemma nth_update_field [simp]:
  "ls_guestId (xs[a := (xs ! a)\<lparr>ls_active := v\<rparr>] ! b) = ls_guestId (xs ! b)"
  "ls_leaseId (xs[a := (xs ! a)\<lparr>ls_active := v\<rparr>] ! b) = ls_leaseId (xs ! b)"
  "ls_stream (xs[a := (xs ! a)\<lparr>ls_active := v\<rparr>] ! b) = ls_stream (xs ! b)"
  "ls_guestId (xs[a := (xs ! a)\<lparr>ls_stream := st\<rparr>] ! b) = ls_guestId (xs ! b)"
  "ls_leaseId (xs[a := (xs ! a)\<lparr>ls_stream := st\<rparr>] ! b) = ls_leaseId (xs ! b)"
  by (rule nth_update_same [where h = "\<lambda>l. l\<lparr>ls_active := v\<rparr>"], simp)+
     (rule nth_update_same [where h = "\<lambda>l. l\<lparr>ls_stream := st\<rparr>"], simp)+

lemma leaseKey_update [simp]:
  "leaseKey (xs[a := (xs ! a)\<lparr>ls_active := v\<rparr>] ! b) = leaseKey (xs ! b)"
  "leaseKey (xs[a := (xs ! a)\<lparr>ls_stream := st\<rparr>] ! b) = leaseKey (xs ! b)"
  by (simp_all add: leaseKey_def)

lemma settle_sel [simp]:
  "leases (settle p out s) = leases s" "idleLeases (settle p out s) = idleLeases s"
  "activeLeases (settle p out s) = activeLeases s" "timers (settle p out s) = timers s"
  "queuedLeaseAcquisitions (settle p out s) = queuedLeaseAcquisitions s"
  "nextPromise (settle p out s) = nextPromise s" "settled (settle p out s) = settled s @ [(p, out)]"
  by (simp_all add: settle_def)

lemma clearTimeout_sel [simp]:
  "leases (clearTimeout q s) = leases s" "idleLeases (clearTimeout q s) = idleLeases s"
  "activeLeases (clearTimeout q s) = activeLeases s"
  "timers (clearTimeout q s) = filter (\<lambda>t. q_id t \<noteq> q_id q) (timers s)"
  "queuedLeaseAcquisitions (clearTimeout q s) = queuedLeaseAcquisitions s"
  "nextPromise (clearTimeout q s) = nextPromise s" "settled (clearTimeout q s) = settled s"
  by (simp_all add: clearTimeout_def)

lemma activate_sel [simp]:
  "leases (activate a s) = (leases s)[a := (leases s ! a)\<lparr>ls_active := True\<rparr>]"
  "idleLeases (activate a s) = idleLeases s"
  "activeLeases (activate a s) = AList.update (leaseKey (leases s ! a)) a (activeLeases s)"
  "timers (activate a s) = timers s"
  "queuedLeaseAcquisitions (activate a s) = queuedLeaseAcquisitions s"
  "nextPromise (activate a s) = nextPromise s" "settled (activate a s) = settled s"
  by (simp_all add: activate_def)

lemma store_idle_sel [simp]:
  "leases (store_idle g xs s) = leases s"
  "idleLeases (store_idle g xs s) = (if xs = [] then AList.delete g (idleLeases s)
                                     else AList.update g xs (idleLeases s))"
  "activeLeases (store_idle g xs s) = activeLeases s" "timers (store_idle g xs s) = timers s"
  "queuedLeaseAcquisitions (store_idle g xs s) = queuedLeaseAcquisitions s"
  "nextPromise (store_idle g xs s) = nextPromise s" "settled (store_idle g xs s) = settled s"
  by (simp_all add: store_idle_def)

lemma close_lease_sel [simp]:
  "length (leases (close_lease a s)) = length (leases s)"
  "idleLeases (close_lease a s) = idleLeases s"
  "activeLeases (close_lease a s) = activeLeases s" "timers (close_lease a s) = timers s"
  "queuedLeaseAcquisitions (close_lease a s) = queuedLeaseAcquisitions s"
  "nextPromise (close_lease a s) = nextPromise s" "settled (close_lease a s) = settled s"
  "ls_guestId (leases (close_lease a s) ! b) = ls_guestId (leases s ! b)"
  "leaseKey (leases (close_lease a s) ! b) = leaseKey (leases s ! b)"
  by (simp_all add: close_lease_def)

lemma granted_append: "granted (s\<lparr>settled := xs @ ys\<rparr>) = granted (s\<lparr>settled := xs\<rparr>) @ granted (s\<lparr>settled := ys\<rparr>)"
  by (simp add: granted_def)

lemma granted_settle [simp]:
  "granted (settle p (Resolved a) s) = granted s @ [a]" "granted (settle p (Rejected e) s) = granted s"
  by (simp_all add: granted_def)

text \<open>The views depend on their own fields only.\<close>

lemma view_cong:
  "idleLeases s = idleLeases t \<Longrightarrow> idle_addrs s = idle_addrs t"
  "queuedLeaseAcquisitions s = queuedLeaseAcquisitions t \<Longrightarrow> waiting s = waiting t"
  "settled s = settled t \<Longrightarrow> granted s = granted t"
  by (simp_all add: idle_addrs_def waiting_def granted_def)

lemma waiting_ids_distinct: "promises_ok s \<Longrightarrow> distinct (map q_id (waiting s))"
proof -
  assume "promises_ok s"
  then have "mset (map q_id (waiting s)) \<subseteq># mset [0..<nextPromise s]"
    by (metis mset_subset_eq_add_left promises_ok_def)
  then show ?thesis by (rule distinct_mset_subset) simp
qed

lemma promises_remove:
  assumes "promises_ok s" "mset (waiting s) = add_mset q (mset w)"
  shows "mset (map q_id w) + mset (map fst (settled s @ [(q_id q, out)])) = mset [0..<nextPromise s]"
    and "set (filter (\<lambda>t. q_id t \<noteq> q_id q) (timers s)) = set w"
proof -
  have "mset (map q_id (waiting s)) = add_mset (q_id q) (mset (map q_id w))"
    using assms(2) by simp
  then show "mset (map q_id w) + mset (map fst (settled s @ [(q_id q, out)])) = mset [0..<nextPromise s]"
    using assms(1) by (simp add: promises_ok_def)
  have "distinct (map q_id (q # w))"
    using waiting_ids_distinct [OF assms(1)] assms(2)
    by (metis mset.simps(2) mset_eq_imp_distinct_iff mset_map)
  moreover have "set (timers s) = insert q (set w)"
    using assms by (metis promises_ok_def set_mset_add_mset_insert set_mset_mset)
  ultimately show "set (filter (\<lambda>t. q_id t \<noteq> q_id q) (timers s)) = set w"
    by (auto simp: image_iff)
qed

text \<open>Entry-wise invariants of the three tables.\<close>

abbreviation idle_entry :: "LeasePool \<Rightarrow> jsstr \<times> nat list \<Rightarrow> bool" where
  "idle_entry s \<equiv> \<lambda>e. snd e \<noteq> [] \<and> (\<forall>a \<in> set (snd e). lease_guest s a = fst e)"

abbreviation queue_entry :: "jsstr \<times> QueuedLeaseAcquisition list \<Rightarrow> bool" where
  "queue_entry \<equiv> \<lambda>e. (\<forall>q \<in> set (snd e). q_guestId q = fst e) \<and> sorted_wrt (<) (map q_id (snd e))"

abbreviation active_entry :: "LeasePool \<Rightarrow> jsstr \<times> nat \<Rightarrow> bool" where
  "active_entry s \<equiv> \<lambda>e. snd e < length (leases s) \<and> fst e = leaseKey (leases s ! snd e)"

lemma queue_split:
  assumes "tables_ok s"
  shows "mset (waiting s) = mset (get_list (queuedLeaseAcquisitions s) g) +
           mset (concat (map snd (AList.delete g (queuedLeaseAcquisitions s))))"
    and "mset (concat (map snd (AList.update g qs (queuedLeaseAcquisitions s)))) =
           mset qs + mset (concat (map snd (AList.delete g (queuedLeaseAcquisitions s))))"
  using assms unfolding waiting_def tables_ok_def
  by (blast intro: mset_concat_split mset_concat_update)+

lemma idle_split:
  assumes "tables_ok s"
  shows "mset (idle_addrs s) = mset (get_list (idleLeases s) g) +
           mset (concat (map snd (AList.delete g (idleLeases s))))"
    and "mset (concat (map snd (AList.update g xs (idleLeases s)))) =
           mset xs + mset (concat (map snd (AList.delete g (idleLeases s))))"
  using assms unfolding idle_addrs_def tables_ok_def
  by (blast intro: mset_concat_split mset_concat_update)+

lemma queue_get:
  assumes "tables_ok s"
  shows "\<forall>q \<in> set (get_list (queuedLeaseAcquisitions s) g). q_guestId q = g"
    and "sorted_wrt (<) (map q_id (get_list (queuedLeaseAcquisitions s) g))"
proof -
  have "list_all queue_entry (queuedLeaseAcquisitions s)" using assms by (simp add: tables_ok_def)
  from list_all_get_list [OF this, of g]
  show "\<forall>q \<in> set (get_list (queuedLeaseAcquisitions s) g). q_guestId q = g"
    and "sorted_wrt (<) (map q_id (get_list (queuedLeaseAcquisitions s) g))"
    by (cases "get_list (queuedLeaseAcquisitions s) g = []"; simp)+
qed

lemma idle_get:
  assumes "tables_ok s"
  shows "\<forall>a \<in> set (get_list (idleLeases s) g). lease_guest s a = g"
proof -
  have "list_all (idle_entry s) (idleLeases s)" using assms by (simp add: tables_ok_def)
  from list_all_get_list [OF this, of g] show ?thesis
    by (cases "get_list (idleLeases s) g = []") simp_all
qed

lemma waiting_no_idle:
  "tables_ok s \<Longrightarrow> get_list (queuedLeaseAcquisitions s) g \<noteq> [] \<Longrightarrow> get_list (idleLeases s) g = []"
  by (simp add: tables_ok_def)

lemma in_waiting: "tables_ok s \<Longrightarrow> q \<in> set (get_list (queuedLeaseAcquisitions s) g) \<Longrightarrow> q \<in> set (waiting s)"
  unfolding set_mset_mset [symmetric] by (simp add: queue_split(1) [of s g])

lemma in_idle: "tables_ok s \<Longrightarrow> a \<in> set (get_list (idleLeases s) g) \<Longrightarrow> a \<in> set (idle_addrs s)"
  unfolding set_mset_mset [symmetric] by (simp add: idle_split(1) [of s g])

lemma leases_ok_mono:
  "leases_ok s \<Longrightarrow> mset (idle_addrs s') + mset (granted s') \<subseteq># mset (idle_addrs s) + mset (granted s) \<Longrightarrow>
   length (leases s') = length (leases s) \<Longrightarrow> leases_ok s'"
  unfolding leases_ok_def by (metis subset_mset.order_trans)

lemma leases_ok_less: "leases_ok s \<Longrightarrow> a \<in> set (idle_addrs s) \<Longrightarrow> a < length (leases s)"
  by (auto simp: leases_ok_def dest!: mset_subset_eqD [where x = a])

text \<open>How the tables keep their invariant under the writes of the operations.\<close>

lemma tables_set_idle:
  assumes "tables_ok s" "xs \<noteq> []" "\<forall>a \<in> set xs. lease_guest s a = g"
    "get_list (queuedLeaseAcquisitions s) g = []"
  shows "tables_ok (s\<lparr>idleLeases := AList.update g xs (idleLeases s)\<rparr>)"
  using assms unfolding tables_ok_def lease_guest_def
  by (elim conjE, intro conjI allI impI) (simp_all, metis)

lemma tables_del_idle:
  assumes "tables_ok s"
  shows "tables_ok (s\<lparr>idleLeases := AList.delete g (idleLeases s)\<rparr>)"
  using assms unfolding tables_ok_def lease_guest_def
  by (elim conjE, intro conjI allI impI) simp_all

lemma tables_set_queue:
  assumes "tables_ok s" "\<forall>q \<in> set qs. q_guestId q = g" "sorted_wrt (<) (map q_id qs)"
    "qs \<noteq> [] \<Longrightarrow> get_list (idleLeases s) g = []"
  shows "tables_ok (s\<lparr>queuedLeaseAcquisitions := AList.update g qs (queuedLeaseAcquisitions s)\<rparr>)"
  using assms unfolding tables_ok_def lease_guest_def
  by (elim conjE, intro conjI allI impI) (simp_all split: if_splits)

lemma tables_del_queue:
  assumes "tables_ok s"
  shows "tables_ok (s\<lparr>queuedLeaseAcquisitions := AList.delete g (queuedLeaseAcquisitions s)\<rparr>)"
  using assms unfolding tables_ok_def lease_guest_def
  by (elim conjE, intro conjI allI impI) (simp_all split: if_splits)

lemma tables_activate:
  assumes "tables_ok s" "a < length (leases s)"
  shows "tables_ok (activate a s)"
  using assms unfolding tables_ok_def lease_guest_def
  by (elim conjE, intro conjI allI impI) simp_all

lemma tables_cong:
  assumes "leases s = leases t" "idleLeases s = idleLeases t" "activeLeases s = activeLeases t"
    "queuedLeaseAcquisitions s = queuedLeaseAcquisitions t"
  shows "tables_ok s = tables_ok t"
  using assms by (simp add: tables_ok_def lease_guest_def)

lemma tables_unaffected [simp]:
  "tables_ok (settle p out s) = tables_ok s" "tables_ok (clearTimeout q s) = tables_ok s"
  "tables_ok (s\<lparr>timers := ts\<rparr>) = tables_ok s" "tables_ok (s\<lparr>nextPromise := n\<rparr>) = tables_ok s"
  by (rule tables_cong; simp)+

text \<open>A lease the pool does not hold yet.\<close>

definition fresh_lease :: "LeasePool \<Rightarrow> nat \<Rightarrow> bool" where
  "fresh_lease s a \<longleftrightarrow> add_mset a (mset (idle_addrs s) + mset (granted s)) \<subseteq># mset [0..<length (leases s)]"

lemma fresh_lease_less: "fresh_lease s a \<Longrightarrow> a < length (leases s)"
  by (auto simp: fresh_lease_def dest: mset_subset_eqD [where x = a])

lemma addIdleLease_inv:
  assumes "pool_inv s" "fresh_lease s a"
  shows "pool_inv (addIdleLease a s)"
proof (cases "isClosed s a")
  case True
  then show ?thesis using assms(1) by (simp add: addIdleLease_def)
next
  case False
  let ?g = "ls_guestId (leases s ! a)"
  from assms(1) have ok: "promises_ok s" "leases_ok s" "tables_ok s" by (auto simp: pool_inv_def)
  have a: "a < length (leases s)" using assms(2) by (rule fresh_lease_less)
  show ?thesis
  proof (cases "get_list (queuedLeaseAcquisitions s) ?g")
    case Nil
    let ?s = "s\<lparr>idleLeases := AList.update ?g (get_list (idleLeases s) ?g @ [a]) (idleLeases s)\<rparr>"
    have "tables_ok ?s"
      using Nil idle_get [OF ok(3), of ?g] by (intro tables_set_idle [OF ok(3)]) (auto simp: lease_guest_def)
    moreover have "mset (idle_addrs ?s) = add_mset a (mset (idle_addrs s))"
      using idle_split [OF ok(3), of ?g] by (simp add: idle_addrs_def)
    then have "leases_ok ?s" using assms(2) by (simp add: leases_ok_def fresh_lease_def granted_def)
    moreover have "promises_ok ?s" using ok(1) by (simp add: promises_ok_def waiting_def)
    ultimately show ?thesis using False Nil by (simp add: addIdleLease_def pool_inv_def Let_def)
  next
    case (Cons q qs)
    let ?s = "addIdleLease a s"
    have eq: "?s = settle (q_id q) (Resolved a) (activate a (clearTimeout q
                (s\<lparr>queuedLeaseAcquisitions := AList.update ?g qs (queuedLeaseAcquisitions s)\<rparr>)))"
      using False Cons by (simp add: addIdleLease_def Let_def)
    have w: "mset (waiting s) = add_mset q (mset (waiting ?s))"
      unfolding eq using queue_split [OF ok(3), of ?g] Cons by (simp add: waiting_def)
    have "promises_ok ?s"
      using promises_remove [OF ok(1) w] by (simp add: promises_ok_def eq)
    moreover have "leases_ok ?s"
      using assms(2) by (simp add: leases_ok_def fresh_lease_def eq granted_def idle_addrs_def)
    moreover have "tables_ok ?s"
      unfolding eq using queue_get [OF ok(3), of ?g] waiting_no_idle [OF ok(3), of ?g] a Cons
      by (simp, intro tables_activate) (simp_all add: tables_set_queue [OF ok(3)])
    ultimately show ?thesis by (simp add: pool_inv_def)
  qed
qed

lemma shift_open_eq:
  "shift_open s xs = (case dropWhile (isClosed s) xs of [] \<Rightarrow> (None, []) | a # as \<Rightarrow> (Some a, as))"
  by (induction xs) auto

lemma shift_open_cases:
  obtains "shift_open s xs = (None, [])" "\<forall>a \<in> set xs. isClosed s a"
  | pre a as where "shift_open s xs = (Some a, as)" "xs = pre @ a # as" "\<not> isClosed s a"
proof (cases "dropWhile (isClosed s) xs")
  case Nil
  then have "shift_open s xs = (None, [])" unfolding shift_open_eq by (simp only: list.case)
  with Nil show thesis using that(1) by (simp add: dropWhile_eq_Nil_conv)
next
  case (Cons a as)
  then have "xs = takeWhile (isClosed s) xs @ a # as" by (metis takeWhile_dropWhile_id)
  moreover have "\<not> isClosed s a" using Cons by (simp add: dropWhile_eq_Cons_conv)
  moreover have "shift_open s xs = (Some a, as)" unfolding shift_open_eq Cons by (simp only: list.case)
  ultimately show thesis using that(2) by blast
qed

lemma tables_store_idle:
  assumes "tables_ok s" "set xs \<subseteq> set (get_list (idleLeases s) g)"
  shows "tables_ok (store_idle g xs s)"
proof (cases "xs = []")
  case True
  then show ?thesis using tables_del_idle [OF assms(1)] by (simp add: store_idle_def)
next
  case False
  then have "get_list (idleLeases s) g \<noteq> []" using assms(2) by auto
  then have "get_list (queuedLeaseAcquisitions s) g = []" using waiting_no_idle [OF assms(1)] by blast
  then show ?thesis
    using False assms idle_get [OF assms(1), of g]
    by (auto simp: store_idle_def intro!: tables_set_idle)
qed

lemma idle_store_idle:
  assumes "tables_ok s"
  shows "mset (idle_addrs (store_idle g xs s)) + mset (get_list (idleLeases s) g) = mset (idle_addrs s) + mset xs"
  using idle_split [OF assms, of g] by (simp add: idle_addrs_def)

lemma promises_new:
  "promises_ok s \<Longrightarrow> q \<in> set (waiting s) \<Longrightarrow> q_id q < nextPromise s"
proof -
  assume ok: "promises_ok s" and q: "q \<in> set (waiting s)"
  have "q_id q \<in># mset (map q_id (waiting s)) + mset (map fst (settled s))" using q by simp
  then have "q_id q \<in># mset [0..<nextPromise s]" using ok by (simp only: promises_ok_def)
  then show ?thesis by simp
qed

lemma acquireLease_inv:
  assumes "pool_inv s"
  shows "pool_inv (snd (acquireLease g r t s))"
proof (rule shift_open_cases [of s "get_list (idleLeases s) g"])
  from assms have ok: "promises_ok s" "leases_ok s" "tables_ok s" by (auto simp: pool_inv_def)
  let ?n = "nextPromise s"
  {
    fix pre a as
    assume so: "shift_open s (get_list (idleLeases s) g) = (Some a, as)"
      and split: "get_list (idleLeases s) g = pre @ a # as"
    let ?s1 = "(store_idle g as s)\<lparr>nextPromise := ?n + 1\<rparr>"
    have eq: "snd (acquireLease g r t s) = settle ?n (Resolved a) (activate a ?s1)"
      by (simp add: acquireLease_def so Let_def)
    have "promises_ok (snd (acquireLease g r t s))"
      using ok(1) unfolding eq by (simp add: promises_ok_def waiting_def)
    moreover have "mset (idle_addrs s) = add_mset a (mset (idle_addrs (store_idle g as s))) + mset pre"
      using idle_store_idle [OF ok(3), of g as] split by simp
    then have "leases_ok (snd (acquireLease g r t s))"
      unfolding eq by (intro leases_ok_mono [OF ok(2)]) (simp_all add: granted_def idle_addrs_def)
    moreover have "a < length (leases s)"
      using split by (intro leases_ok_less [OF ok(2)] in_idle [OF ok(3), of _ g]) simp
    then have "tables_ok (snd (acquireLease g r t s))"
      unfolding eq using tables_store_idle [OF ok(3), of as g] split
      by (simp, intro tables_activate) auto
    ultimately show "pool_inv (snd (acquireLease g r t s))" by (simp add: pool_inv_def)
  next
    assume so: "shift_open s (get_list (idleLeases s) g) = (None, [])"
    let ?q = "\<lparr>q_id = ?n, q_guestId = g, q_requestId = r, q_timeoutMs = t\<rparr>"
    let ?s1 = "(store_idle g [] s)\<lparr>nextPromise := ?n + 1, timers := timers s @ [?q]\<rparr>"
    let ?qs = "get_list (queuedLeaseAcquisitions s) g @ [?q]"
    have eq: "snd (acquireLease g r t s) =
        ?s1\<lparr>queuedLeaseAcquisitions := AList.update g ?qs (queuedLeaseAcquisitions ?s1)\<rparr>"
      by (simp add: acquireLease_def so Let_def)
    have w: "mset (waiting (snd (acquireLease g r t s))) = add_mset ?q (mset (waiting s))"
      unfolding eq using queue_split [OF ok(3), of g] by (simp add: waiting_def)
    then have "set (waiting (snd (acquireLease g r t s))) = insert ?q (set (waiting s))"
      by (metis set_mset_add_mset_insert set_mset_mset)
    with w have "promises_ok (snd (acquireLease g r t s))"
      using ok(1) by (simp add: promises_ok_def eq)
    moreover have "mset (idle_addrs s) = mset (idle_addrs (store_idle g [] s)) + mset (get_list (idleLeases s) g)"
      using idle_store_idle [OF ok(3), of g "[]"] by simp
    then have "leases_ok (snd (acquireLease g r t s))"
      unfolding eq by (intro leases_ok_mono [OF ok(2)]) (simp_all add: granted_def idle_addrs_def)
    moreover have "\<forall>q \<in> set (get_list (queuedLeaseAcquisitions s) g). q_id q < ?n"
      using in_waiting [OF ok(3)] promises_new [OF ok(1)] by blast
    then have "tables_ok (snd (acquireLease g r t s))"
      unfolding eq using queue_get [OF ok(3), of g] tables_store_idle [OF ok(3), of "[]" g]
      by (intro tables_set_queue) (auto simp: sorted_wrt_append)
    ultimately show "pool_inv (snd (acquireLease g r t s))" by (simp add: pool_inv_def)
  }
qed

lemma store_idle_inv:
  assumes "pool_inv s" "mset xs \<subseteq># mset (get_list (idleLeases s) g)"
  shows "pool_inv (store_idle g xs s)"
proof -
  from assms(1) have ok: "promises_ok s" "leases_ok s" "tables_ok s" by (auto simp: pool_inv_def)
  from assms(2) obtain D where D: "mset (get_list (idleLeases s) g) = mset xs + D"
    by (auto simp: subset_mset.le_iff_add)
  then have "mset (idle_addrs s) = mset (idle_addrs (store_idle g xs s)) + D"
    using idle_store_idle [OF ok(3), of g xs] by simp
  then have "leases_ok (store_idle g xs s)"
    by (intro leases_ok_mono [OF ok(2)]) (simp_all add: granted_def)
  moreover have "set xs \<subseteq> set (get_list (idleLeases s) g)"
    using set_mset_mono [OF assms(2)] by simp
  ultimately show ?thesis
    using ok by (simp add: pool_inv_def tables_store_idle promises_ok_def waiting_def)
qed

lemma dropWhile_subset_mset: "mset (dropWhile R xs) \<subseteq># mset xs"
proof -
  have "mset (takeWhile R xs @ dropWhile R xs) = mset xs" by simp
  then show ?thesis by (metis mset_append mset_subset_eq_add_right)
qed

lemma tryAcquireLease_inv: "pool_inv s \<Longrightarrow> pool_inv (snd (tryAcquireLease g r t s))"
  by (auto simp: tryAcquireLease_def Let_def case_prod_beta dropWhile_subset_mset
        intro!: store_idle_inv acquireLease_inv)

lemma mset_remove_key:
  "distinct (map f xs) \<Longrightarrow> q \<in> set xs \<Longrightarrow> mset xs = add_mset q (mset (filter (\<lambda>c. f c \<noteq> f q) xs))"
proof (induction xs)
  case (Cons x xs)
  show ?case
  proof (cases "x = q")
    case True
    then have "filter (\<lambda>c. f c \<noteq> f q) xs = xs"
      using Cons.prems(1) by (simp add: filter_id_conv) (metis image_eqI)
    with True show ?thesis by (simp del: mset_filter)
  next
    case False
    then have "f x \<noteq> f q" "q \<in> set xs" using Cons.prems by auto
    with Cons show ?thesis by (simp del: mset_filter)
  qed
qed simp

lemma acquisition_timeout_inv:
  assumes "pool_inv s" "q \<in> set (timers s)"
  shows "pool_inv (acquisition_timeout P q s)"
proof -
  from assms have ok: "promises_ok s" "leases_ok s" "tables_ok s" by (auto simp: pool_inv_def)
  let ?s = "acquisition_timeout P q s"
  let ?g = "q_guestId q"
  have "q \<in> set (waiting s)" using assms(2) ok(1) by (simp add: promises_ok_def)
  then obtain g qs where "(g, qs) \<in> set (queuedLeaseAcquisitions s)" "q \<in> set qs"
    by (auto simp: waiting_def)
  moreover from this have "?g = g" using ok(3) by (auto simp: tables_ok_def list_all_iff)
  ultimately have q: "q \<in> set (get_list (queuedLeaseAcquisitions s) ?g)"
    using ok(3) by (auto simp: get_list_def tables_ok_def)
  define rest where "rest = filter (\<lambda>c. q_id c \<noteq> q_id q) (get_list (queuedLeaseAcquisitions s) ?g)"
  have "distinct (map q_id (get_list (queuedLeaseAcquisitions s) ?g))"
    using queue_get(2) [OF ok(3), of ?g] by (simp add: strict_sorted_iff)
  then have f: "mset (get_list (queuedLeaseAcquisitions s) ?g) = add_mset q (mset rest)"
    using q unfolding rest_def by (rule mset_remove_key)
  have w: "mset (waiting s) = add_mset q (mset (waiting ?s))"
    using queue_split [OF ok(3), of ?g] f
    by (simp add: acquisition_timeout_def removeQueuedLeaseAcquisition_def waiting_def
          flip: rest_def)
  have "promises_ok ?s"
    using promises_remove [OF ok(1) w]
    by (simp add: promises_ok_def acquisition_timeout_def removeQueuedLeaseAcquisition_def)
  moreover have "leases_ok ?s"
    using ok(2) by (simp add: leases_ok_def acquisition_timeout_def removeQueuedLeaseAcquisition_def
        idle_addrs_def granted_def)
  moreover have "tables_ok ?s"
    unfolding acquisition_timeout_def removeQueuedLeaseAcquisition_def tables_unaffected
  proof (rule tables_set_queue)
    show "sorted_wrt (<) (map q_id (filter (\<lambda>c. q_id c \<noteq> q_id q)
        (get_list (queuedLeaseAcquisitions (clearTimeout q s)) ?g)))"
      using queue_get(2) [OF ok(3), of ?g] by (simp add: sorted_wrt_map sorted_wrt_filter)
    show "\<forall>c \<in> set (filter (\<lambda>c. q_id c \<noteq> q_id q)
        (get_list (queuedLeaseAcquisitions (clearTimeout q s)) ?g)). q_guestId c = ?g"
      unfolding set_filter clearTimeout_sel using queue_get(1) [OF ok(3), of ?g] by blast
    have "get_list (queuedLeaseAcquisitions s) ?g \<noteq> []" using q by force
    then show "get_list (idleLeases (clearTimeout q s)) ?g = []"
      unfolding clearTimeout_sel by (rule waiting_no_idle [OF ok(3)])
  qed (simp add: ok(3))
  ultimately show ?thesis by (simp add: pool_inv_def)
qed

lemma removeLease_inv:
  assumes "pool_inv s"
  shows "pool_inv (removeLease a s)"
proof -
  let ?g = "ls_guestId (leases s ! a)"
  let ?s1 = "store_idle ?g (filter (\<lambda>c. c \<noteq> a) (get_list (idleLeases s) ?g)) s"
  have s1: "pool_inv ?s1"
    by (rule store_idle_inv [OF assms]) (simp add: mset_filter)
  moreover have "tables_ok (removeLease a s)"
    using s1 unfolding pool_inv_def tables_ok_def lease_guest_def removeLease_def Let_def
    by (elim conjE, intro conjI) simp_all
  ultimately show ?thesis
    by (simp add: pool_inv_def promises_ok_def leases_ok_def removeLease_def Let_def waiting_def
          idle_addrs_def granted_def)
qed

lemma close_lease_inv: "pool_inv s \<Longrightarrow> pool_inv (close_lease a s)"
  by (simp add: pool_inv_def promises_ok_def leases_ok_def tables_ok_def waiting_def idle_addrs_def
        granted_def lease_guest_def)

lemma fold_inv: "(\<And>x s. I s \<Longrightarrow> I (f x s)) \<Longrightarrow> I s \<Longrightarrow> I (fold f xs s)"
  by (induction xs arbitrary: s) auto

lemma del_idle_inv: "pool_inv s \<Longrightarrow> pool_inv (s\<lparr>idleLeases := AList.delete g (idleLeases s)\<rparr>)"
  using store_idle_inv [of s "[]" g] by (simp add: store_idle_def)

lemma del_active_inv: "pool_inv s \<Longrightarrow> pool_inv (s\<lparr>activeLeases := AList.delete k (activeLeases s)\<rparr>)"
  by (simp add: pool_inv_def promises_ok_def leases_ok_def tables_ok_def waiting_def idle_addrs_def
        granted_def lease_guest_def)

text \<open>The body of the loop over the active leases in \<open>closeGuestLeases\<close>.\<close>

definition close_active :: "jsstr \<Rightarrow> jsstr \<times> nat \<Rightarrow> LeasePool \<Rightarrow> LeasePool" where
  "close_active g e s =
     (if ls_guestId (leases s ! snd e) = g
      then (close_lease (snd e) s)\<lparr>activeLeases := AList.delete (fst e) (activeLeases s)\<rparr> else s)"

lemma closeGuestLeases_eq:
  "closeGuestLeases g s =
    (let s1 = fold close_lease (get_list (idleLeases s) g) s;
         s2 = s1\<lparr>idleLeases := AList.delete g (idleLeases s1)\<rparr>
     in fold (close_active g) (activeLeases s2) s2)"
proof -
  have "close_active g = (\<lambda>(key, a) s'. if ls_guestId (leases s' ! a) = g
      then (close_lease a s')\<lparr>activeLeases := AList.delete key (activeLeases s')\<rparr> else s')"
    by (auto simp: close_active_def fun_eq_iff)
  then show ?thesis by (simp add: closeGuestLeases_def)
qed

lemma close_active_inv: "pool_inv s \<Longrightarrow> pool_inv (close_active g e s)"
  using del_active_inv [OF close_lease_inv, of s "fst e" "snd e"] by (simp add: close_active_def)

lemma closeGuestLeases_inv: "pool_inv s \<Longrightarrow> pool_inv (closeGuestLeases g s)"
  unfolding closeGuestLeases_eq Let_def
  by (rule fold_inv [where I = pool_inv], rule close_active_inv, assumption,
      rule del_idle_inv, rule fold_inv [where I = pool_inv], rule close_lease_inv)

lemma clear_tables_inv:
  assumes "pool_inv s"
  shows "pool_inv (s\<lparr>idleLeases := [], activeLeases := []\<rparr>)"
proof -
  from assms have ok: "promises_ok s" "leases_ok s" "tables_ok s" by (auto simp: pool_inv_def)
  have "leases_ok (s\<lparr>idleLeases := [], activeLeases := []\<rparr>)"
    by (rule leases_ok_mono [OF ok(2)]) (simp_all add: idle_addrs_def granted_def)
  moreover have "tables_ok (s\<lparr>idleLeases := [], activeLeases := []\<rparr>)"
    using ok(3) by (simp add: tables_ok_def get_list_def)
  moreover have "promises_ok (s\<lparr>idleLeases := [], activeLeases := []\<rparr>)"
    using ok(1) by (simp add: promises_ok_def waiting_def)
  ultimately show ?thesis by (simp add: pool_inv_def)
qed

lemma closeAllLeases_inv: "pool_inv s \<Longrightarrow> pool_inv (closeAllLeases s)"
  unfolding closeAllLeases_def Let_def
  by (rule clear_tables_inv, rule fold_inv [where I = pool_inv], rule close_lease_inv, assumption,
      rule fold_inv [where I = pool_inv], rule close_lease_inv)

lemma fold_fail:
  "fold (\<lambda>q s'. settle (q_id q) (Rejected (E q)) (clearTimeout q s')) qs s =
   s\<lparr>timers := filter (\<lambda>t. q_id t \<notin> q_id ` set qs) (timers s),
     settled := settled s @ map (\<lambda>q. (q_id q, Rejected (E q))) qs\<rparr>"
proof (induction qs arbitrary: s)
  case Nil
  then show ?case by simp
next
  case (Cons q qs)
  then show ?case
    by (simp add: settle_def clearTimeout_def conj_commute)
qed

lemma failQueued_inv:
  assumes "pool_inv s"
  shows "pool_inv (failQueuedLeaseAcquisitions P g reason s)"
proof -
  from assms have ok: "promises_ok s" "leases_ok s" "tables_ok s" by (auto simp: pool_inv_def)
  let ?qs = "get_list (queuedLeaseAcquisitions s) g"
  let ?d = "AList.delete g (queuedLeaseAcquisitions s)"
  let ?s = "failQueuedLeaseAcquisitions P g reason s"
  have eq: "?s = s\<lparr>queuedLeaseAcquisitions := ?d,
      timers := filter (\<lambda>t. q_id t \<notin> q_id ` set ?qs) (timers s),
      settled := settled s @ map (\<lambda>q. (q_id q, Rejected (disconnected_error P g q reason))) ?qs\<rparr>"
    by (simp add: failQueuedLeaseAcquisitions_def fold_fail)
  have w: "mset (waiting s) = mset ?qs + mset (waiting ?s)"
    using queue_split(1) [OF ok(3), of g] by (simp add: waiting_def eq)
  then have "distinct (map q_id (?qs @ waiting ?s))"
    using waiting_ids_distinct [OF ok(1)] by (metis mset_append mset_eq_imp_distinct_iff mset_map)
  then have "q_id ` set ?qs \<inter> q_id ` set (waiting ?s) = {}" by simp
  moreover have "set (timers s) = set ?qs \<union> set (waiting ?s)"
    using w ok(1) by (metis promises_ok_def set_mset_mset set_mset_union)
  moreover have "set (timers ?s) = {t \<in> set (timers s). q_id t \<notin> q_id ` set ?qs}"
    by (simp add: eq)
  ultimately have "set (timers ?s) = set (waiting ?s)"
    by blast
  moreover have "mset (map q_id (waiting s)) = mset (map q_id ?qs) + mset (map q_id (waiting ?s))"
    using w by simp
  moreover have "mset (map fst (settled ?s)) = mset (map fst (settled s)) + mset (map q_id ?qs)"
    "nextPromise ?s = nextPromise s"
    by (simp_all add: eq comp_def)
  ultimately have "promises_ok ?s"
    using ok(1) by (simp only: promises_ok_def ac_simps simp_thms)
  moreover have "granted ?s = granted s" by (simp add: granted_def eq)
  then have "leases_ok ?s"
    by (intro leases_ok_mono [OF ok(2)]) (simp_all add: idle_addrs_def eq)
  moreover have "tables_ok ?s"
    using tables_del_queue [OF ok(3), of g] unfolding eq by (simp add: tables_ok_def lease_guest_def)
  ultimately show ?thesis by (simp add: pool_inv_def)
qed

lemma failAllQueued_inv: "pool_inv s \<Longrightarrow> pool_inv (failAllQueuedLeaseAcquisitions P reason s)"
  unfolding failAllQueuedLeaseAcquisitions_def
  by (rule fold_inv [where I = pool_inv], rule failQueued_inv)

lemma alloc_inv:
  assumes "pool_inv s"
  shows "pool_inv (s\<lparr>leases := leases s @ [l]\<rparr>)" "fresh_lease (s\<lparr>leases := leases s @ [l]\<rparr>) (length (leases s))"
proof -
  from assms have ok: "promises_ok s" "leases_ok s" "tables_ok s" by (auto simp: pool_inv_def)
  let ?s = "s\<lparr>leases := leases s @ [l]\<rparr>"
  have le: "mset (idle_addrs s) + mset (granted s) \<subseteq># mset [0..<length (leases s)]"
    using ok(2) by (simp add: leases_ok_def)
  show "fresh_lease ?s (length (leases s))"
    using le by (simp add: fresh_lease_def idle_addrs_def granted_def)
  have "mset [0..<length (leases s)] \<subseteq># mset [0..<length (leases ?s)]" by simp
  from subset_mset.order_trans [OF le this] have "leases_ok ?s"
    by (simp add: leases_ok_def idle_addrs_def granted_def)
  moreover have idle: "a < length (leases s)" if "(g, as) \<in> set (idleLeases s)" "a \<in> set as" for g as a
    using that by (intro leases_ok_less [OF ok(2)]) (force simp: idle_addrs_def)
  then have "list_all (idle_entry ?s) (idleLeases s)"
    using ok(3) by (fastforce simp: tables_ok_def list_all_iff lease_guest_def nth_append)
  then have "tables_ok ?s"
    using ok(3) by (simp add: tables_ok_def list_all_iff nth_append less_Suc_eq)
  moreover have "promises_ok ?s" using ok(1) by (simp add: promises_ok_def waiting_def)
  ultimately show "pool_inv ?s" by (simp add: pool_inv_def)
qed

lemma attachGuestLeaseStream_inv:
  "pool_inv s \<Longrightarrow> pool_inv (snd (attachGuestLeaseStream P roles p l st s))"
  by (auto simp: attachGuestLeaseStream_def Let_def split: sum.splits intro!: addIdleLease_inv alloc_inv)

section \<open>Reachable pools\<close>

text \<open>A stream may change its state at any moment, without the pool being told.\<close>

definition stream_changes :: "nat \<Rightarrow> ServerHttp2Stream \<Rightarrow> LeasePool \<Rightarrow> LeasePool" where
  "stream_changes a st s = s\<lparr>leases := (leases s)[a := (leases s ! a)\<lparr>ls_stream := st\<rparr>]\<rparr>"

lemma stream_changes_inv: "pool_inv s \<Longrightarrow> pool_inv (stream_changes a st s)"
  by (simp add: stream_changes_def pool_inv_def promises_ok_def leases_ok_def tables_ok_def waiting_def
        idle_addrs_def granted_def lease_guest_def)

inductive pool_step :: "'p platform_scheme \<Rightarrow> LeasePool \<Rightarrow> LeasePool \<Rightarrow> bool" for P where
  attach: "pool_step P s (snd (attachGuestLeaseStream P roles peer lease st s))"
| acquire: "pool_step P s (snd (acquireLease g r t s))"
| try_acquire: "pool_step P s (snd (tryAcquireLease g r t s))"
| timer: "q \<in> set (timers s) \<Longrightarrow> pool_step P s (acquisition_timeout P q s)"
| stream: "pool_step P s (stream_changes a st s)"
| remove: "pool_step P s (removeLease a s)"
| close_guest: "pool_step P s (closeGuestLeases g s)"
| close_all: "pool_step P s (closeAllLeases s)"
| fail: "pool_step P s (failQueuedLeaseAcquisitions P g reason s)"
| fail_all: "pool_step P s (failAllQueuedLeaseAcquisitions P reason s)"

inductive pool_reachable :: "'p platform_scheme \<Rightarrow> LeasePool \<Rightarrow> bool" for P where
  created: "pool_reachable P empty_pool"
| stepped: "pool_reachable P s \<Longrightarrow> pool_step P s s' \<Longrightarrow> pool_reachable P s'"

lemma empty_pool_inv: "pool_inv empty_pool"
  by (simp add: pool_inv_defs empty_pool_def waiting_def idle_addrs_def granted_def get_list_def)

lemma pool_step_inv: "pool_step P s s' \<Longrightarrow> pool_inv s \<Longrightarrow> pool_inv s'"
  by (induction rule: pool_step.induct)
     (simp_all add: attachGuestLeaseStream_inv acquireLease_inv tryAcquireLease_inv acquisition_timeout_inv
        stream_changes_inv removeLease_inv closeGuestLeases_inv closeAllLeases_inv failQueued_inv
        failAllQueued_inv)

lemma pool_reachable_inv: "pool_reachable P s \<Longrightarrow> pool_inv s"
  by (induction rule: pool_reachable.induct) (blast intro: empty_pool_inv pool_step_inv)+

text \<open>What the multiset of promise ids says about single promises.\<close>

lemma promise_dichotomy:
  assumes "promises_ok s"
  shows "distinct (map fst (settled s))"
    and "p < nextPromise s \<Longrightarrow> (p \<in> fst ` set (settled s)) \<noteq> (\<exists>q \<in> set (timers s). q_id q = p)"
proof -
  let ?l = "map q_id (waiting s) @ map fst (settled s)"
  have m: "mset ?l = mset [0..<nextPromise s]" using assms by (simp add: promises_ok_def)
  then have d: "distinct ?l" by (metis distinct_upt mset_eq_imp_distinct_iff)
  then show "distinct (map fst (settled s))" by simp
  assume "p < nextPromise s"
  then have "p \<in> set ?l" using m by (metis atLeastLessThan_iff le0 mset_eq_setD set_upt)
  then have "p \<in> q_id ` set (waiting s) \<or> p \<in> fst ` set (settled s)" by auto
  moreover have "\<not> (p \<in> q_id ` set (waiting s) \<and> p \<in> fst ` set (settled s))" using d by auto
  moreover have "set (timers s) = set (waiting s)" using assms by (simp add: promises_ok_def)
  ultimately show "(p \<in> fst ` set (settled s)) \<noteq> (\<exists>q \<in> set (timers s). q_id q = p)"
    by (auto simp: image_iff)
qed

lemma granted_distinct: "leases_ok s \<Longrightarrow> distinct (idle_addrs s @ granted s)"
  by (rule distinct_mset_subset [of _ "[0..<length (leases s)]"]) (simp_all add: leases_ok_def)

text \<open>The loops that close streams.\<close>

lemma close_lease_closes:
  "closed (ls_stream (leases s ! b)) \<or> (b = a \<and> b < length (leases s)) \<Longrightarrow>
   closed (ls_stream (leases (close_lease a s) ! b))"
  by (cases "a < length (leases s)"; cases "a = b")
     (auto simp: close_lease_def stream_close_def nth_list_update list_update_beyond)

lemma fold_close_lease:
  "length (leases (fold close_lease as s)) = length (leases s)"
  "idleLeases (fold close_lease as s) = idleLeases s"
  "activeLeases (fold close_lease as s) = activeLeases s"
  "ls_guestId (leases (fold close_lease as s) ! b) = ls_guestId (leases s ! b)"
  "closed (ls_stream (leases s ! b)) \<or> (b \<in> set as \<and> b < length (leases s)) \<Longrightarrow>
   closed (ls_stream (leases (fold close_lease as s) ! b))"
proof (induction as arbitrary: s)
  case (Cons a as)
  {
    case 5
    then have "closed (ls_stream (leases (close_lease a s) ! b)) \<or>
      (b \<in> set as \<and> b < length (leases (close_lease a s)))"
      using close_lease_closes [of s b a] by auto
    from Cons(5) [OF this] show ?case by simp
  }
qed (use Cons in simp_all)

lemma close_active_sel:
  "length (leases (close_active g e s)) = length (leases s)"
  "idleLeases (close_active g e s) = idleLeases s"
  "ls_guestId (leases (close_active g e s) ! b) = ls_guestId (leases s ! b)"
  "activeLeases (close_active g e s) =
     (if ls_guestId (leases s ! snd e) = g then AList.delete (fst e) (activeLeases s) else activeLeases s)"
  by (simp_all add: close_active_def)

lemma close_active_closes:
  "closed (ls_stream (leases s ! b)) \<or> (b = snd e \<and> ls_guestId (leases s ! b) = g \<and> b < length (leases s)) \<Longrightarrow>
   closed (ls_stream (leases (close_active g e s) ! b))"
  using close_lease_closes [of s b "snd e"] by (auto simp: close_active_def)

lemma fold_close_active:
  "length (leases (fold (close_active g) es s)) = length (leases s)"
  "idleLeases (fold (close_active g) es s) = idleLeases s"
  "ls_guestId (leases (fold (close_active g) es s) ! b) = ls_guestId (leases s ! b)"
  "activeLeases (fold (close_active g) es s) =
     filter (\<lambda>e. \<not> (\<exists>d \<in> set es. fst d = fst e \<and> ls_guestId (leases s ! snd d) = g)) (activeLeases s)"
  "closed (ls_stream (leases s ! b)) \<or>
     (b \<in> snd ` set es \<and> ls_guestId (leases s ! b) = g \<and> b < length (leases s)) \<Longrightarrow>
   closed (ls_stream (leases (fold (close_active g) es s) ! b))"
proof (induction es arbitrary: s)
  case (Cons e es)
  note sel = close_active_sel
  {
    case 1
    show ?case using Cons(1) [of "close_active g e s"] by (simp add: sel)
  next
    case 2
    show ?case using Cons(2) [of "close_active g e s"] by (simp add: sel)
  next
    case 3
    show ?case using Cons(3) [of "close_active g e s"] by (simp add: sel)
  next
    case 4
    show ?case
      using Cons(4) [of "close_active g e s"] by (auto simp: sel AList.delete_eq case_prod_beta intro!: filter_cong)
  next
    case 5
    then have "closed (ls_stream (leases (close_active g e s) ! b)) \<or>
      (b \<in> snd ` set es \<and> ls_guestId (leases (close_active g e s) ! b) = g \<and> b < length (leases (close_active g e s)))"
      using close_active_closes [of s b e g] by (auto simp: sel)
    from Cons(5) [OF this] show ?case by simp
  }
qed simp_all

section \<open>Properties\<close>

text \<open>C32: In every reachable pool: a guest with a waiting acquisition has no idle lease; every
  promise ever returned has been settled exactly once or is still waiting with its timer
  pending, so none is lost; and no lease was handed to two acquisitions or is idle after it was
  handed out.\<close>

theorem lease_pool_invariant:
  assumes "pool_reachable P s"
  shows "(\<forall>g. get_list (queuedLeaseAcquisitions s) g \<noteq> [] \<longrightarrow> get_list (idleLeases s) g = []) \<and>
    distinct (map fst (settled s)) \<and>
    (\<forall>p < nextPromise s. (p \<in> fst ` set (settled s)) \<noteq> (\<exists>q \<in> set (timers s). q_id q = p)) \<and>
    set (timers s) = set (waiting s) \<and> distinct (idle_addrs s @ granted s)"
proof -
  from pool_reachable_inv [OF assms] have ok: "promises_ok s" "leases_ok s" "tables_ok s"
    by (auto simp: pool_inv_def)
  moreover have "set (timers s) = set (waiting s)" using ok(1) by (simp add: promises_ok_def)
  ultimately show ?thesis
    using promise_dichotomy [OF ok(1)] granted_distinct [OF ok(2)] waiting_no_idle [OF ok(3)] by blast
qed

theorem lease_pool_invariant_witness:
  "distinct (map fst (settled (snd (acquireLease (js ''g'') (js ''r'') (Fin 5000) empty_pool))))"
  using lease_pool_invariant [OF pool_reachable.stepped [OF pool_reachable.created
      pool_step.acquire [of sample_platform empty_pool "js ''g''" "js ''r''" "Fin 5000"]]]
  by blast

text \<open>\<open>tryAcquireLease\<close> never queues: no queue and no timer changes, it answers with nothing
  exactly when the guest has no open idle lease, and otherwise its promise is resolved at once
  with an open lease of that guest.\<close>

theorem tryAcquireLease_immediate:
  assumes "pool_inv s" and "tryAcquireLease g r t s = (res, s')"
  shows "queuedLeaseAcquisitions s' = queuedLeaseAcquisitions s \<and> timers s' = timers s \<and>
    (res = None \<longleftrightarrow> (\<forall>a \<in> set (get_list (idleLeases s) g). isClosed s a)) \<and>
    (\<forall>pid. res = Some pid \<longrightarrow>
       (\<exists>a. settled s' = settled s @ [(pid, Resolved a)] \<and> \<not> isClosed s a \<and> lease_guest s a = g))"
proof (cases "dropWhile (isClosed s) (get_list (idleLeases s) g)")
  case Nil
  have "res = None" "s' = store_idle g [] s"
    using assms(2) unfolding tryAcquireLease_def Let_def Nil by simp_all
  with Nil show ?thesis by simp
next
  case (Cons a as)
  have open_a: "\<not> isClosed s a" using Cons by (simp add: dropWhile_eq_Cons_conv)
  have "a \<in> set (get_list (idleLeases s) g)" using Cons by (metis list.set_intros(1) set_dropWhileD)
  moreover from this have "lease_guest s a = g"
    using idle_get [of s g] assms(1) by (simp add: pool_inv_def)
  moreover have "shift_open (store_idle g (a # as) s) (a # as) = (Some a, as)"
    using open_a by (simp add: isClosed_def)
  ultimately show ?thesis
    using assms(2) Cons open_a by (auto simp: tryAcquireLease_def acquireLease_def Let_def)
qed

theorem tryAcquireLease_immediate_witness:
  "fst (tryAcquireLease (js ''g'') (js ''r'') (Fin 5000) empty_pool) = None"
  using tryAcquireLease_immediate [OF empty_pool_inv prod.collapse [symmetric], of "js ''g''" "js ''r''" "Fin 5000"]
  by (simp add: empty_pool_def get_list_def)

text \<open>Waiting acquisitions are served first come, first served: an open lease that arrives for a
  guest with waiters resolves the oldest of them, and leaves the others waiting in order.\<close>

theorem addIdleLease_fifo:
  assumes "pool_inv s" and "\<not> isClosed s a" and "lease_guest s a = g"
    and "get_list (queuedLeaseAcquisitions s) g \<noteq> []"
  shows "\<exists>q qs. get_list (queuedLeaseAcquisitions s) g = q # qs \<and> (\<forall>q' \<in> set qs. q_id q < q_id q') \<and>
    get_list (queuedLeaseAcquisitions (addIdleLease a s)) g = qs \<and>
    settled (addIdleLease a s) = settled s @ [(q_id q, Resolved a)] \<and>
    idleLeases (addIdleLease a s) = idleLeases s"
proof -
  from assms(4) obtain q qs where q: "get_list (queuedLeaseAcquisitions s) g = q # qs"
    by (cases "get_list (queuedLeaseAcquisitions s) g") auto
  moreover have "\<forall>q' \<in> set qs. q_id q < q_id q'"
    using queue_get(2) [of s g] assms(1) q by (simp add: pool_inv_def)
  ultimately show ?thesis
    using assms(2,3) by (simp add: addIdleLease_def lease_guest_def Let_def)
qed

definition sample_waiting :: LeasePool where
  "sample_waiting = (snd (acquireLease (js ''g'') (js ''r'') (Fin 5000) empty_pool))\<lparr>leases :=
     [\<lparr>ls_guestId = js ''g'', ls_leaseId = js ''l'', ls_stream = \<lparr>closed = False, rstCode = 0\<rparr>, ls_active = False\<rparr>]\<rparr>"

lemma sample_waiting_inv: "pool_inv sample_waiting"
  using alloc_inv(1) [OF acquireLease_inv [OF empty_pool_inv]]
  by (simp add: sample_waiting_def acquireLease_def empty_pool_def get_list_def Let_def)

theorem addIdleLease_fifo_witness:
  "\<exists>pid. settled (addIdleLease 0 sample_waiting) = settled sample_waiting @ [(pid, Resolved 0)]"
proof -
  have "\<not> isClosed sample_waiting 0" "lease_guest sample_waiting 0 = js ''g''"
    "get_list (queuedLeaseAcquisitions sample_waiting) (js ''g'') \<noteq> []"
    by (simp_all add: sample_waiting_def isClosed_def lease_guest_def acquireLease_def empty_pool_def
          get_list_def Let_def)
  from addIdleLease_fifo [OF sample_waiting_inv this] show ?thesis by blast
qed

text \<open>Disconnecting a guest closes every idle and every active lease of it and leaves none of
  them in the pool; the idle leases of other guests stay.\<close>

theorem closeGuestLeases_complete:
  assumes "pool_inv s" and "s' = closeGuestLeases g s"
  shows "get_list (idleLeases s') g = [] \<and> (\<forall>(k, a) \<in> set (activeLeases s'). lease_guest s' a \<noteq> g) \<and>
    (\<forall>a \<in> set (get_list (idleLeases s) g). isClosed s' a) \<and>
    (\<forall>k a. (k, a) \<in> set (activeLeases s) \<and> lease_guest s a = g \<longrightarrow> isClosed s' a) \<and>
    (\<forall>h. h \<noteq> g \<longrightarrow> get_list (idleLeases s') h = get_list (idleLeases s) h)"
proof -
  from assms(1) have ok: "leases_ok s" "tables_ok s" by (auto simp: pool_inv_def)
  let ?s1 = "fold close_lease (get_list (idleLeases s) g) s"
  let ?s2 = "?s1\<lparr>idleLeases := AList.delete g (idleLeases ?s1)\<rparr>"
  note c = fold_close_lease [where as = "get_list (idleLeases s) g" and s = s]
  note d = fold_close_active [where es = "activeLeases s" and s = ?s2 and g = g]
  have s': "s' = fold (close_active g) (activeLeases s) ?s2"
    unfolding assms(2) closeGuestLeases_eq Let_def by (simp add: c)
  have less: "a < length (leases s)" if "a \<in> set (get_list (idleLeases s) g)" for a
    using that in_idle [OF ok(2)] leases_ok_less [OF ok(1)] by blast
  have act: "a < length (leases s)" if "(k, a) \<in> set (activeLeases s)" for k a
    using that ok(2) by (auto simp: tables_ok_def list_all_iff)
  have guest: "lease_guest s' a = lease_guest s a" for a
    by (simp add: s' lease_guest_def d(3) c(4))
  have "\<forall>a \<in> set (get_list (idleLeases s) g). isClosed s' a"
    using d(5) c(5) less by (simp add: s' isClosed_def)
  moreover have "isClosed s' a" if "(k, a) \<in> set (activeLeases s)" "lease_guest s a = g" for k a
  proof -
    have "a \<in> snd ` set (activeLeases s)" using that(1) by force
    with that act [of k a] d(5) [of a] show ?thesis by (simp add: s' isClosed_def lease_guest_def c)
  qed
  moreover have active: "activeLeases s' = filter (\<lambda>e. \<not> (\<exists>d \<in> set (activeLeases s).
      fst d = fst e \<and> ls_guestId (leases s ! snd d) = g)) (activeLeases s)"
    unfolding s' d(4) by (simp add: c)
  have "\<forall>(k, a) \<in> set (activeLeases s'). lease_guest s' a \<noteq> g"
    unfolding guest active by (auto simp: lease_guest_def)
  moreover have "get_list (idleLeases s') h = (if h = g then [] else get_list (idleLeases s) h)" for h
    unfolding s' d(2) by (simp add: c(2))
  ultimately show ?thesis by (intro conjI allI impI) auto
qed

theorem closeGuestLeases_complete_witness:
  "get_list (idleLeases (closeGuestLeases (js ''g'') sample_waiting)) (js ''g'') = []"
  using closeGuestLeases_complete [OF sample_waiting_inv refl] by blast

text \<open>Two leases of different Guests with the same key, both handed out.\<close>

definition collided_pool :: "'p platform_scheme \<Rightarrow> LeasePool" where
  "collided_pool P =
    (let st = \<lparr>closed = False, rstCode = 0\<rparr>;
         s1 = snd (attachGuestLeaseStream P (\<lambda>_. Some guest) (js ''a'') (js ''b:c'') st empty_pool);
         s2 = snd (attachGuestLeaseStream P (\<lambda>_. Some guest) (js ''a:b'') (js ''c'') st s1);
         s3 = snd (acquireLease (js ''a'') (js ''r1'') (Fin 1) s2)
     in snd (acquireLease (js ''a:b'') (js ''r2'') (Fin 1) s3))"

lemma trim_js: "s \<noteq> [] \<Longrightarrow> \<not> js_ws (of_char (hd s)) \<Longrightarrow> \<not> js_ws (of_char (last s)) \<Longrightarrow> trim (js s) = js s"
  by (rule trim_trimmed) (auto simp: trimmed_def js_def hd_map last_map)

lemma collided_pool_eval:
  "collided_pool P = \<lparr>leases =
     [\<lparr>ls_guestId = js ''a'', ls_leaseId = js ''b:c'', ls_stream = \<lparr>closed = False, rstCode = 0\<rparr>, ls_active = True\<rparr>,
      \<lparr>ls_guestId = js ''a:b'', ls_leaseId = js ''c'', ls_stream = \<lparr>closed = False, rstCode = 0\<rparr>, ls_active = True\<rparr>],
     idleLeases = [], activeLeases = [(js ''a:b:c'', 1)], queuedLeaseAcquisitions = [], timers = [],
     nextPromise = 2, settled = [(0, Resolved 0), (1, Resolved 1)]\<rparr>"
proof -
  have "createPeerId P (js ''a'') = Inr (js ''a'')" "createPeerId P (js ''a:b'') = Inr (js ''a:b'')"
    by (simp_all add: createPeerId_def requireNonEmpty_Inr_iff trim_js js_ws_def)
  moreover have "trim (js ''b:c'') = js ''b:c''" "trim (js ''c'') = js ''c''"
    by (simp_all add: trim_js js_ws_def)
  moreover have "js ''a'' @ js '':'' @ js ''b:c'' = js ''a:b:c''" "js ''a:b'' @ js '':'' @ js ''c'' = js ''a:b:c''"
    by (simp_all add: js_def)
  ultimately show ?thesis
    by (simp add: collided_pool_def attachGuestLeaseStream_def addIdleLease_def empty_pool_def isClosed_def
          get_list_def acquireLease_def store_idle_def activate_def settle_def leaseKey_def Let_def)
qed

text \<open>The active table is keyed by \<open>guestId:leaseId\<close>, and both ids may contain a colon. Guest
  \<open>a\<close> with lease \<open>b:c\<close> and Guest \<open>a:b\<close> with lease \<open>c\<close> share a key: when both leases are in use,
  disconnecting Guest \<open>a\<close> leaves its lease open although it was handed out.\<close>

theorem lease_key_collision:
  "(0, Resolved 0) \<in> set (settled (collided_pool P)) \<and> lease_guest (collided_pool P) 0 = js ''a'' \<and>
   \<not> isClosed (closeGuestLeases (js ''a'') (collided_pool P)) 0"
  by (simp add: collided_pool_eval lease_guest_def closeGuestLeases_def get_list_def isClosed_def Let_def)

end
