(* ===== verification/Local_Broker.thy ===== *)
theory Local_Broker
  imports Routing
begin

text \<open>
  The state of a Broker that lives in the Host's process,
  \<open>packages/verser2-host/src/lib/local-peers.ts\<close>: its route snapshot, the promises that wait for a route,
  and the events it has emitted to its listeners. A promise is a number; the record keeps how each was
  settled.
\<close>

section \<open>State and operations\<close>

datatype waiter_outcome = Available | Failed_wait VerserError

record LocalBrokerState =
  lb_routes :: "RoutedDomainRegistration list"
  routeWaiters :: "(jsstr \<times> nat list) list"
  requestCounter :: nat
  lb_closed :: bool
  lb_emitted :: "raw_lifecycle_event list"
  lb_settled :: "(nat \<times> waiter_outcome) list"
  lb_promises :: nat

definition createLocalBrokerState :: "RoutedDomainRegistration list \<Rightarrow> LocalBrokerState" where
  "createLocalBrokerState routes =
     \<lparr>lb_routes = routes, routeWaiters = [], requestCounter = 0, lb_closed = False, lb_emitted = [],
      lb_settled = [], lb_promises = 0\<rparr>"

definition waiters_for :: "jsstr \<Rightarrow> LocalBrokerState \<Rightarrow> nat list" where
  "waiters_for d b = (case map_of (routeWaiters b) d of Some ws \<Rightarrow> ws | None \<Rightarrow> [])"

text \<open>\<open>for (const waiter of routeWaiters.get(d) ?? []) waiter.resolve(); routeWaiters.delete(d)\<close>.\<close>

definition resolve_waiters :: "jsstr \<Rightarrow> LocalBrokerState \<Rightarrow> LocalBrokerState" where
  "resolve_waiters d b =
     b\<lparr>lb_settled := lb_settled b @ map (\<lambda>w. (w, Available)) (waiters_for d b),
       routeWaiters := AList.delete d (routeWaiters b)\<rparr>"

definition updateLocalBrokerRoutes :: "RoutedDomainRegistration list \<Rightarrow> LocalBrokerState \<Rightarrow> LocalBrokerState" where
  "updateLocalBrokerRoutes routes b =
     (if lb_closed b then b
      else foldl (\<lambda>b r. resolve_waiters (domain r) b) (b\<lparr>lb_routes := routes\<rparr>) routes)"

text \<open>The promise is already settled (\<open>Some\<close>), or new and pending.\<close>

definition waitForLocalBrokerRoute :: "'p platform_scheme \<Rightarrow> jsstr \<Rightarrow> LocalBrokerState
    \<Rightarrow> (waiter_outcome + nat) \<times> LocalBrokerState" where
  "waitForLocalBrokerRoute P d b =
     (if lb_closed b
      then (Inl (Failed_wait (createVerserError P disconnected_target (js ''Local Broker is closed'') [])), b)
      else if \<exists>r \<in> set (lb_routes b). domain r = d then (Inl Available, b)
      else (let p = lb_promises b in
            (Inr p, b\<lparr>lb_promises := p + 1, routeWaiters := AList.update d (waiters_for d b @ [p]) (routeWaiters b)\<rparr>)))"

definition closeLocalBrokerState :: "'p platform_scheme \<Rightarrow> jsstr \<Rightarrow> LocalBrokerState \<Rightarrow> LocalBrokerState" where
  "closeLocalBrokerState P reason b =
     (if lb_closed b then b
      else (let error = createVerserError P disconnected_target (js ''Local Broker is closed'') [(js ''reason'', CStr reason)]
            in b\<lparr>lb_closed := True, lb_routes := [],
                 lb_settled := lb_settled b @ map (\<lambda>w. (w, Failed_wait error)) (concat (map snd (routeWaiters b))),
                 routeWaiters := []\<rparr>))"

definition same_route :: "raw_lifecycle_event \<Rightarrow> RoutedDomainRegistration \<Rightarrow> bool" where
  "same_route event r \<longleftrightarrow> targetId r = raw_targetId event \<and> domain r = raw_domain event"

text \<open>Replacing the route at the index found by the same route changes nothing, so only the absent case
  is a change.\<close>

definition add_route :: "raw_lifecycle_event \<Rightarrow> LocalBrokerState \<Rightarrow> LocalBrokerState" where
  "add_route event b =
     (if \<exists>r \<in> set (lb_routes b). same_route event r then b
      else b\<lparr>lb_routes := lb_routes b @ [\<lparr>targetId = raw_targetId event, domain = raw_domain event\<rparr>]\<rparr>)"

definition emitLocalBrokerRouteChange :: "raw_lifecycle_event \<Rightarrow> LocalBrokerState \<Rightarrow> LocalBrokerState" where
  "emitLocalBrokerRouteChange event b =
     (if lb_closed b then b
      else (let b' = (if raw_type event = js ''added'' \<or> raw_type event = js ''changed''
                      then resolve_waiters (raw_domain event) (add_route event b)
                      else if raw_type event = js ''removed''
                      then b\<lparr>lb_routes := filter (\<lambda>r. \<not> same_route event r) (lb_routes b)\<rparr>
                      else if raw_type event = js ''degraded'' then add_route event b
                      else b)
            in b'\<lparr>lb_emitted := lb_emitted b' @ [event]\<rparr>))"

section \<open>Invariant\<close>

definition lb_waiting :: "LocalBrokerState \<Rightarrow> nat list" where
  "lb_waiting b = concat (map snd (routeWaiters b))"

text \<open>Every promise handed out is either waiting or settled, and only once; a closed Broker keeps nothing.\<close>

definition lb_inv :: "LocalBrokerState \<Rightarrow> bool" where
  "lb_inv b \<longleftrightarrow> distinct (map fst (routeWaiters b)) \<and>
     mset (lb_waiting b) + mset (map fst (lb_settled b)) = mset [0..<lb_promises b] \<and>
     (lb_closed b \<longrightarrow> routeWaiters b = [] \<and> lb_routes b = [])"

lemma waiting_delete:
  "distinct (map fst m) \<Longrightarrow>
   mset (concat (map snd m)) = mset (case map_of m d of Some ws \<Rightarrow> ws | None \<Rightarrow> []) +
     mset (concat (map snd (AList.delete d m)))"
proof (induction m)
  case (Cons a m)
  obtain k ws where a: "a = (k, ws)" by (cases a)
  show ?case
  proof (cases "k = d")
    case True
    then have "AList.delete d m = m" using Cons.prems a by simp
    with True a show ?thesis by simp
  next
    case False
    have "mset (concat (map snd m)) = mset (case map_of m d of Some ws \<Rightarrow> ws | None \<Rightarrow> []) +
        mset (concat (map snd (AList.delete d m)))"
      using Cons by simp
    with False a show ?thesis by simp
  qed
qed simp

lemma waiting_update:
  "distinct (map fst m) \<Longrightarrow>
   mset (concat (map snd (AList.update d ws m))) = mset ws + mset (concat (map snd (AList.delete d m)))"
proof (induction m)
  case (Cons a m)
  have "AList.delete d m = m" if "d \<notin> fst ` set m" using that by simp
  with Cons show ?case by (cases a) (auto simp: ac_simps)
qed simp

lemma resolve_waiters_inv: "lb_inv b \<Longrightarrow> lb_inv (resolve_waiters d b)"
  using waiting_delete [of "routeWaiters b" d]
  by (auto simp: lb_inv_def lb_waiting_def resolve_waiters_def waiters_for_def comp_def ac_simps)

lemma resolve_all_inv:
  "lb_inv b \<Longrightarrow> lb_inv (foldl (\<lambda>b r. resolve_waiters (domain r) b) b rs)"
  by (induction rs arbitrary: b) (simp_all add: resolve_waiters_inv)

lemma update_inv: "lb_inv b \<Longrightarrow> lb_inv (updateLocalBrokerRoutes routes b)"
proof (cases "lb_closed b")
  case False
  assume "lb_inv b"
  with False have "lb_inv (b\<lparr>lb_routes := routes\<rparr>)" by (simp add: lb_inv_def lb_waiting_def)
  with False show ?thesis by (simp add: updateLocalBrokerRoutes_def resolve_all_inv)
qed (simp add: updateLocalBrokerRoutes_def)

lemma wait_inv: "lb_inv b \<Longrightarrow> lb_inv (snd (waitForLocalBrokerRoute P d b))"
  using waiting_delete [of "routeWaiters b" d] waiting_update [of "routeWaiters b" d "waiters_for d b @ [lb_promises b]"]
  by (auto simp: waitForLocalBrokerRoute_def lb_inv_def lb_waiting_def Let_def waiters_for_def ac_simps atLeast0_lessThan_Suc)

lemma close_inv: "lb_inv b \<Longrightarrow> lb_inv (closeLocalBrokerState P reason b)"
  by (auto simp: closeLocalBrokerState_def lb_inv_def lb_waiting_def Let_def image_mset.compositionality comp_def ac_simps)

lemma add_route_inv: "\<not> lb_closed b \<Longrightarrow> lb_inv b \<Longrightarrow> lb_inv (add_route e b)"
  by (simp add: add_route_def lb_inv_def lb_waiting_def)

lemma emit_inv: "lb_inv b \<Longrightarrow> lb_inv (emitLocalBrokerRouteChange e b)"
proof (cases "lb_closed b")
  case False
  assume inv: "lb_inv b"
  let ?b = "if raw_type e = js ''added'' \<or> raw_type e = js ''changed'' then resolve_waiters (raw_domain e) (add_route e b)
    else if raw_type e = js ''removed'' then b\<lparr>lb_routes := filter (\<lambda>r. \<not> same_route e r) (lb_routes b)\<rparr>
    else if raw_type e = js ''degraded'' then add_route e b else b"
  have "lb_inv ?b"
    using inv False resolve_waiters_inv [OF add_route_inv [OF False inv]] add_route_inv [OF False inv]
    by (auto simp: lb_inv_def lb_waiting_def)
  with False show ?thesis by (simp add: emitLocalBrokerRouteChange_def Let_def lb_inv_def lb_waiting_def)
qed (simp add: emitLocalBrokerRouteChange_def)

section \<open>Reachable states\<close>

inductive lb_step :: "'p platform_scheme \<Rightarrow> LocalBrokerState \<Rightarrow> LocalBrokerState \<Rightarrow> bool" for P where
  "lb_step P b (updateLocalBrokerRoutes routes b)"
| "lb_step P b (snd (waitForLocalBrokerRoute P d b))"
| "lb_step P b (closeLocalBrokerState P reason b)"
| "lb_step P b (emitLocalBrokerRouteChange e b)"

inductive lb_reachable :: "'p platform_scheme \<Rightarrow> LocalBrokerState \<Rightarrow> bool" for P where
  lb_created: "lb_reachable P (createLocalBrokerState routes)"
| lb_stepped: "lb_reachable P b \<Longrightarrow> lb_step P b b' \<Longrightarrow> lb_reachable P b'"

lemma lb_reachable_inv: "lb_reachable P b \<Longrightarrow> lb_inv b"
proof (induction rule: lb_reachable.induct)
  case (lb_created routes)
  then show ?case by (simp add: lb_inv_def lb_waiting_def createLocalBrokerState_def)
next
  case (lb_stepped b b')
  from lb_stepped.hyps(2) lb_stepped.IH show ?case
    by cases (simp_all add: update_inv wait_inv close_inv emit_inv)
qed

text \<open>A promise of \<open>waitForRoute\<close> is never lost and never settled twice: in every reachable state each
  promise handed out so far is either waiting, once, or settled, once; and after the Broker is closed none
  is waiting and no route is visible.\<close>

theorem local_broker_promises:
  assumes "lb_reachable P b"
  shows "(\<forall>p < lb_promises b. count (mset (lb_waiting b)) p + count (mset (map fst (lb_settled b))) p = 1) \<and>
    (lb_closed (closeLocalBrokerState P reason b) \<and> lb_waiting (closeLocalBrokerState P reason b) = [] \<and>
     lb_routes (closeLocalBrokerState P reason b) = [])"
proof -
  have inv: "lb_inv b" using assms by (rule lb_reachable_inv)
  have "count (mset (lb_waiting b)) p + count (mset (map fst (lb_settled b))) p = 1" if "p < lb_promises b" for p
  proof -
    have "count (mset (lb_waiting b) + mset (map fst (lb_settled b))) p = count (mset [0..<lb_promises b]) p"
      using inv by (simp add: lb_inv_def)
    also have "\<dots> = 1" using that by simp
    finally show ?thesis by simp
  qed
  moreover have "lb_closed (closeLocalBrokerState P reason b)"
    by (simp add: closeLocalBrokerState_def Let_def)
  ultimately show ?thesis
    using close_inv [OF inv, of P reason] by (simp add: lb_inv_def lb_waiting_def)
qed

theorem local_broker_promises_witness:
  "lb_routes (closeLocalBrokerState sample_platform (js ''x'')
     (snd (waitForLocalBrokerRoute sample_platform (js ''d'') (createLocalBrokerState [])))) = []"
proof -
  have "lb_reachable sample_platform (snd (waitForLocalBrokerRoute sample_platform (js ''d'') (createLocalBrokerState [])))"
    by (rule lb_stepped [OF lb_created]) (rule lb_step.intros)
  from local_broker_promises [OF this] show ?thesis by blast
qed

end
