(* ===== verification/Federated_Streams.thy ===== *)
theory Federated_Streams
  imports Federation_Common
begin

text \<open>
  The links to other Hosts and the request streams on them, \<open>packages/verser2-host/src/lib/node-http2-verser-host.ts\<close>:
  the table of inbound federation links, the acquisition of a request stream of a linked Host with its waiters,
  and the pool of request streams this Host keeps open to an upstream Host.

  Streams, sessions and promises are numbers. A promise is settled by its first resolve or reject;
  \<open>fed_outcomes\<close> lists them in order. A waiter is named by its promise; the waiter object, which the queue and
  the timer and abort callbacks share, is in \<open>fed_waiters\<close>. \<open>closedStreams\<close> holds the streams that are closed or
  destroyed. The state is the part of the Host these functions use; the Host's record extends it.
\<close>

section \<open>State\<close>

record NormalizedUpstreamPool =
  minWaitingStreams :: int
  maxOpenStreams :: int
  leaseAcquireTimeoutMs :: int
  maxQueuedAcquires :: int

record UpstreamLink =
  ul_upstreamId :: jsstr
  ul_remoteHostId :: jsstr
  ul_session :: nat
  ul_routeStream :: nat
  ul_requestStream :: nat
  ul_upstreamPool :: "NormalizedUpstreamPool option"
  ul_requestStreams :: "nat list"
  ul_activeRequestStreams :: "nat list"
  ul_opening :: bool
  ul_closing :: bool

record InboundLink =
  il_hostId :: jsstr
  il_session :: nat
  il_routeStream :: "nat option"
  il_requestStream :: "nat option"
  il_requestBusy :: bool
  il_requestStreams :: "nat list option"
  il_requestBusyStreams :: "nat list option"
  il_requestPool :: "NormalizedUpstreamPool option"

record FederatedRequestStreamWaiter =
  fw_hostId :: jsstr
  fw_pooled :: bool
  fw_settled :: bool

datatype fed_outcome = FedStream nat | FedRejected thrown

record FedStreams =
  inboundFederationHosts :: "(jsstr \<times> InboundLink) list"
  upstreamLinks :: "(jsstr \<times> UpstreamLink) list"
  federatedRequestStreamWaiters :: "(jsstr \<times> nat list) list"
  fed_waiters :: "(nat \<times> FederatedRequestStreamWaiter) list"
  fed_timers :: "(nat \<times> rat) list"
  fed_outcomes :: "(nat \<times> fed_outcome) list"
  fed_next :: nat
  closedStreams :: "nat list"
  closedSessions :: "nat list"

text \<open>\<open>map.get(key) ?? []\<close>.\<close>

definition waiters_of :: "jsstr \<Rightarrow> 'a FedStreams_scheme \<Rightarrow> nat list" where
  "waiters_of hostId s = (case map_of (federatedRequestStreamWaiters s) hostId of Some ws \<Rightarrow> ws | None \<Rightarrow> [])"

text \<open>Settling a promise a second time has no effect.\<close>

definition fed_settle :: "nat \<Rightarrow> fed_outcome \<Rightarrow> 'a FedStreams_scheme \<Rightarrow> 'a FedStreams_scheme" where
  "fed_settle p out s =
     (if map_of (fed_outcomes s) p \<noteq> None then s else s\<lparr>fed_outcomes := fed_outcomes s @ [(p, out)]\<rparr>)"

definition clear_fed_timer :: "nat \<Rightarrow> 'a FedStreams_scheme \<Rightarrow> 'a FedStreams_scheme" where
  "clear_fed_timer p s = s\<lparr>fed_timers := AList.delete p (fed_timers s)\<rparr>"

definition mark_settled :: "nat \<Rightarrow> 'a FedStreams_scheme \<Rightarrow> 'a FedStreams_scheme" where
  "mark_settled p s =
     (case map_of (fed_waiters s) p of
        None \<Rightarrow> s
      | Some w \<Rightarrow> s\<lparr>fed_waiters := AList.update p (w\<lparr>fw_settled := True\<rparr>) (fed_waiters s)\<rparr>)"

definition waiter_settled :: "nat \<Rightarrow> 'a FedStreams_scheme \<Rightarrow> bool" where
  "waiter_settled p s \<longleftrightarrow> (case map_of (fed_waiters s) p of Some w \<Rightarrow> fw_settled w | None \<Rightarrow> True)"

definition set_queue :: "jsstr \<Rightarrow> nat list \<Rightarrow> 'a FedStreams_scheme \<Rightarrow> 'a FedStreams_scheme" where
  "set_queue hostId ws s =
     s\<lparr>federatedRequestStreamWaiters := (if length ws = 0 then AList.delete hostId (federatedRequestStreamWaiters s)
         else AList.update hostId ws (federatedRequestStreamWaiters s))\<rparr>"

definition remove_waiter :: "jsstr \<Rightarrow> nat \<Rightarrow> 'a FedStreams_scheme \<Rightarrow> 'a FedStreams_scheme" where
  "remove_waiter hostId p s = set_queue hostId (filter (\<lambda>w. w \<noteq> p) (waiters_of hostId s)) s"

definition unavailable :: "'p platform_scheme \<Rightarrow> string \<Rightarrow> jsstr \<Rightarrow> string option \<Rightarrow> thrown" where
  "unavailable P msg hostId direction =
     Verser (createVerserError P upstream_unavailable (js msg)
       ((js ''hostId'', CStr hostId) # (case direction of Some d \<Rightarrow> [(js ''direction'', CStr (js d))] | None \<Rightarrow> [])))"

section \<open>Pool options\<close>

definition pool_field :: "'p platform_scheme \<Rightarrow> json \<Rightarrow> string \<Rightarrow> rat \<Rightarrow> int result" where
  "pool_field P pool name dflt =
     (case (case obj_get pool name of None \<Rightarrow> JNum (Fin dflt) | Some JNull \<Rightarrow> JNum (Fin dflt) | Some v \<Rightarrow> v) of
        JNum n \<Rightarrow> (if \<not> isFinite n \<or> \<not> isInteger n \<or> num_lt n 0
                   then throwE P invalid_registration (''Invalid upstreamPool.'' @ name) [] else Inr (int_of_num n))
      | _ \<Rightarrow> throwE P invalid_registration (''Invalid upstreamPool.'' @ name) [])"

definition validateUpstreamPool :: "'p platform_scheme \<Rightarrow> json option \<Rightarrow> NormalizedUpstreamPool option result" where
  "validateUpstreamPool P pool =
     (case pool of
        None \<Rightarrow> Inr None
      | Some JNull \<Rightarrow> Inl NotAFunction
      | Some j \<Rightarrow>
          bindE (pool_field P j ''minWaitingStreams'' 4) (\<lambda>mn.
          bindE (pool_field P j ''maxOpenStreams'' 16) (\<lambda>mx.
          bindE (pool_field P j ''leaseAcquireTimeoutMs'' 5000) (\<lambda>t.
          bindE (pool_field P j ''maxQueuedAcquires'' 128) (\<lambda>q.
          if mx < mn
          then throwE P invalid_registration ''upstreamPool.maxOpenStreams must be at least minWaitingStreams'' []
          else if mx = 0
          then throwE P invalid_registration ''upstreamPool.maxOpenStreams must be greater than zero'' []
          else Inr (Some \<lparr>minWaitingStreams = mn, maxOpenStreams = mx, leaseAcquireTimeoutMs = t,
                          maxQueuedAcquires = q\<rparr>))))))"

section \<open>Waiters\<close>

text \<open>\<open>fail\<close> and \<open>resolvePooled\<close>, the callbacks of a waiter on a pooled link.\<close>

definition fail_pooled :: "thrown \<Rightarrow> jsstr \<Rightarrow> nat \<Rightarrow> 'a FedStreams_scheme \<Rightarrow> 'a FedStreams_scheme" where
  "fail_pooled e hostId p s =
     (if waiter_settled p s then s
      else fed_settle p (FedRejected e) (clear_fed_timer p (remove_waiter hostId p (mark_settled p s))))"

definition resolvePooled :: "'p platform_scheme \<Rightarrow> jsstr \<Rightarrow> nat \<Rightarrow> nat \<Rightarrow> 'a FedStreams_scheme \<Rightarrow> 'a FedStreams_scheme" where
  "resolvePooled P hostId p stream s =
     (if waiter_settled p s then s
      else fed_settle p (if stream \<in> set (closedStreams s)
                         then FedRejected (unavailable P ''Federated request stream unavailable'' hostId None)
                         else FedStream stream)
             (clear_fed_timer p (remove_waiter hostId p (mark_settled p s))))"

text \<open>\<open>resolveStream\<close>, the callback of a waiter on a link without a pool.\<close>

definition resolveStream :: "'p platform_scheme \<Rightarrow> jsstr \<Rightarrow> nat \<Rightarrow> nat \<Rightarrow> 'a FedStreams_scheme \<Rightarrow> 'a FedStreams_scheme" where
  "resolveStream P hostId p stream s =
    (let rejected = fed_settle p (FedRejected (unavailable P ''Federated request stream unavailable'' hostId
                      (Some ''inbound-federation''))) s
     in case map_of (inboundFederationHosts s) hostId of
          None \<Rightarrow> rejected
        | Some current \<Rightarrow>
            (if il_requestStream current \<noteq> Some stream \<or> stream \<in> set (closedStreams s) then rejected
             else fed_settle p (FedStream stream)
                    (s\<lparr>inboundFederationHosts := AList.update hostId (current\<lparr>il_requestBusy := True\<rparr>)
                        (inboundFederationHosts s)\<rparr>)))"

definition waiter_resolve :: "'p platform_scheme \<Rightarrow> jsstr \<Rightarrow> nat \<Rightarrow> nat \<Rightarrow> 'a FedStreams_scheme \<Rightarrow> 'a FedStreams_scheme" where
  "waiter_resolve P hostId p stream s =
     (case map_of (fed_waiters s) p of
        Some w \<Rightarrow> (if fw_pooled w then resolvePooled P hostId p stream s else resolveStream P hostId p stream s)
      | None \<Rightarrow> s)"

text \<open>The first stream of a pooled link that is free and open.\<close>

definition idle_stream :: "InboundLink \<Rightarrow> nat list \<Rightarrow> 'a FedStreams_scheme \<Rightarrow> nat option" where
  "idle_stream link streams s =
     find (\<lambda>st. st \<notin> set (case il_requestBusyStreams link of Some b \<Rightarrow> b | None \<Rightarrow> []) \<and> st \<notin> set (closedStreams s)) streams"

text \<open>\<open>requestBusyStreams?.add(stream)\<close>.\<close>

definition take_stream :: "jsstr \<Rightarrow> InboundLink \<Rightarrow> nat \<Rightarrow> 'a FedStreams_scheme \<Rightarrow> 'a FedStreams_scheme" where
  "take_stream hostId link stream s =
     s\<lparr>inboundFederationHosts := AList.update hostId
         (link\<lparr>il_requestBusyStreams := map_option (\<lambda>b. List.insert stream b) (il_requestBusyStreams link)\<rparr>)
         (inboundFederationHosts s)\<rparr>"

definition new_waiter :: "jsstr \<Rightarrow> bool \<Rightarrow> rat \<Rightarrow> nat \<Rightarrow> 'a FedStreams_scheme \<Rightarrow> 'a FedStreams_scheme" where
  "new_waiter hostId pooled ms p s =
     s\<lparr>fed_waiters := AList.update p \<lparr>fw_hostId = hostId, fw_pooled = pooled, fw_settled = False\<rparr> (fed_waiters s),
       fed_timers := fed_timers s @ [(p, ms)]\<rparr>"

definition enqueue_waiter :: "jsstr \<Rightarrow> nat \<Rightarrow> 'a FedStreams_scheme \<Rightarrow> 'a FedStreams_scheme" where
  "enqueue_waiter hostId p s =
     s\<lparr>federatedRequestStreamWaiters := AList.update hostId (waiters_of hostId s @ [p]) (federatedRequestStreamWaiters s)\<rparr>"

text \<open>Acquiring on a link with a pool; \<open>p\<close> is the promise. \<open>aborted\<close> is \<open>signal.aborted\<close>, absent without a
  signal.\<close>

definition acquire_pooled :: "'p platform_scheme \<Rightarrow> jsstr \<Rightarrow> rat \<Rightarrow> bool option \<Rightarrow> InboundLink \<Rightarrow> NormalizedUpstreamPool
    \<Rightarrow> nat list \<Rightarrow> nat \<Rightarrow> 'a FedStreams_scheme \<Rightarrow> 'a FedStreams_scheme" where
  "acquire_pooled P hostId timeoutMs aborted link pool streams p s =
     (case idle_stream link streams s of
        Some idle \<Rightarrow> fed_settle p (FedStream idle) (take_stream hostId link idle s)
      | None \<Rightarrow>
          (if maxQueuedAcquires pool \<le> int (length (waiters_of hostId s))
           then fed_settle p (FedRejected (unavailable P ''Federated request stream queue is full'' hostId None)) s
           else
             (let s1 = new_waiter hostId True (min timeoutMs (of_int (leaseAcquireTimeoutMs pool))) p s
              in if aborted = Some True
                 then fail_pooled (unavailable P ''Federated request stream acquisition cancelled'' hostId None) hostId p s1
                 else enqueue_waiter hostId p s1)))"

text \<open>The stream of a link without a pool, when it is free.\<close>

definition free_stream :: "InboundLink \<Rightarrow> 'a FedStreams_scheme \<Rightarrow> nat option" where
  "free_stream link s =
     (case il_requestStream link of
        Some st \<Rightarrow> (if st \<notin> set (closedStreams s) \<and> \<not> il_requestBusy link then Some st else None)
      | None \<Rightarrow> None)"

definition set_busy :: "jsstr \<Rightarrow> InboundLink \<Rightarrow> 'a FedStreams_scheme \<Rightarrow> 'a FedStreams_scheme" where
  "set_busy hostId link s =
     s\<lparr>inboundFederationHosts := AList.update hostId (link\<lparr>il_requestBusy := True\<rparr>) (inboundFederationHosts s)\<rparr>"

definition live_upstream :: "jsstr \<Rightarrow> 'a FedStreams_scheme \<Rightarrow> (jsstr \<times> UpstreamLink) option" where
  "live_upstream hostId s =
     find (\<lambda>(_, u). ul_remoteHostId u = hostId \<and> \<not> ul_closing u \<and> ul_session u \<notin> set (closedSessions s)) (upstreamLinks s)"

text \<open>The answer names the promise, or the upstream link a stream has to be opened on.\<close>

datatype fed_answer = FedPromise nat | OpenUpstream jsstr

definition acquireFederatedRequestStream :: "'p platform_scheme \<Rightarrow> jsstr \<Rightarrow> rat \<Rightarrow> bool option \<Rightarrow> 'a FedStreams_scheme
    \<Rightarrow> fed_answer \<times> 'a FedStreams_scheme" where
  "acquireFederatedRequestStream P hostId timeoutMs aborted s0 =
    (let p = fed_next s0;
         s = s0\<lparr>fed_next := p + 1\<rparr>;
         link = map_of (inboundFederationHosts s) hostId
     in case (link, Option.bind link il_requestPool, Option.bind link il_requestStreams) of
          (Some l, Some pool, Some streams) \<Rightarrow>
            (FedPromise p, acquire_pooled P hostId timeoutMs aborted l pool streams p s)
        | _ \<Rightarrow>
          (case (link, Option.bind link (\<lambda>l. free_stream l s)) of
             (Some l, Some st) \<Rightarrow> (FedPromise p, fed_settle p (FedStream st) (set_busy hostId l s))
           | _ \<Rightarrow>
             (case live_upstream hostId s of
                Some (uid, u) \<Rightarrow> (OpenUpstream uid, s0)
              | None \<Rightarrow>
                  (FedPromise p,
                   if link = None
                   then fed_settle p (FedRejected (unavailable P ''Federated request stream unavailable'' hostId
                          (Some ''inbound-or-upstream''))) s
                   else enqueue_waiter hostId p (new_waiter hostId False timeoutMs p s)))))"

text \<open>The timeout of a waiter fires, and its signal is aborted.\<close>

definition waiter_timeout :: "'p platform_scheme \<Rightarrow> nat \<Rightarrow> 'a FedStreams_scheme \<Rightarrow> 'a FedStreams_scheme" where
  "waiter_timeout P p s0 =
    (let s = clear_fed_timer p s0 in
     case map_of (fed_waiters s) p of
       None \<Rightarrow> s
     | Some w \<Rightarrow>
         (if fw_pooled w
          then fail_pooled (unavailable P ''Federated request stream unavailable'' (fw_hostId w) None) (fw_hostId w) p s
          else fed_settle p (FedRejected (unavailable P ''Federated request stream unavailable'' (fw_hostId w)
                 (Some ''inbound-federation''))) (remove_waiter (fw_hostId w) p s)))"

definition waiter_abort :: "'p platform_scheme \<Rightarrow> nat \<Rightarrow> 'a FedStreams_scheme \<Rightarrow> 'a FedStreams_scheme" where
  "waiter_abort P p s =
     (case map_of (fed_waiters s) p of
        None \<Rightarrow> s
      | Some w \<Rightarrow>
          (if fw_pooled w
           then fail_pooled (unavailable P ''Federated request stream acquisition cancelled'' (fw_hostId w) None) (fw_hostId w) p s
           else s))"

definition resolveNextFederatedRequestStreamWaiter :: "'p platform_scheme \<Rightarrow> jsstr \<Rightarrow> 'a FedStreams_scheme \<Rightarrow> 'a FedStreams_scheme" where
  "resolveNextFederatedRequestStreamWaiter P hostId s =
     (case waiters_of hostId s of
        [] \<Rightarrow> s
      | p # ws \<Rightarrow>
        (let s1 = set_queue hostId ws s;
             link = map_of (inboundFederationHosts s1) hostId
         in case (link, Option.bind link il_requestPool, Option.bind link il_requestStreams) of
              (Some l, Some pool, Some streams) \<Rightarrow>
                (case idle_stream l streams s1 of
                   None \<Rightarrow> s1\<lparr>federatedRequestStreamWaiters := AList.update hostId (p # ws) (federatedRequestStreamWaiters s1)\<rparr>
                 | Some st \<Rightarrow> waiter_resolve P hostId p st (clear_fed_timer p (take_stream hostId l st s1)))
            | _ \<Rightarrow>
              (case (link, Option.bind link (\<lambda>l. free_stream l s1)) of
                 (Some l, Some st) \<Rightarrow> waiter_resolve P hostId p st (set_busy hostId l (clear_fed_timer p s1))
               | _ \<Rightarrow> fed_settle p (FedRejected (unavailable P ''Federated request stream unavailable'' hostId
                        (Some ''inbound-federation''))) (clear_fed_timer p s1))))"

definition failFederatedRequestStreamWaiters :: "'p platform_scheme \<Rightarrow> jsstr \<Rightarrow> jsstr \<Rightarrow> 'a FedStreams_scheme \<Rightarrow> 'a FedStreams_scheme" where
  "failFederatedRequestStreamWaiters P hostId message s =
     foldl (\<lambda>s p. if waiter_settled p s then s
                  else fed_settle p (FedRejected (Verser (createVerserError P upstream_unavailable message
                         [(js ''hostId'', CStr hostId)]))) (clear_fed_timer p (mark_settled p s)))
       (s\<lparr>federatedRequestStreamWaiters := AList.delete hostId (federatedRequestStreamWaiters s)\<rparr>)
       (waiters_of hostId s)"

definition failAllFederatedRequestStreamWaiters :: "'p platform_scheme \<Rightarrow> jsstr \<Rightarrow> 'a FedStreams_scheme \<Rightarrow> 'a FedStreams_scheme" where
  "failAllFederatedRequestStreamWaiters P message s =
     foldl (\<lambda>s hostId. failFederatedRequestStreamWaiters P hostId message s) s (map fst (federatedRequestStreamWaiters s))"

section \<open>Request streams of a linked Host\<close>

definition not_registered :: "'p platform_scheme \<Rightarrow> string \<Rightarrow> jsstr \<Rightarrow> 'b result" where
  "not_registered P what hostId =
     throwE P disconnected_target (''Federated Host '' @ what @ '' stream is not registered'') [(''hostId'', CStr hostId)]"

text \<open>The link a stream of a linked Host belongs to: named by its header and on the same session.\<close>

definition link_of :: "'p platform_scheme \<Rightarrow> string \<Rightarrow> jsstr \<Rightarrow> nat option \<Rightarrow> 'a FedStreams_scheme \<Rightarrow> (jsstr \<times> InboundLink) result" where
  "link_of P what header session s =
    (let hostId = trim header in
     case map_of (inboundFederationHosts s) hostId of
       Some link \<Rightarrow> (if length hostId = 0 \<or> Some (il_session link) \<noteq> session then not_registered P what hostId
                     else Inr (hostId, link))
     | None \<Rightarrow> not_registered P what hostId)"

text \<open>\<open>syntaxError\<close> is the message \<open>JSON.parse\<close> throws with on text that is not JSON.\<close>

definition parse_policy :: "'p platform_scheme \<Rightarrow> jsstr \<Rightarrow> InboundLink \<Rightarrow> jsstr option \<Rightarrow> NormalizedUpstreamPool option result" where
  "parse_policy P syntaxError link policyHeader =
     (case policyHeader of
        None \<Rightarrow> Inr (il_requestPool link)
      | Some text \<Rightarrow>
        (case (case jsonParse P text of
                 None \<Rightarrow> Inl syntaxError
               | Some j \<Rightarrow> (case validateUpstreamPool P (Some j) of Inl e \<Rightarrow> Inl (thrown_message e) | Inr q \<Rightarrow> Inr q)) of
           Inl cause \<Rightarrow> throwE P protocol_error ''Invalid upstream pool policy'' [(''cause'', CStr cause)]
         | Inr parsed \<Rightarrow>
             (if il_requestPool link \<noteq> None \<and> il_requestPool link \<noteq> parsed
              then throwE P protocol_error ''Conflicting upstream pool policy'' []
              else Inr parsed)))"

definition handleHostFederationRequestStream :: "'p platform_scheme \<Rightarrow> jsstr \<Rightarrow> jsstr \<Rightarrow> nat option \<Rightarrow> jsstr option \<Rightarrow> nat
    \<Rightarrow> 'a FedStreams_scheme \<Rightarrow> unit result \<times> 'a FedStreams_scheme" where
  "handleHostFederationRequestStream P syntaxError header session policyHeader stream s =
     (case link_of P ''request'' header session s of
        Inl e \<Rightarrow> (Inl e, s)
      | Inr (hostId, link) \<Rightarrow>
        if policyHeader = None \<and> il_requestPool link = None
        then (Inr (), resolveNextFederatedRequestStreamWaiter P hostId
               (s\<lparr>inboundFederationHosts := AList.update hostId
                   (link\<lparr>il_requestStream := Some stream, il_requestBusy := False\<rparr>) (inboundFederationHosts s)\<rparr>))
        else case parse_policy P syntaxError link policyHeader of
          Inl e \<Rightarrow> (Inl e, s)
        | Inr requestPool \<Rightarrow>
          (let streams = (if requestPool = None then il_requestStreams link
                          else Some (case il_requestStreams link of Some xs \<Rightarrow> xs | None \<Rightarrow> []));
               busy = (if requestPool = None then il_requestBusyStreams link
                       else Some (case il_requestBusyStreams link of Some xs \<Rightarrow> xs | None \<Rightarrow> []))
           in (Inr (), resolveNextFederatedRequestStreamWaiter P hostId
                (s\<lparr>inboundFederationHosts := AList.update hostId
                    (link\<lparr>il_requestStream := Some stream,
                          il_requestStreams := map_option (\<lambda>xs. if stream \<in> set xs then xs else xs @ [stream]) streams,
                          il_requestBusyStreams := busy, il_requestPool := requestPool, il_requestBusy := False\<rparr>)
                    (inboundFederationHosts s)\<rparr>))))"

text \<open>The close handlers of the two kinds of stream; the stream is closed by then.\<close>

definition plain_stream_close :: "jsstr \<Rightarrow> nat \<Rightarrow> 'a FedStreams_scheme \<Rightarrow> 'a FedStreams_scheme" where
  "plain_stream_close hostId stream s =
     (case map_of (inboundFederationHosts s) hostId of
        Some current \<Rightarrow>
          (if il_requestStream current = Some stream
           then s\<lparr>inboundFederationHosts := AList.update hostId
                    (current\<lparr>il_requestStream := None, il_requestBusy := False\<rparr>) (inboundFederationHosts s)\<rparr>
           else s)
      | None \<Rightarrow> s)"

definition pooled_stream_close :: "'p platform_scheme \<Rightarrow> jsstr \<Rightarrow> nat \<Rightarrow> 'a FedStreams_scheme \<Rightarrow> 'a FedStreams_scheme" where
  "pooled_stream_close P hostId stream s =
     (case map_of (inboundFederationHosts s) hostId of
        Some current \<Rightarrow>
          resolveNextFederatedRequestStreamWaiter P hostId
            (s\<lparr>inboundFederationHosts := AList.update hostId
                (current\<lparr>il_requestStreams := map_option (removeAll stream) (il_requestStreams current),
                         il_requestBusyStreams := map_option (removeAll stream) (il_requestBusyStreams current),
                         il_requestStream := (if il_requestStream current = Some stream then None else il_requestStream current),
                         il_requestBusy := False\<rparr>) (inboundFederationHosts s)\<rparr>)
      | None \<Rightarrow> s)"

section \<open>The pool of streams to an upstream\<close>

text \<open>The condition of the loop of \<open>maintainUpstreamRequestPool\<close>, and one opened stream.\<close>

definition pool_wants :: "NormalizedUpstreamPool \<Rightarrow> bool \<Rightarrow> UpstreamLink \<Rightarrow> bool" where
  "pool_wants pool session_open link \<longleftrightarrow>
     \<not> ul_closing link \<and> session_open \<and>
     int (length (ul_requestStreams link)) < maxOpenStreams pool \<and>
     int (length (ul_requestStreams link)) - int (length (ul_activeRequestStreams link)) < minWaitingStreams pool"

definition pool_opened :: "nat \<Rightarrow> UpstreamLink \<Rightarrow> UpstreamLink" where
  "pool_opened stream link = link\<lparr>ul_requestStreams := List.insert stream (ul_requestStreams link)\<rparr>"

text \<open>The loop itself: \<open>opens\<close> are the streams the upstream grants, in order; \<open>None\<close> is a stream that could not be
  opened, which ends the loop and drops the link. The answer says whether that happened.\<close>

fun maintainUpstreamRequestPool :: "NormalizedUpstreamPool \<Rightarrow> bool \<Rightarrow> nat option list \<Rightarrow> UpstreamLink \<Rightarrow> bool \<times> UpstreamLink" where
  "maintainUpstreamRequestPool pool session_open [] link = (True, link)"
| "maintainUpstreamRequestPool pool session_open (open_stream # opens) link =
     (if \<not> pool_wants pool session_open link then (True, link)
      else case open_stream of
        None \<Rightarrow> (False, link)
      | Some st \<Rightarrow> maintainUpstreamRequestPool pool session_open opens (pool_opened st link))"


section \<open>Invariant: promises\<close>

definition queued :: "'a FedStreams_scheme \<Rightarrow> nat list" where
  "queued s = concat (map snd (federatedRequestStreamWaiters s))"

text \<open>Every promise handed out is settled, once, or waits in one queue with a running timer; no other timer
  runs.\<close>

definition promises_ok :: "'a FedStreams_scheme \<Rightarrow> bool" where
  "promises_ok s \<longleftrightarrow>
     distinct (map fst (fed_outcomes s)) \<and> distinct (queued s) \<and> distinct (map fst (fed_timers s)) \<and>
     distinct (map fst (federatedRequestStreamWaiters s)) \<and>
     fst ` set (fed_outcomes s) \<inter> set (queued s) = {} \<and> fst ` set (fed_outcomes s) \<union> set (queued s) = {..<fed_next s} \<and>
     fst ` set (fed_timers s) = set (queued s) \<and>
     (\<forall>h ws p. map_of (federatedRequestStreamWaiters s) h = Some ws \<longrightarrow> p \<in> set ws \<longrightarrow>
        (\<exists>w. map_of (fed_waiters s) p = Some w \<and> fw_hostId w = h \<and> \<not> fw_settled w))"

lemma keys_delete: "fst ` set (AList.delete k m) = fst ` set m - {k}"
  by (metis delete_keys set_map set_removeAll)

lemma queued_iff:
  "distinct (map fst (federatedRequestStreamWaiters s)) \<Longrightarrow>
   p \<in> set (queued s) \<longleftrightarrow> (\<exists>h. p \<in> set (waiters_of h s))"
  by (force simp: queued_def waiters_of_def map_of_eq_Some_iff split: option.splits)

lemma concat_delete_update:
  fixes m :: "('k \<times> 'v list) list"
  assumes "distinct (map fst m)"
  shows "mset (concat (map snd (AList.delete k m))) + mset (case map_of m k of Some v \<Rightarrow> v | None \<Rightarrow> []) = mset (concat (map snd m))"
    and "mset (concat (map snd (AList.update k v m))) + mset (case map_of m k of Some v \<Rightarrow> v | None \<Rightarrow> []) =
         mset (concat (map snd m)) + mset v"
proof -
  have none: "map_of m k = None" "AList.delete k m = m" if "k \<notin> fst ` set m" for m :: "('k \<times> 'v list) list"
    using that by (simp_all add: map_of_eq_None_iff delete_id)
  show "mset (concat (map snd (AList.delete k m))) + mset (case map_of m k of Some v \<Rightarrow> v | None \<Rightarrow> []) = mset (concat (map snd m))"
    using assms by (induction m) (auto simp: none ac_simps)
  show "mset (concat (map snd (AList.update k v m))) + mset (case map_of m k of Some v \<Rightarrow> v | None \<Rightarrow> []) =
         mset (concat (map snd m)) + mset v"
    using assms by (induction m) (auto simp: none ac_simps)
qed

lemma queued_set_queue:
  assumes "distinct (map fst (federatedRequestStreamWaiters s))"
  shows "mset (queued (set_queue h ws s)) + mset (waiters_of h s) = mset (queued s) + mset ws"
  using concat_delete_update [OF assms, of h] by (simp add: queued_def set_queue_def waiters_of_def)

lemma set_queue_lookup:
  "waiters_of g (set_queue h ws s) = (if g = h then ws else waiters_of g s)"
  by (simp add: waiters_of_def set_queue_def update_conv' delete_conv')

lemma set_queue_fields [simp]:
  "fed_timers (set_queue h ws s) = fed_timers s" "fed_outcomes (set_queue h ws s) = fed_outcomes s"
  "fed_waiters (set_queue h ws s) = fed_waiters s" "fed_next (set_queue h ws s) = fed_next s"
  "inboundFederationHosts (set_queue h ws s) = inboundFederationHosts s" "closedStreams (set_queue h ws s) = closedStreams s"
  by (simp_all add: set_queue_def)

lemma promises_okD:
  assumes "promises_ok s"
  shows "distinct (map fst (fed_outcomes s))" "distinct (queued s)" "distinct (map fst (fed_timers s))"
    "distinct (map fst (federatedRequestStreamWaiters s))"
    "p \<in> set (queued s) \<Longrightarrow> map_of (fed_outcomes s) p = None"
    "p \<in> set (waiters_of h s) \<Longrightarrow> \<exists>w. map_of (fed_waiters s) p = Some w \<and> fw_hostId w = h \<and> \<not> fw_settled w"
    "p \<in> set (queued s) \<Longrightarrow> p < fed_next s" "p \<in> fst ` set (fed_outcomes s) \<Longrightarrow> p < fed_next s"
    "p \<in> fst ` set (fed_timers s) \<longleftrightarrow> p \<in> set (queued s)"
  using assms
  by (auto simp: promises_ok_def waiters_of_def map_of_eq_None_iff split: option.splits)

lemma waiters_of_queued: "promises_ok s \<Longrightarrow> p \<in> set (waiters_of h s) \<Longrightarrow> p \<in> set (queued s)"
  using queued_iff promises_okD(4) by blast

lemma promises_done:
  assumes ok: "promises_ok s" and p: "p \<in> set (waiters_of h s)"
    and q: "federatedRequestStreamWaiters s' = federatedRequestStreamWaiters (remove_waiter h p s)"
    and t: "fed_timers s' = AList.delete p (fed_timers s)" and out: "fed_outcomes s' = fed_outcomes s @ [(p, out)]"
    and n: "fed_next s' = fed_next s" and w: "\<And>q. q \<noteq> p \<Longrightarrow> map_of (fed_waiters s') q = map_of (fed_waiters s) q"
  shows "promises_ok s'"
proof -
  let ?m = "federatedRequestStreamWaiters s"
  let ?ws = "filter (\<lambda>w. w \<noteq> p) (waiters_of h s)"
  note d = promises_okD(1-4) [OF ok]
  have dw: "distinct (waiters_of h s)"
    using d(2) p by (auto simp: queued_def waiters_of_def distinct_concat_iff dest!: map_of_SomeD split: option.splits)
  have pq: "p \<in> set (queued s)" by (rule waiters_of_queued [OF ok p])
  have look: "waiters_of g s' = filter (\<lambda>w. w \<noteq> p) (waiters_of g s)" for g
  proof -
    have "waiters_of g s' = waiters_of g (remove_waiter h p s)" by (simp add: waiters_of_def q)
    also have "\<dots> = (if g = h then ?ws else waiters_of g s)" by (simp add: remove_waiter_def set_queue_lookup)
    also have "\<dots> = filter (\<lambda>w. w \<noteq> p) (waiters_of g s)"
      using promises_okD(6) [OF ok, of p g] promises_okD(6) [OF ok p]
      by (auto intro!: filter_True [symmetric])
    finally show ?thesis .
  qed
  have "mset (queued s') + mset (waiters_of h s) = mset (queued s) + mset ?ws"
    using queued_set_queue [OF d(4), of h ?ws] q by (simp add: queued_def remove_waiter_def)
  moreover have "?ws = remove1 p (waiters_of h s)"
    using dw by (auto simp: distinct_remove1_removeAll removeAll_filter_not_eq intro: filter_cong)
  then have "mset (waiters_of h s) = add_mset p (mset ?ws)" using p by simp
  ultimately have m: "mset (queued s') = mset (remove1 p (queued s))"
    by (metis add_mset_add_single add_right_cancel diff_union_cancelR union_mset_add_mset_right union_mset_add_mset_left mset_remove1)
  then have qs: "set (queued s') = set (queued s) - {p}"
    using d(2) by (metis mset_eq_setD set_remove1_eq)
  show ?thesis
    unfolding promises_ok_def
  proof (intro conjI allI impI)
    show "distinct (queued s')" using mset_eq_imp_distinct_iff [OF m] d(2) by simp
    show "distinct (map fst (federatedRequestStreamWaiters s'))"
      using d(4) by (simp add: q remove_waiter_def set_queue_def distinct_update distinct_delete)
    fix g ws r
    assume "map_of (federatedRequestStreamWaiters s') g = Some ws" "r \<in> set ws"
    then have "r \<in> set (waiters_of g s')" by (simp add: waiters_of_def)
    then show "\<exists>w. map_of (fed_waiters s') r = Some w \<and> fw_hostId w = g \<and> \<not> fw_settled w"
      using promises_okD(6) [OF ok, of r g] w [of r] by (auto simp: look)
  qed (use ok pq qs in \<open>auto simp: promises_ok_def t out n distinct_delete keys_delete\<close>)
qed

lemma promises_now:
  assumes ok: "promises_ok s" and "fed_next s' = Suc (fed_next s)"
    and "fed_outcomes s' = fed_outcomes s @ [(fed_next s, out)]" and "fed_timers s' = fed_timers s"
    and "distinct (map fst (federatedRequestStreamWaiters s'))" and m: "mset (queued s') = mset (queued s)"
    and g: "\<And>g. waiters_of g s' = waiters_of g s"
    and w: "\<And>q. q \<noteq> fed_next s \<Longrightarrow> map_of (fed_waiters s') q = map_of (fed_waiters s) q"
  shows "promises_ok s'"
  unfolding promises_ok_def
proof (intro conjI allI impI)
  note set = mset_eq_setD [OF m]
  show "distinct (queued s')" using mset_eq_imp_distinct_iff [OF m] promises_okD(2) [OF ok] by simp
  show "distinct (map fst (fed_outcomes s'))"
    using promises_okD(1,8) [OF ok] assms(3) by auto
  show "fst ` set (fed_outcomes s') \<inter> set (queued s') = {}"
    using ok promises_okD(7) [OF ok] by (auto simp: assms set promises_ok_def)
  have "fst ` set (fed_outcomes s) \<union> set (queued s) = {..<fed_next s}" using ok by (simp add: promises_ok_def)
  then show "fst ` set (fed_outcomes s') \<union> set (queued s') = {..<fed_next s'}" by (auto simp: assms set)
  fix h ws r
  assume "map_of (federatedRequestStreamWaiters s') h = Some ws" "r \<in> set ws"
  then have r: "r \<in> set (waiters_of h s)" using g [of h] by (simp add: waiters_of_def)
  then have "r \<noteq> fed_next s" using waiters_of_queued [OF ok] promises_okD(7) [OF ok] by blast
  with r show "\<exists>w. map_of (fed_waiters s') r = Some w \<and> fw_hostId w = h \<and> \<not> fw_settled w"
    using promises_okD(6) [OF ok r] w by simp
qed (use ok assms mset_eq_setD [OF m] in \<open>auto simp: promises_ok_def\<close>)

lemma promises_enqueue:
  fixes s :: "'a FedStreams_scheme" and h :: jsstr and b :: bool and ms :: rat
  assumes ok: "promises_ok s"
  defines "s' \<equiv> enqueue_waiter h (fed_next s) (new_waiter h b ms (fed_next s) (s\<lparr>fed_next := Suc (fed_next s)\<rparr>))"
  shows "promises_ok s'"
proof -
  let ?p = "fed_next s"
  have fields: "fed_next s' = Suc ?p" "fed_outcomes s' = fed_outcomes s" "fed_timers s' = fed_timers s @ [(?p, ms)]"
    "fed_waiters s' = AList.update ?p \<lparr>fw_hostId = h, fw_pooled = b, fw_settled = False\<rparr> (fed_waiters s)"
    "federatedRequestStreamWaiters s' = AList.update h (waiters_of h s @ [?p]) (federatedRequestStreamWaiters s)"
    by (simp_all add: s'_def enqueue_waiter_def new_waiter_def waiters_of_def)
  have fresh: "?p \<notin> set (queued s)" "?p \<notin> fst ` set (fed_timers s)" "?p \<notin> fst ` set (fed_outcomes s)"
    using promises_okD(7-9) [OF ok] by blast+
  have m: "mset (queued s') = mset (queued s @ [?p])"
    using concat_delete_update(2) [OF promises_okD(4) [OF ok], of h "waiters_of h s @ [?p]"]
    by (simp add: queued_def fields waiters_of_def)
  note set = mset_eq_setD [OF m]
  have look: "waiters_of g s' = (if g = h then waiters_of h s @ [?p] else waiters_of g s)" for g
    by (simp add: fields waiters_of_def update_conv')
  have all: "fst ` set (fed_outcomes s) \<union> set (queued s) = {..<fed_next s}"
    "fst ` set (fed_outcomes s) \<inter> set (queued s) = {}" "fst ` set (fed_timers s) = set (queued s)"
    using ok by (simp_all add: promises_ok_def)
  show ?thesis
    unfolding promises_ok_def
  proof (intro conjI allI impI)
    show "distinct (queued s')" using mset_eq_imp_distinct_iff [OF m] promises_okD(2) [OF ok] fresh by simp
    show "fst ` set (fed_outcomes s') \<union> set (queued s') = {..<fed_next s'}"
      using all(1) by (auto simp: set fields less_Suc_eq)
    fix g ws r
    assume "map_of (federatedRequestStreamWaiters s') g = Some ws" "r \<in> set ws"
    then have r: "r \<in> set (waiters_of g s')" by (simp add: waiters_of_def)
    show "\<exists>w. map_of (fed_waiters s') r = Some w \<and> fw_hostId w = g \<and> \<not> fw_settled w"
    proof (cases "r = ?p")
      case True
      with r fresh waiters_of_queued [OF ok] have "g = h" by (auto simp: look split: if_splits)
      with True show ?thesis by (simp add: fields update_conv')
    next
      case False
      with r have "r \<in> set (waiters_of g s)" by (auto simp: look split: if_splits)
      with promises_okD(6) [OF ok this] False show ?thesis by (simp add: fields update_conv')
    qed
  qed (use all fresh promises_okD(1,3,4) [OF ok] in \<open>auto simp: set fields distinct_update\<close>)
qed

lemma promises_frame:
  assumes "promises_ok s" and "fed_next s' = fed_next s" and "fed_outcomes s' = fed_outcomes s" and "fed_timers s' = fed_timers s"
    and "federatedRequestStreamWaiters s' = federatedRequestStreamWaiters s" and "fed_waiters s' = fed_waiters s"
  shows "promises_ok s'"
  using assms by (simp add: promises_ok_def queued_def)

section \<open>Invariant: streams\<close>

fun granted_stream :: "nat \<times> fed_outcome \<Rightarrow> nat list" where
  "granted_stream (p, FedStream st) = [st]"
| "granted_stream (p, FedRejected e) = []"

text \<open>The streams handed out, and those a link may still hand out.\<close>

definition granted :: "'a FedStreams_scheme \<Rightarrow> nat list" where
  "granted s = concat (map granted_stream (fed_outcomes s))"

definition link_free :: "InboundLink \<Rightarrow> nat set" where
  "link_free l =
     (case il_requestPool l of
        None \<Rightarrow> (if il_requestBusy l then {} else set_option (il_requestStream l))
      | Some _ \<Rightarrow> set (case il_requestStreams l of Some xs \<Rightarrow> xs | None \<Rightarrow> []) -
                  set (case il_requestBusyStreams l of Some b \<Rightarrow> b | None \<Rightarrow> []))"

text \<open>A link has its two sets of streams exactly when it has a pool.\<close>

definition link_wf :: "InboundLink \<Rightarrow> bool" where
  "link_wf l \<longleftrightarrow> (il_requestStreams l \<noteq> None \<longleftrightarrow> il_requestPool l \<noteq> None) \<and>
     (il_requestBusyStreams l \<noteq> None \<longleftrightarrow> il_requestPool l \<noteq> None)"

definition streams_ok :: "'a FedStreams_scheme \<Rightarrow> bool" where
  "streams_ok s \<longleftrightarrow> distinct (granted s) \<and>
     (\<forall>h l. map_of (inboundFederationHosts s) h = Some l \<longrightarrow> link_wf l \<and> link_free l \<inter> set (granted s) = {}) \<and>
     (\<forall>h l g k. map_of (inboundFederationHosts s) h = Some l \<longrightarrow> map_of (inboundFederationHosts s) g = Some k \<longrightarrow>
        h \<noteq> g \<longrightarrow> link_free l \<inter> link_free k = {})"

lemma streams_okD:
  assumes "streams_ok s" and "map_of (inboundFederationHosts s) h = Some l"
  shows "link_wf l" "link_free l \<inter> set (granted s) = {}"
    "map_of (inboundFederationHosts s) g = Some k \<Longrightarrow> h \<noteq> g \<Longrightarrow> link_free l \<inter> link_free k = {}"
  using assms by (auto simp: streams_ok_def)

lemma streams_frame:
  "streams_ok s \<Longrightarrow> inboundFederationHosts s' = inboundFederationHosts s \<Longrightarrow> granted s' = granted s \<Longrightarrow> streams_ok s'"
  by (simp add: streams_ok_def)

text \<open>Changing one link: it keeps some of its free streams and may get new ones nobody has, and some of those it
  loses may be handed out.\<close>

lemma streams_update:
  assumes ok: "streams_ok s" and wf: "link_wf l'"
    and inb: "inboundFederationHosts s' = AList.update h l' (inboundFederationHosts s)"
    and gr: "granted s' = granted s @ given" "distinct given" "set given \<inter> set (granted s) = {}"
    and given: "\<And>g k. map_of (inboundFederationHosts s) g = Some k \<Longrightarrow> g \<noteq> h \<Longrightarrow> set given \<inter> link_free k = {}"
    and free: "link_free l' \<inter> (set (granted s) \<union> set given) = {}"
      "\<And>g k. map_of (inboundFederationHosts s) g = Some k \<Longrightarrow> g \<noteq> h \<Longrightarrow> link_free l' \<inter> link_free k = {}"
  shows "streams_ok s'"
proof -
  have "link_free k \<inter> set (granted s') = {} \<and> link_wf k" if "map_of (inboundFederationHosts s) g = Some k" "g \<noteq> h" for g k
    using given [OF that] streams_okD(1,2) [OF ok that(1)] gr(1) by auto
  moreover have "distinct (granted s')" using ok gr by (auto simp: streams_ok_def)
  ultimately show ?thesis
    using free wf gr(1) streams_okD(3) [OF ok] unfolding streams_ok_def inb
    by (auto simp: update_conv' split: if_splits) (metis Int_iff empty_iff)+
qed

lemma streams_take:
  assumes ok: "streams_ok s" and l: "map_of (inboundFederationHosts s) h = Some l" and st: "st \<in> link_free l"
    and l': "link_wf l'" "link_free l' \<subseteq> link_free l - {st}"
    and "inboundFederationHosts s' = AList.update h l' (inboundFederationHosts s)"
    and "granted s' = granted s @ [st] \<or> granted s' = granted s"
  shows "streams_ok s'"
proof -
  note d = streams_okD [OF ok l]
  have given: "set given \<inter> link_free k = {}" "link_free l' \<inter> link_free k = {}"
    if "map_of (inboundFederationHosts s) g = Some k" "g \<noteq> h" "set given \<subseteq> {st}" for g k given
    using d(3) [OF that(1)] that(2,3) st l'(2) by blast+
  show ?thesis
  proof (cases "granted s' = granted s")
    case True
    then show ?thesis
      by (intro streams_update [OF ok l'(1) assms(6), where given = "[]"]) (use d(2) l'(2) given(2) [of _ _ "[]"] in auto)
  next
    case False
    with assms(7) have "granted s' = granted s @ [st]" by blast
    then show ?thesis
      by (rule streams_update [OF ok l'(1) assms(6)]) (use d(2) st l'(2) given [of _ _ "[st]"] in auto)
  qed
qed

lemma streams_shrink:
  assumes ok: "streams_ok s" and l: "map_of (inboundFederationHosts s) h = Some l"
    and l': "link_wf l'" "link_free l' \<subseteq> link_free l"
    and inb: "inboundFederationHosts s' = AList.update h l' (inboundFederationHosts s)" and gr: "granted s' = granted s"
  shows "streams_ok s'"
proof (rule streams_update [OF ok l'(1) inb, where given = "[]"])
  show "link_free l' \<inter> link_free k = {}" if "map_of (inboundFederationHosts s) g = Some k" "g \<noteq> h" for g k
    using streams_okD(3) [OF ok l that(1)] that(2) l'(2) by blast
qed (use gr streams_okD(2) [OF ok l] l'(2) in auto)

lemma streams_attach:
  assumes ok: "streams_ok s" and l: "map_of (inboundFederationHosts s) h = Some l"
    and l': "link_wf l'" "link_free l' \<subseteq> insert st (link_free l)"
    and new: "st \<notin> set (granted s)" "\<And>g k. map_of (inboundFederationHosts s) g = Some k \<Longrightarrow> st \<notin> link_free k"
    and inb: "inboundFederationHosts s' = AList.update h l' (inboundFederationHosts s)" and gr: "granted s' = granted s"
  shows "streams_ok s'"
proof (rule streams_update [OF ok l'(1) inb, where given = "[]"])
  show "link_free l' \<inter> link_free k = {}" if "map_of (inboundFederationHosts s) g = Some k" "g \<noteq> h" for g k
    using streams_okD(3) [OF ok l that(1)] that(2) l'(2) new(2) [OF that(1)] by blast
qed (use gr streams_okD(2) [OF ok l] l'(2) new(1) in auto)

section \<open>Every operation keeps the invariant\<close>

definition fed_inv :: "'a FedStreams_scheme \<Rightarrow> bool" where
  "fed_inv s \<longleftrightarrow> promises_ok s \<and> streams_ok s"

lemma fed_granted_append:
  "fed_outcomes s' = fed_outcomes s @ [(p, out)] \<Longrightarrow> granted s' = granted s @ granted_stream (p, out)"
  by (simp add: granted_def)

lemma fed_fields [simp]:
  "fed_outcomes (clear_fed_timer p s) = fed_outcomes s" "fed_waiters (clear_fed_timer p s) = fed_waiters s"
  "fed_timers (clear_fed_timer p s) = AList.delete p (fed_timers s)" "fed_next (clear_fed_timer p s) = fed_next s"
  "federatedRequestStreamWaiters (clear_fed_timer p s) = federatedRequestStreamWaiters s"
  "inboundFederationHosts (clear_fed_timer p s) = inboundFederationHosts s" "closedStreams (clear_fed_timer p s) = closedStreams s"
  "fed_outcomes (remove_waiter h p s) = fed_outcomes s" "fed_waiters (remove_waiter h p s) = fed_waiters s"
  "fed_timers (remove_waiter h p s) = fed_timers s" "fed_next (remove_waiter h p s) = fed_next s"
  "inboundFederationHosts (remove_waiter h p s) = inboundFederationHosts s" "closedStreams (remove_waiter h p s) = closedStreams s"
  by (simp_all add: clear_fed_timer_def remove_waiter_def)

lemma mark_fields [simp]:
  "fed_outcomes (mark_settled p s) = fed_outcomes s" "fed_timers (mark_settled p s) = fed_timers s"
  "fed_next (mark_settled p s) = fed_next s" "inboundFederationHosts (mark_settled p s) = inboundFederationHosts s"
  "federatedRequestStreamWaiters (mark_settled p s) = federatedRequestStreamWaiters s"
  "closedStreams (mark_settled p s) = closedStreams s"
  by (simp_all add: mark_settled_def split: option.split)

lemma mark_other [simp]: "q \<noteq> p \<Longrightarrow> map_of (fed_waiters (mark_settled p s)) q = map_of (fed_waiters s) q"
  by (simp add: mark_settled_def update_conv' split: option.split)

lemma settle_fields [simp]:
  "fed_timers (fed_settle p out s) = fed_timers s" "fed_waiters (fed_settle p out s) = fed_waiters s"
  "fed_next (fed_settle p out s) = fed_next s" "inboundFederationHosts (fed_settle p out s) = inboundFederationHosts s"
  "federatedRequestStreamWaiters (fed_settle p out s) = federatedRequestStreamWaiters s"
  "map_of (fed_outcomes s) p = None \<Longrightarrow> fed_outcomes (fed_settle p out s) = fed_outcomes s @ [(p, out)]"
  by (simp_all add: fed_settle_def)

lemma link_fields [simp]:
  "fed_timers (take_stream h l st s) = fed_timers s" "fed_waiters (take_stream h l st s) = fed_waiters s"
  "fed_next (take_stream h l st s) = fed_next s" "fed_outcomes (take_stream h l st s) = fed_outcomes s"
  "federatedRequestStreamWaiters (take_stream h l st s) = federatedRequestStreamWaiters s"
  "closedStreams (take_stream h l st s) = closedStreams s"
  "fed_timers (set_busy h l s) = fed_timers s" "fed_waiters (set_busy h l s) = fed_waiters s"
  "fed_next (set_busy h l s) = fed_next s" "fed_outcomes (set_busy h l s) = fed_outcomes s"
  "federatedRequestStreamWaiters (set_busy h l s) = federatedRequestStreamWaiters s"
  "closedStreams (set_busy h l s) = closedStreams s"
  by (simp_all add: take_stream_def set_busy_def)

lemma waiter_fields [simp]:
  "fed_outcomes (new_waiter h b t p s) = fed_outcomes s" "fed_timers (new_waiter h b t p s) = fed_timers s @ [(p, t)]"
  "fed_next (new_waiter h b t p s) = fed_next s" "inboundFederationHosts (new_waiter h b t p s) = inboundFederationHosts s"
  "federatedRequestStreamWaiters (new_waiter h b t p s) = federatedRequestStreamWaiters s"
  "map_of (fed_waiters (new_waiter h b t p s)) q =
     (if q = p then Some \<lparr>fw_hostId = h, fw_pooled = b, fw_settled = False\<rparr> else map_of (fed_waiters s) q)"
  "fed_outcomes (enqueue_waiter h p s) = fed_outcomes s" "inboundFederationHosts (enqueue_waiter h p s) = inboundFederationHosts s"
  by (simp_all add: new_waiter_def enqueue_waiter_def update_conv')

lemma granted_cong: "fed_outcomes s' = fed_outcomes s \<Longrightarrow> granted s' = granted s"
  by (simp add: granted_def)

lemma fed_granted_settle [simp]:
  "map_of (fed_outcomes s) p = None \<Longrightarrow> granted (fed_settle p out s) = granted s @ granted_stream (p, out)"
  by (simp add: fed_granted_append)

lemma granted_next [simp]: "granted (s\<lparr>fed_next := n\<rparr>) = granted s"
  by (simp add: granted_def)

lemma remove_queue_cong:
  "federatedRequestStreamWaiters s' = federatedRequestStreamWaiters s \<Longrightarrow>
   federatedRequestStreamWaiters (remove_waiter h p s') = federatedRequestStreamWaiters (remove_waiter h p s)"
  by (simp add: remove_waiter_def set_queue_def waiters_of_def)

lemma remove_queue [simp]:
  "federatedRequestStreamWaiters (remove_waiter h p (mark_settled q s)) = federatedRequestStreamWaiters (remove_waiter h p s)"
  "federatedRequestStreamWaiters (remove_waiter h p (clear_fed_timer q s)) = federatedRequestStreamWaiters (remove_waiter h p s)"
  by (simp_all add: remove_waiter_def set_queue_def waiters_of_def)

lemma queued_unsettled: "promises_ok s \<Longrightarrow> p \<in> set (waiters_of h s) \<Longrightarrow> \<not> waiter_settled p s"
  using promises_okD(6) by (fastforce simp: waiter_settled_def)

lemma queued_no_outcome: "promises_ok s \<Longrightarrow> p \<in> set (waiters_of h s) \<Longrightarrow> map_of (fed_outcomes s) p = None"
  by (rule promises_okD(5) [OF _ waiters_of_queued])

text \<open>A waiter leaves its queue with its promise rejected.\<close>

lemma reject_inv:
  assumes inv: "fed_inv s" and p: "p \<in> set (waiters_of h s)"
    and "federatedRequestStreamWaiters s' = federatedRequestStreamWaiters (remove_waiter h p s)"
    and "fed_timers s' = AList.delete p (fed_timers s)" and out: "fed_outcomes s' = fed_outcomes s @ [(p, FedRejected e)]"
    and "fed_next s' = fed_next s" and "\<And>q. q \<noteq> p \<Longrightarrow> map_of (fed_waiters s') q = map_of (fed_waiters s) q"
    and "inboundFederationHosts s' = inboundFederationHosts s"
  shows "fed_inv s'"
  using promises_done [OF _ p assms(3-7)] streams_frame [OF _ assms(8)] fed_granted_append [OF out] inv
  by (simp add: fed_inv_def)

lemma fail_pooled_inv:
  assumes inv: "fed_inv s" and p: "p \<in> set (waiters_of h s)"
  shows "fed_inv (fail_pooled e h p s)"
proof -
  have ok: "promises_ok s" using inv by (simp add: fed_inv_def)
  show ?thesis
    by (rule reject_inv [OF inv p, where e = e])
      (simp_all add: fail_pooled_def queued_unsettled [OF ok p] queued_no_outcome [OF ok p])
qed

lemma timeout_inv:
  assumes inv: "fed_inv s" and p: "p \<in> fst ` set (fed_timers s)"
  shows "fed_inv (waiter_timeout P p s)"
proof -
  have ok: "promises_ok s" using inv by (simp add: fed_inv_def)
  then obtain h where h: "p \<in> set (waiters_of h s)" using p promises_okD(4,9) queued_iff by metis
  obtain w where w: "map_of (fed_waiters s) p = Some w" "fw_hostId w = h" "\<not> fw_settled w"
    using promises_okD(6) [OF ok h] by blast
  let ?s = "clear_fed_timer p s"
  have "fed_inv (fail_pooled e h p ?s)" for e
    by (rule reject_inv [OF inv h, where e = e])
      (use ok h w in \<open>simp_all add: fail_pooled_def waiter_settled_def queued_no_outcome delete_idem\<close>)
  moreover have "fed_inv (fed_settle p (FedRejected e) (remove_waiter h p ?s))" for e
    by (rule reject_inv [OF inv h, where e = e]) (use ok h in \<open>simp_all add: queued_no_outcome\<close>)
  ultimately show ?thesis using w by (simp add: waiter_timeout_def Let_def)
qed

lemma abort_inv: "fed_inv s \<Longrightarrow> p \<in> set (queued s) \<Longrightarrow> fed_inv (waiter_abort P p s)"
proof -
  assume inv: "fed_inv s" and p: "p \<in> set (queued s)"
  then obtain h where h: "p \<in> set (waiters_of h s)" using promises_okD(4) queued_iff by (metis fed_inv_def)
  with inv obtain w where "map_of (fed_waiters s) p = Some w" "fw_hostId w = h"
    using promises_okD(6) by (metis fed_inv_def)
  with inv fail_pooled_inv [OF inv h] show ?thesis by (simp add: waiter_abort_def)
qed

text \<open>What the free and the idle stream of a link are.\<close>

lemma idle_streamD:
  assumes "idle_stream l streams s = Some st" and "il_requestPool l = Some pool" and "il_requestStreams l = Some streams"
  shows "st \<in> link_free l" "st \<notin> set (closedStreams s)"
  using assms by (auto simp: idle_stream_def link_free_def find_Some_iff split: option.splits)

lemma free_streamD:
  assumes "free_stream l s = Some st" and "il_requestPool l = None"
  shows "st \<in> link_free l" "st \<notin> set (closedStreams s)" "il_requestStream l = Some st"
  using assms by (auto simp: free_stream_def link_free_def split: option.splits if_splits)

lemma take_link:
  fixes st :: nat
  assumes "link_wf l" and "il_requestPool l = Some pool"
  defines "l' \<equiv> l\<lparr>il_requestBusyStreams := map_option (\<lambda>b. List.insert st b) (il_requestBusyStreams l)\<rparr>"
  shows "link_wf l'" "link_free l' \<subseteq> link_free l - {st}"
    "link_wf (l'\<lparr>il_requestBusy := b\<rparr>)" "link_free (l'\<lparr>il_requestBusy := b\<rparr>) \<subseteq> link_free l - {st}"
  using assms by (auto simp: link_wf_def link_free_def split: option.splits)

lemma busy_link:
  assumes "link_wf l" and "il_requestPool l = None"
  shows "link_wf (l\<lparr>il_requestBusy := True\<rparr>)" "link_free (l\<lparr>il_requestBusy := True\<rparr>) \<subseteq> link_free l - {st}"
  using assms by (auto simp: link_wf_def link_free_def)

lemma acquire_inv:
  assumes inv: "fed_inv s"
  shows "fed_inv (snd (acquireFederatedRequestStream P h ms ab s))"
proof -
  let ?p = "fed_next s"
  let ?s = "s\<lparr>fed_next := Suc ?p\<rparr>"
  have ok: "promises_ok s" and so: "streams_ok s" using inv by (simp_all add: fed_inv_def)
  have fresh: "map_of (fed_outcomes s) ?p = None" using promises_okD(8) [OF ok] by (auto simp: map_of_eq_None_iff)
  have now: "promises_ok s'" if "fed_outcomes s' = fed_outcomes s @ [(?p, out)]" "fed_timers s' = fed_timers s"
    "fed_next s' = Suc ?p" "federatedRequestStreamWaiters s' = federatedRequestStreamWaiters s" "fed_waiters s' = fed_waiters s"
    for s' :: "'a FedStreams_scheme" and out
    using that promises_okD(4) [OF ok] by (intro promises_now [OF ok]) (simp_all add: queued_def waiters_of_def)
  have rej: "fed_inv (fed_settle ?p (FedRejected e) ?s)" for e
    using now [where out = "FedRejected e"] fresh streams_frame [OF so, of "fed_settle ?p (FedRejected e) ?s"]
    by (simp add: fed_inv_def)
  have enq: "fed_inv (enqueue_waiter h ?p (new_waiter h b t ?p ?s))" for b t
    using promises_enqueue [OF ok, of h b t] streams_frame [OF so, of "enqueue_waiter h ?p (new_waiter h b t ?p ?s)"]
    by (simp add: fed_inv_def granted_cong [of "enqueue_waiter h ?p (new_waiter h b t ?p ?s)" s])
  have grant: "fed_inv (fed_settle ?p (FedStream st) s1)"
    if l: "map_of (inboundFederationHosts s) h = Some l" and st: "st \<in> link_free l" and l': "link_wf l'" "link_free l' \<subseteq> link_free l - {st}"
      and s1: "s1 = ?s\<lparr>inboundFederationHosts := AList.update h l' (inboundFederationHosts s)\<rparr>" for l l' st s1
  proof -
    have out: "fed_outcomes (fed_settle ?p (FedStream st) s1) = fed_outcomes s @ [(?p, FedStream st)]" using fresh by (simp add: s1)
    have "streams_ok (fed_settle ?p (FedStream st) s1)"
      by (rule streams_take [OF so l st l']) (simp_all add: s1, simp add: granted_def fresh)
    with now [OF out] show ?thesis by (simp add: fed_inv_def s1)
  qed
  have abort: "fed_inv (fail_pooled e h ?p (new_waiter h True t ?p ?s))" for e t
  proof -
    let ?s' = "fail_pooled e h ?p (new_waiter h True t ?p ?s)"
    have out: "fed_outcomes ?s' = fed_outcomes s @ [(?p, FedRejected e)]"
      using fresh by (simp add: fail_pooled_def waiter_settled_def)
    have t: "fed_timers ?s' = fed_timers s"
      using promises_okD(7,9) [OF ok, of ?p] by (force simp: fail_pooled_def waiter_settled_def AList.delete_eq intro!: filter_True)
    have "?p \<notin> set (waiters_of h s)" using promises_okD(7) [OF ok] waiters_of_queued [OF ok] by blast
    then have "filter (\<lambda>w. w \<noteq> ?p) (waiters_of h s) = waiters_of h s" by (auto intro: filter_True)
    then have q: "federatedRequestStreamWaiters ?s' = federatedRequestStreamWaiters (set_queue h (waiters_of h s) s)"
      by (simp add: fail_pooled_def waiter_settled_def remove_waiter_def set_queue_def) (simp add: waiters_of_def)
    then have look: "waiters_of g ?s' = waiters_of g s" for g
      using set_queue_lookup [of g h "waiters_of h s" s] by (simp add: waiters_of_def)
    have m: "mset (queued ?s') = mset (queued s)"
      using queued_set_queue [OF promises_okD(4) [OF ok], of h "waiters_of h s"] by (simp add: queued_def q)
    have "promises_ok ?s'"
      by (rule promises_now [OF ok _ out t _ m look])
        (use promises_okD(4) [OF ok] in \<open>auto simp: q, auto simp: fail_pooled_def waiter_settled_def set_queue_def distinct_update distinct_delete\<close>)
    with streams_frame [OF so, of ?s'] fed_granted_append [OF out] show ?thesis
      by (simp add: fed_inv_def) (simp add: fail_pooled_def waiter_settled_def)
  qed
  show ?thesis
  proof (cases "map_of (inboundFederationHosts s) h")
    case None
    with inv rej enq show ?thesis
      by (auto simp: acquireFederatedRequestStream_def Let_def split: option.split)
  next
    case (Some l)
    note wf = streams_okD(1) [OF so Some]
    show ?thesis
    proof (cases "il_requestPool l")
      case None
      then have "fed_inv (fed_settle ?p (FedStream st) (set_busy h l ?s))" if "free_stream l ?s = Some st" for st
        using grant [OF Some _ busy_link [OF wf None]] free_streamD [OF that None] by (simp add: set_busy_def)
      with None Some inv enq show ?thesis
        by (auto simp: acquireFederatedRequestStream_def Let_def split: option.split prod.split)
    next
      case pool: (Some pool)
      with wf obtain xs where xs: "il_requestStreams l = Some xs" by (auto simp: link_wf_def)
      have "fed_inv (fed_settle ?p (FedStream st) (take_stream h l st ?s))" if "idle_stream l xs ?s = Some st" for st
        using grant [OF Some _ take_link(1,2) [OF wf pool]] idle_streamD [OF that pool xs] by (simp add: take_stream_def)
      with pool xs Some rej enq abort show ?thesis
        by (auto simp: acquireFederatedRequestStream_def acquire_pooled_def Let_def split: option.split)
    qed
  qed
qed

text \<open>A waiter leaves its queue with a stream of its Host's link.\<close>

lemma grant_inv:
  assumes inv: "fed_inv s" and p: "p \<in> set (waiters_of h s)"
    and "federatedRequestStreamWaiters s' = federatedRequestStreamWaiters (remove_waiter h p s)"
    and "fed_timers s' = AList.delete p (fed_timers s)" and out: "fed_outcomes s' = fed_outcomes s @ [(p, out)]"
    and "fed_next s' = fed_next s" and "\<And>q. q \<noteq> p \<Longrightarrow> map_of (fed_waiters s') q = map_of (fed_waiters s) q"
    and l: "map_of (inboundFederationHosts s) h = Some l" "st \<in> link_free l" "link_wf l'" "link_free l' \<subseteq> link_free l - {st}"
    and inb: "inboundFederationHosts s' = AList.update h l' (inboundFederationHosts s)"
    and "granted_stream (p, out) \<in> {[st], []}"
  shows "fed_inv s'"
proof -
  have "streams_ok s" "promises_ok s" using inv by (simp_all add: fed_inv_def)
  from streams_take [OF this(1) l inb] promises_done [OF this(2) p assms(3-7)] fed_granted_append [OF out] assms(13)
  show ?thesis by (auto simp: fed_inv_def)
qed

lemma head_queue:
  assumes "promises_ok s" and "waiters_of h s = p # ws"
  shows "federatedRequestStreamWaiters (remove_waiter h p s) = federatedRequestStreamWaiters (set_queue h ws s)"
    "federatedRequestStreamWaiters (remove_waiter h p (set_queue h ws s)) = federatedRequestStreamWaiters (set_queue h ws s)"
proof -
  have "distinct (waiters_of h s)"
    using promises_okD(2) [OF assms(1)] assms(2)
    by (auto simp: queued_def waiters_of_def distinct_concat_iff dest!: map_of_SomeD split: option.splits)
  then have ws: "filter (\<lambda>w. w \<noteq> p) ws = ws" using assms(2) by (auto intro: filter_True)
  then show "federatedRequestStreamWaiters (remove_waiter h p s) = federatedRequestStreamWaiters (set_queue h ws s)"
    by (simp add: remove_waiter_def assms(2))
  show "federatedRequestStreamWaiters (remove_waiter h p (set_queue h ws s)) = federatedRequestStreamWaiters (set_queue h ws s)"
    by (simp add: remove_waiter_def set_queue_lookup ws) (simp add: set_queue_def delete_idem update_triv update_conv')
qed

text \<open>Putting a queue back, or dropping an empty one, changes nothing that matters.\<close>

lemma promises_requeue:
  assumes ok: "promises_ok s" and f: "fed_next s' = fed_next s" "fed_outcomes s' = fed_outcomes s" "fed_timers s' = fed_timers s"
    "fed_waiters s' = fed_waiters s"
    and d: "distinct (map fst (federatedRequestStreamWaiters s'))" and m: "mset (queued s') = mset (queued s)"
    and look: "\<And>g. waiters_of g s' = waiters_of g s"
  shows "promises_ok s'"
  unfolding promises_ok_def
proof (intro conjI allI impI)
  show "distinct (queued s')" using mset_eq_imp_distinct_iff [OF m] promises_okD(2) [OF ok] by simp
  fix h ws r
  assume "map_of (federatedRequestStreamWaiters s') h = Some ws" "r \<in> set ws"
  then have "r \<in> set (waiters_of h s)" using look [of h] by (simp add: waiters_of_def)
  with promises_okD(6) [OF ok this] f show "\<exists>w. map_of (fed_waiters s') r = Some w \<and> fw_hostId w = h \<and> \<not> fw_settled w" by simp
qed (use ok f d mset_eq_setD [OF m] in \<open>auto simp: promises_ok_def\<close>)

lemma waiter_resolve_cases:
  assumes "map_of (fed_waiters s) p = Some w" and "\<not> fw_settled w" and "map_of (fed_outcomes s) p = None"
    and "map_of (inboundFederationHosts s) h = Some k" and "st \<notin> set (closedStreams s)"
  obtains (pooled) "waiter_resolve P h p st s = fed_settle p (FedStream st) (clear_fed_timer p (remove_waiter h p (mark_settled p s)))"
  | (plain) "waiter_resolve P h p st s = fed_settle p (FedStream st) (set_busy h k s)"
  | (rejected) e where "waiter_resolve P h p st s = fed_settle p (FedRejected e) s"
proof (cases "fw_pooled w")
  case True
  with assms pooled show thesis by (simp add: waiter_resolve_def resolvePooled_def waiter_settled_def)
next
  case False
  with assms plain rejected show thesis
    by (cases "il_requestStream k = Some st") (simp_all add: waiter_resolve_def resolveStream_def set_busy_def Let_def)
qed

lemma resolveNext_inv:
  assumes inv: "fed_inv s"
  shows "fed_inv (resolveNextFederatedRequestStreamWaiter P h s)"
proof (cases "waiters_of h s")
  case Nil
  then show ?thesis using inv by (simp add: resolveNextFederatedRequestStreamWaiter_def)
next
  case (Cons p ws)
  have ok: "promises_ok s" and so: "streams_ok s" using inv by (simp_all add: fed_inv_def)
  have p: "p \<in> set (waiters_of h s)" by (simp add: Cons)
  note out = queued_no_outcome [OF ok p] and queue = head_queue [OF ok Cons]
  obtain w where w: "map_of (fed_waiters s) p = Some w" "\<not> fw_settled w" using promises_okD(6) [OF ok p] by blast
  let ?s = "set_queue h ws s"
  have rej: "fed_inv (fed_settle p (FedRejected e) (clear_fed_timer p ?s))" for e
    by (rule reject_inv [OF inv p, where e = e]) (simp_all add: queue out)
  have give: "fed_inv (waiter_resolve P h p st s1)"
    if l: "map_of (inboundFederationHosts s) h = Some l" and st: "st \<in> link_free l" "st \<notin> set (closedStreams s)"
      and l': "link_wf l'" "link_free l' \<subseteq> link_free l - {st}" "link_wf (l'\<lparr>il_requestBusy := True\<rparr>)"
        "link_free (l'\<lparr>il_requestBusy := True\<rparr>) \<subseteq> link_free l - {st}"
      and s1: "fed_timers s1 = AList.delete p (fed_timers s)" "fed_outcomes s1 = fed_outcomes s" "fed_next s1 = fed_next s"
        "fed_waiters s1 = fed_waiters s" "federatedRequestStreamWaiters s1 = federatedRequestStreamWaiters ?s"
        "closedStreams s1 = closedStreams s"
        "inboundFederationHosts s1 = AList.update h l' (inboundFederationHosts s)" for l l' st s1
  proof -
    have "map_of (inboundFederationHosts s1) h = Some l'" by (simp add: s1 update_conv')
    from waiter_resolve_cases [OF w [folded s1(4)] _ this, of st P] out st s1
    consider "waiter_resolve P h p st s1 = fed_settle p (FedStream st) (clear_fed_timer p (remove_waiter h p (mark_settled p s1)))"
      | "waiter_resolve P h p st s1 = fed_settle p (FedStream st) (set_busy h l' s1)"
      | e where "waiter_resolve P h p st s1 = fed_settle p (FedRejected e) s1"
      by auto
    then show ?thesis
    proof cases
      case 1
      have "federatedRequestStreamWaiters (remove_waiter h p s1) = federatedRequestStreamWaiters ?s"
        using queue(2) remove_queue_cong [OF s1(5)] by simp
      then show ?thesis unfolding 1
        by (intro grant_inv [OF inv p _ _ _ _ _ l st(1) l'(1,2), where out = "FedStream st"])
          (simp_all add: s1 out queue delete_idem)
    next
      case 2
      show ?thesis unfolding 2
        by (rule grant_inv [OF inv p _ _ _ _ _ l st(1) l'(3,4), where out = "FedStream st"])
          (simp_all add: s1 out queue, simp add: set_busy_def s1 update_conv')
    next
      case (3 e)
      show ?thesis unfolding 3
        by (rule grant_inv [OF inv p _ _ _ _ _ l st(1) l'(1,2), where out = "FedRejected e"]) (simp_all add: s1 out queue)
    qed
  qed
  show ?thesis
  proof (cases "map_of (inboundFederationHosts s) h")
    case None
    with rej Cons show ?thesis by (simp add: resolveNextFederatedRequestStreamWaiter_def Let_def)
  next
    case (Some l)
    note wf = streams_okD(1) [OF so Some]
    show ?thesis
    proof (cases "il_requestPool l")
      case None
      have "fed_inv (waiter_resolve P h p st (set_busy h l (clear_fed_timer p ?s)))" if "free_stream l ?s = Some st" for st
        using free_streamD [OF that None]
        by (intro give [OF Some _ _ busy_link [OF wf None]]) (simp_all add: busy_link [OF wf None] set_busy_def)
      with None Some rej Cons show ?thesis
        by (simp add: resolveNextFederatedRequestStreamWaiter_def Let_def split: option.split)
    next
      case pool: (Some pool)
      with wf obtain xs where xs: "il_requestStreams l = Some xs" by (auto simp: link_wf_def)
      have give': "fed_inv (waiter_resolve P h p st (clear_fed_timer p (take_stream h l st ?s)))" if "idle_stream l xs ?s = Some st" for st
        using idle_streamD [OF that pool xs]
        by (intro give [OF Some _ _ take_link [OF wf pool]]) (simp_all add: take_stream_def)
      let ?r = "?s\<lparr>federatedRequestStreamWaiters := AList.update h (p # ws) (federatedRequestStreamWaiters ?s)\<rparr>"
      have look: "waiters_of g ?r = waiters_of g s" for g
        using Cons by (simp add: waiters_of_def set_queue_def update_conv' delete_conv')
      have dq: "distinct (map fst (federatedRequestStreamWaiters ?s))"
        using promises_okD(4) [OF ok] by (simp add: set_queue_def distinct_update distinct_delete)
      have "mset (queued ?r) + mset ws = mset (queued ?s) + mset (p # ws)"
        using concat_delete_update(2) [OF dq, of h "p # ws"] set_queue_lookup [of h h ws s]
        by (simp add: queued_def waiters_of_def split: option.splits)
      with queued_set_queue [OF promises_okD(4) [OF ok], of h ws] Cons have "mset (queued ?r) = mset (queued s)"
        by (simp add: add_ac)
      from promises_requeue [OF ok _ _ _ _ _ this look] dq have "promises_ok ?r" by (simp add: distinct_update)
      moreover have "streams_ok ?r" by (rule streams_frame [OF so]) (simp_all add: granted_def)
      ultimately have "fed_inv ?r" by (simp add: fed_inv_def)
      with give' pool xs Some Cons show ?thesis
        by (auto simp: resolveNextFederatedRequestStreamWaiter_def Let_def split: option.split)
    qed
  qed
qed

text \<open>Failing all waiters of a Host: as if each left the queue with its promise rejected.\<close>

definition fail_step :: "thrown \<Rightarrow> nat \<Rightarrow> 'a FedStreams_scheme \<Rightarrow> 'a FedStreams_scheme" where
  "fail_step e p s = (if waiter_settled p s then s else fed_settle p (FedRejected e) (clear_fed_timer p (mark_settled p s)))"

lemma fail_step_queue:
  "fail_step e p (s\<lparr>federatedRequestStreamWaiters := q\<rparr>) = (fail_step e p s)\<lparr>federatedRequestStreamWaiters := q\<rparr>"
  "federatedRequestStreamWaiters (fail_step e p s) = federatedRequestStreamWaiters s"
  by (auto simp: fail_step_def waiter_settled_def fed_settle_def clear_fed_timer_def mark_settled_def split: option.split)

lemma fail_step_foldl:
  "foldl (\<lambda>s p. fail_step e p s) (s\<lparr>federatedRequestStreamWaiters := q\<rparr>) ws =
   (foldl (\<lambda>s p. fail_step e p s) s ws)\<lparr>federatedRequestStreamWaiters := q\<rparr>"
  by (induction ws arbitrary: s) (simp_all add: fail_step_queue)

lemma fail_loop_inv:
  assumes "fed_inv s" and "waiters_of h s = ws"
  shows "\<exists>s'. fed_inv s' \<and> waiters_of h s' = [] \<and>
    AList.delete h (federatedRequestStreamWaiters s') = AList.delete h (federatedRequestStreamWaiters s) \<and>
    (foldl (\<lambda>s p. fail_step e p s) s ws)\<lparr>federatedRequestStreamWaiters := q\<rparr> = s'\<lparr>federatedRequestStreamWaiters := q\<rparr>"
  using assms
proof (induction ws arbitrary: s)
  case Nil
  then show ?case by (intro exI [of _ s]) simp
next
  case (Cons p ws)
  have ok: "promises_ok s" using Cons.prems by (simp add: fed_inv_def)
  have p: "p \<in> set (waiters_of h s)" by (simp add: Cons.prems)
  note queue = head_queue [OF ok Cons.prems(2)]
  let ?s = "(fail_step e p s)\<lparr>federatedRequestStreamWaiters := federatedRequestStreamWaiters (set_queue h ws s)\<rparr>"
  have inv: "fed_inv ?s"
    by (rule reject_inv [OF Cons.prems(1) p, where e = e])
      (simp_all add: queue, simp_all add: fail_step_def queued_unsettled [OF ok p] queued_no_outcome [OF ok p])
  moreover have "waiters_of h ?s = ws" using set_queue_lookup [of h h ws s] by (simp add: waiters_of_def)
  ultimately obtain s' where s': "fed_inv s'" "waiters_of h s' = []"
    "AList.delete h (federatedRequestStreamWaiters s') = AList.delete h (federatedRequestStreamWaiters ?s)"
    "(foldl (\<lambda>s p. fail_step e p s) ?s ws)\<lparr>federatedRequestStreamWaiters := q\<rparr> = s'\<lparr>federatedRequestStreamWaiters := q\<rparr>"
    using Cons.IH by blast
  have "AList.delete h (federatedRequestStreamWaiters ?s) = AList.delete h (federatedRequestStreamWaiters s)"
    by (simp add: set_queue_def delete_idem AList.delete_eq) (simp add: AList.delete_eq [symmetric] delete_update_same)
  moreover have "(foldl (\<lambda>s p. fail_step e p s) s (p # ws))\<lparr>federatedRequestStreamWaiters := q\<rparr> = s'\<lparr>federatedRequestStreamWaiters := q\<rparr>"
    using s'(4) by (simp add: fail_step_foldl)
  ultimately show ?case using s' by auto
qed

lemma failWaiters_inv:
  assumes "fed_inv s"
  shows "fed_inv (failFederatedRequestStreamWaiters P h m s)"
proof -
  let ?q = "AList.delete h (federatedRequestStreamWaiters s)"
  let ?e = "Verser (createVerserError P upstream_unavailable m [(js ''hostId'', CStr h)])"
  obtain s' where s': "fed_inv s'" "waiters_of h s' = []" "AList.delete h (federatedRequestStreamWaiters s') = ?q"
    "(foldl (\<lambda>s p. fail_step ?e p s) s (waiters_of h s))\<lparr>federatedRequestStreamWaiters := ?q\<rparr> = s'\<lparr>federatedRequestStreamWaiters := ?q\<rparr>"
    using fail_loop_inv [OF assms refl] by blast
  have eq: "failFederatedRequestStreamWaiters P h m s = s'\<lparr>federatedRequestStreamWaiters := ?q\<rparr>"
    unfolding failFederatedRequestStreamWaiters_def using s'(4)
    by (simp add: fail_step_def [symmetric] fail_step_foldl)
  have ok: "promises_ok s'" using s'(1) by (simp add: fed_inv_def)
  have "mset (queued (s'\<lparr>federatedRequestStreamWaiters := ?q\<rparr>)) = mset (queued s')"
    using concat_delete_update(1) [OF promises_okD(4) [OF ok], of h] s'(2,3) by (simp add: queued_def waiters_of_def)
  moreover have "waiters_of g (s'\<lparr>federatedRequestStreamWaiters := ?q\<rparr>) = waiters_of g s'" for g
    using s'(2) by (simp add: s'(3) [symmetric] waiters_of_def delete_conv' split: option.splits)
  ultimately have "promises_ok (s'\<lparr>federatedRequestStreamWaiters := ?q\<rparr>)"
    using promises_okD(4) [OF ok] by (intro promises_requeue [OF ok]) (simp_all add: s'(3) [symmetric] distinct_delete)
  moreover have "streams_ok (s'\<lparr>federatedRequestStreamWaiters := ?q\<rparr>)"
    by (rule streams_frame [of s']) (use s'(1) in \<open>simp_all add: fed_inv_def granted_def\<close>)
  ultimately show ?thesis by (simp add: eq fed_inv_def)
qed

lemma failAllWaiters_inv: "fed_inv s \<Longrightarrow> fed_inv (failAllFederatedRequestStreamWaiters P m s)"
proof -
  have "fed_inv s \<Longrightarrow> fed_inv (foldl (\<lambda>s h. failFederatedRequestStreamWaiters P h m s) s hs)" for hs
    by (induction hs arbitrary: s) (simp_all add: failWaiters_inv)
  then show "fed_inv s \<Longrightarrow> ?thesis" unfolding failAllFederatedRequestStreamWaiters_def by simp
qed

text \<open>Changing a link without handing anything out.\<close>

lemma promises_with_links [simp]: "promises_ok (s\<lparr>inboundFederationHosts := x\<rparr>) = promises_ok s"
  by (simp add: promises_ok_def queued_def)

lemma granted_with_links [simp]: "granted (s\<lparr>inboundFederationHosts := x\<rparr>) = granted s"
  by (simp add: granted_def)

lemma shrink_inv:
  assumes "fed_inv s" and "map_of (inboundFederationHosts s) h = Some l" and "link_wf l'" and "link_free l' \<subseteq> link_free l"
  shows "fed_inv (s\<lparr>inboundFederationHosts := AList.update h l' (inboundFederationHosts s)\<rparr>)"
  using assms(1) streams_shrink [OF _ assms(2-4), of "s\<lparr>inboundFederationHosts := AList.update h l' (inboundFederationHosts s)\<rparr>"]
  by (simp add: fed_inv_def)

lemma attach_inv:
  assumes "fed_inv s" and "map_of (inboundFederationHosts s) h = Some l" and "link_wf l'" and "link_free l' \<subseteq> insert st (link_free l)"
    and "st \<notin> set (granted s)" and "\<And>g k. map_of (inboundFederationHosts s) g = Some k \<Longrightarrow> st \<notin> link_free k"
  shows "fed_inv (s\<lparr>inboundFederationHosts := AList.update h l' (inboundFederationHosts s)\<rparr>)"
  using assms(1) streams_attach [OF _ assms(2-6), where s' = "s\<lparr>inboundFederationHosts := AList.update h l' (inboundFederationHosts s)\<rparr>"]
  by (auto simp: fed_inv_def)

lemma pool_field_ok: "pool_field P j n d = Inr v \<Longrightarrow> 0 \<le> v"
  by (auto simp: pool_field_def throwE_def Let_def split: option.splits json.splits if_splits)
    (metis floor_of_int int_of_num.simps(1) isInteger.simps(1) jsnumber.exhaust num_lt.simps(1) of_int_0_le_iff not_less isFinite.simps)+

lemma validate_ok:
  assumes "validateUpstreamPool P (Some j) = Inr q"
  shows "\<exists>r. q = Some r \<and> 0 \<le> minWaitingStreams r \<and> minWaitingStreams r \<le> maxOpenStreams r \<and> 0 < maxOpenStreams r \<and>
    0 \<le> leaseAcquireTimeoutMs r \<and> 0 \<le> maxQueuedAcquires r"
  using assms
  by (cases j) (auto simp: validateUpstreamPool_def result_simps throwE_def split: if_splits dest!: pool_field_ok)

lemma request_stream_inv:
  assumes inv: "fed_inv s" and new: "st \<notin> set (granted s)"
    "\<And>g k. map_of (inboundFederationHosts s) g = Some k \<Longrightarrow> st \<notin> link_free k"
  shows "fed_inv (snd (handleHostFederationRequestStream P msg hdr sess pol st s))"
proof (cases "link_of P ''request'' hdr sess s")
  case (Inr hl)
  then obtain h l where hl: "hl = (h, l)" and l: "map_of (inboundFederationHosts s) h = Some l"
    by (auto simp: link_of_def not_registered_def throwE_def Let_def split: option.splits if_splits)
  have wf: "link_wf l" using inv l by (auto simp: fed_inv_def streams_ok_def)
  have free: "link_free l' \<subseteq> insert st (link_free l) \<and> link_wf l'"
    if "il_requestPool l' = Some q" "il_requestPool l = None \<or> il_requestPool l = Some q"
      "il_requestStreams l' = Some (let xs = (case il_requestStreams l of Some xs \<Rightarrow> xs | None \<Rightarrow> []) in if st \<in> set xs then xs else xs @ [st])"
      "il_requestBusyStreams l' = Some (case il_requestBusyStreams l of Some xs \<Rightarrow> xs | None \<Rightarrow> [])" for l' q
    using that wf by (auto simp: link_wf_def link_free_def Let_def split: option.splits if_splits)
  have plain: "link_free (l\<lparr>il_requestStream := Some st, il_requestBusy := False\<rparr>) \<subseteq> insert st (link_free l) \<and>
      link_wf (l\<lparr>il_requestStream := Some st, il_requestBusy := False\<rparr>)" if "il_requestPool l = None"
    using that wf by (simp add: link_wf_def link_free_def)
  have pool: "\<exists>q. pool = Some q \<and> (il_requestPool l = None \<or> il_requestPool l = Some q)"
    if "parse_policy P msg l pol = Inr pool" "\<not> (pol = None \<and> il_requestPool l = None)" for pool
  proof (cases pol)
    case None
    with that show ?thesis by (auto simp: parse_policy_def)
  next
    case (Some t)
    with that(1) show ?thesis
      by (auto simp: parse_policy_def throwE_def split: option.splits sum.splits if_splits dest!: validate_ok)
  qed
  note attach = attach_inv [OF inv l _ _ new]
  show ?thesis
  proof (cases "pol = None \<and> il_requestPool l = None")
    case True
    with plain attach show ?thesis
      by (auto simp: handleHostFederationRequestStream_def Inr hl intro!: resolveNext_inv)
  next
    case False
    show ?thesis
    proof (cases "parse_policy P msg l pol")
      case (Inl e)
      with False inv show ?thesis by (auto simp: handleHostFederationRequestStream_def \<open>link_of P ''request'' hdr sess s = Inr hl\<close> hl)
    next
      case (Inr q0)
      from pool [OF Inr False] obtain q where q: "q0 = Some q" "il_requestPool l = None \<or> il_requestPool l = Some q" by blast
      let ?xs = "case il_requestStreams l of Some xs \<Rightarrow> xs | None \<Rightarrow> []"
      let ?l = "l\<lparr>il_requestStream := Some st, il_requestStreams := Some (if st \<in> set ?xs then ?xs else ?xs @ [st]),
          il_requestBusyStreams := Some (case il_requestBusyStreams l of Some xs \<Rightarrow> xs | None \<Rightarrow> []),
          il_requestPool := Some q, il_requestBusy := False\<rparr>"
      have "fed_inv (s\<lparr>inboundFederationHosts := AList.update h ?l (inboundFederationHosts s)\<rparr>)"
        by (rule attach) (use free [of ?l q] q(2) in \<open>simp_all add: Let_def\<close>)
      moreover have "snd (handleHostFederationRequestStream P msg hdr sess pol st s) =
          resolveNextFederatedRequestStreamWaiter P h (s\<lparr>inboundFederationHosts := AList.update h ?l (inboundFederationHosts s)\<rparr>)"
        unfolding handleHostFederationRequestStream_def \<open>link_of P ''request'' hdr sess s = Inr hl\<close> hl sum.case prod.case
          if_not_P [OF False] Inr q(1) by (simp add: Let_def)
      ultimately show ?thesis by (simp only: resolveNext_inv)
    qed
  qed
qed (use inv in \<open>simp add: handleHostFederationRequestStream_def\<close>)

lemma plain_close_inv: "fed_inv s \<Longrightarrow> fed_inv (plain_stream_close h st s)"
proof (cases "map_of (inboundFederationHosts s) h")
  case (Some l)
  assume inv: "fed_inv s"
  then have "link_wf l" using Some by (auto simp: fed_inv_def streams_ok_def)
  then show ?thesis
    using inv shrink_inv [OF inv Some, of "l\<lparr>il_requestStream := None, il_requestBusy := False\<rparr>"]
    by (auto simp: plain_stream_close_def Some link_wf_def link_free_def split: option.splits)
qed (simp add: plain_stream_close_def)

text \<open>The close handler of a pooled stream keeps the invariant as long as the link it finds still has a pool.\<close>

lemma pooled_close_inv:
  assumes inv: "fed_inv s" and "\<And>l. map_of (inboundFederationHosts s) h = Some l \<Longrightarrow> il_requestPool l \<noteq> None"
  shows "fed_inv (pooled_stream_close P h st s)"
proof (cases "map_of (inboundFederationHosts s) h")
  case (Some l)
  then have "link_wf l" using inv by (auto simp: fed_inv_def streams_ok_def)
  with assms(2) [OF Some] show ?thesis unfolding pooled_stream_close_def Some option.case
    by (intro resolveNext_inv shrink_inv [OF inv Some]) (auto simp: link_wf_def link_free_def split: option.splits)
qed (use inv in \<open>simp add: pooled_stream_close_def\<close>)

section \<open>Reachable states\<close>

definition empty_fed :: FedStreams where
  "empty_fed = \<lparr>inboundFederationHosts = [], upstreamLinks = [], federatedRequestStreamWaiters = [], fed_waiters = [],
     fed_timers = [], fed_outcomes = [], fed_next = 0, closedStreams = [], closedSessions = []\<rparr>"

text \<open>A link as the handshake registers it.\<close>

definition new_link :: "jsstr \<Rightarrow> nat \<Rightarrow> InboundLink" where
  "new_link hostId session = \<lparr>il_hostId = hostId, il_session = session, il_routeStream = None, il_requestStream = None,
     il_requestBusy = False, il_requestStreams = None, il_requestBusyStreams = None, il_requestPool = None\<rparr>"

definition remove_link :: "'p platform_scheme \<Rightarrow> jsstr \<Rightarrow> 'a FedStreams_scheme \<Rightarrow> 'a FedStreams_scheme" where
  "remove_link P hostId s = failFederatedRequestStreamWaiters P hostId (js ''Federated Host disconnected'')
     (s\<lparr>inboundFederationHosts := AList.delete hostId (inboundFederationHosts s)\<rparr>)"

text \<open>A request stream the Host is given is a new one; an upstream link or the set of closed streams changes for
  reasons outside; a Host that closes a pooled stream still uses a pool.\<close>

inductive fed_step :: "'p platform_scheme \<Rightarrow> FedStreams \<Rightarrow> FedStreams \<Rightarrow> bool" for P where
  linked: "map_of (inboundFederationHosts s) h = None \<Longrightarrow>
    fed_step P s (s\<lparr>inboundFederationHosts := AList.update h (new_link h session) (inboundFederationHosts s)\<rparr>)"
| unlinked: "fed_step P s (remove_link P h s)"
| route_stream: "map_of (inboundFederationHosts s) h = Some l \<Longrightarrow>
    fed_step P s (s\<lparr>inboundFederationHosts := AList.update h (l\<lparr>il_routeStream := Some st\<rparr>) (inboundFederationHosts s)\<rparr>)"
| request_stream: "st \<notin> set (granted s) \<Longrightarrow> (\<And>g k. map_of (inboundFederationHosts s) g = Some k \<Longrightarrow> st \<notin> link_free k) \<Longrightarrow>
    fed_step P s (snd (handleHostFederationRequestStream P msg header session policy st s))"
| acquire: "fed_step P s (snd (acquireFederatedRequestStream P h ms aborted s))"
| timer: "p \<in> fst ` set (fed_timers s) \<Longrightarrow> fed_step P s (waiter_timeout P p s)"
| aborted: "p \<in> set (queued s) \<Longrightarrow> fed_step P s (waiter_abort P p s)"
| plain_closed: "fed_step P s (plain_stream_close h st s)"
| pooled_closed: "(\<And>l. map_of (inboundFederationHosts s) h = Some l \<Longrightarrow> il_requestPool l \<noteq> None) \<Longrightarrow>
    fed_step P s (pooled_stream_close P h st s)"
| shutdown: "fed_step P s (failAllFederatedRequestStreamWaiters P msg s)"
| outside: "fed_step P s (s\<lparr>closedStreams := cs, closedSessions := ss, upstreamLinks := us\<rparr>)"

inductive fed_reachable :: "'p platform_scheme \<Rightarrow> FedStreams \<Rightarrow> bool" for P where
  fed_created: "fed_reachable P empty_fed"
| fed_stepped: "fed_reachable P s \<Longrightarrow> fed_step P s s' \<Longrightarrow> fed_reachable P s'"

lemma streams_subset:
  assumes "streams_ok s" and "granted s' = granted s"
    and "\<And>h l. map_of (inboundFederationHosts s') h = Some l \<Longrightarrow>
      map_of (inboundFederationHosts s) h = Some l \<or> link_wf l \<and> link_free l = {}"
  shows "streams_ok s'"
  unfolding streams_ok_def
proof (intro conjI allI impI)
  fix h l g k
  assume *: "map_of (inboundFederationHosts s') h = Some l"
  then show "link_wf l" "link_free l \<inter> set (granted s') = {}"
    using assms(1,2) assms(3) [of h l] by (auto simp: streams_ok_def)
  assume **: "map_of (inboundFederationHosts s') g = Some k" "h \<noteq> g"
  show "link_free l \<inter> link_free k = {}"
    using streams_okD(3) [OF assms(1), of h l g k] assms(3) [OF *] assms(3) [OF **(1)] **(2) by auto
qed (use assms in \<open>simp add: streams_ok_def\<close>)

lemma remove_link_inv: "fed_inv s \<Longrightarrow> fed_inv (remove_link P h s)"
proof -
  assume inv: "fed_inv s"
  let ?s = "s\<lparr>inboundFederationHosts := AList.delete h (inboundFederationHosts s)\<rparr>"
  have "streams_ok ?s"
    by (rule streams_subset [of s]) (use inv in \<open>auto simp: fed_inv_def delete_conv' split: if_splits\<close>)
  with inv have "fed_inv ?s" by (simp add: fed_inv_def)
  then show ?thesis by (simp add: remove_link_def failWaiters_inv)
qed

lemma new_link_inv: "fed_inv s \<Longrightarrow> fed_inv (s\<lparr>inboundFederationHosts := AList.update h (new_link h ss) (inboundFederationHosts s)\<rparr>)"
proof -
  assume inv: "fed_inv s"
  have "streams_ok (s\<lparr>inboundFederationHosts := AList.update h (new_link h ss) (inboundFederationHosts s)\<rparr>)"
    by (rule streams_subset [of s])
      (use inv in \<open>auto simp: fed_inv_def update_conv' new_link_def link_wf_def link_free_def split: if_splits\<close>)
  with inv show ?thesis by (simp add: fed_inv_def)
qed

lemma route_stream_inv:
  "fed_inv s \<Longrightarrow> map_of (inboundFederationHosts s) h = Some l \<Longrightarrow>
   fed_inv (s\<lparr>inboundFederationHosts := AList.update h (l\<lparr>il_routeStream := r\<rparr>) (inboundFederationHosts s)\<rparr>)"
proof -
  assume inv: "fed_inv s" and l: "map_of (inboundFederationHosts s) h = Some l"
  then have "link_wf l" by (auto simp: fed_inv_def streams_ok_def)
  then show ?thesis by (intro shrink_inv [OF inv l]) (simp_all add: link_wf_def link_free_def cong: option.case_cong)
qed

lemma outside_inv [simp]:
  "fed_inv (s\<lparr>closedStreams := cs\<rparr>) = fed_inv s" "fed_inv (s\<lparr>closedSessions := ss\<rparr>) = fed_inv s"
  "fed_inv (s\<lparr>upstreamLinks := us\<rparr>) = fed_inv s"
  by (simp_all add: fed_inv_def promises_ok_def queued_def streams_ok_def granted_def)

lemma fed_step_inv: "fed_step P s s' \<Longrightarrow> fed_inv s \<Longrightarrow> fed_inv s'"
  by (induction rule: fed_step.induct)
    (simp_all add: new_link_inv remove_link_inv route_stream_inv request_stream_inv acquire_inv timeout_inv abort_inv
      plain_close_inv pooled_close_inv failAllWaiters_inv)

lemma fed_reachable_inv: "fed_reachable P s \<Longrightarrow> fed_inv s"
proof (induction rule: fed_reachable.induct)
  case fed_created
  show ?case by (simp add: fed_inv_def promises_ok_def streams_ok_def queued_def granted_def empty_fed_def)
qed (rule fed_step_inv)

section \<open>Properties\<close>


text \<open>A Host that has joined, offers stream 7 and is asked for it twice.\<close>

definition sample_linked :: FedStreams where
  "sample_linked = empty_fed\<lparr>inboundFederationHosts := AList.update (js ''b'') (new_link (js ''b'') 1) []\<rparr>"

definition sample_offered :: FedStreams where
  "sample_offered = snd (handleHostFederationRequestStream sample_platform [] (js ''b'') (Some 1) None 7 sample_linked)"

definition sample_asked :: "FedStreams \<Rightarrow> FedStreams" where
  "sample_asked s = snd (acquireFederatedRequestStream sample_platform (js ''b'') 1000 None s)"

lemma sample_offered_reachable: "fed_reachable sample_platform sample_offered"
proof -
  have "fed_reachable sample_platform sample_linked"
    using fed_stepped [OF fed_created linked, of "js ''b''" sample_platform 1] by (simp add: sample_linked_def empty_fed_def)
  moreover have "7 \<notin> set (granted sample_linked)"
    "\<And>g k. map_of (inboundFederationHosts sample_linked) g = Some k \<Longrightarrow> 7 \<notin> link_free k"
    by (auto simp: sample_linked_def empty_fed_def granted_def new_link_def link_free_def split: if_splits)
  ultimately show ?thesis unfolding sample_offered_def by (intro fed_stepped [OF _ request_stream])
qed


definition pool_then_plain :: FedStreams where
  "pool_then_plain =
    (let offer = (\<lambda>policy st s. snd (handleHostFederationRequestStream sample_platform [] (js ''b'') (Some 1) policy st s));
         relink = (\<lambda>s. (remove_link sample_platform (js ''b'') s)\<lparr>inboundFederationHosts := [(js ''b'', new_link (js ''b'') 1)]\<rparr>)
     in offer None 7 (relink (offer (Some (js ''{}'')) 5 sample_linked)))"

text \<open>The condition is needed. A linked Host used a pool with stream 5, lost its route stream, and linked
  again without a pool, offering stream 7. When stream 5 closes, its handler marks the new link as free, and
  stream 7, which is in use, is handed out a second time.\<close>

theorem stale_pool_close_grants_twice:
  "granted (sample_asked pool_then_plain) = [7] \<and>
   granted (sample_asked (pooled_stream_close sample_platform (js ''b'') 5 (sample_asked pool_then_plain))) = [7, 7]"
  by code_simp

lemma pool_grows:
  assumes "maintainUpstreamRequestPool pool so opens link = (b, link')"
    and "int (length (ul_requestStreams link)) \<le> maxOpenStreams pool"
  shows "int (length (ul_requestStreams link')) \<le> maxOpenStreams pool"
  using assms
proof (induction pool so opens link rule: maintainUpstreamRequestPool.induct)
  case (2 pool so op opens link)
  show ?case
  proof (cases "pool_wants pool so link")
    case True
    then have "int (length (ul_requestStreams (pool_opened st link))) \<le> maxOpenStreams pool" for st
      by (auto simp: pool_wants_def pool_opened_def List.insert_def)
    with 2 True show ?thesis by (auto split: option.splits)
  qed (use 2 in auto)
qed auto

lemma pool_enough:
  assumes "nat (maxOpenStreams pool) - length (ul_requestStreams link) \<le> length sts"
    and "distinct sts" and "set sts \<inter> set (ul_requestStreams link) = {}"
  shows "\<exists>link'. maintainUpstreamRequestPool pool so (map Some sts) link = (True, link') \<and> \<not> pool_wants pool so link'"
  using assms
proof (induction sts arbitrary: link)
  case Nil
  then show ?case by (auto simp: pool_wants_def)
next
  case (Cons st sts)
  show ?case
  proof (cases "pool_wants pool so link")
    case True
    have "length (ul_requestStreams (pool_opened st link)) = Suc (length (ul_requestStreams link))"
      using Cons.prems(3) by (simp add: pool_opened_def List.insert_def)
    moreover have "set sts \<inter> set (ul_requestStreams (pool_opened st link)) = {}"
      using Cons.prems(2,3) by (auto simp: pool_opened_def)
    ultimately show ?thesis using True Cons.IH [of "pool_opened st link"] Cons.prems by simp
  qed simp
qed


definition sample_upstream :: UpstreamLink where
  "sample_upstream = \<lparr>ul_upstreamId = js ''u'', ul_remoteHostId = js ''h2'', ul_session = 1, ul_routeStream = 2, ul_requestStream = 3,
     ul_upstreamPool = None, ul_requestStreams = [3], ul_activeRequestStreams = [], ul_opening = False, ul_closing = False\<rparr>"


end
