(* ===== verification/Host_Core.thy ===== *)
theory Host_Core
  imports Route_Registry Route_Authorizer Lease_Pool Local_Broker Federated_Streams
begin

text \<open>
  The state of the Host, \<open>packages/verser2-host/src/lib/node-http2-verser-host.ts\<close>, as far as peers, routes
  and their advertisement go, with the route advertisement to local Brokers, remote Brokers and federated
  Hosts (\<open>federation.ts\<close>) and the timer of \<open>degraded-route-cleanup.ts\<close>.

  Streams and sessions are numbers; the record keeps which ones are closed and, in order, every observable
  effect: the frames written to streams and the lifecycle events. A local Broker's state is an object that
  its peer entry and its handle share, so it lives in a table of its own, addressed by a number.
\<close>

section \<open>State\<close>

datatype transport = over_h2 | in_process

record RegisteredPeer =
  rp_peerId :: jsstr
  rp_role :: VerserPeerRole
  rp_transport :: transport
  rp_session :: "nat option"
  rp_controlStream :: "nat option"
  rp_localBroker :: "nat option"
  rp_brokerDomain :: "jsstr option"
  rp_brokerFingerprint :: "jsstr option"
  rp_brokerRegistrationKey :: "jsstr option"

datatype frame =
    RoutesFrame "RoutedDomainRegistration list"
  | LifecycleFrame "VerserRouteLifecycleEvent list" "json option"
  | ForwardedFrame json
  | FederatedRoutesFrame "FederatedRouteRegistration list"
  | RegistrationResponse "RoutedDomainRegistration list"
  | RegistrationClosed jsstr
  | RevocationResponse nat VerserGuestRevocationResponse
  | FederationRegistered jsstr

datatype lifecycle_name =
    Ev_connected | Ev_registered | Ev_routeAdvertised | Ev_routeDegraded | Ev_routeRestored
  | Ev_disconnected | Ev_error | Ev_closed | Ev_requestStarted | Ev_requestCompleted

datatype effect =
    Wrote nat frame
  | Lifecycle lifecycle_name "jsstr option" "VerserPeerRole option" "jsstr option"

record DegradedRouteCleanup =
  timer_interval :: "rat option"
  degradedRouteTimeoutMs :: rat

text \<open>The Host extends the state of its links to other Hosts.\<close>

record Host = FedStreams +
  optionsHostId :: "jsstr option"
  routeRegistry :: registry
  routeAuthorizer :: "authorizer option"
  leasePool :: LeasePool
  degradedCleanup :: DegradedRouteCleanup
  h_peers :: "(jsstr \<times> RegisteredPeer) list"
  remoteBrokerSessions :: "(jsstr \<times> (nat \<times> RegisteredPeer) list) list"
  localBrokers :: "(nat \<times> LocalBrokerState) list"
  pendingInboundFederationHosts :: "(jsstr \<times> nat) list"
  pendingUpstreamConnections :: "jsstr list"
  seenFederationLifecycleEventIds :: "json list"
  federationLifecycleEventIdCounter :: nat
  lifecycleGeneration :: nat
  wsIdleLeases :: "(jsstr \<times> nat list) list"
  activeLocalRequests :: "(jsstr \<times> nat list) list"
  abortedControllers :: "nat list"
  effects :: "effect list"

text \<open>The constructor: the registry, the authorizer when a callback is configured, and the timeout of degraded
  routes in milliseconds.\<close>

definition DEFAULT_DEGRADED_ROUTE_TIMEOUT_MS :: rat where
  "DEFAULT_DEGRADED_ROUTE_TIMEOUT_MS = 5000"

definition validateAuthorizationTtl :: "'p platform_scheme \<Rightarrow> jsnumber \<Rightarrow> string \<Rightarrow> int result" where
  "validateAuthorizationTtl P value field =
     (if \<not> isInteger value \<or> num_lt value 0
      then Inl (Verser (createVerserError P protocol_error (js field @ js '' must be a finite non-negative integer'')
             [(js ''field'', CStr (js field)), (js ''value'', if isFinite value then CNum value else CUndef)]))
      else Inr (int_of_num value))"

definition resolveRouteAuthorizationTtls :: "'p platform_scheme \<Rightarrow> jsnumber option \<Rightarrow> jsnumber option
    \<Rightarrow> (int \<times> int) result" where
  "resolveRouteAuthorizationTtls P cacheTtl negativeTtl =
     bindE (validateAuthorizationTtl P (case cacheTtl of Some n \<Rightarrow> n | None \<Rightarrow> Fin 60000) ''routeAuthorizationCacheTtlMs'')
       (\<lambda>allowTtl.
     bindE (validateAuthorizationTtl P (case negativeTtl of Some n \<Rightarrow> n | None \<Rightarrow> Fin (of_int (allowTtl div 10)))
              ''routeAuthorizationNegativeCacheTtlMs'') (\<lambda>denyTtl.
     Inr (allowTtl, denyTtl)))"

definition new_Host :: "'p platform_scheme \<Rightarrow> jsstr option \<Rightarrow> jsnumber option \<Rightarrow> bool \<Rightarrow> jsnumber option \<Rightarrow> jsnumber option
    \<Rightarrow> rat option \<Rightarrow> Host result" where
  "new_Host P host maxHop withAuthorizer cacheTtl negativeTtl timeoutMs =
     bindE (createHostRouteRegistry P host maxHop) (\<lambda>reg.
     bindE (resolveRouteAuthorizationTtls P cacheTtl negativeTtl) (\<lambda>(allowTtl, denyTtl).
     Inr \<lparr>inboundFederationHosts = [], upstreamLinks = [], federatedRequestStreamWaiters = [], fed_waiters = [],
          fed_timers = [], fed_outcomes = [], fed_next = 0, closedStreams = [], closedSessions = [],
          optionsHostId = host, routeRegistry = reg,
          routeAuthorizer = (if withAuthorizer then Some (new_authorizer (of_int allowTtl) (of_int denyTtl)) else None),
          leasePool = empty_pool,
          degradedCleanup = \<lparr>timer_interval = None,
            degradedRouteTimeoutMs = (case timeoutMs of Some t \<Rightarrow> t | None \<Rightarrow> DEFAULT_DEGRADED_ROUTE_TIMEOUT_MS)\<rparr>,
          h_peers = [], remoteBrokerSessions = [], localBrokers = [],
          pendingInboundFederationHosts = [], pendingUpstreamConnections = [],
          seenFederationLifecycleEventIds = [], federationLifecycleEventIdCounter = 0, lifecycleGeneration = 0,
          wsIdleLeases = [], activeLocalRequests = [],
          abortedControllers = [], effects = []\<rparr>))"

definition emitLifecycle :: "lifecycle_name \<Rightarrow> jsstr \<Rightarrow> VerserPeerRole option \<Rightarrow> jsstr option \<Rightarrow> Host \<Rightarrow> Host" where
  "emitLifecycle name peerId role reason h = h\<lparr>effects := effects h @ [Lifecycle name (Some peerId) role reason]\<rparr>"

definition write_frame :: "nat \<Rightarrow> frame \<Rightarrow> Host \<Rightarrow> Host" where
  "write_frame stream f h = h\<lparr>effects := effects h @ [Wrote stream f]\<rparr>"

definition stream_open :: "nat \<Rightarrow> Host \<Rightarrow> bool" where
  "stream_open stream h \<longleftrightarrow> stream \<notin> set (closedStreams h)"

definition getRoutedDomains :: "'p platform_scheme \<Rightarrow> Host \<Rightarrow> RoutedDomainRegistration list" where
  "getRoutedDomains P h = getBrokerRoutes P (routeRegistry h)"

definition invalidateRouteAuthorizations :: "Host \<Rightarrow> Host" where
  "invalidateRouteAuthorizations h = h\<lparr>routeAuthorizer := map_option invalidate (routeAuthorizer h)\<rparr>"

section \<open>Advertising routes\<close>

text \<open>The local Broker of a peer entry, if the entry is one.\<close>

definition local_broker_of :: "RegisteredPeer \<Rightarrow> nat option" where
  "local_broker_of peer =
     (if rp_role peer = broker \<and> rp_transport peer = in_process then rp_localBroker peer else None)"

definition with_local_broker :: "(LocalBrokerState \<Rightarrow> LocalBrokerState) \<Rightarrow> nat \<Rightarrow> Host \<Rightarrow> Host" where
  "with_local_broker f a h =
     (case map_of (localBrokers h) a of
        None \<Rightarrow> h
      | Some b \<Rightarrow> h\<lparr>localBrokers := AList.update a (f b) (localBrokers h)\<rparr>)"

definition advertise_to_local :: "(LocalBrokerState \<Rightarrow> LocalBrokerState) \<Rightarrow> RegisteredPeer \<Rightarrow> Host \<Rightarrow> Host" where
  "advertise_to_local f peer h =
     (case local_broker_of peer of
        None \<Rightarrow> h
      | Some a \<Rightarrow> emitLifecycle Ev_routeAdvertised (rp_peerId peer) (Some (rp_role peer)) None (with_local_broker f a h))"

definition advertise_to_remote :: "frame \<Rightarrow> RegisteredPeer \<Rightarrow> Host \<Rightarrow> Host" where
  "advertise_to_remote f peer h =
     (case rp_controlStream peer of
        Some st \<Rightarrow>
          (if stream_open st h
           then emitLifecycle Ev_routeAdvertised (rp_peerId peer) (Some (rp_role peer)) None (write_frame st f h)
           else h)
      | None \<Rightarrow> h)"

definition remote_members :: "Host \<Rightarrow> RegisteredPeer list" where
  "remote_members h = concat (map (\<lambda>(_, members). map snd members) (remoteBrokerSessions h))"

definition advertiseRoutes :: "'p platform_scheme \<Rightarrow> Host \<Rightarrow> Host" where
  "advertiseRoutes P h =
    (let routes = getRoutedDomains P h;
         h1 = foldl (\<lambda>h (_, peer). advertise_to_local (updateLocalBrokerRoutes routes) peer h) h (h_peers h);
         f = RoutesFrame (createBrokerRoutesControlFrame routes)
     in foldl (\<lambda>h peer. advertise_to_remote f peer h) h1 (remote_members h1))"

text \<open>\<open>tagFederatedLifecycleFrame\<close> gives the frame an id of this Host and records it as seen.\<close>

text \<open>An id is a string, but the code that receives one does not check: an object or array is a new value
  every time it is parsed, so a set never has it already.\<close>

fun seen_id :: "json \<Rightarrow> json list \<Rightarrow> bool" where
  "seen_id (JArr xs) seen = False"
| "seen_id (JObj es) seen = False"
| "seen_id eid seen = (eid \<in> set seen)"

definition remember_id :: "json \<Rightarrow> json list \<Rightarrow> json list" where
  "remember_id eid seen = (let seen' = (if 10000 \<le> length seen then [] else seen)
                           in if seen_id eid seen' then seen' else seen' @ [eid])"

definition tagFederatedLifecycleFrame :: "Host \<Rightarrow> jsstr \<times> Host" where
  "tagFederatedLifecycleFrame h =
    (let nextCounter = federationLifecycleEventIdCounter h + 1;
         host = (case optionsHostId h of Some i \<Rightarrow> i | None \<Rightarrow> js ''host'');
         eid = host @ js '':'' @ dec nextCounter
     in (eid, h\<lparr>seenFederationLifecycleEventIds := remember_id (JStr eid) (seenFederationLifecycleEventIds h),
                federationLifecycleEventIdCounter := nextCounter\<rparr>))"

definition forwardFederatedLifecycleEventsExcluding :: "jsstr \<Rightarrow> frame \<Rightarrow> Host \<Rightarrow> Host" where
  "forwardFederatedLifecycleEventsExcluding excluded f h =
    (let h1 = foldl (\<lambda>h (_, link). if ul_remoteHostId link \<noteq> excluded \<and> stream_open (ul_routeStream link) h
                                   then write_frame (ul_routeStream link) f h else h) h (upstreamLinks h)
     in foldl (\<lambda>h (_, link). case il_routeStream link of
                  Some st \<Rightarrow> (if il_hostId link \<noteq> excluded \<and> stream_open st h then write_frame st f h else h)
                | None \<Rightarrow> h) h1 (inboundFederationHosts h1))"

text \<open>\<open>frame_with i\<close> is the frame with \<open>_eid\<close> set to \<open>i\<close>; \<open>eid\<close> is the id the frame already has.\<close>

definition forwardFederationEventsToPeers :: "jsstr \<Rightarrow> (json \<Rightarrow> frame) \<Rightarrow> json option \<Rightarrow> Host \<Rightarrow> Host" where
  "forwardFederationEventsToPeers excluded frame_with eid h =
     (case eid of
        None \<Rightarrow> (let (new, h') = tagFederatedLifecycleFrame h
                 in forwardFederatedLifecycleEventsExcluding excluded (frame_with (JStr new)) h')
      | Some i \<Rightarrow> forwardFederatedLifecycleEventsExcluding excluded (frame_with i) h)"

text \<open>\<open>made\<close> is what building the control frame from \<open>events\<close> gives.\<close>

definition advertise_checked :: "VerserRouteLifecycleEvent list result \<Rightarrow> raw_lifecycle_event list \<Rightarrow> bool \<Rightarrow> Host
    \<Rightarrow> unit result \<times> Host" where
  "advertise_checked made events skipFederation h =
    (if length events = 0 then (Inr (), h)
     else case made of
       Inl e \<Rightarrow> (Inl e, h)
     | Inr frame_events \<Rightarrow>
       (let h1 = foldl (\<lambda>h (_, peer). advertise_to_local
                    (\<lambda>b. foldl (\<lambda>b event. emitLocalBrokerRouteChange event b) b events) peer h) h (h_peers h);
            h2 = foldl (\<lambda>h peer. advertise_to_remote (LifecycleFrame frame_events None) peer h) h1 (remote_members h1)
        in (Inr (), if skipFederation then h2
                    else forwardFederationEventsToPeers [] (\<lambda>i. LifecycleFrame frame_events (Some i)) None h2)))"

definition advertiseRouteLifecycleEvents ::
  "'p platform_scheme \<Rightarrow> raw_lifecycle_event list \<Rightarrow> bool \<Rightarrow> Host \<Rightarrow> unit result \<times> Host" where
  "advertiseRouteLifecycleEvents P events skipFederation h =
     advertise_checked (createBrokerRouteLifecycleControlFrame P [] events) events skipFederation h"

text \<open>A validated event, as the calls pass it on.\<close>

definition raw_of_event :: "VerserRouteLifecycleEvent \<Rightarrow> raw_lifecycle_event" where
  "raw_of_event e =
     \<lparr>raw_type = event_type_string (ev_type e), raw_targetId = ev_targetId e, raw_domain = ev_domain e,
      raw_reason = map_option event_reason_string (ev_reason e),
      raw_generation = map_option (\<lambda>g. (Some (generationId g), sessionId g)) (ev_generation e)\<rparr>"

definition writeFederatedRoutes :: "'p platform_scheme \<Rightarrow> nat \<Rightarrow> jsstr \<Rightarrow> Host \<Rightarrow> unit result \<times> Host" where
  "writeFederatedRoutes P stream peerHostId h =
     (case getFederatedRoutesForExport P (Some peerHostId) (routeRegistry h) of
        Inl e \<Rightarrow> (Inl e, h)
      | Inr routes \<Rightarrow>
          (case createFederatedRoutesControlFrame P routes of
             Inl e \<Rightarrow> (Inl e, h)
           | Inr rs \<Rightarrow> (Inr (), write_frame stream (FederatedRoutesFrame rs) h)))"

definition advertiseFederatedRoutes :: "'p platform_scheme \<Rightarrow> Host \<Rightarrow> unit result \<times> Host" where
  "advertiseFederatedRoutes P h =
    thenS (forS (\<lambda>(_, link) h. if stream_open (ul_routeStream link) h
                               then writeFederatedRoutes P (ul_routeStream link) (ul_remoteHostId link) h
                               else (Inr (), h)) (upstreamLinks h) h)
      (\<lambda>_ h1. forS (\<lambda>(_, link) h. case il_routeStream link of
                     Some st \<Rightarrow> (if stream_open st h then writeFederatedRoutes P st (il_hostId link) h else (Inr (), h))
                   | None \<Rightarrow> (Inr (), h)) (inboundFederationHosts h1) h1)"

section \<open>The degraded-route cleanup timer\<close>

definition start_cleanup :: "DegradedRouteCleanup \<Rightarrow> DegradedRouteCleanup" where
  "start_cleanup c =
     (case timer_interval c of
        Some i \<Rightarrow> c
      | None \<Rightarrow> c\<lparr>timer_interval := Some (max 100 (of_int \<lfloor>degradedRouteTimeoutMs c / 10\<rfloor>))\<rparr>)"

definition stop_cleanup :: "DegradedRouteCleanup \<Rightarrow> DegradedRouteCleanup" where
  "stop_cleanup c = (if timer_interval c \<noteq> None then c\<lparr>timer_interval := None\<rparr> else c)"

definition startDegradedRouteCleanupTimer :: "Host \<Rightarrow> Host" where
  "startDegradedRouteCleanupTimer h = h\<lparr>degradedCleanup := start_cleanup (degradedCleanup h)\<rparr>"

definition stopDegradedRouteCleanupTimer :: "Host \<Rightarrow> Host" where
  "stopDegradedRouteCleanupTimer h = h\<lparr>degradedCleanup := stop_cleanup (degradedCleanup h)\<rparr>"

text \<open>\<open>DegradedRouteCleanupCallbacks\<close>: what the cleanup may ask of its owner.\<close>

record 's cleanup_callbacks =
  cb_removeExpired :: "rat \<Rightarrow> rat \<Rightarrow> 's \<Rightarrow> RemoveExpiredDegradedResult \<times> 's"
  cb_hasAny :: "'s \<Rightarrow> bool"
  cb_peerIds :: "'s \<Rightarrow> jsstr list"
  cb_routesForPeer :: "jsstr \<Rightarrow> 's \<Rightarrow> RoutedDomainRegistration list"
  cb_generation :: "jsstr \<Rightarrow> jsstr \<Rightarrow> 's \<Rightarrow> VerserRouteGeneration option"
  cb_advertiseEvents :: "raw_lifecycle_event list \<Rightarrow> 's \<Rightarrow> unit result \<times> 's"
  cb_advertiseRoutes :: "'s \<Rightarrow> unit result \<times> 's"
  cb_advertiseFederated :: "'s \<Rightarrow> unit result \<times> 's"

text \<open>The generations captured before the removal.\<close>

definition domain_map :: "'s cleanup_callbacks \<Rightarrow> jsstr \<Rightarrow> 's \<Rightarrow> (jsstr \<times> VerserRouteGeneration) list" where
  "domain_map cb peerId s =
     foldl (\<lambda>m r. case cb_generation cb peerId (domain r) s of
                    Some g \<Rightarrow> AList.update (domain r) g m | None \<Rightarrow> m) [] (cb_routesForPeer cb peerId s)"

definition gen_cache :: "'s cleanup_callbacks \<Rightarrow> 's \<Rightarrow> (jsstr \<times> (jsstr \<times> VerserRouteGeneration) list) list" where
  "gen_cache cb s =
     foldl (\<lambda>m peerId. if 0 < length (domain_map cb peerId s)
                       then AList.update peerId (domain_map cb peerId s) m else m) [] (cb_peerIds cb s)"

definition cached_generation :: "(jsstr \<times> (jsstr \<times> VerserRouteGeneration) list) list \<Rightarrow> jsstr \<Rightarrow> jsstr
    \<Rightarrow> VerserRouteGeneration option" where
  "cached_generation cache peerId d = Option.bind (map_of cache peerId) (\<lambda>m. map_of m d)"

definition expiry_event :: "(jsstr \<times> (jsstr \<times> VerserRouteGeneration) list) list \<Rightarrow> jsstr \<times> jsstr \<Rightarrow> raw_lifecycle_event" where
  "expiry_event cache = (\<lambda>(p, d). typed_event removed p d timed_out (cached_generation cache p d))"

definition stop_if_idle :: "'s cleanup_callbacks \<Rightarrow> DegradedRouteCleanup \<Rightarrow> 's \<Rightarrow> DegradedRouteCleanup" where
  "stop_if_idle cb c s = (if \<not> cb_hasAny cb s then stop_cleanup c else c)"

text \<open>One tick of the timer. Each event is built by \<open>createRouteLifecycleEvent\<close>, which validates it.\<close>

definition check :: "'p platform_scheme \<Rightarrow> 's cleanup_callbacks \<Rightarrow> rat \<Rightarrow> DegradedRouteCleanup \<Rightarrow> 's
    \<Rightarrow> (unit result \<times> DegradedRouteCleanup) \<times> 's" where
  "check P cb now c s =
    (let cache = gen_cache cb s;
         (result, s1) = cb_removeExpired cb now (degradedRouteTimeoutMs c) s
     in if length (expiredPeers result) = 0 then ((Inr (), stop_if_idle cb c s1), s1)
        else case mapE (createRouteLifecycleEvent P []) (map (expiry_event cache) (expiredRouteEntries result)) of
          Inl e \<Rightarrow> ((Inl e, c), s1)
        | Inr events \<Rightarrow>
          (let (r, s4) = thenS (if 0 < length events then cb_advertiseEvents cb (map raw_of_event events) s1 else (Inr (), s1))
                 (\<lambda>_ s2. thenS (cb_advertiseRoutes cb s2) (\<lambda>_ s3. cb_advertiseFederated cb s3))
           in case r of
                Inl e \<Rightarrow> ((Inl e, c), s4)
              | Inr u \<Rightarrow> ((Inr (), stop_if_idle cb c s4), s4)))"

definition createDegradedCleanupCallbacks :: "'p platform_scheme \<Rightarrow> Host cleanup_callbacks" where
  "createDegradedCleanupCallbacks P =
     \<lparr>cb_removeExpired = (\<lambda>now timeoutMs h.
        let (result, reg) = removeExpiredDegradedRoutes now timeoutMs (routeRegistry h);
            h' = h\<lparr>routeRegistry := reg\<rparr>
        in (result, if 0 < length (expiredPeers result) then invalidateRouteAuthorizations h' else h')),
      cb_hasAny = (\<lambda>h. hasAnyDegradedRoutes (routeRegistry h)),
      cb_peerIds = (\<lambda>h. map fst (degradedRoutes (routeRegistry h))),
      cb_routesForPeer = (\<lambda>p h. getDegradedBrokerRoutesForPeer p (routeRegistry h)),
      cb_generation = (\<lambda>p d h. getRouteGeneration p d (routeRegistry h)),
      cb_advertiseEvents = (\<lambda>events h. advertiseRouteLifecycleEvents P events False h),
      cb_advertiseRoutes = (\<lambda>h. (Inr (), advertiseRoutes P h)),
      cb_advertiseFederated = (\<lambda>h. advertiseFederatedRoutes P h)\<rparr>"

definition cleanup_tick :: "'p platform_scheme \<Rightarrow> rat \<Rightarrow> Host \<Rightarrow> unit result \<times> Host" where
  "cleanup_tick P now h =
    (let ((r, c), h') = check P (createDegradedCleanupCallbacks P) now (degradedCleanup h) h
     in (r, h'\<lparr>degradedCleanup := c\<rparr>))"

section \<open>What advertising leaves alone\<close>

lemma fed_inv_host [simp]:
  "fed_inv (h\<lparr>routeRegistry := x0\<rparr>) = fed_inv h"
  "fed_inv (h\<lparr>routeAuthorizer := x1\<rparr>) = fed_inv h"
  "fed_inv (h\<lparr>leasePool := x2\<rparr>) = fed_inv h"
  "fed_inv (h\<lparr>degradedCleanup := x3\<rparr>) = fed_inv h"
  "fed_inv (h\<lparr>h_peers := x4\<rparr>) = fed_inv h"
  "fed_inv (h\<lparr>remoteBrokerSessions := x5\<rparr>) = fed_inv h"
  "fed_inv (h\<lparr>localBrokers := x6\<rparr>) = fed_inv h"
  "fed_inv (h\<lparr>pendingInboundFederationHosts := x7\<rparr>) = fed_inv h"
  "fed_inv (h\<lparr>pendingUpstreamConnections := x8\<rparr>) = fed_inv h"
  "fed_inv (h\<lparr>seenFederationLifecycleEventIds := x9\<rparr>) = fed_inv h"
  "fed_inv (h\<lparr>federationLifecycleEventIdCounter := x10\<rparr>) = fed_inv h"
  "fed_inv (h\<lparr>lifecycleGeneration := x11\<rparr>) = fed_inv h"
  "fed_inv (h\<lparr>wsIdleLeases := x12\<rparr>) = fed_inv h"
  "fed_inv (h\<lparr>activeLocalRequests := x13\<rparr>) = fed_inv h"
  "fed_inv (h\<lparr>abortedControllers := x14\<rparr>) = fed_inv h"
  "fed_inv (h\<lparr>effects := x15\<rparr>) = fed_inv h"
  by (simp_all add: fed_inv_def promises_ok_def queued_def streams_ok_def granted_def)

text \<open>Advertising writes frames and events, updates local Brokers and draws event ids; it changes nothing
  else of the Host.\<close>

definition quiet_view :: "Host \<Rightarrow> Host" where
  "quiet_view h = h\<lparr>localBrokers := [], seenFederationLifecycleEventIds := [],
     federationLifecycleEventIdCounter := 0, effects := []\<rparr>"

definition brokers_ok :: "Host \<Rightarrow> bool" where
  "brokers_ok h \<longleftrightarrow> list_all (\<lambda>e. lb_inv (snd e)) (localBrokers h)"

definition quiet :: "Host \<Rightarrow> Host \<Rightarrow> bool" where
  "quiet h h' \<longleftrightarrow> quiet_view h' = quiet_view h \<and> (brokers_ok h \<longrightarrow> brokers_ok h')"

lemma quiet_refl [simp, intro]: "quiet h h"
  by (simp add: quiet_def)

lemma quiet_trans: "quiet a b \<Longrightarrow> quiet b c \<Longrightarrow> quiet a c"
  by (simp add: quiet_def)

lemma quiet_field: "quiet h h' \<Longrightarrow> (\<And>x. f (quiet_view x) = f x) \<Longrightarrow> f h' = f h"
  unfolding quiet_def by metis

lemma quietD:
  assumes "quiet h h'"
  shows "routeRegistry h' = routeRegistry h" "routeAuthorizer h' = routeAuthorizer h" "leasePool h' = leasePool h"
    "degradedCleanup h' = degradedCleanup h" "h_peers h' = h_peers h" "remoteBrokerSessions h' = remoteBrokerSessions h"
    "upstreamLinks h' = upstreamLinks h" "inboundFederationHosts h' = inboundFederationHosts h"
    "lifecycleGeneration h' = lifecycleGeneration h" "closedStreams h' = closedStreams h"
    "wsIdleLeases h' = wsIdleLeases h" "activeLocalRequests h' = activeLocalRequests h"
    "abortedControllers h' = abortedControllers h" "closedSessions h' = closedSessions h"
  by (rule quiet_field [OF assms], simp add: quiet_view_def)+

lemma quiet_fed: "quiet h h' \<Longrightarrow> fed_inv h' = fed_inv h"
  by (erule quiet_field) (simp add: quiet_view_def)

lemma quiet_brokers: "quiet h h' \<Longrightarrow> brokers_ok h \<Longrightarrow> brokers_ok h'"
  by (simp add: quiet_def)

lemma quiet_effects [simp]: "quiet h (h\<lparr>effects := e\<rparr>) \<longleftrightarrow> True"
  by (simp add: quiet_def quiet_view_def brokers_ok_def)

lemma quiet_with_local_broker: "(\<And>b. lb_inv b \<Longrightarrow> lb_inv (f b)) \<Longrightarrow> quiet h (with_local_broker f a h)"
  using list_all_map_of [of "\<lambda>e. lb_inv (snd e)" "localBrokers h" a]
  by (auto simp: with_local_broker_def quiet_def quiet_view_def brokers_ok_def split: option.split
        intro!: list_all_update)

lemma quiet_foldl: "(\<And>x h. quiet h (f h x)) \<Longrightarrow> quiet h (foldl f h xs)"
  by (induction xs arbitrary: h) (auto intro: quiet_trans)

lemma quiet_emitLifecycle [simp, intro]: "quiet h (emitLifecycle n p r e h)"
  by (simp add: emitLifecycle_def)

lemma quiet_write_frame [simp, intro]: "quiet h (write_frame st f h)"
  by (simp add: write_frame_def)

lemma quiet_advertise_to_local: "(\<And>b. lb_inv b \<Longrightarrow> lb_inv (f b)) \<Longrightarrow> quiet h (advertise_to_local f peer h)"
  by (auto simp: advertise_to_local_def intro: quiet_trans [OF quiet_with_local_broker quiet_emitLifecycle]
        split: option.split)

lemma emit_all_inv: "lb_inv b \<Longrightarrow> lb_inv (foldl (\<lambda>b event. emitLocalBrokerRouteChange event b) b events)"
  by (induction events arbitrary: b) (simp_all add: emit_inv)

lemma quiet_advertise_to_remote: "quiet h (advertise_to_remote f peer h)"
  by (auto simp: advertise_to_remote_def intro: quiet_trans [OF quiet_write_frame quiet_emitLifecycle]
        split: option.split)

lemma quiet_advertiseRoutes: "quiet h (advertiseRoutes P h)"
  unfolding advertiseRoutes_def Let_def
  by (intro quiet_trans [OF quiet_foldl quiet_foldl])
    (auto simp: quiet_advertise_to_remote intro: quiet_advertise_to_local update_inv)

lemma quiet_forwardExcluding: "quiet h (forwardFederatedLifecycleEventsExcluding x f h)"
  unfolding forwardFederatedLifecycleEventsExcluding_def Let_def
  by (intro quiet_trans [OF quiet_foldl quiet_foldl]) (auto split: option.split)

lemma quiet_tag: "tagFederatedLifecycleFrame h = (eid, h') \<Longrightarrow> quiet h h'"
  by (auto simp: tagFederatedLifecycleFrame_def Let_def quiet_def quiet_view_def brokers_ok_def)

lemma quiet_forward: "quiet h (forwardFederationEventsToPeers x mk eid h)"
  by (auto simp: forwardFederationEventsToPeers_def quiet_forwardExcluding split: option.split prod.split
        intro: quiet_trans [OF quiet_tag quiet_forwardExcluding])

lemma quiet_advertise_checked: "quiet h (snd (advertise_checked made evs skip h))"
proof -
  have "quiet h (foldl (\<lambda>h peer. advertise_to_remote f peer h)
      (foldl (\<lambda>h (_, peer). advertise_to_local (\<lambda>b. foldl (\<lambda>b event. emitLocalBrokerRouteChange event b) b evs) peer h) h ps) ms)"
    for f ps ms
    by (intro quiet_trans [OF quiet_foldl quiet_foldl])
      (auto simp: quiet_advertise_to_remote intro: quiet_advertise_to_local emit_all_inv)
  then show ?thesis
    by (auto simp: advertise_checked_def Let_def split: sum.split intro: quiet_trans [OF _ quiet_forward])
qed

lemma quiet_advertiseEvents: "quiet h (snd (advertiseRouteLifecycleEvents P evs skip h))"
  unfolding advertiseRouteLifecycleEvents_def by (rule quiet_advertise_checked)

lemma quiet_writeFederatedRoutes: "quiet h (snd (writeFederatedRoutes P st p h))"
  by (auto simp: writeFederatedRoutes_def split: sum.split)

lemma quiet_thenS: "quiet h (snd m) \<Longrightarrow> (\<And>a s. quiet s (snd (f a s))) \<Longrightarrow> quiet h (snd (thenS m f))"
  by (rule thenS_keeps) (auto intro: quiet_trans)

lemma quiet_forS: "(\<And>x s. quiet s (snd (f x s))) \<Longrightarrow> quiet h (snd (forS f xs h))"
  by (rule forS_keeps) (auto intro: quiet_trans)

lemma quiet_advertiseFederated: "quiet h (snd (advertiseFederatedRoutes P h))"
  unfolding advertiseFederatedRoutes_def
  by (intro quiet_thenS quiet_forS) (auto simp: quiet_writeFederatedRoutes split: option.split prod.split)

section \<open>The contract of the cleanup's owner\<close>

text \<open>What the cleanup relies on: the routes it is told have expired were degraded routes with a generation
  before, and advertising does not change which routes are degraded.\<close>

locale cleanup_owner =
  fixes cb :: "'s cleanup_callbacks" and inv :: "'s \<Rightarrow> bool"
  assumes expired_known: "inv s \<Longrightarrow> (p, d) \<in> set (expiredRouteEntries (fst (cb_removeExpired cb now t s))) \<Longrightarrow>
      p \<in> set (cb_peerIds cb s) \<and> d \<in> domain ` set (cb_routesForPeer cb p s) \<and> cb_generation cb p d s \<noteq> None"
    and advertise_keeps: "cb_hasAny cb (snd (cb_advertiseEvents cb evs s)) = cb_hasAny cb s"
      "cb_hasAny cb (snd (cb_advertiseRoutes cb s)) = cb_hasAny cb s"
      "cb_hasAny cb (snd (cb_advertiseFederated cb s)) = cb_hasAny cb s"
begin

lemma domain_map_lookup:
  "map_of (domain_map cb p s) d = (if d \<in> domain ` set (cb_routesForPeer cb p s) then cb_generation cb p d s else None)"
proof -
  have "map_of (foldl (\<lambda>m r. case cb_generation cb p (domain r) s of
          Some g \<Rightarrow> AList.update (domain r) g m | None \<Rightarrow> m) m rs) d =
        (if d \<in> domain ` set rs \<and> cb_generation cb p d s \<noteq> None then cb_generation cb p d s else map_of m d)"
    for m and rs :: "RoutedDomainRegistration list"
    by (induction rs arbitrary: m) (auto simp: update_conv' split: option.splits)
  then show ?thesis unfolding domain_map_def by auto
qed

lemma gen_cache_lookup:
  assumes "p \<in> set (cb_peerIds cb s)" and "domain_map cb p s \<noteq> []"
  shows "map_of (gen_cache cb s) p = Some (domain_map cb p s)"
proof -
  have "map_of (foldl (\<lambda>m q. if 0 < length (domain_map cb q s) then AList.update q (domain_map cb q s) m else m) m qs) p =
        (if p \<in> set qs \<and> domain_map cb p s \<noteq> [] then Some (domain_map cb p s) else map_of m p)" for m qs
    by (induction qs arbitrary: m) (auto simp: update_conv')
  with assms show ?thesis unfolding gen_cache_def by simp
qed

text \<open>Every event carries the generation its route had while it was degraded.\<close>

lemma expiry_generation:
  assumes "inv s" and "(p, d) \<in> set (expiredRouteEntries (fst (cb_removeExpired cb now t s)))"
  shows "cached_generation (gen_cache cb s) p d = cb_generation cb p d s" and "cb_generation cb p d s \<noteq> None"
proof -
  from expired_known [OF assms] have p: "p \<in> set (cb_peerIds cb s)" "d \<in> domain ` set (cb_routesForPeer cb p s)"
    and g: "cb_generation cb p d s \<noteq> None" by auto
  then have "map_of (domain_map cb p s) d \<noteq> None" by (simp add: domain_map_lookup)
  then have "domain_map cb p s \<noteq> []" by auto
  with p g show "cached_generation (gen_cache cb s) p d = cb_generation cb p d s"
    by (simp add: cached_generation_def gen_cache_lookup domain_map_lookup)
  show "cb_generation cb p d s \<noteq> None" by (fact g)
qed

text \<open>The timer runs on exactly while degraded routes remain.\<close>

lemma check_timer:
  assumes "check P cb now c s = ((Inr (), c'), s')"
  shows "timer_interval c' = (if cb_hasAny cb s' then timer_interval c else None)"
  using assms
  by (auto simp: check_def Let_def stop_if_idle_def stop_cleanup_def split: prod.splits if_splits sum.splits)

end

lemma host_removeExpired [simp]:
  "fst (cb_removeExpired (createDegradedCleanupCallbacks P) now t h) =
     fst (removeExpiredDegradedRoutes now t (routeRegistry h))"
  "routeRegistry (snd (cb_removeExpired (createDegradedCleanupCallbacks P) now t h)) =
     snd (removeExpiredDegradedRoutes now t (routeRegistry h))"
  by (auto simp: createDegradedCleanupCallbacks_def Let_def invalidateRouteAuthorizations_def split: prod.split)

interpretation host_cleanup: cleanup_owner "createDegradedCleanupCallbacks P" "\<lambda>h. reg_inv (routeRegistry h)"
  for P :: "'p platform_scheme"
proof unfold_locales
  fix h p d now t
  assume inv: "reg_inv (routeRegistry h)"
    and "(p, d) \<in> set (expiredRouteEntries (fst (cb_removeExpired (createDegradedCleanupCallbacks P) now t h)))"
  then obtain e where e: "map_of (degradedRoutes (routeRegistry h)) p = Some e" "d \<in> domain ` set (de_routes e)"
    by (auto simp: expired_entries_iff [OF reg_invD(5) [OF inv]])
  then have "p \<in> fst ` set (degradedRoutes (routeRegistry h))" by (metis domI dom_map_of_conv_image_fst)
  moreover obtain r where "find (\<lambda>r. domain r = d) (de_routes e) = Some r"
    using e(2) by (metis (mono_tags, lifting) find_None_iff imageE not_None_eq)
  ultimately show "p \<in> set (cb_peerIds (createDegradedCleanupCallbacks P) h) \<and>
      d \<in> domain ` set (cb_routesForPeer (createDegradedCleanupCallbacks P) p h) \<and>
      cb_generation (createDegradedCleanupCallbacks P) p d h \<noteq> None"
    using e by (simp add: createDegradedCleanupCallbacks_def degraded_domains getRouteGeneration_def)
qed (simp_all add: createDegradedCleanupCallbacks_def quietD(1) [OF quiet_advertiseEvents]
      quietD(1) [OF quiet_advertiseRoutes] quietD(1) [OF quiet_advertiseFederated])

end
