(* ===== verification/Host_Guests.thy ===== *)
theory Host_Guests
  imports Host_Core
begin

text \<open>
  Peers joining and leaving the Host, \<open>packages/verser2-host/src/lib/node-http2-verser-host.ts\<close>: local Guests and
  Brokers (\<open>attachLocalGuest\<close>, \<open>attachLocalBroker\<close>, \<open>detachLocalPeer\<close>), remote peers (\<open>registerPeer\<close>,
  \<open>removeSessionPeers\<close>, \<open>detachRemoteBrokerSession\<close>) and route revocation by a Guest.

  An operation that awaits something in the middle is two definitions: what happens before, and what
  happens with the answer in the state found then. The authorization callback, the certificate of a session
  and the request body are arguments. A throw keeps the changes made before it.
\<close>

section \<open>Small operations\<close>

definition on_registry :: "(registry \<Rightarrow> 'a result \<times> registry) \<Rightarrow> Host \<Rightarrow> 'a result \<times> Host" where
  "on_registry f h = (let (r, reg) = f (routeRegistry h) in (r, h\<lparr>routeRegistry := reg\<rparr>))"

definition clearWsIdleLeases :: "jsstr \<Rightarrow> Host \<Rightarrow> Host" where
  "clearWsIdleLeases peerId h =
     (case map_of (wsIdleLeases h) peerId of
        None \<Rightarrow> h
      | Some idle \<Rightarrow>
          h\<lparr>closedStreams := closedStreams h @ filter (\<lambda>st. stream_open st h) idle,
            wsIdleLeases := AList.delete peerId (wsIdleLeases h)\<rparr>)"

definition trackLocalRequestController :: "jsstr \<Rightarrow> nat \<Rightarrow> Host \<Rightarrow> Host" where
  "trackLocalRequestController peerId c h =
    (let controllers = (case map_of (activeLocalRequests h) peerId of Some cs \<Rightarrow> cs | None \<Rightarrow> [])
     in h\<lparr>activeLocalRequests := AList.update peerId (if c \<in> set controllers then controllers else controllers @ [c])
            (activeLocalRequests h)\<rparr>)"

definition untrackLocalRequestController :: "jsstr \<Rightarrow> nat \<Rightarrow> Host \<Rightarrow> Host" where
  "untrackLocalRequestController peerId c h =
     (case map_of (activeLocalRequests h) peerId of
        None \<Rightarrow> h
      | Some controllers \<Rightarrow>
          (let rest = removeAll c controllers
           in h\<lparr>activeLocalRequests := (if length rest = 0 then AList.delete peerId (activeLocalRequests h)
                                        else AList.update peerId rest (activeLocalRequests h))\<rparr>))"

definition abortLocalRequestsForPeer :: "jsstr \<Rightarrow> Host \<Rightarrow> Host" where
  "abortLocalRequestsForPeer peerId h =
     (case map_of (activeLocalRequests h) peerId of
        None \<Rightarrow> h
      | Some controllers \<Rightarrow>
          h\<lparr>abortedControllers := abortedControllers h @ controllers,
            activeLocalRequests := AList.delete peerId (activeLocalRequests h)\<rparr>)"

definition abortAllLocalRequests :: "Host \<Rightarrow> Host" where
  "abortAllLocalRequests h = foldl (\<lambda>h p. abortLocalRequestsForPeer p h) h (map fst (activeLocalRequests h))"

definition isFederationPeerIdInUse :: "jsstr \<Rightarrow> Host \<Rightarrow> bool" where
  "isFederationPeerIdInUse peerId h \<longleftrightarrow>
     map_of (inboundFederationHosts h) peerId \<noteq> None \<or> map_of (pendingInboundFederationHosts h) peerId \<noteq> None \<or>
     map_of (upstreamLinks h) peerId \<noteq> None \<or> peerId \<in> set (pendingUpstreamConnections h)"

definition assertAdmissionGeneration :: "'p platform_scheme \<Rightarrow> nat \<Rightarrow> jsstr \<Rightarrow> Host \<Rightarrow> unit result" where
  "assertAdmissionGeneration P gen peerId h =
     (if gen \<noteq> lifecycleGeneration h
      then throwE P disconnected_target ''Host shutdown invalidated the pending peer registration'' [(''peerId'', CStr peerId)]
      else Inr ())"

text \<open>Building lifecycle events one after the other, then advertising them.\<close>

definition advertise_created :: "'p platform_scheme \<Rightarrow> raw_lifecycle_event list \<Rightarrow> Host \<Rightarrow> unit result \<times> Host" where
  "advertise_created P raws h =
     (case mapE (createRouteLifecycleEvent P []) raws of
        Inl e \<Rightarrow> (Inl e, h)
      | Inr evs \<Rightarrow> advertiseRouteLifecycleEvents P (map raw_of_event evs) False h)"

definition advertise_all :: "'p platform_scheme \<Rightarrow> Host \<Rightarrow> unit result \<times> Host" where
  "advertise_all P h = advertiseFederatedRoutes P (advertiseRoutes P h)"

text \<open>\<open>domains.map((domain) => createRoutedDomainRegistration({ targetId, domain }))\<close>, then \<open>setLocalRoutes\<close>.\<close>

definition set_domains :: "'p platform_scheme \<Rightarrow> jsstr \<Rightarrow> jsstr list \<Rightarrow> Host \<Rightarrow> unit result \<times> Host" where
  "set_domains P peerId domains h =
     (case mapE (\<lambda>d. createRoutedDomainRegistration P \<lparr>targetId = peerId, domain = d\<rparr>) domains of
        Inl e \<Rightarrow> (Inl e, h)
      | Inr rs \<Rightarrow> on_registry (setLocalRoutes P peerId rs) h)"

section \<open>A Guest's routes when it joins\<close>

text \<open>\<open>new Set(xs)\<close> in insertion order.\<close>

definition js_set :: "jsstr list \<Rightarrow> jsstr list" where
  "js_set xs = keep_first id [] xs"

text \<open>The re-registration list replaces the degraded routes.\<close>

definition replace_degraded :: "'p platform_scheme \<Rightarrow> jsstr \<Rightarrow> jsstr list \<Rightarrow> Host \<Rightarrow> unit result \<times> Host" where
  "replace_degraded P peerId newDomains h =
     thenS (on_registry (restoreRoutes P peerId) h) (\<lambda>_ h1.
     (let h2 = h1\<lparr>routeRegistry := removeLocalRoutes peerId (routeRegistry h1)\<rparr> in
      thenS (if 0 < length newDomains then set_domains P peerId newDomains h2 else (Inr (), h2)) (\<lambda>_ h3.
      (Inr (), if \<not> hasAnyDegradedRoutes (routeRegistry h3) then stopDegradedRouteCleanupTimer h3 else h3))))"

text \<open>The lifecycle events of the change; the generation of a restored route is looked up after the
  restoration.\<close>

definition reconnect_events :: "jsstr \<Rightarrow> jsstr list \<Rightarrow> jsstr list \<Rightarrow> (jsstr \<Rightarrow> VerserRouteGeneration option)
    \<Rightarrow> raw_lifecycle_event list" where
  "reconnect_events peerId oldDegradedSet newDomainSet gen =
     map (\<lambda>d. typed_event removed peerId d reconnected None) (filter (\<lambda>d. d \<notin> set newDomainSet) oldDegradedSet) @
     map (\<lambda>d. typed_event changed peerId d restored (gen d)) (filter (\<lambda>d. d \<in> set newDomainSet) oldDegradedSet) @
     map (\<lambda>d. typed_event added peerId d registered None) (filter (\<lambda>d. d \<notin> set oldDegradedSet) newDomainSet)"

datatype VerserLocalGuestListener = ServerListeners "nat list" | ListenerFunction nat

definition extractLocalGuestListener :: "'p platform_scheme \<Rightarrow> jsstr \<Rightarrow> VerserLocalGuestListener \<Rightarrow> nat result" where
  "extractLocalGuestListener P peerId l =
     (case l of
        ServerListeners [] \<Rightarrow>
          throwE P local_handler_failure ''Attached HTTP server has no request listener'' [(''guestId'', CStr peerId)]
      | ServerListeners (f # fs) \<Rightarrow> Inr f
      | ListenerFunction f \<Rightarrow> Inr f)"

text \<open>The answer of an \<open>authorizeRegistration\<close> callback; \<open>NoCallback\<close> when none is configured.\<close>

datatype admission = NoCallback | Allow | Reject "jsstr option"

definition authorizeLocalRegistration :: "'p platform_scheme \<Rightarrow> admission \<Rightarrow> jsstr \<Rightarrow> VerserPeerRole \<Rightarrow> Host
    \<Rightarrow> unit result \<times> Host" where
  "authorizeLocalRegistration P answer peerId role h =
     (case answer of
        Reject why \<Rightarrow>
          (let reason = (case why of Some r \<Rightarrow> r | None \<Rightarrow> js ''registration rejected by local peer policy'')
           in (Inl (Verser (createVerserError P invalid_registration reason
                 [(js ''peerId'', CStr peerId), (js ''role'', CStr (if role = guest then js ''guest'' else js ''broker''))])),
               emitLifecycle Ev_error peerId (Some role) None h))
      | _ \<Rightarrow> (Inr (), h))"

definition already_registered :: "'p platform_scheme \<Rightarrow> jsstr \<Rightarrow> 'b result" where
  "already_registered P peerId =
     throwE P invalid_registration ''Peer is already registered'' [(''peerId'', CStr peerId)]"

definition attachLocalGuest_begin :: "'p platform_scheme \<Rightarrow> jsstr \<Rightarrow> Host \<Rightarrow> (jsstr \<times> nat) result" where
  "attachLocalGuest_begin P guestId h =
     bindE (createPeerId P guestId) (\<lambda>peerId.
       if map_of (h_peers h) peerId \<noteq> None then already_registered P peerId
       else Inr (peerId, lifecycleGeneration h))"

definition local_guest_peer :: "jsstr \<Rightarrow> RegisteredPeer" where
  "local_guest_peer peerId =
     \<lparr>rp_peerId = peerId, rp_role = guest, rp_transport = in_process, rp_session = None, rp_controlStream = None,
      rp_localBroker = None, rp_brokerDomain = None, rp_brokerFingerprint = None, rp_brokerRegistrationKey = None\<rparr>"

definition apply_local_routes :: "'p platform_scheme \<Rightarrow> jsstr \<Rightarrow> jsstr list \<Rightarrow> Host \<Rightarrow> unit result \<times> Host" where
  "apply_local_routes P peerId newDomains h0 =
    (let degradedDomains = getDegradedBrokerRoutesForPeer peerId (routeRegistry h0);
         h = invalidateRouteAuthorizations h0
     in if 0 < length degradedDomains
        then
          thenS (replace_degraded P peerId newDomains h) (\<lambda>_ h1.
          thenS (advertise_created P (reconnect_events peerId (js_set (map domain degradedDomains)) (js_set newDomains)
                   (\<lambda>d. getRouteGeneration peerId d (routeRegistry h1))) h1) (\<lambda>_ h2.
          (Inr (), emitLifecycle Ev_routeRestored peerId (Some guest) (Some (js ''local-guest-reconnect'')) h2)))
        else
          thenS (set_domains P peerId newDomains h) (\<lambda>_ h1.
          advertise_created P (map (\<lambda>d. typed_event added peerId d registered None) newDomains) h1))"

definition attachLocalGuest_finish :: "'p platform_scheme \<Rightarrow> jsstr \<Rightarrow> nat \<Rightarrow> jsstr list \<Rightarrow> VerserLocalGuestListener
    \<Rightarrow> admission \<Rightarrow> Host \<Rightarrow> unit result \<times> Host" where
  "attachLocalGuest_finish P peerId gen domains listener answer h =
     thenS (authorizeLocalRegistration P answer peerId guest h) (\<lambda>_ h1.
     thenS (assertAdmissionGeneration P gen peerId h1, h1) (\<lambda>_ h2.
     if map_of (h_peers h2) peerId \<noteq> None then (already_registered P peerId, h2)
     else
       (let h3 = emitLifecycle Ev_connected peerId (Some guest) None h2 in
        thenS (extractLocalGuestListener P peerId listener, h3) (\<lambda>_ h4.
        thenS (apply_local_routes P peerId domains (h4\<lparr>h_peers := AList.update peerId (local_guest_peer peerId) (h_peers h4)\<rparr>))
          (\<lambda>_ h5. advertise_all P (emitLifecycle Ev_registered peerId (Some guest) None h5))))))"

text \<open>\<open>handle.revokeRoutes\<close> of an attached Guest.\<close>

definition revokeLocalRoutes :: "'p platform_scheme \<Rightarrow> bool \<Rightarrow> jsstr \<Rightarrow> jsstr list \<Rightarrow> Host
    \<Rightarrow> (jsstr list \<times> jsstr list) result \<times> Host" where
  "revokeLocalRoutes P handleClosed peerId domains h =
     (if handleClosed then (Inr ([], domains), h)
      else
        (let (result, reg) = revokeRoutes peerId domains (routeRegistry h);
             h1 = h\<lparr>routeRegistry := reg\<rparr>
         in if 0 < length (fst result)
            then
              thenS (advertise_created P (map (\<lambda>d. typed_event removed peerId d revoked None) (fst result))
                       (invalidateRouteAuthorizations h1)) (\<lambda>_ h2.
              thenS (advertise_all P h2) (\<lambda>_ h3. (Inr result, h3)))
            else (Inr result, h1)))"

section \<open>Local Brokers\<close>

definition attachLocalBroker_begin :: "'p platform_scheme \<Rightarrow> jsstr \<Rightarrow> jsstr option \<Rightarrow> bool \<Rightarrow> Host
    \<Rightarrow> (jsstr \<times> jsstr option \<times> nat) result" where
  "attachLocalBroker_begin P brokerId brokerDomain legacyOption h =
     bindE (createPeerId P brokerId) (\<lambda>peerId.
       if map_of (h_peers h) peerId \<noteq> None then already_registered P peerId
       else if legacyOption
       then throwE P invalid_registration ''brokerHopDomain is not supported; use brokerDomain'' [(''peerId'', CStr peerId)]
       else case brokerDomain of
         None \<Rightarrow> Inr (peerId, None, lifecycleGeneration h)
       | Some d \<Rightarrow>
           (let n = normalizeVerserRouteDomain P d
            in if length n = 0
               then throwE P invalid_registration ''brokerDomain must be a non-empty domain'' [(''peerId'', CStr peerId)]
               else Inr (peerId, Some n, lifecycleGeneration h)))"

definition fresh_broker :: "Host \<Rightarrow> nat" where
  "fresh_broker h = length (localBrokers h)"

definition attachLocalBroker_finish :: "'p platform_scheme \<Rightarrow> jsstr \<Rightarrow> jsstr option \<Rightarrow> nat \<Rightarrow> admission \<Rightarrow> Host
    \<Rightarrow> nat result \<times> Host" where
  "attachLocalBroker_finish P peerId brokerDomain gen answer h =
     thenS (authorizeLocalRegistration P answer peerId broker h) (\<lambda>_ h1.
     thenS (assertAdmissionGeneration P gen peerId h1, h1) (\<lambda>_ h2.
     if map_of (h_peers h2) peerId \<noteq> None then (already_registered P peerId, h2)
     else
       (let a = fresh_broker h2;
            h3 = emitLifecycle Ev_connected peerId (Some broker) None
                   (h2\<lparr>localBrokers := localBrokers h2 @ [(a, createLocalBrokerState (getRoutedDomains P h2))]\<rparr>);
            h4 = h3\<lparr>h_peers := AList.update peerId
                   ((local_guest_peer peerId)\<lparr>rp_role := broker, rp_localBroker := Some a, rp_brokerDomain := brokerDomain\<rparr>)
                   (h_peers h3)\<rparr>
        in (Inr a, emitLifecycle Ev_registered peerId (Some broker) None h4))))"

section \<open>Leaving\<close>

text \<open>What a Guest's departure does to its routes and leases, for local and remote Guests alike; the caller
  has removed the peer. \<open>now\<close> is \<open>Date.now()\<close>.\<close>

definition degrade_guest :: "'p platform_scheme \<Rightarrow> rat \<Rightarrow> jsstr \<Rightarrow> jsstr \<Rightarrow> Host \<Rightarrow> unit result \<times> Host" where
  "degrade_guest P now peerId reason h =
     thenS (on_registry (setDegraded P now peerId) (clearWsIdleLeases peerId h)) (\<lambda>_ h1.
     (let h2 = invalidateRouteAuthorizations h1
      in (Inr (), h2\<lparr>leasePool := failQueuedLeaseAcquisitions P peerId reason (closeGuestLeases peerId (leasePool h2))\<rparr>)))"

definition announce_degraded :: "'p platform_scheme \<Rightarrow> jsstr \<Rightarrow> Host \<Rightarrow> unit result \<times> Host" where
  "announce_degraded P peerId h =
    (let degraded_routes = getDegradedBrokerRoutesForPeer peerId (routeRegistry h)
     in if 0 < length degraded_routes
        then thenS (advertise_created P (map (\<lambda>r. typed_event degraded peerId (domain r) disconnected
                      (getRouteGeneration peerId (domain r) (routeRegistry h))) degraded_routes) h)
               (\<lambda>_ h1. (Inr (), startDegradedRouteCleanupTimer h1))
        else (Inr (), h))"

definition detachLocalPeer :: "'p platform_scheme \<Rightarrow> rat \<Rightarrow> jsstr \<Rightarrow> jsstr \<Rightarrow> Host \<Rightarrow> unit result \<times> Host" where
  "detachLocalPeer P now peerId reason h =
     (case map_of (h_peers h) peerId of
        None \<Rightarrow> (Inr (), h)
      | Some peer \<Rightarrow>
        if rp_transport peer \<noteq> in_process then (Inr (), h)
        else
          (let h1 = h\<lparr>h_peers := AList.delete peerId (h_peers h)\<rparr> in
           thenS (if rp_role peer = guest
                  then thenS (degrade_guest P now peerId reason h1) (\<lambda>_ h2.
                       thenS (announce_degraded P peerId (abortLocalRequestsForPeer peerId h2)) (\<lambda>_ h3.
                       (Inr (), emitLifecycle Ev_routeDegraded peerId (Some (rp_role peer)) (Some reason) h3)))
                  else (Inr (), h1)) (\<lambda>_ h4.
           (let h5 = (case rp_localBroker peer of
                        Some a \<Rightarrow> abortLocalRequestsForPeer peerId (with_local_broker (closeLocalBrokerState P reason) a h4)
                      | None \<Rightarrow> h4);
                h6 = emitLifecycle Ev_disconnected peerId (Some (rp_role peer)) (Some reason) h5
            in if rp_role peer = guest then advertise_all P h6 else (Inr (), h6)))))"

definition detachRemoteBrokerSession :: "jsstr \<Rightarrow> nat \<Rightarrow> Host \<Rightarrow> Host" where
  "detachRemoteBrokerSession peerId session h =
     (case map_of (remoteBrokerSessions h) peerId of
        None \<Rightarrow> h
      | Some members \<Rightarrow>
        (case map_of members session of
           None \<Rightarrow> h
         | Some gone \<Rightarrow>
           (let rest = AList.delete session members;
                leads = (case map_of (h_peers h) peerId of Some p \<Rightarrow> rp_session p = Some session | None \<Rightarrow> False);
                h1 = (if length rest = 0
                      then h\<lparr>remoteBrokerSessions := AList.delete peerId (remoteBrokerSessions h),
                             h_peers := (if leads then AList.delete peerId (h_peers h) else h_peers h)\<rparr>
                      else h\<lparr>remoteBrokerSessions := AList.update peerId rest (remoteBrokerSessions h),
                             h_peers := (if leads then AList.update peerId (snd (hd rest)) (h_peers h) else h_peers h)\<rparr>)
            in emitLifecycle Ev_disconnected peerId (Some broker) None h1)))"

text \<open>The body of the loop over the peers of a session; \<open>True\<close> when routes have to be advertised.\<close>

definition remove_session_peer :: "'p platform_scheme \<Rightarrow> rat \<Rightarrow> jsstr \<Rightarrow> RegisteredPeer \<Rightarrow> Host \<Rightarrow> unit result \<times> Host" where
  "remove_session_peer P now peerId peer h =
    (let h1 = h\<lparr>h_peers := AList.delete peerId (h_peers h)\<rparr> in
     thenS (if rp_role peer = guest
            then thenS (degrade_guest P now peerId (js ''guest-disconnect'') h1) (\<lambda>_ h2.
                 thenS (announce_degraded P peerId h2) (\<lambda>_ h3.
                 (Inr (), emitLifecycle Ev_routeDegraded peerId (Some (rp_role peer)) (Some (js ''guest-disconnect'')) h3)))
            else (Inr (), h1)) (\<lambda>_ h4.
     (Inr (), emitLifecycle Ev_disconnected peerId (Some (rp_role peer)) None h4)))"

definition removeSessionPeers :: "'p platform_scheme \<Rightarrow> rat \<Rightarrow> nat \<Rightarrow> Host \<Rightarrow> unit result \<times> Host" where
  "removeSessionPeers P now session h =
    (let h1 = foldl (\<lambda>h p. detachRemoteBrokerSession p session h) h (map fst (remoteBrokerSessions h));
         leaving = filter (\<lambda>(p, peer). rp_session peer = Some session \<and>
                     \<not> (rp_role peer = broker \<and> rp_transport peer = over_h2)) (h_peers h1)
     in thenS (forS (\<lambda>(p, peer). remove_session_peer P now p peer) leaving h1) (\<lambda>_ h2.
        if \<exists>(p, peer) \<in> set leaving. rp_role peer = guest then advertise_all P h2 else (Inr (), h2)))"

text \<open>A closed control stream detaches its Broker session; a later turn of the event loop destroys the
  session.\<close>

definition handleRemoteBrokerControlClose :: "bool \<Rightarrow> jsstr \<Rightarrow> nat \<Rightarrow> nat \<Rightarrow> Host \<Rightarrow> Host" where
  "handleRemoteBrokerControlClose running peerId session controlStream h =
     (if \<not> running \<or> session \<in> set (closedSessions h) then h
      else case Option.bind (map_of (remoteBrokerSessions h) peerId) (\<lambda>ms. map_of ms session) of
        None \<Rightarrow> h
      | Some member \<Rightarrow>
          (if rp_controlStream member \<noteq> Some controlStream then h
           else detachRemoteBrokerSession peerId session h))"

definition attachGuestControlStream :: "'p platform_scheme \<Rightarrow> jsstr \<Rightarrow> nat \<Rightarrow> Host \<Rightarrow> unit result \<times> Host" where
  "attachGuestControlStream P peerId stream h =
     (case map_of (h_peers h) peerId of
        Some peer \<Rightarrow>
          (if rp_role peer = guest
           then (Inr (), h\<lparr>h_peers := AList.update peerId (peer\<lparr>rp_controlStream := Some stream\<rparr>) (h_peers h)\<rparr>)
           else (throwE P disconnected_target ''Guest control stream has no registered peer'' [(''targetId'', CStr peerId)], h))
      | None \<Rightarrow> (throwE P disconnected_target ''Guest control stream has no registered peer'' [(''targetId'', CStr peerId)], h))"

section \<open>Remote registration\<close>

text \<open>A registration as \<open>parseRegistrationRequest\<close> returns it, with the routed domains of their declared
  type, and what TLS says about the session: whether trust material is configured, whether the client is
  authorized, and the DNS names and fingerprint of its certificate.\<close>

record registration =
  rg_peerId :: jsstr
  rg_role :: VerserPeerRole
  rg_routedDomains :: "jsstr list"
  rg_brokerDomain :: "jsstr option"

record tls_info =
  mtlsEnabled :: bool
  tlsAuthorized :: bool
  certificate :: "(jsstr list \<times> jsstr option) option"

definition assertBrokerDomainCertificate :: "'p platform_scheme \<Rightarrow> tls_info \<Rightarrow> jsstr \<Rightarrow> jsstr \<Rightarrow> unit result" where
  "assertBrokerDomainCertificate P tls peerId brokerDomain =
     (if \<not> mtlsEnabled tls then Inr ()
      else if (case certificate tls of
                 Some (dnsNames, fp) \<Rightarrow> \<exists>n \<in> set dnsNames. normalizeVerserRouteDomain P n = brokerDomain
               | None \<Rightarrow> False)
      then Inr ()
      else throwE P certificate_verification_failure ''Broker domain is not bound to an exact DNS SAN on the client certificate''
             [(''peerId'', CStr peerId), (''brokerDomain'', CStr brokerDomain)])"

definition getAuthenticatedBrokerFingerprint :: "tls_info \<Rightarrow> jsstr option" where
  "getAuthenticatedBrokerFingerprint tls =
     (if \<not> mtlsEnabled tls \<or> \<not> tlsAuthorized tls then None
      else case certificate tls of
        Some (dnsNames, Some fp) \<Rightarrow> if 0 < length fp then Some fp else None
      | _ \<Rightarrow> None)"

definition createBrokerRegistrationKey :: "'p platform_scheme \<Rightarrow> jsstr \<Rightarrow> registration \<Rightarrow> jsstr option \<Rightarrow> jsstr" where
  "createBrokerRegistrationKey P peerId reg brokerDomain =
     jsonStringify P (JObj [(js ''peerId'', JStr peerId),
       (js ''role'', JStr (if rg_role reg = guest then js ''guest'' else js ''broker'')),
       (js ''routedDomains'', JArr (map JStr (rg_routedDomains reg))),
       (js ''brokerDomain'', case brokerDomain of Some d \<Rightarrow> JStr d | None \<Rightarrow> JNull)])"

text \<open>The answer of the callback for a remote peer: a rejection is reported on the stream and closes the
  session.\<close>

definition authorizeRegistration :: "admission \<Rightarrow> nat \<Rightarrow> nat \<Rightarrow> jsstr \<Rightarrow> registration \<Rightarrow> Host \<Rightarrow> bool \<times> Host" where
  "authorizeRegistration answer stream session peerId reg h =
     (case answer of
        Reject why \<Rightarrow>
          (let reason = (case why of Some r \<Rightarrow> r | None \<Rightarrow> js ''registration rejected by client certificate policy'');
               h1 = emitLifecycle Ev_error peerId (Some (rg_role reg)) None h;
               h2 = (if stream_open stream h1 then write_frame stream (RegistrationClosed reason) h1 else h1)
           in (False, h2\<lparr>closedSessions := closedSessions h2 @ [session]\<rparr>))
      | _ \<Rightarrow> (True, h))"

definition may_join_broker :: "registration \<Rightarrow> RegisteredPeer option \<Rightarrow> bool" where
  "may_join_broker reg current \<longleftrightarrow> rg_role reg = broker \<and>
     (case current of Some p \<Rightarrow> rp_role p = broker \<and> rp_transport p = over_h2 | None \<Rightarrow> False)"

definition federation_id_in_use :: "'p platform_scheme \<Rightarrow> jsstr \<Rightarrow> 'b result" where
  "federation_id_in_use P peerId =
     throwE P invalid_registration ''Peer ID is already used by federation'' [(''peerId'', CStr peerId)]"

definition registerPeer_begin :: "'p platform_scheme \<Rightarrow> nat option \<Rightarrow> registration \<Rightarrow> Host \<Rightarrow> (jsstr \<times> nat \<times> nat) result" where
  "registerPeer_begin P session reg h =
     bindE (createPeerId P (rg_peerId reg)) (\<lambda>peerId.
       if isFederationPeerIdInUse peerId h then federation_id_in_use P peerId
       else if map_of (h_peers h) peerId \<noteq> None \<and> \<not> may_join_broker reg (map_of (h_peers h) peerId)
       then already_registered P peerId
       else case session of
         None \<Rightarrow> throwE P protocol_error ''Registration stream does not have an HTTP/2 session'' []
       | Some s \<Rightarrow> Inr (peerId, s, lifecycleGeneration h))"

text \<open>Publishing the peer: a first registration, or a further session of a Broker that proved the same
  certificate and the same registration.\<close>

definition publish_peer :: "'p platform_scheme \<Rightarrow> jsstr \<Rightarrow> nat \<Rightarrow> RegisteredPeer \<Rightarrow> Host \<Rightarrow> unit result \<times> Host" where
  "publish_peer P peerId session peer h =
     (case map_of (h_peers h) peerId of
        None \<Rightarrow>
          (let h1 = h\<lparr>h_peers := AList.update peerId peer (h_peers h)\<rparr>
           in (Inr (), if rp_role peer = broker \<and> rp_transport peer = over_h2
                       then h1\<lparr>remoteBrokerSessions := AList.update peerId [(session, peer)] (remoteBrokerSessions h1)\<rparr>
                       else h1))
      | Some existing \<Rightarrow>
          (case map_of (remoteBrokerSessions h) peerId of
             None \<Rightarrow> (already_registered P peerId, h)
           | Some members \<Rightarrow>
             if rp_role peer \<noteq> broker \<or> rp_role existing \<noteq> broker \<or> rp_transport existing \<noteq> over_h2 \<or>
                map_of members session \<noteq> None \<or> rp_brokerFingerprint peer = None \<or>
                rp_brokerFingerprint existing = None \<or> rp_brokerRegistrationKey peer \<noteq> rp_brokerRegistrationKey existing
             then (already_registered P peerId, h)
             else (Inr (), h\<lparr>remoteBrokerSessions := AList.update peerId (AList.update session peer members)
                              (remoteBrokerSessions h)\<rparr>)))"

definition apply_remote_routes :: "'p platform_scheme \<Rightarrow> jsstr \<Rightarrow> jsstr list \<Rightarrow> Host \<Rightarrow> unit result \<times> Host" where
  "apply_remote_routes P peerId newDomains h0 =
    (let h = invalidateRouteAuthorizations h0;
         degradedDomains = getDegradedBrokerRoutesForPeer peerId (routeRegistry h)
     in if 0 < length degradedDomains
        then
          thenS (replace_degraded P peerId newDomains h) (\<lambda>_ h1.
          thenS (advertise_created P (reconnect_events peerId (js_set (map domain degradedDomains)) (js_set newDomains)
                   (\<lambda>_. None)) h1) (\<lambda>_ h2.
          (Inr (), emitLifecycle Ev_routeRestored peerId (Some guest) (Some (js ''guest-reconnect'')) h2)))
        else set_domains P peerId newDomains h)"

definition remote_peer :: "'p platform_scheme \<Rightarrow> tls_info \<Rightarrow> jsstr \<Rightarrow> nat \<Rightarrow> nat \<Rightarrow> registration \<Rightarrow> RegisteredPeer" where
  "remote_peer P tls peerId stream session reg =
    (let isBroker = (rg_role reg = broker);
         brokerDomain = (if isBroker then rg_brokerDomain reg else None)
     in \<lparr>rp_peerId = peerId, rp_role = rg_role reg, rp_transport = over_h2, rp_session = Some session,
         rp_controlStream = (if isBroker then Some stream else None), rp_localBroker = None,
         rp_brokerDomain = brokerDomain,
         rp_brokerFingerprint = (if isBroker then getAuthenticatedBrokerFingerprint tls else None),
         rp_brokerRegistrationKey = (if isBroker then Some (createBrokerRegistrationKey P peerId reg brokerDomain) else None)\<rparr>)"

definition registerPeer_finish :: "'p platform_scheme \<Rightarrow> tls_info \<Rightarrow> jsstr \<Rightarrow> nat \<Rightarrow> nat \<Rightarrow> nat \<Rightarrow> registration \<Rightarrow> admission
    \<Rightarrow> Host \<Rightarrow> unit result \<times> Host" where
  "registerPeer_finish P tls peerId stream session gen reg answer h0 =
    (let (authorized, h) = authorizeRegistration answer stream session peerId reg h0
     in if \<not> authorized then (Inr (), h)
        else if gen \<noteq> lifecycleGeneration h then (Inr (), h)
        else if session \<in> set (closedSessions h) \<or> \<not> stream_open stream h then (Inr (), h)
        else if isFederationPeerIdInUse peerId h then (federation_id_in_use P peerId, h)
        else
          thenS (case (if rg_role reg = broker then rg_brokerDomain reg else None) of
                   Some d \<Rightarrow> assertBrokerDomainCertificate P tls peerId d
                 | None \<Rightarrow> Inr (), h) (\<lambda>_ h1.
          thenS (publish_peer P peerId session (remote_peer P tls peerId stream session reg) h1) (\<lambda>_ h2.
          (let h3 = emitLifecycle Ev_registered peerId (Some (rg_role reg)) None h2 in
           thenS (if rg_role reg = guest then apply_remote_routes P peerId (rg_routedDomains reg) h3 else (Inr (), h3))
             (\<lambda>_ h4.
              (let h5 = write_frame stream (RegistrationResponse (getRoutedDomains P h4)) h4
               in if rg_role reg = broker then (Inr (), h5) else advertise_all P h5))))))"

section \<open>Revocation by a Guest\<close>

text \<open>The answer on the stream: HTTP status and body, written only while the stream is open.\<close>

definition respond_revocation :: "'p platform_scheme \<Rightarrow> nat \<Rightarrow> nat \<Rightarrow> revocation_status \<Rightarrow> jsstr option
    \<Rightarrow> (jsstr \<times> jsstr option) list option \<Rightarrow> Host \<Rightarrow> unit result \<times> Host" where
  "respond_revocation P stream code status message failed h =
     (if \<not> stream_open stream h then (Inr (), h)
      else case createGuestRevocationResponse P status message failed of
        Inl e \<Rightarrow> (Inl e, h)
      | Inr resp \<Rightarrow> (Inr (), write_frame stream (RevocationResponse code resp) h))"

text \<open>The checks when the request arrives: \<open>True\<close> when its body is to be read.\<close>

definition handleGuestRevocation_begin :: "'p platform_scheme \<Rightarrow> jsstr \<Rightarrow> nat \<Rightarrow> nat option \<Rightarrow> Host
    \<Rightarrow> bool result \<times> Host" where
  "handleGuestRevocation_begin P peerHeader stream session h =
    (let peerId = trim peerHeader;
         peer = (if 0 < length peerId then map_of (h_peers h) peerId else None)
     in case peer of
          Some p \<Rightarrow>
            (if rp_role p \<noteq> guest
             then thenS (respond_revocation P stream 403 rev_error (Some (js ''Only registered Guests can revoke routes'')) None h)
                    (\<lambda>_ h1. (Inr False, h1))
             else if rp_transport p \<noteq> over_h2 \<or> rp_session p \<noteq> session
             then thenS (respond_revocation P stream 403 rev_error (Some (js ''Revocation request rejected: session mismatch'')) None h)
                    (\<lambda>_ h1. (Inr False, h1))
             else (Inr True, h))
        | None \<Rightarrow> thenS (respond_revocation P stream 403 rev_error (Some (js ''Only registered Guests can revoke routes'')) None h)
                    (\<lambda>_ h1. (Inr False, h1)))"

definition failed_domains :: "jsstr list \<Rightarrow> (jsstr \<times> jsstr option) list" where
  "failed_domains ds = map (\<lambda>d. (d, Some (js ''Domain is not registered for this Guest''))) ds"

text \<open>\<open>body\<close> is what reading and parsing the body gave: an error, or the \<open>domains\<close> field (\<open>None\<close> when it is
  missing).\<close>

definition handleGuestRevocation_finish :: "'p platform_scheme \<Rightarrow> jsstr \<Rightarrow> nat \<Rightarrow> thrown + jsstr list option \<Rightarrow> Host
    \<Rightarrow> unit result \<times> Host" where
  "handleGuestRevocation_finish P peerId stream body h =
     (case bindE body (\<lambda>ds. createGuestRevocationRequest P (Some (case ds of Some xs \<Rightarrow> xs | None \<Rightarrow> []))) of
        Inl e \<Rightarrow> respond_revocation P stream 400 rev_error (Some (thrown_message e)) None h
      | Inr domains \<Rightarrow>
        (let ((revoked_domains, notFound), reg) = revokeRoutes peerId domains (routeRegistry h);
             h1 = h\<lparr>routeRegistry := reg\<rparr>;
             broadcast = (\<lambda>_ h2.
               thenS (advertise_created P (map (\<lambda>d. typed_event removed peerId d revoked None) revoked_domains)
                        (invalidateRouteAuthorizations h2)) (\<lambda>_ h3. advertise_all P h3))
         in if length revoked_domains = length domains
            then thenS (respond_revocation P stream 200 ack None None h1)
                   (if 0 < length revoked_domains then broadcast else (\<lambda>_ h2. (Inr (), h2)))
            else if 0 < length revoked_domains
            then thenS (respond_revocation P stream 200 partial (Some (js ''Some domains were not found''))
                          (Some (failed_domains notFound)) h1) broadcast
            else respond_revocation P stream 404 rev_error
                   (Some (js ''None of the requested domains are registered for this Guest'')) (Some (failed_domains notFound)) h1))"

end
