(* ===== verification/Host_Invariant.thy ===== *)
theory Host_Invariant
  imports Host_Guests
begin

text \<open>
  The invariant of the Host: well-formed route tables keyed by peer ids, the invariants of the lease pool, of
  the authorizer, of the local Brokers and of the links to other Hosts, and the agreement of the peer table with the table of remote Broker
  sessions. Every operation of the theory Host_Guests and every tick of the cleanup timer keeps it.
\<close>

lemma foldl_keeps: "(\<And>x s. I s \<Longrightarrow> I (f s x)) \<Longrightarrow> I s \<Longrightarrow> I (foldl f s xs)"
  by (induction xs arbitrary: s) auto

lemma check_keeps:
  fixes cb :: "'s cleanup_callbacks"
  assumes "I (snd (cb_removeExpired cb now (degradedRouteTimeoutMs c) s))"
    and "\<And>evs s. I s \<Longrightarrow> I (snd (cb_advertiseEvents cb evs s))" "\<And>s. I s \<Longrightarrow> I (snd (cb_advertiseRoutes cb s))"
    "\<And>s. I s \<Longrightarrow> I (snd (cb_advertiseFederated cb s))"
  shows "I (snd (check P cb now c s))"
proof -
  obtain r s1 where r: "cb_removeExpired cb now (degradedRouteTimeoutMs c) s = (r, s1)" by (metis surj_pair)
  with assms(1) have s1: "I s1" by simp
  have snd_I: "I (snd (thenS (if 0 < length evs then cb_advertiseEvents cb (map raw_of_event evs) s1 else (Inr (), s1))
      (\<lambda>_ s2. thenS (cb_advertiseRoutes cb s2) (\<lambda>_ s3. cb_advertiseFederated cb s3))))" for evs
    by (intro thenS_keeps [where I = I]) (auto simp: s1 assms)
  have case_snd: "snd (case m of (Inl e, s4) \<Rightarrow> ((Inl e, c), s4) | (Inr u, s4) \<Rightarrow> ((Inr (), g s4), s4)) = snd m"
    for m :: "unit result \<times> 's" and g
    by (auto split: prod.split sum.split)
  from s1 snd_I show ?thesis
    by (auto simp: check_def r Let_def case_snd split: sum.split)
qed

section \<open>Invariant\<close>

text \<open>Route tables are well formed and keyed by peer ids.\<close>

definition routes_ok :: "registry \<Rightarrow> bool" where
  "routes_ok reg \<longleftrightarrow> reg_inv reg \<and> list_all (\<lambda>e. id_ok (fst e)) (localRoutes reg) \<and>
     list_all (\<lambda>e. id_ok (fst e)) (degradedRoutes reg)"

definition remote_broker :: "RegisteredPeer \<Rightarrow> bool" where
  "remote_broker q \<longleftrightarrow> rp_role q = broker \<and> rp_transport q = over_h2"

text \<open>The peer table and the table of remote Broker sessions agree: a Broker id with sessions has a peer
  entry for one of them, and every remote Broker in the peer table has sessions.\<close>

definition sessions_ok :: "(jsstr \<times> RegisteredPeer) list \<Rightarrow> (jsstr \<times> (nat \<times> RegisteredPeer) list) list \<Rightarrow> bool" where
  "sessions_ok ps rs \<longleftrightarrow>
     (\<forall>p ms. map_of rs p = Some ms \<longrightarrow>
        (\<forall>s q. map_of ms s = Some q \<longrightarrow> remote_broker q \<and> rp_session q = Some s) \<and>
        (\<exists>q s. map_of ps p = Some q \<and> remote_broker q \<and> rp_session q = Some s \<and> map_of ms s \<noteq> None)) \<and>
     (\<forall>p q. map_of ps p = Some q \<longrightarrow> remote_broker q \<longrightarrow> map_of rs p \<noteq> None)"

definition host_inv :: "Host \<Rightarrow> bool" where
  "host_inv h \<longleftrightarrow> fed_inv h \<and> routes_ok (routeRegistry h) \<and> pool_inv (leasePool h) \<and>
     (\<forall>a. routeAuthorizer h = Some a \<longrightarrow> auth_inv a) \<and> brokers_ok h \<and>
     list_all (\<lambda>e. id_ok (fst e)) (h_peers h) \<and> distinct (map fst (h_peers h)) \<and> sessions_ok (h_peers h) (remoteBrokerSessions h)"

lemma host_inv_quiet: "quiet h h' \<Longrightarrow> host_inv h \<Longrightarrow> host_inv h'"
  by (auto simp: host_inv_def quietD quiet_brokers quiet_fed)

lemma host_inv_fields [simp]:
  "host_inv (h\<lparr>closedStreams := x\<rparr>) = host_inv h" "host_inv (h\<lparr>wsIdleLeases := y\<rparr>) = host_inv h"
  "host_inv (h\<lparr>activeLocalRequests := z\<rparr>) = host_inv h" "host_inv (h\<lparr>abortedControllers := w\<rparr>) = host_inv h"
  "host_inv (h\<lparr>degradedCleanup := c\<rparr>) = host_inv h" "host_inv (h\<lparr>closedSessions := u\<rparr>) = host_inv h"
  by (simp_all add: host_inv_def brokers_ok_def)

lemma host_inv_registry: "host_inv h \<Longrightarrow> routes_ok reg \<Longrightarrow> host_inv (h\<lparr>routeRegistry := reg\<rparr>)"
  by (simp add: host_inv_def brokers_ok_def)

lemma host_invD:
  "host_inv h \<Longrightarrow> routes_ok (routeRegistry h)" "host_inv h \<Longrightarrow> reg_inv (routeRegistry h)"
  "host_inv h \<Longrightarrow> pool_inv (leasePool h)" "host_inv h \<Longrightarrow> map_of (h_peers h) p = Some q \<Longrightarrow> id_ok p"
  "host_inv h \<Longrightarrow> sessions_ok (h_peers h) (remoteBrokerSessions h)"
  by (auto simp: host_inv_def routes_ok_def dest: list_all_map_of)

subsection \<open>Registry operations\<close>

lemma routes_ok_set_local: "routes_ok reg \<Longrightarrow> id_ok p \<Longrightarrow> routes_ok (snd (setLocalRoutes P p ds reg))"
  using setLocalRoutes_inv [of reg P p ds] by (auto simp: routes_ok_def setLocalRoutes_def split: sum.splits)

lemma routes_ok_remove_local: "routes_ok reg \<Longrightarrow> routes_ok (removeLocalRoutes p reg)"
  using inv_del_local [of reg p] by (simp add: routes_ok_def removeLocalRoutes_def)

lemma routes_ok_revoke: "routes_ok reg \<Longrightarrow> routes_ok (snd (revokeRoutes p ds reg))"
  using revokeRoutes_inv [of reg p ds]
    list_all_map_of [of "\<lambda>e. id_ok (fst e)" "localRoutes reg" p]
  by (auto simp: routes_ok_def revokeRoutes_def Let_def split: option.splits)

lemma routes_ok_degrade: "routes_ok reg \<Longrightarrow> routes_ok (snd (setDegraded P now p reg))"
  using setDegraded_inv [of reg P now p] list_all_map_of [of "\<lambda>e. id_ok (fst e)" "localRoutes reg" p]
  by (auto simp: routes_ok_def setDegraded_def Let_def split: option.splits sum.splits)

lemma routes_ok_restore: "routes_ok reg \<Longrightarrow> routes_ok (snd (restoreRoutes P p reg))"
  using restoreRoutes_inv [of reg P p] list_all_map_of [of "\<lambda>e. id_ok (fst e)" "degradedRoutes reg" p]
  by (auto simp: routes_ok_def restoreRoutes_def Let_def split: option.splits sum.splits)

lemma list_all_foldl_delete: "list_all Q m \<Longrightarrow> list_all Q (foldl (\<lambda>m p. AList.delete p m) m ps)"
  by (induction ps arbitrary: m) simp_all

lemma routes_ok_expire: "routes_ok reg \<Longrightarrow> routes_ok (snd (removeExpiredDegradedRoutes now t reg))"
  using removeExpired_inv [of reg now t]
  by (simp add: routes_ok_def removeExpiredDegradedRoutes_def Let_def list_all_foldl_delete)

subsection \<open>Host operations\<close>

lemma inv_on_registry: "host_inv h \<Longrightarrow> routes_ok (snd (f (routeRegistry h))) \<Longrightarrow> host_inv (snd (on_registry f h))"
  by (auto simp: on_registry_def intro: host_inv_registry split: prod.split)

lemma inv_invalidate: "host_inv h \<Longrightarrow> host_inv (invalidateRouteAuthorizations h)"
  by (auto simp: host_inv_def invalidateRouteAuthorizations_def brokers_ok_def invalidate_inv)

lemma inv_clear_ws: "host_inv h \<Longrightarrow> host_inv (clearWsIdleLeases p h)"
  by (simp add: clearWsIdleLeases_def split: option.split)

lemma inv_abort: "host_inv h \<Longrightarrow> host_inv (abortLocalRequestsForPeer p h)"
  by (simp add: abortLocalRequestsForPeer_def split: option.split)

lemma inv_advertise_created: "host_inv h \<Longrightarrow> host_inv (snd (advertise_created P raws h))"
  by (auto simp: advertise_created_def split: sum.split intro: host_inv_quiet [OF quiet_advertiseEvents])

lemma inv_advertise_all: "host_inv h \<Longrightarrow> host_inv (snd (advertise_all P h))"
  unfolding advertise_all_def
  by (rule host_inv_quiet [OF quiet_advertiseFederated host_inv_quiet [OF quiet_advertiseRoutes]])

lemma inv_emit [simp]: "host_inv (emitLifecycle n p r e h) = host_inv h"
  by (simp add: emitLifecycle_def host_inv_def brokers_ok_def)

lemma inv_write [simp]: "host_inv (write_frame st f h) = host_inv h"
  by (simp add: write_frame_def host_inv_def brokers_ok_def)

lemma emit_fields [simp]:
  "h_peers (emitLifecycle n p r e h) = h_peers h" "routeRegistry (emitLifecycle n p r e h) = routeRegistry h"
  "remoteBrokerSessions (emitLifecycle n p r e h) = remoteBrokerSessions h" "leasePool (emitLifecycle n p r e h) = leasePool h"
  "closedStreams (emitLifecycle n p r e h) = closedStreams h" "routeAuthorizer (emitLifecycle n p r e h) = routeAuthorizer h"
  "localBrokers (emitLifecycle n p r e h) = localBrokers h" "degradedCleanup (emitLifecycle n p r e h) = degradedCleanup h"
  by (simp_all add: emitLifecycle_def)

lemma emit_update [simp]:
  "(emitLifecycle n p r e h)\<lparr>h_peers := x\<rparr> = emitLifecycle n p r e (h\<lparr>h_peers := x\<rparr>)"
  by (simp add: emitLifecycle_def)

lemma inv_timer [simp]:
  "host_inv (startDegradedRouteCleanupTimer h) = host_inv h" "host_inv (stopDegradedRouteCleanupTimer h) = host_inv h"
  by (simp_all add: startDegradedRouteCleanupTimer_def stopDegradedRouteCleanupTimer_def)

lemma inv_set_domains: "host_inv h \<Longrightarrow> id_ok p \<Longrightarrow> host_inv (snd (set_domains P p ds h))"
  by (auto simp: set_domains_def split: sum.split intro: inv_on_registry routes_ok_set_local host_invD)

lemma inv_replace_degraded: "host_inv h \<Longrightarrow> id_ok p \<Longrightarrow> host_inv (snd (replace_degraded P p ds h))"
  unfolding replace_degraded_def Let_def
  by (intro thenS_keeps [where I = host_inv])
    (auto intro: inv_on_registry routes_ok_restore host_invD inv_set_domains host_inv_registry routes_ok_remove_local)

lemma inv_degrade_guest: "host_inv h \<Longrightarrow> host_inv (snd (degrade_guest P now p reason h))"
proof -
  have "host_inv (h\<lparr>leasePool := failQueuedLeaseAcquisitions P p reason (closeGuestLeases p (leasePool h))\<rparr>)"
    if "host_inv h" for h
    using that failQueued_inv [OF closeGuestLeases_inv, of "leasePool h" P p] by (simp add: host_inv_def brokers_ok_def)
  then show "host_inv h \<Longrightarrow> ?thesis"
    unfolding degrade_guest_def Let_def
    by (intro thenS_keeps [where I = host_inv])
      (auto intro: inv_on_registry routes_ok_degrade host_invD inv_clear_ws inv_invalidate)
qed

lemma inv_announce: "host_inv h \<Longrightarrow> host_inv (snd (announce_degraded P p h))"
  unfolding announce_degraded_def Let_def
  by (auto intro!: thenS_keeps [where I = host_inv] inv_advertise_created)

lemma inv_set_peer:
  assumes "host_inv h" and "id_ok p" and "\<not> remote_broker q" and "map_of (remoteBrokerSessions h) p = None"
  shows "host_inv (h\<lparr>h_peers := AList.update p q (h_peers h)\<rparr>)"
  using assms by (auto simp: host_inv_def brokers_ok_def sessions_ok_def update_conv' distinct_update)

lemma inv_del_peer:
  assumes "host_inv h" and "map_of (remoteBrokerSessions h) p = None"
  shows "host_inv (h\<lparr>h_peers := AList.delete p (h_peers h)\<rparr>)"
  using assms by (auto simp: host_inv_def brokers_ok_def sessions_ok_def delete_conv' distinct_delete)

lemma no_sessions:
  assumes "host_inv h"
  shows "map_of (h_peers h) p = None \<Longrightarrow> map_of (remoteBrokerSessions h) p = None"
    and "map_of (h_peers h) p = Some q \<Longrightarrow> \<not> remote_broker q \<Longrightarrow> map_of (remoteBrokerSessions h) p = None"
proof -
  note ok = host_invD(5) [OF assms, unfolded sessions_ok_def, THEN conjunct1, rule_format, of p]
  show "map_of (h_peers h) p = None \<Longrightarrow> map_of (remoteBrokerSessions h) p = None"
    using ok by (cases "map_of (remoteBrokerSessions h) p") auto
  show "map_of (h_peers h) p = Some q \<Longrightarrow> \<not> remote_broker q \<Longrightarrow> map_of (remoteBrokerSessions h) p = None"
    using ok by (cases "map_of (remoteBrokerSessions h) p") auto
qed

lemma inv_apply_local: "host_inv h \<Longrightarrow> id_ok p \<Longrightarrow> host_inv (snd (apply_local_routes P p ds h))"
  unfolding apply_local_routes_def Let_def
  by (auto intro!: thenS_keeps [where I = host_inv] inv_replace_degraded inv_set_domains inv_advertise_created inv_invalidate)

lemma inv_apply_remote: "host_inv h \<Longrightarrow> id_ok p \<Longrightarrow> host_inv (snd (apply_remote_routes P p ds h))"
  unfolding apply_remote_routes_def Let_def
  by (auto intro!: thenS_keeps [where I = host_inv] inv_replace_degraded inv_set_domains inv_advertise_created inv_invalidate)

lemma inv_authorize_local: "host_inv h \<Longrightarrow> host_inv (snd (authorizeLocalRegistration P answer p role h))"
  by (simp add: authorizeLocalRegistration_def Let_def split: admission.split)

lemma inv_attachLocalGuest:
  assumes "host_inv h" and "id_ok p"
  shows "host_inv (snd (attachLocalGuest_finish P p gen ds listener answer h))"
proof -
  have "host_inv (snd (thenS (extractLocalGuestListener P p listener, emitLifecycle Ev_connected p (Some guest) None x) (\<lambda>_ y.
      thenS (apply_local_routes P p ds (y\<lparr>h_peers := AList.update p (local_guest_peer p) (h_peers y)\<rparr>))
        (\<lambda>_ z. advertise_all P (emitLifecycle Ev_registered p (Some guest) None z)))))"
    if "host_inv x" "map_of (h_peers x) p = None" for x
    using that assms(2) no_sessions(1) [OF that]
    by (cases "extractLocalGuestListener P p listener")
      (auto intro!: thenS_keeps [where I = host_inv] inv_apply_local inv_advertise_all inv_set_peer
        simp: local_guest_peer_def remote_broker_def)
  then show ?thesis
    unfolding attachLocalGuest_finish_def Let_def
    by (auto intro!: thenS_keeps [where I = host_inv] inv_authorize_local assms(1))
qed

lemma inv_attachLocalBroker:
  assumes "host_inv h" and "id_ok p"
  shows "host_inv (snd (attachLocalBroker_finish P p bd gen answer h))"
proof -
  have "host_inv (x\<lparr>localBrokers := localBrokers x @ [(a, createLocalBrokerState rs)], h_peers := AList.update p q (h_peers x)\<rparr>)"
    if "host_inv x" "map_of (h_peers x) p = None" "\<not> remote_broker q" for x a rs q
  proof -
    have "host_inv (x\<lparr>localBrokers := localBrokers x @ [(a, createLocalBrokerState rs)]\<rparr>)"
      using that by (auto simp: host_inv_def brokers_ok_def lb_inv_def lb_waiting_def createLocalBrokerState_def)
    from inv_set_peer [OF this assms(2) that(3)] no_sessions(1) [OF that(1,2)] show ?thesis by simp
  qed
  then show ?thesis
    unfolding attachLocalBroker_finish_def Let_def
    by (auto intro!: thenS_keeps [where I = host_inv] inv_authorize_local assms(1)
        simp: local_guest_peer_def remote_broker_def)
qed

lemma inv_revokeLocal: "host_inv h \<Longrightarrow> host_inv (snd (revokeLocalRoutes P c p ds h))"
proof -
  assume h: "host_inv h"
  obtain r reg where r: "revokeRoutes p ds (routeRegistry h) = (r, reg)" by (metis surj_pair)
  then have "host_inv (h\<lparr>routeRegistry := reg\<rparr>)"
    using routes_ok_revoke [OF host_invD(1) [OF h], of p ds] h by (simp add: host_inv_registry)
  then show ?thesis
    using h by (auto simp: revokeLocalRoutes_def r Let_def
        intro!: thenS_keeps [where I = host_inv] inv_advertise_created inv_advertise_all inv_invalidate)
qed

lemma inv_detachLocal:
  assumes "host_inv h"
  shows "host_inv (snd (detachLocalPeer P now p reason h))"
proof (cases "map_of (h_peers h) p")
  case (Some q)
  let ?h = "h\<lparr>h_peers := AList.delete p (h_peers h)\<rparr>"
  have close: "host_inv (with_local_broker (closeLocalBrokerState P reason) a x)" if "host_inv x" for a x
    using that close_inv by (blast intro: host_inv_quiet [OF quiet_with_local_broker])
  have "host_inv ?h" if "rp_transport q = in_process"
    using inv_del_peer [OF assms no_sessions(2) [OF assms Some]] that by (simp add: remote_broker_def)
  then show ?thesis
    using assms unfolding detachLocalPeer_def Some
    by (auto simp: Let_def split: option.split
        intro!: thenS_keeps [where I = host_inv] inv_degrade_guest inv_announce inv_abort inv_advertise_all close)
qed (use assms in \<open>simp add: detachLocalPeer_def\<close>)

text \<open>Brokers over HTTP/2: joining and leaving keep the two tables in step.\<close>

lemma sessions_okD:
  assumes "sessions_ok ps rs" and "map_of rs p = Some ms"
  shows "map_of ms s = Some q \<Longrightarrow> remote_broker q \<and> rp_session q = Some s"
    and "\<exists>q s. map_of ps p = Some q \<and> remote_broker q \<and> rp_session q = Some s \<and> map_of ms s \<noteq> None"
  using assms(1) [unfolded sessions_ok_def, THEN conjunct1, rule_format, OF assms(2)] by blast+

lemma sessions_publish_first:
  assumes "sessions_ok ps rs" and "map_of ps p = None" and "remote_broker q" and "rp_session q = Some s"
  shows "sessions_ok (AList.update p q ps) (AList.update p [(s, q)] rs)"
  using assms by (auto simp: sessions_ok_def update_conv')

lemma sessions_publish_join:
  assumes "sessions_ok ps rs" and "map_of rs p = Some ms" and "remote_broker q" and "rp_session q = Some s"
  shows "sessions_ok ps (AList.update p (AList.update s q ms) rs)"
proof -
  have "\<exists>q' s'. map_of ps p = Some q' \<and> remote_broker q' \<and> rp_session q' = Some s' \<and> map_of (AList.update s q ms) s' \<noteq> None"
    using assms(1,2) by (fastforce simp: sessions_ok_def update_conv')
  with assms show ?thesis by (simp add: sessions_ok_def update_conv')
qed

lemma sessions_detach_last:
  assumes "sessions_ok ps rs" and "map_of rs p = Some ms" and "AList.delete s ms = []"
  shows "sessions_ok (AList.delete p ps) (AList.delete p rs)"
    and "\<exists>q. map_of ps p = Some q \<and> rp_session q = Some s"
proof -
  show "sessions_ok (AList.delete p ps) (AList.delete p rs)"
    using assms(1) by (auto simp: sessions_ok_def delete_conv')
  obtain q t where q: "map_of ps p = Some q" "rp_session q = Some t" "map_of ms t \<noteq> None"
    using sessions_okD(2) [OF assms(1,2)] by blast
  moreover have "t = s" using q(3) assms(3) by (metis delete_conv' fun_upd_other map_of.simps(1))
  ultimately show "\<exists>q. map_of ps p = Some q \<and> rp_session q = Some s" by simp
qed

lemma sessions_detach_member:
  assumes "sessions_ok ps rs" and "map_of rs p = Some ms" and "AList.delete s ms = (t, m) # rest"
  shows "sessions_ok (if \<exists>q. map_of ps p = Some q \<and> rp_session q = Some s then AList.update p m ps else ps)
           (AList.update p (AList.delete s ms) rs)"
proof -
  let ?ms = "AList.delete s ms"
  have ms: "\<And>u q. map_of ms u = Some q \<Longrightarrow> remote_broker q \<and> rp_session q = Some u"
    using sessions_okD(1) [OF assms(1,2)] by blast
  then have all: "\<And>u q. map_of ?ms u = Some q \<Longrightarrow> remote_broker q \<and> rp_session q = Some u"
    by (auto simp: delete_conv' split: if_splits)
  have m: "map_of ?ms t = Some m" by (simp add: assms(3))
  obtain q u where q: "map_of ps p = Some q" "remote_broker q" "rp_session q = Some u" "map_of ms u \<noteq> None"
    using sessions_okD(2) [OF assms(1,2)] by blast
  have others: "\<And>r ms'. map_of (AList.update p ?ms rs) r = Some ms' \<Longrightarrow> r \<noteq> p \<Longrightarrow> map_of rs r = Some ms'"
    by (simp add: update_conv')
  show ?thesis
  proof (cases "u = s")
    case True
    with q have "sessions_ok (AList.update p m ps) (AList.update p ?ms rs)"
      using assms(1) all m all [OF m] by (auto simp: sessions_ok_def update_conv')
    with q True show ?thesis by auto
  next
    case False
    then have "map_of ?ms u \<noteq> None" using q(4) by (simp add: delete_conv')
    with q False have "sessions_ok ps (AList.update p ?ms rs)"
      using assms(1) all by (auto simp: sessions_ok_def update_conv')
    with q False show ?thesis by auto
  qed
qed

lemma inv_tables:
  assumes "host_inv h" and "sessions_ok ps rs" and "list_all (\<lambda>e. id_ok (fst e)) ps" and "distinct (map fst ps)"
  shows "host_inv (h\<lparr>remoteBrokerSessions := rs, h_peers := ps\<rparr>)" "host_inv (h\<lparr>h_peers := ps, remoteBrokerSessions := rs\<rparr>)"
  using assms by (simp_all add: host_inv_def brokers_ok_def)

lemma inv_detachRemote:
  assumes "host_inv h"
  shows "host_inv (detachRemoteBrokerSession p s h)"
proof (cases "map_of (remoteBrokerSessions h) p")
  case (Some ms)
  let ?leads = "\<exists>q. map_of (h_peers h) p = Some q \<and> rp_session q = Some s"
  have leads: "(case map_of (h_peers h) p of None \<Rightarrow> False | Some q \<Rightarrow> rp_session q = Some s) = ?leads"
    by (auto split: option.split)
  have ok: "sessions_ok (h_peers h) (remoteBrokerSessions h)" "list_all (\<lambda>e. id_ok (fst e)) (h_peers h)"
    "distinct (map fst (h_peers h))"
    using assms by (auto simp: host_inv_def)
  have p: "id_ok p" using no_sessions(1) [OF assms] Some host_invD(4) [OF assms] by (cases "map_of (h_peers h) p") auto
  show ?thesis
  proof (cases "AList.delete s ms")
    case Nil
    from sessions_detach_last [OF ok(1) Some Nil] have "?leads"
      and "sessions_ok (AList.delete p (h_peers h)) (AList.delete p (remoteBrokerSessions h))" by auto
    with inv_tables(1) [OF assms this(2)] ok(2,3) show ?thesis
      using assms Some Nil leads by (auto simp: detachRemoteBrokerSession_def Let_def distinct_delete split: option.split)
  next
    case (Cons tm rest)
    obtain t m where tm: "tm = (t, m)" by (cases tm)
    note s = sessions_detach_member [OF ok(1) Some Cons [unfolded tm]]
    have "list_all (\<lambda>e. id_ok (fst e)) (if ?leads then AList.update p m (h_peers h) else h_peers h)"
      and "distinct (map fst (if ?leads then AList.update p m (h_peers h) else h_peers h))"
      using ok(2,3) p by (simp_all add: distinct_update)
    from inv_tables(1) [OF assms s this] show ?thesis
      using assms by (auto simp add: detachRemoteBrokerSession_def Some Cons tm Let_def leads split: option.split if_splits)
  qed
qed (use assms in \<open>simp add: detachRemoteBrokerSession_def\<close>)

lemma inv_controlClose: "host_inv h \<Longrightarrow> host_inv (handleRemoteBrokerControlClose r p s c h)"
  by (auto simp: handleRemoteBrokerControlClose_def inv_detachRemote split: option.split)

lemma inv_publish:
  assumes "host_inv h" and "id_ok p" and "rp_transport q = over_h2" and "rp_session q = Some s"
  shows "host_inv (snd (publish_peer P p s q h))"
proof -
  have ok: "sessions_ok (h_peers h) (remoteBrokerSessions h)" "list_all (\<lambda>e. id_ok (fst e)) (h_peers h)"
    "distinct (map fst (h_peers h))"
    using assms(1) by (auto simp: host_inv_def)
  show ?thesis
  proof (cases "map_of (h_peers h) p")
    case None
    from None show ?thesis
      using inv_set_peer [OF assms(1,2) _ no_sessions(1) [OF assms(1) None], of q] assms ok
        inv_tables(2) [OF assms(1) sessions_publish_first [OF ok(1) None _ assms(4)]]
      by (auto simp: publish_peer_def remote_broker_def distinct_update Let_def)
  next
    case (Some e)
    have "h\<lparr>remoteBrokerSessions := rs\<rparr> = h\<lparr>remoteBrokerSessions := rs, h_peers := h_peers h\<rparr>" for rs by simp
    with Some show ?thesis
      using assms ok inv_tables(1) [OF assms(1) sessions_publish_join [OF ok(1) _ _ assms(4)]]
      by (auto simp: publish_peer_def already_registered_def remote_broker_def split: option.split)
  qed
qed

lemma inv_registerPeer:
  assumes "host_inv h" and "id_ok p"
  shows "host_inv (snd (registerPeer_finish P tls p st s gen reg answer h))"
proof -
  have a: "host_inv (snd (authorizeRegistration answer st s p reg h))"
    using assms(1) by (simp add: authorizeRegistration_def Let_def split: admission.split)
  obtain b h0 where b: "authorizeRegistration answer st s p reg h = (b, h0)" by (cases "authorizeRegistration answer st s p reg h")
  with a have h0: "host_inv h0" by simp
  have pub: "host_inv (snd (publish_peer P p s (remote_peer P tls p st s reg) x))" if "host_inv x" for x
    by (rule inv_publish [OF that assms(2)]) (simp_all add: remote_peer_def Let_def)
  show ?thesis
    unfolding registerPeer_finish_def b Let_def prod.case
    by (auto intro!: thenS_keeps [where I = host_inv] inv_apply_remote inv_advertise_all pub h0 assms(2))
qed

lemma inv_attachControl: "host_inv h \<Longrightarrow> host_inv (snd (attachGuestControlStream P p st h))"
  using host_invD(4) [of h p] no_sessions(2) [of h p]
  by (auto simp: attachGuestControlStream_def remote_broker_def split: option.split intro!: inv_set_peer)

lemma inv_respond: "host_inv h \<Longrightarrow> host_inv (snd (respond_revocation P st c status m f h))"
  by (auto simp: respond_revocation_def split: sum.split)

lemma inv_revocation: "host_inv h \<Longrightarrow> host_inv (snd (handleGuestRevocation_finish P p st body h))"
proof -
  assume h: "host_inv h"
  have "host_inv (h\<lparr>routeRegistry := reg\<rparr>)" if "revokeRoutes p ds (routeRegistry h) = (r, reg)" for ds r reg
    using routes_ok_revoke [OF host_invD(1) [OF h], of p ds] h that by (simp add: host_inv_registry)
  with h show ?thesis
    by (auto simp: handleGuestRevocation_finish_def Let_def split: sum.split prod.split
        intro!: thenS_keeps [where I = host_inv] inv_respond inv_advertise_created inv_advertise_all inv_invalidate)
qed

lemma inv_revocation_begin: "host_inv h \<Longrightarrow> host_inv (snd (handleGuestRevocation_begin P ph st s h))"
  by (auto simp: handleGuestRevocation_begin_def Let_def split: option.split
      intro!: thenS_keeps [where I = host_inv] inv_respond)

text \<open>Operations that only touch a Guest's routes and leases leave the Broker sessions alone.\<close>

lemma rbs_degrade: "remoteBrokerSessions (snd (degrade_guest P now p reason h)) = remoteBrokerSessions h"
  unfolding degrade_guest_def Let_def
  by (rule thenS_keeps [where I = "\<lambda>x. remoteBrokerSessions x = remoteBrokerSessions h"])
    (auto simp: on_registry_def clearWsIdleLeases_def invalidateRouteAuthorizations_def split: prod.split option.split)

lemma rbs_announce: "remoteBrokerSessions (snd (announce_degraded P p h)) = remoteBrokerSessions h"
  unfolding announce_degraded_def Let_def
  by (auto intro!: thenS_keeps [where I = "\<lambda>x. remoteBrokerSessions x = remoteBrokerSessions h"]
      simp: advertise_created_def quietD(6) [OF quiet_advertiseEvents] startDegradedRouteCleanupTimer_def split: sum.split)

lemma inv_remove_session_peer:
  assumes "host_inv h" and "map_of (remoteBrokerSessions h) p = None"
  shows "host_inv (snd (remove_session_peer P now p q h)) \<and>
    remoteBrokerSessions (snd (remove_session_peer P now p q h)) = remoteBrokerSessions h"
  unfolding remove_session_peer_def Let_def
  by (rule thenS_keeps [where I = "\<lambda>x. host_inv x \<and> remoteBrokerSessions x = remoteBrokerSessions h"])
    (auto intro!: thenS_keeps [where I = "\<lambda>x. host_inv x \<and> remoteBrokerSessions x = remoteBrokerSessions h"]
      simp: inv_degrade_guest rbs_degrade inv_announce rbs_announce inv_del_peer [OF assms])

lemma inv_removeSession:
  assumes "host_inv h"
  shows "host_inv (snd (removeSessionPeers P now s h))"
proof -
  define h1 where "h1 = foldl (\<lambda>h p. detachRemoteBrokerSession p s h) h (map fst (remoteBrokerSessions h))"
  define ls where "ls = filter (\<lambda>(p, q). rp_session q = Some s \<and> \<not> (rp_role q = broker \<and> rp_transport q = over_h2)) (h_peers h1)"
  have h1: "host_inv h1"
    unfolding h1_def by (rule foldl_keeps [where I = host_inv]) (simp_all add: assms inv_detachRemote)
  have gone: "map_of (remoteBrokerSessions h1) p = None" if "(p, q) \<in> set ls" for p q
  proof -
    have "map_of (h_peers h1) p = Some q" using that h1 by (auto simp: ls_def host_inv_def)
    with that show ?thesis using no_sessions(2) [OF h1] by (auto simp: ls_def remote_broker_def)
  qed
  have step: "host_inv (snd (remove_session_peer P now p q x)) \<and>
      remoteBrokerSessions (snd (remove_session_peer P now p q x)) = remoteBrokerSessions h1"
    if "(p, q) \<in> set ls" "host_inv x" "remoteBrokerSessions x = remoteBrokerSessions h1" for p q x
    using inv_remove_session_peer [OF that(2), of p P now q] gone [OF that(1)] that(3) by simp
  have "host_inv (snd (forS (\<lambda>(p, q). remove_session_peer P now p q) ls h1)) \<and>
      remoteBrokerSessions (snd (forS (\<lambda>(p, q). remove_session_peer P now p q) ls h1)) = remoteBrokerSessions h1"
    by (rule forS_keeps [where I = "\<lambda>x. host_inv x \<and> remoteBrokerSessions x = remoteBrokerSessions h1"])
      (use h1 step in auto)
  then show ?thesis
    unfolding removeSessionPeers_def Let_def h1_def [symmetric] ls_def [symmetric]
    by (auto intro!: thenS_keeps [where I = host_inv] inv_advertise_all)
qed

lemma inv_cleanup_tick:
  assumes "host_inv h"
  shows "host_inv (snd (cleanup_tick P now h))"
proof -
  let ?cb = "createDegradedCleanupCallbacks P"
  have "host_inv (snd (cb_removeExpired ?cb now t h))" for t
    using routes_ok_expire [OF host_invD(1) [OF assms], of now t] assms
    by (auto simp: createDegradedCleanupCallbacks_def Let_def split: prod.split intro!: inv_invalidate host_inv_registry)
  then have "host_inv (snd (check P ?cb now (degradedCleanup h) h))"
    by (rule check_keeps) (auto simp: createDegradedCleanupCallbacks_def intro: host_inv_quiet [OF quiet_advertiseEvents]
        host_inv_quiet [OF quiet_advertiseRoutes] host_inv_quiet [OF quiet_advertiseFederated])
  then show ?thesis by (auto simp: cleanup_tick_def Let_def split: prod.split)
qed

end
