(* ===== verification/Host_Federation.thy ===== *)
theory Host_Federation
  imports Host_Invariant
begin

text \<open>
  The Host as a member of a federation and its shutdown, \<open>packages/verser2-host/src/lib/node-http2-verser-host.ts\<close> and
  \<open>federation.ts\<close>: imported routes, the frames of a route stream, Hosts that link to this one
  (\<open>handleHostFederationStream\<close>, \<open>handleHostFederationRouteStream\<close>, \<open>removeInboundFederationHost\<close>), Hosts this one
  links to (\<open>connectUpstream\<close>, \<open>closeUpstreamLink\<close> and the close handlers), and \<open>close\<close>.

  A method that awaits is cut at its awaits. The frames that open a WebSocket between Hosts are in \<open>Vws_Open\<close>; the
  waiters for WebSocket streams are not part of the model.
\<close>

section \<open>Imported routes\<close>

definition getFederationHostId :: "'p platform_scheme \<Rightarrow> Host \<Rightarrow> jsstr result" where
  "getFederationHostId P h =
     (case optionsHostId h of
        Some i \<Rightarrow> (if length (trim i) = 0 then throwE P invalid_registration ''Host federation requires a configured hostId'' []
                   else createVerserHostId P (Some (JStr i)))
      | None \<Rightarrow> throwE P invalid_registration ''Host federation requires a configured hostId'' [])"

definition emit_error :: "Host \<Rightarrow> Host" where
  "emit_error h = h\<lparr>effects := effects h @ [Lifecycle Ev_error None None None]\<rparr>"

definition setImportedFederatedRoutes :: "'p platform_scheme \<Rightarrow> jsstr \<Rightarrow> json list \<Rightarrow> Host \<Rightarrow> VerserError list result \<times> Host" where
  "setImportedFederatedRoutes P upstreamId routes h =
     thenS (on_registry (setImportedRoutes P upstreamId routes) h) (\<lambda>update h1.
     (let errors = map snd (up_rejected update);
          h2 = foldl (\<lambda>h _. emit_error h) h1 (up_rejected update)
      in if \<not> up_changed update then (Inr errors, h2)
         else thenS (advertise_all P (invalidateRouteAuthorizations h2)) (\<lambda>_ h3. (Inr errors, h3))))"

definition removeImportedFederatedRoutes :: "'p platform_scheme \<Rightarrow> jsstr \<Rightarrow> Host \<Rightarrow> unit result \<times> Host" where
  "removeImportedFederatedRoutes P upstreamId h =
     advertise_all P (invalidateRouteAuthorizations (h\<lparr>routeRegistry := removeImportedRoutes upstreamId (routeRegistry h)\<rparr>))"

definition remove_imported_route :: "jsstr \<Rightarrow> jsstr \<Rightarrow> jsstr \<Rightarrow> Host \<Rightarrow> Host" where
  "remove_imported_route owner target dmn h =
    (let (was_there, reg) = removeImportedRoute owner target dmn (routeRegistry h);
         h1 = h\<lparr>routeRegistry := reg\<rparr>
     in if was_there then invalidateRouteAuthorizations h1 else h1)"

section \<open>Frames of a route stream\<close>

text \<open>\<open>createVerserRouteGeneration\<close> and \<open>createRouteLifecycleEvent\<close> on a value only cast to their argument type. Reading
  a property of a value that is not an object gives \<open>undefined\<close>, and \<open>trim\<close> of a value that is not a string is a
  \<open>TypeError\<close>.\<close>

definition generation_of_json :: "'p platform_scheme \<Rightarrow> jsstr \<Rightarrow> json \<Rightarrow> VerserRouteGeneration result" where
  "generation_of_json P fresh j =
     (case (case obj_get j ''generationId'' of None \<Rightarrow> JStr fresh | Some JNull \<Rightarrow> JStr fresh | Some v \<Rightarrow> v) of
        JStr g \<Rightarrow>
          (case obj_get j ''sessionId'' of
             None \<Rightarrow> createVerserRouteGeneration P fresh (Some g) None
           | Some (JStr s) \<Rightarrow> createVerserRouteGeneration P fresh (Some g) (Some s)
           | Some _ \<Rightarrow> bindE (createVerserRouteGeneration P fresh (Some g) None) (\<lambda>_. Inl NotAFunction))
      | _ \<Rightarrow> throwE P protocol_error ''generationId must be a non-empty string'' [(''field'', CStr (js ''generationId''))])"

definition event_of_json :: "'p platform_scheme \<Rightarrow> jsstr \<Rightarrow> json \<Rightarrow> VerserRouteLifecycleEvent result" where
  "event_of_json P fresh event =
     (case find (\<lambda>t. Some (JStr (event_type_string t)) = obj_get event ''type'') VALID_EVENT_TYPES of
        None \<Rightarrow> throwE P protocol_error ''Invalid route lifecycle event type''
                  [(''type'', CStr (stringOf P (case obj_get event ''type'' of Some t \<Rightarrow> t | None \<Rightarrow> JNull)))]
      | Some ty \<Rightarrow>
        (case map_option (\<lambda>r. (r, find (\<lambda>x. JStr (event_reason_string x) = r) VALID_EVENT_REASONS)) (obj_get event ''reason'') of
           Some (r, None) \<Rightarrow>
             throwE P protocol_error ''Invalid route lifecycle event reason'' [(''reason'', CStr (stringOf P r))]
         | reason \<Rightarrow>
             bindE (requireNonEmptyJson P (obj_get event ''targetId'') ''route lifecycle event targetId'') (\<lambda>t.
             bindE (requireNonEmptyJson P (obj_get event ''domain'') ''route lifecycle event domain'') (\<lambda>d.
             bindE (case obj_get event ''generation'' of
                      None \<Rightarrow> Inr None
                    | Some g \<Rightarrow> bindE (generation_of_json P fresh g) (\<lambda>gen. Inr (Some gen))) (\<lambda>gen.
             Inr \<lparr>ev_type = ty, ev_targetId = t, ev_domain = d, ev_reason = Option.bind reason snd, ev_generation = gen\<rparr>)))))"

fun string_of_json :: "json option \<Rightarrow> jsstr option" where
  "string_of_json (Some (JStr s)) = Some s"
| "string_of_json _ = None"

text \<open>A received event as it is passed on once its frame has been built.\<close>

definition raw_of_json :: "json \<Rightarrow> raw_lifecycle_event" where
  "raw_of_json event =
    (let text = (\<lambda>k. case string_of_json (obj_get event k) of Some s \<Rightarrow> s | None \<Rightarrow> []) in
     \<lparr>raw_type = text ''type'', raw_targetId = text ''targetId'', raw_domain = text ''domain'',
      raw_reason = string_of_json (obj_get event ''reason''),
      raw_generation = map_option (\<lambda>g. (string_of_json (obj_get g ''generationId''), string_of_json (obj_get g ''sessionId'')))
        (obj_get event ''generation'')\<rparr>)"

definition event_shape :: "json \<Rightarrow> bool" where
  "event_shape event \<longleftrightarrow> string_of_json (obj_get event ''type'') \<noteq> None \<and> obj_get event ''targetId'' \<noteq> None \<and>
     obj_get event ''domain'' \<noteq> None"

fun set_eid :: "json \<Rightarrow> json \<Rightarrow> json" where
  "set_eid eid (JObj es) = JObj (AList.update (js ''_eid'') eid es)"
| "set_eid eid j = j"

definition invalid_frame :: "'p platform_scheme \<Rightarrow> string \<Rightarrow> jsstr \<Rightarrow> 'b result" where
  "invalid_frame P what owner = throwE P protocol_error (''Invalid federated '' @ what) [(''ownerId'', CStr owner)]"

text \<open>The part for a lifecycle frame; \<open>fresh i\<close> is the id generated for the event at position \<open>i\<close> if it has none.\<close>

definition handle_lifecycle_frame :: "'p platform_scheme \<Rightarrow> (nat \<Rightarrow> jsstr) \<Rightarrow> jsstr \<Rightarrow> json \<Rightarrow> Host \<Rightarrow> unit result \<times> Host" where
  "handle_lifecycle_frame P fresh owner f h =
    (let eid = obj_get f ''_eid'' in
     if (case eid of Some i \<Rightarrow> seen_id i (seenFederationLifecycleEventIds h) | None \<Rightarrow> False) then (Inr (), h)
     else
       (let h1 = (case eid of
                    Some i \<Rightarrow> h\<lparr>seenFederationLifecycleEventIds := remember_id i (seenFederationLifecycleEventIds h)\<rparr>
                  | None \<Rightarrow> h)
        in case obj_get f ''events'' of
             Some (JArr events) \<Rightarrow>
               (if \<exists>e \<in> set events. \<not> event_shape e then (invalid_frame P ''route-lifecycle event'' owner, h1)
                else
                  thenS (advertise_checked (mapE (\<lambda>(i, e). event_of_json P (fresh i) e) (enumerate 0 events))
                           (map raw_of_json events) True h1) (\<lambda>_ h2.
                  (Inr (),
                   foldl (\<lambda>h e. if raw_type e = js ''removed''
                                then remove_imported_route owner (raw_targetId e) (raw_domain e) h else h)
                     (forwardFederationEventsToPeers owner (\<lambda>i. ForwardedFrame (set_eid i f)) eid h2)
                     (map raw_of_json events))))
           | _ \<Rightarrow> (invalid_frame P ''route-lifecycle control frame: missing events array'' owner, h1)))"

definition handleFederatedRouteFrame :: "'p platform_scheme \<Rightarrow> (nat \<Rightarrow> jsstr) \<Rightarrow> jsstr \<Rightarrow> json \<Rightarrow> Host \<Rightarrow> unit result \<times> Host" where
  "handleFederatedRouteFrame P fresh owner f h =
     (case obj_get f ''type'' of
        None \<Rightarrow> (invalid_frame P ''routes control frame'' owner, h)
      | Some t \<Rightarrow>
        (if t = JStr (js ''federated-routes'')
         then (case obj_get f ''routes'' of
                 Some (JArr routes) \<Rightarrow> thenS (setImportedFederatedRoutes P owner routes h) (\<lambda>_ h1. (Inr (), h1))
               | _ \<Rightarrow> (invalid_frame P ''routes control frame: missing routes array'' owner, h))
         else if t = JStr (js ''route-lifecycle'') then handle_lifecycle_frame P fresh owner f h
         else (throwE P protocol_error ''Invalid federated routes control frame''
                 [(''ownerId'', CStr owner), (''type'', CStr (stringOf P t))], h)))"

section \<open>Hosts that link to this one\<close>

definition identity_in_use :: "'p platform_scheme \<Rightarrow> jsstr \<Rightarrow> 'b result" where
  "identity_in_use P hid = throwE P invalid_registration ''Federated Host identity is already in use'' [(''hostId'', CStr hid)]"

text \<open>When the stream opens, when its body has been read, and when the authorization has answered. \<open>reservation\<close> is
  a new symbol.\<close>

definition handleHostFederationStream_open :: "'p platform_scheme \<Rightarrow> Host \<Rightarrow> (jsstr \<times> nat) result" where
  "handleHostFederationStream_open P h = bindE (getFederationHostId P h) (\<lambda>i. Inr (i, lifecycleGeneration h))"

definition handleHostFederationStream_read :: "'p platform_scheme \<Rightarrow> (json \<Rightarrow> jsnumber) \<Rightarrow> jsstr + json \<Rightarrow> nat option \<Rightarrow> nat \<Rightarrow> Host
    \<Rightarrow> (jsstr \<times> nat) result \<times> Host" where
  "handleHostFederationStream_read P toNum body session reservation h =
     (case (case body of
              Inl message \<Rightarrow> Inl message
            | Inr j \<Rightarrow> (case createVerserHostFederationHandshake P toNum j of Inl e \<Rightarrow> Inl (thrown_message e) | Inr hs \<Rightarrow> Inr hs)) of
        Inl cause \<Rightarrow> (throwE P protocol_error ''Invalid Host federation handshake'' [(''cause'', CStr cause)], h)
      | Inr hs \<Rightarrow>
        (let hid = hs_hostId hs in
         if map_of (h_peers h) hid \<noteq> None \<or> isFederationPeerIdInUse hid h then (identity_in_use P hid, h)
         else case session of
           None \<Rightarrow> (throwE P protocol_error ''Host federation stream has no HTTP/2 session'' [], h)
         | Some s \<Rightarrow>
             (Inr (hid, s),
              h\<lparr>pendingInboundFederationHosts := AList.update hid reservation (pendingInboundFederationHosts h)\<rparr>)))"

definition authorizeHostFederation :: "admission \<Rightarrow> nat \<Rightarrow> nat \<Rightarrow> jsstr \<Rightarrow> Host \<Rightarrow> bool \<times> Host" where
  "authorizeHostFederation answer stream session hid h =
     (case answer of
        Reject why \<Rightarrow>
          (let reason = (case why of Some r \<Rightarrow> r | None \<Rightarrow> js ''Host federation rejected by policy'');
               h1 = emitLifecycle Ev_error hid None None h;
               h2 = (if stream_open stream h1 then write_frame stream (RegistrationClosed reason) h1 else h1)
           in (False, h2\<lparr>closedSessions := closedSessions h2 @ [session]\<rparr>))
      | _ \<Rightarrow> (True, h))"

definition handleHostFederationStream_finish :: "'p platform_scheme \<Rightarrow> jsstr \<Rightarrow> nat \<Rightarrow> nat \<Rightarrow> nat \<Rightarrow> nat \<Rightarrow> jsstr \<Rightarrow> admission \<Rightarrow> Host
    \<Rightarrow> unit result \<times> Host" where
  "handleHostFederationStream_finish P localHostId gen reservation stream session hid answer h0 =
    (let (authorized, h1) = authorizeHostFederation answer stream session hid h0;
         h = (if map_of (pendingInboundFederationHosts h1) hid = Some reservation
              then h1\<lparr>pendingInboundFederationHosts := AList.delete hid (pendingInboundFederationHosts h1)\<rparr> else h1)
     in if \<not> authorized then (Inr (), h)
        else if gen \<noteq> lifecycleGeneration h \<or> session \<in> set (closedSessions h) \<or> \<not> stream_open stream h then (Inr (), h)
        else if map_of (h_peers h) hid \<noteq> None then (identity_in_use P hid, h)
        else if map_of (inboundFederationHosts h) hid \<noteq> None
        then (throwE P invalid_registration ''Federated Host is already connected'' [(''hostId'', CStr hid)], h)
        else (Inr (), write_frame stream (FederationRegistered localHostId)
               (emitLifecycle Ev_registered hid None None
                 (h\<lparr>inboundFederationHosts := AList.update hid (new_link hid session) (inboundFederationHosts h)\<rparr>))))"

definition handleHostFederationRouteStream :: "'p platform_scheme \<Rightarrow> jsstr \<Rightarrow> nat option \<Rightarrow> nat \<Rightarrow> Host \<Rightarrow> unit result \<times> Host" where
  "handleHostFederationRouteStream P header session stream h =
     (case link_of P ''route'' header session h of
        Inl e \<Rightarrow> (Inl e, h)
      | Inr (hid, link) \<Rightarrow>
          writeFederatedRoutes P stream hid
            (h\<lparr>inboundFederationHosts := AList.update hid (link\<lparr>il_routeStream := Some stream\<rparr>) (inboundFederationHosts h)\<rparr>))"

definition removeInboundFederationHost :: "'p platform_scheme \<Rightarrow> jsstr \<Rightarrow> Host \<Rightarrow> unit result \<times> Host" where
  "removeInboundFederationHost P hid h =
     (if map_of (inboundFederationHosts h) hid = None then (Inr (), h)
      else thenS (removeImportedFederatedRoutes P hid (remove_link P hid h)) (\<lambda>_ h1.
           (Inr (), emitLifecycle Ev_disconnected hid None None h1)))"

section \<open>Hosts this one links to\<close>

definition connectUpstream_begin :: "'p platform_scheme \<Rightarrow> json option \<Rightarrow> jsstr \<Rightarrow> Host
    \<Rightarrow> (NormalizedUpstreamPool option \<times> jsstr \<times> jsstr) result \<times> Host" where
  "connectUpstream_begin P pool upstream h =
     (case bindE (validateUpstreamPool P pool) (\<lambda>p. bindE (getFederationHostId P h) (\<lambda>i. bindE (createPeerId P upstream) (\<lambda>u. Inr (p, i, u)))) of
        Inl e \<Rightarrow> (Inl e, h)
      | Inr (p, i, u) \<Rightarrow>
        (if map_of (upstreamLinks h) u \<noteq> None \<or> u \<in> set (pendingUpstreamConnections h) \<or> map_of (h_peers h) u \<noteq> None \<or>
            map_of (inboundFederationHosts h) u \<noteq> None \<or> map_of (pendingInboundFederationHosts h) u \<noteq> None
         then (throwE P invalid_registration ''Upstream is already connected'' [(''upstreamId'', CStr u)], h)
         else (Inr (p, i, u), h\<lparr>pendingUpstreamConnections := pendingUpstreamConnections h @ [u]\<rparr>)))"

text \<open>Once the session, the handshake and the two streams are there, and once the pool has been filled.\<close>

definition new_upstream :: "jsstr \<Rightarrow> jsstr \<Rightarrow> nat \<Rightarrow> nat \<Rightarrow> nat \<Rightarrow> NormalizedUpstreamPool option \<Rightarrow> UpstreamLink" where
  "new_upstream upstreamId remoteHostId session routeStream requestStream pool =
     \<lparr>ul_upstreamId = upstreamId, ul_remoteHostId = remoteHostId, ul_session = session, ul_routeStream = routeStream,
      ul_requestStream = requestStream, ul_upstreamPool = pool, ul_requestStreams = [requestStream],
      ul_activeRequestStreams = [], ul_opening = False, ul_closing = False\<rparr>"

definition connectUpstream_linked :: "UpstreamLink \<Rightarrow> Host \<Rightarrow> Host" where
  "connectUpstream_linked link h = h\<lparr>upstreamLinks := AList.update (ul_upstreamId link) link (upstreamLinks h)\<rparr>"

definition no_longer_pending :: "jsstr \<Rightarrow> Host \<Rightarrow> Host" where
  "no_longer_pending u h = h\<lparr>pendingUpstreamConnections := removeAll u (pendingUpstreamConnections h)\<rparr>"

definition connectUpstream_failed :: "jsstr \<Rightarrow> nat \<Rightarrow> Host \<Rightarrow> Host" where
  "connectUpstream_failed u session h = no_longer_pending u (h\<lparr>closedSessions := closedSessions h @ [session]\<rparr>)"

definition connectUpstream_finish :: "'p platform_scheme \<Rightarrow> jsstr \<Rightarrow> nat \<Rightarrow> Host \<Rightarrow> unit result \<times> Host" where
  "connectUpstream_finish P u session h =
     (case advertiseFederatedRoutes P (emitLifecycle Ev_connected u None None h) of
        (Inl e, h1) \<Rightarrow> (Inl e, connectUpstream_failed u session h1)
      | (Inr _, h1) \<Rightarrow> (Inr (), no_longer_pending u h1))"

definition handleUpstreamSessionClose :: "'p platform_scheme \<Rightarrow> jsstr \<Rightarrow> Host \<Rightarrow> unit result \<times> Host" where
  "handleUpstreamSessionClose P u h =
     (case map_of (upstreamLinks h) u of
        None \<Rightarrow> (Inr (), h)
      | Some link \<Rightarrow>
          thenS (removeImportedFederatedRoutes P u (h\<lparr>upstreamLinks := AList.delete u (upstreamLinks h)\<rparr>)) (\<lambda>_ h1.
          (Inr (), emitLifecycle (if ul_closing link then Ev_closed else Ev_disconnected) u None None h1)))"

definition handleUpstreamRouteStreamClose :: "'p platform_scheme \<Rightarrow> jsstr \<Rightarrow> Host \<Rightarrow> unit result \<times> Host" where
  "handleUpstreamRouteStreamClose P u h =
     (case map_of (upstreamLinks h) u of
        None \<Rightarrow> (Inr (), h)
      | Some link \<Rightarrow>
          handleUpstreamSessionClose P u
            (if ul_session link \<notin> set (closedSessions h) then h\<lparr>closedSessions := closedSessions h @ [ul_session link]\<rparr> else h))"

text \<open>Closing a link destroys its session; the close event of the session ends it.\<close>

definition close_streams :: "nat list \<Rightarrow> Host \<Rightarrow> Host" where
  "close_streams sts h = h\<lparr>closedStreams := closedStreams h @ filter (\<lambda>st. stream_open st h) sts\<rparr>"

definition closeUpstreamLink_begin :: "'p platform_scheme \<Rightarrow> jsstr \<Rightarrow> Host \<Rightarrow> unit result \<times> Host" where
  "closeUpstreamLink_begin P u h =
     (case map_of (upstreamLinks h) u of
        None \<Rightarrow> (Inr (), h)
      | Some link \<Rightarrow>
          thenS (removeImportedFederatedRoutes P u
                   (h\<lparr>upstreamLinks := AList.update u (link\<lparr>ul_closing := True\<rparr>) (upstreamLinks h)\<rparr>)) (\<lambda>_ h1.
          (let h2 = close_streams (ul_routeStream link # ul_requestStream link # ul_requestStreams link) h1
           in (Inr (), h2\<lparr>closedSessions := closedSessions h2 @ [ul_session link]\<rparr>))))"

definition closeUpstreamLink :: "'p platform_scheme \<Rightarrow> jsstr \<Rightarrow> Host \<Rightarrow> unit result \<times> Host" where
  "closeUpstreamLink P u h = thenS (closeUpstreamLink_begin P u h) (\<lambda>_ h1. handleUpstreamSessionClose P u h1)"

section \<open>Shutdown\<close>

definition emit_closed :: "jsstr \<Rightarrow> Host \<Rightarrow> Host" where
  "emit_closed reason h = h\<lparr>effects := effects h @ [Lifecycle Ev_closed None None (Some reason)]\<rparr>"

definition close_begin :: "Host \<Rightarrow> Host" where
  "close_begin h = invalidateRouteAuthorizations (stopDegradedRouteCleanupTimer
     (h\<lparr>lifecycleGeneration := lifecycleGeneration h + 1, pendingInboundFederationHosts := []\<rparr>))"

text \<open>The rest of \<open>close\<close>, after every upstream link has been closed; \<open>running\<close> says whether there was a server, and
  \<open>sessions\<close> are its sessions.\<close>

definition close_rest :: "'p platform_scheme \<Rightarrow> bool \<Rightarrow> nat list \<Rightarrow> jsstr \<Rightarrow> Host \<Rightarrow> Host" where
  "close_rest P running sessions reason h =
     (if \<not> running then emit_closed reason (h\<lparr>routeRegistry := clear (routeRegistry h)\<rparr>)
      else
        (let h1 = foldl (\<lambda>h (_, peer). case rp_localBroker peer of
                           Some a \<Rightarrow> with_local_broker (closeLocalBrokerState P reason) a h | None \<Rightarrow> h) h (h_peers h);
             controls = concat (map (\<lambda>peer. case rp_controlStream peer of Some st \<Rightarrow> [st] | None \<Rightarrow> [])
                          (map snd (h_peers h1) @ remote_members h1));
             h2 = abortAllLocalRequests (close_streams controls h1);
             h3 = failAllFederatedRequestStreamWaiters P (js ''Host closing: '' @ reason)
                    (h2\<lparr>leasePool := failAllQueuedLeaseAcquisitions P reason (closeAllLeases (leasePool h2))\<rparr>);
             links = concat (map (\<lambda>(_, link). case (il_routeStream link, il_requestStream link) of
                         (Some r, Some q) \<Rightarrow> [r, q] | (Some r, None) \<Rightarrow> [r] | (None, Some q) \<Rightarrow> [q] | _ \<Rightarrow> [])
                       (inboundFederationHosts h3));
             h4 = close_streams links h3
         in emit_closed reason
              (h4\<lparr>closedSessions := closedSessions h4 @ sessions, h_peers := [], remoteBrokerSessions := [],
                  inboundFederationHosts := [], routeRegistry := clear (routeRegistry h4)\<rparr>)))"

definition close_host :: "'p platform_scheme \<Rightarrow> bool \<Rightarrow> nat list \<Rightarrow> jsstr \<Rightarrow> Host \<Rightarrow> unit result \<times> Host" where
  "close_host P running sessions reason h =
    (let h1 = close_begin h in
     thenS (forS (\<lambda>(u, _). closeUpstreamLink P u) (upstreamLinks h1) h1) (\<lambda>_ h2.
     (Inr (), close_rest P running sessions reason h2)))"

section \<open>The links are a part of the Host\<close>

text \<open>The operations on links leave the rest of the Host alone.\<close>

lemma more_simple [simp]:
  "FedStreams.more (fed_settle p out s) = FedStreams.more s" "FedStreams.more (clear_fed_timer p s) = FedStreams.more s"
  "FedStreams.more (mark_settled p s) = FedStreams.more s" "FedStreams.more (set_queue h ws s) = FedStreams.more s"
  "FedStreams.more (remove_waiter h p s) = FedStreams.more s" "FedStreams.more (take_stream h l st s) = FedStreams.more s"
  "FedStreams.more (set_busy h l s) = FedStreams.more s" "FedStreams.more (new_waiter h b t p s) = FedStreams.more s"
  "FedStreams.more (enqueue_waiter h p s) = FedStreams.more s"
  by (simp_all add: fed_settle_def clear_fed_timer_def mark_settled_def set_queue_def remove_waiter_def take_stream_def
      set_busy_def new_waiter_def enqueue_waiter_def split: option.split)

lemma more_callbacks [simp]:
  "FedStreams.more (fail_pooled e h p s) = FedStreams.more s" "FedStreams.more (resolvePooled P h p st s) = FedStreams.more s"
  "FedStreams.more (resolveStream P h p st s) = FedStreams.more s" "FedStreams.more (waiter_timeout P p s) = FedStreams.more s"
  "FedStreams.more (waiter_abort P p s) = FedStreams.more s"
  by (simp_all add: fail_pooled_def resolvePooled_def resolveStream_def waiter_timeout_def waiter_abort_def Let_def split: option.split)

lemma more_resolve [simp]: "FedStreams.more (waiter_resolve P h p st s) = FedStreams.more s"
  by (simp add: waiter_resolve_def split: option.split)

lemma more_resolveNext [simp]: "FedStreams.more (resolveNextFederatedRequestStreamWaiter P h s) = FedStreams.more s"
  by (simp add: resolveNextFederatedRequestStreamWaiter_def Let_def split: list.split option.split)

lemma more_failWaiters [simp]:
  "FedStreams.more (failFederatedRequestStreamWaiters P h m s) = FedStreams.more s"
  "FedStreams.more (failAllFederatedRequestStreamWaiters P m s) = FedStreams.more s"
proof -
  show fail: "FedStreams.more (failFederatedRequestStreamWaiters P h m s) = FedStreams.more s" for h s
    unfolding failFederatedRequestStreamWaiters_def
    by (rule foldl_keeps [where I = "\<lambda>x. FedStreams.more x = FedStreams.more s"]) auto
  show "FedStreams.more (failAllFederatedRequestStreamWaiters P m s) = FedStreams.more s"
    unfolding failAllFederatedRequestStreamWaiters_def
    by (rule foldl_keeps [where I = "\<lambda>x. FedStreams.more x = FedStreams.more s"]) (auto simp: fail)
qed

lemma more_links [simp]:
  "FedStreams.more (snd (acquireFederatedRequestStream P h ms ab s)) = FedStreams.more s"
  "FedStreams.more (snd (handleHostFederationRequestStream P msg hdr sess pol st s)) = FedStreams.more s"
  "FedStreams.more (plain_stream_close h st s) = FedStreams.more s" "FedStreams.more (pooled_stream_close P h st s) = FedStreams.more s"
  "FedStreams.more (remove_link P h s) = FedStreams.more s"
  by (auto simp: acquireFederatedRequestStream_def acquire_pooled_def handleHostFederationRequestStream_def plain_stream_close_def
      pooled_stream_close_def remove_link_def Let_def split: option.split sum.split prod.split)

lemma inv_links: "host_inv h \<Longrightarrow> fed_inv h' \<Longrightarrow> FedStreams.more h' = FedStreams.more h \<Longrightarrow> host_inv h'"
  by (cases h; cases h') (simp add: host_inv_def brokers_ok_def)

lemma host_inv_fed: "host_inv h \<Longrightarrow> fed_inv h"
  by (simp add: host_inv_def)

section \<open>The invariant is kept\<close>

lemma routes_ok_imported:
  "routes_ok reg \<Longrightarrow> routes_ok (snd (setImportedRoutes P u rs reg))" "routes_ok reg \<Longrightarrow> routes_ok (removeImportedRoutes u reg)"
  "routes_ok reg \<Longrightarrow> routes_ok (snd (removeImportedRoute u t d reg))" "routes_ok reg \<Longrightarrow> routes_ok (clear reg)"
  using setImportedRoutes_inv [of reg P u rs] inv_del_imported [of reg u] removeImportedRoute_inv [of reg u t d] clear_inv [of reg]
  by (auto simp: routes_ok_def setImportedRoutes_def removeImportedRoutes_def removeImportedRoute_def clear_def Let_def
      split: sum.split option.split prod.split)

lemma inv_effects [simp]: "host_inv (h\<lparr>effects := e\<rparr>) = host_inv h"
  by (simp add: host_inv_def brokers_ok_def)

lemma inv_bookkeeping [simp]:
  "host_inv (h\<lparr>closedSessions := ss\<rparr>) = host_inv h" "host_inv (h\<lparr>upstreamLinks := us\<rparr>) = host_inv h"
  "host_inv (h\<lparr>pendingInboundFederationHosts := ps\<rparr>) = host_inv h" "host_inv (h\<lparr>pendingUpstreamConnections := qs\<rparr>) = host_inv h"
  "host_inv (h\<lparr>lifecycleGeneration := n\<rparr>) = host_inv h" "host_inv (h\<lparr>seenFederationLifecycleEventIds := ids\<rparr>) = host_inv h"
  by (simp_all add: host_inv_def brokers_ok_def)

lemma inv_emit_error [simp]: "host_inv (emit_error h) = host_inv h" "host_inv (emit_closed r h) = host_inv h"
  by (simp_all add: emit_error_def emit_closed_def)

lemma inv_setImported: "host_inv h \<Longrightarrow> host_inv (snd (setImportedFederatedRoutes P u rs h))"
proof -
  assume h: "host_inv h"
  have "host_inv (foldl (\<lambda>h _. emit_error h) x xs)" if "host_inv x" for x and xs :: "'b list"
    by (rule foldl_keeps [where I = host_inv]) (auto simp: that)
  with h show ?thesis
    unfolding setImportedFederatedRoutes_def Let_def
    by (auto intro!: thenS_keeps [where I = host_inv] inv_on_registry routes_ok_imported(1) host_invD(1) inv_advertise_all inv_invalidate)
qed

lemma inv_removeImported: "host_inv h \<Longrightarrow> host_inv (snd (removeImportedFederatedRoutes P u h))"
  unfolding removeImportedFederatedRoutes_def
  by (intro inv_advertise_all inv_invalidate host_inv_registry routes_ok_imported(2) host_invD(1))

lemma inv_remove_imported_route: "host_inv h \<Longrightarrow> host_inv (remove_imported_route u t d h)"
  using routes_ok_imported(3) [OF host_invD(1), of h u t d]
  by (auto simp: remove_imported_route_def Let_def split: prod.split intro!: inv_invalidate host_inv_registry)

lemma inv_frame: "host_inv h \<Longrightarrow> host_inv (snd (handleFederatedRouteFrame P fresh owner f h))"
proof -
  have removes: "host_inv (foldl (\<lambda>h e. if raw_type e = js ''removed'' then remove_imported_route owner (raw_targetId e) (raw_domain e) h
      else h) x es)" if "host_inv x" for x es
    by (rule foldl_keeps [where I = host_inv]) (auto simp: that inv_remove_imported_route)
  have lifecycle: "host_inv (snd (handle_lifecycle_frame P fresh owner f x))" if x: "host_inv x" for x
  proof -
    have seen: "host_inv (case obj_get f ''_eid'' of
        Some i \<Rightarrow> x\<lparr>seenFederationLifecycleEventIds := remember_id i (seenFederationLifecycleEventIds x)\<rparr> | None \<Rightarrow> x)"
      using x by (simp split: option.split)
    have "host_inv (snd (thenS (advertise_checked made evs True y) (\<lambda>_ h2. (Inr (), foldl (\<lambda>h e. if raw_type e = js ''removed''
        then remove_imported_route owner (raw_targetId e) (raw_domain e) h else h)
        (forwardFederationEventsToPeers owner mk eid h2) evs))))" if "host_inv y" for made evs y mk eid
      by (rule thenS_keeps [where I = host_inv])
        (simp_all add: that host_inv_quiet [OF quiet_advertise_checked] host_inv_quiet [OF quiet_forward] removes)
    from this [OF seen] x seen show ?thesis
      by (cases "obj_get f ''events''") (simp_all add: handle_lifecycle_frame_def Let_def split: json.split)
  qed
  have "host_inv (snd (thenS (setImportedFederatedRoutes P owner rs x) (\<lambda>_ h1. (Inr (), h1))))" if "host_inv x" for rs x
    by (rule thenS_keeps [where I = host_inv]) (simp_all add: that inv_setImported)
  with lifecycle show "host_inv h \<Longrightarrow> ?thesis"
    by (simp add: handleFederatedRouteFrame_def split: option.split json.split)
qed

lemma inv_federation_read: "host_inv h \<Longrightarrow> host_inv (snd (handleHostFederationStream_read P toNum body s r h))"
  by (auto simp: handleHostFederationStream_read_def Let_def split: sum.split option.split)

lemma inv_federation_finish:
  assumes "host_inv h"
  shows "host_inv (snd (handleHostFederationStream_finish P lid gen r st s hid answer h))"
proof -
  have "host_inv (x\<lparr>inboundFederationHosts := AList.update hid (new_link hid s) (inboundFederationHosts x)\<rparr>)" if "host_inv x" for x
    by (rule inv_links [OF that new_link_inv [OF host_inv_fed [OF that]]]) simp
  note link = this this [of "x\<lparr>pendingInboundFederationHosts := p\<rparr>" for x p, simplified]
  have "host_inv (snd (authorizeHostFederation answer st s hid h))"
    using assms by (simp add: authorizeHostFederation_def Let_def split: admission.split)
  with link show ?thesis
    by (cases "authorizeHostFederation answer st s hid h") (simp add: handleHostFederationStream_finish_def Let_def)
qed

lemma inv_routeStream: "host_inv h \<Longrightarrow> host_inv (snd (handleHostFederationRouteStream P hdr sess st h))"
proof (cases "link_of P ''route'' hdr sess h")
  case (Inr hl)
  assume h: "host_inv h"
  obtain hid l where hl: "hl = (hid, l)" and l: "map_of (inboundFederationHosts h) hid = Some l"
    using Inr by (auto simp: link_of_def not_registered_def throwE_def Let_def split: option.splits if_splits)
  have "host_inv (h\<lparr>inboundFederationHosts := AList.update hid (l\<lparr>il_routeStream := Some st\<rparr>) (inboundFederationHosts h)\<rparr>)"
    using route_stream_inv [OF host_inv_fed [OF h] l] by (intro inv_links [OF h]) simp_all
  then show ?thesis
    by (simp add: handleHostFederationRouteStream_def Inr hl host_inv_quiet [OF quiet_writeFederatedRoutes])
qed (simp add: handleHostFederationRouteStream_def)

lemma inv_removeInbound: "host_inv h \<Longrightarrow> host_inv (snd (removeInboundFederationHost P hid h))"
  using inv_links [OF _ remove_link_inv [OF host_inv_fed]]
  by (auto simp: removeInboundFederationHost_def intro!: thenS_keeps [where I = host_inv] inv_removeImported)

lemma inv_upstream:
  assumes "host_inv h"
  shows "host_inv (snd (connectUpstream_begin P pool u h))" "host_inv (connectUpstream_linked link h)"
    "host_inv (connectUpstream_failed u s h)" "host_inv (snd (connectUpstream_finish P u s h))"
    "host_inv (snd (handleUpstreamSessionClose P u h))" "host_inv (snd (handleUpstreamRouteStreamClose P u h))"
    "host_inv (snd (closeUpstreamLink_begin P u h))"
proof -
  have session: "host_inv (snd (handleUpstreamSessionClose P u x))" if "host_inv x" for x
    using that by (auto simp: handleUpstreamSessionClose_def split: option.split
        intro!: thenS_keeps [where I = host_inv] inv_removeImported)
  from session [OF assms] show "host_inv (snd (handleUpstreamSessionClose P u h))" .
  show "host_inv (snd (connectUpstream_begin P pool u h))"
    using assms by (auto simp: connectUpstream_begin_def split: sum.split prod.split)
  show "host_inv (connectUpstream_linked link h)" "host_inv (connectUpstream_failed u s h)"
    using assms by (simp_all add: connectUpstream_linked_def connectUpstream_failed_def no_longer_pending_def)
  have "host_inv (snd (advertiseFederatedRoutes P (emitLifecycle Ev_connected u None None h)))"
    using assms by (simp add: host_inv_quiet [OF quiet_advertiseFederated])
  then show "host_inv (snd (connectUpstream_finish P u s h))"
    by (auto simp: connectUpstream_finish_def connectUpstream_failed_def no_longer_pending_def split: prod.split sum.split)
  show "host_inv (snd (handleUpstreamRouteStreamClose P u h))"
    using assms by (auto simp: handleUpstreamRouteStreamClose_def session split: option.split)
  show "host_inv (snd (closeUpstreamLink_begin P u h))"
    using assms by (auto simp: closeUpstreamLink_begin_def close_streams_def Let_def split: option.split
        intro!: thenS_keeps [where I = host_inv] inv_removeImported)
qed

lemma inv_close:
  assumes "host_inv h"
  shows "host_inv (close_begin h)" and "host_inv (close_rest P running sessions reason h)"
proof -
  show "host_inv (close_begin h)" using assms by (simp add: close_begin_def inv_invalidate)
  let ?close = "\<lambda>h (_ :: jsstr, peer). case rp_localBroker peer of
      Some a \<Rightarrow> with_local_broker (closeLocalBrokerState P reason) a h | None \<Rightarrow> h"
  define h1 where "h1 = foldl ?close h (h_peers h)"
  have h1: "host_inv h1" unfolding h1_def
    by (rule foldl_keeps [where I = host_inv])
      (auto simp: assms split: option.split intro: host_inv_quiet [OF quiet_with_local_broker [OF close_inv]])
  have abort: "host_inv (abortAllLocalRequests x)" if "host_inv x" for x
    unfolding abortAllLocalRequests_def by (rule foldl_keeps [where I = host_inv]) (simp_all add: that inv_abort)
  have leases: "host_inv (x\<lparr>leasePool := failAllQueuedLeaseAcquisitions P reason (closeAllLeases (leasePool x))\<rparr>)" if "host_inv x" for x
    using that failAllQueued_inv [OF closeAllLeases_inv, of "leasePool x" P reason] by (simp add: host_inv_def brokers_ok_def)
  have waiters: "host_inv (failAllFederatedRequestStreamWaiters P m x)" if "host_inv x" for x m
    by (rule inv_links [OF that failAllWaiters_inv [OF host_inv_fed [OF that]]]) simp
  have streams [simp]: "host_inv (close_streams sts x) = host_inv x" for sts x by (simp add: close_streams_def)
  have final: "host_inv (x\<lparr>closedSessions := ss, h_peers := [], remoteBrokerSessions := [], inboundFederationHosts := [],
      routeRegistry := clear reg\<rparr>)" if "host_inv x" "routes_ok reg" for x ss reg
  proof -
    have "fed_inv (x\<lparr>inboundFederationHosts := []\<rparr>)"
      using that(1) streams_subset [of x "x\<lparr>inboundFederationHosts := []\<rparr>"] by (simp add: host_inv_def fed_inv_def)
    then have "fed_inv (x\<lparr>closedSessions := ss, h_peers := [], remoteBrokerSessions := [], inboundFederationHosts := [],
        routeRegistry := clear reg\<rparr>)"
      by (simp add: fed_inv_def promises_ok_def queued_def streams_ok_def granted_def)
    with that routes_ok_imported(4) [OF that(2)] show ?thesis
      by (simp add: host_inv_def brokers_ok_def sessions_ok_def)
  qed
  show "host_inv (close_rest P running sessions reason h)"
    using assms host_inv_registry [OF assms routes_ok_imported(4) [OF host_invD(1) [OF assms]]]
    unfolding close_rest_def Let_def h1_def [symmetric]
    by (simp add: final host_invD(1) waiters leases abort h1)
qed

end
