(* ===== verification/Host_System.thy ===== *)
theory Host_System
  imports Host_Federation
begin

text \<open>
  The Host as a whole: the step relation of everything that can happen to it, its invariant in every reachable
  state, and what advertising, the cleanup tick, departing Guests and shutdown achieve.
\<close>

section \<open>Reachable Hosts\<close>

text \<open>Operations cut at an await go on in a later state than the one they began in, so their first part is only
  known to have succeeded in some earlier state.\<close>

inductive host_step :: "'p platform_scheme \<Rightarrow> Host \<Rightarrow> Host \<Rightarrow> bool" for P where
  attach_guest: "attachLocalGuest_begin P g h0 = Inr (p, gen) \<Longrightarrow>
    host_step P h (snd (attachLocalGuest_finish P p gen ds listener answer h))"
| attach_broker: "attachLocalBroker_begin P b dmn legacy h0 = Inr (p, bd, gen) \<Longrightarrow>
    host_step P h (snd (attachLocalBroker_finish P p bd gen answer h))"
| revoke_local: "host_step P h (snd (revokeLocalRoutes P handleClosed p ds h))"
| detach_local: "host_step P h (snd (detachLocalPeer P now p reason h))"
| register: "registerPeer_begin P sess reg h0 = Inr (p, s, gen) \<Longrightarrow>
    host_step P h (snd (registerPeer_finish P tls p st s gen reg answer h))"
| guest_control: "host_step P h (snd (attachGuestControlStream P p st h))"
| control_closed: "host_step P h (handleRemoteBrokerControlClose running p s st h)"
| session_closed: "host_step P h (snd (removeSessionPeers P now s h))"
| revocation_request: "host_step P h (snd (handleGuestRevocation_begin P header st sess h))"
| revocation_body: "host_step P h (snd (handleGuestRevocation_finish P p st body h))"
| tick: "host_step P h (snd (cleanup_tick P now h))"
| route_frame: "host_step P h (snd (handleFederatedRouteFrame P fresh owner f h))"
| federation_read: "host_step P h (snd (handleHostFederationStream_read P toNum hs sess r h))"
| federation_finish: "host_step P h (snd (handleHostFederationStream_finish P lid gen r st s hid answer h))"
| federation_route: "host_step P h (snd (handleHostFederationRouteStream P header sess st h))"
| federation_gone: "host_step P h (snd (removeInboundFederationHost P hid h))"
| request_stream: "st \<notin> set (granted h) \<Longrightarrow> (\<And>g k. map_of (inboundFederationHosts h) g = Some k \<Longrightarrow> st \<notin> link_free k) \<Longrightarrow>
    host_step P h (snd (handleHostFederationRequestStream P msg header sess policy st h))"
| request_acquire: "host_step P h (snd (acquireFederatedRequestStream P hid ms aborted h))"
| request_timer: "p \<in> fst ` set (fed_timers h) \<Longrightarrow> host_step P h (waiter_timeout P p h)"
| request_abort: "p \<in> set (queued h) \<Longrightarrow> host_step P h (waiter_abort P p h)"
| plain_closed: "host_step P h (plain_stream_close hid st h)"
| pooled_closed: "(\<And>l. map_of (inboundFederationHosts h) hid = Some l \<Longrightarrow> il_requestPool l \<noteq> None) \<Longrightarrow>
    host_step P h (pooled_stream_close P hid st h)"
| upstream_begin: "host_step P h (snd (connectUpstream_begin P pool u h))"
| upstream_linked: "host_step P h (connectUpstream_linked link h)"
| upstream_failed: "host_step P h (connectUpstream_failed u s h)"
| upstream_finish: "host_step P h (snd (connectUpstream_finish P u s h))"
| upstream_session: "host_step P h (snd (handleUpstreamSessionClose P u h))"
| upstream_route: "host_step P h (snd (handleUpstreamRouteStreamClose P u h))"
| upstream_close: "host_step P h (snd (closeUpstreamLink_begin P u h))"
| leases: "pool_step P (leasePool h) q \<Longrightarrow> host_step P h (h\<lparr>leasePool := q\<rparr>)"
| authorizer: "routeAuthorizer h = Some a \<Longrightarrow> auth_step P a a' \<Longrightarrow> host_step P h (h\<lparr>routeAuthorizer := Some a'\<rparr>)"
| local_broker: "map_of (localBrokers h) a = Some b \<Longrightarrow> lb_step P b b' \<Longrightarrow>
    host_step P h (h\<lparr>localBrokers := AList.update a b' (localBrokers h)\<rparr>)"
| streams_closed: "host_step P h (h\<lparr>closedStreams := cs, closedSessions := ss\<rparr>)"
| close_first: "host_step P h (close_begin h)"
| close_last: "host_step P h (close_rest P running sessions reason h)"

inductive host_reachable :: "'p platform_scheme \<Rightarrow> Host \<Rightarrow> bool" for P where
  host_created: "new_Host P host maxHop auth ttl negTtl ms = Inr h \<Longrightarrow> host_reachable P h"
| host_stepped: "host_reachable P h \<Longrightarrow> host_step P h h' \<Longrightarrow> host_reachable P h'"

lemma begin_ids:
  "attachLocalGuest_begin P g h = Inr (p, gen) \<Longrightarrow> id_ok p"
  "attachLocalBroker_begin P b dmn legacy h = Inr (p, bd, gen) \<Longrightarrow> id_ok p"
  "registerPeer_begin P sess reg h = Inr (p, s, gen) \<Longrightarrow> id_ok p"
  by (auto simp: attachLocalGuest_begin_def attachLocalBroker_begin_def registerPeer_begin_def createPeerId_def result_simps
      already_registered_def federation_id_in_use_def throwE_def id_ok_def Let_def split: if_splits option.splits)

lemma inv_components:
  assumes "host_inv h"
  shows "pool_step P (leasePool h) q \<Longrightarrow> host_inv (h\<lparr>leasePool := q\<rparr>)"
    and "routeAuthorizer h = Some a \<Longrightarrow> auth_step P a a' \<Longrightarrow> host_inv (h\<lparr>routeAuthorizer := Some a'\<rparr>)"
    and "map_of (localBrokers h) i = Some b \<Longrightarrow> lb_step P b b' \<Longrightarrow> host_inv (h\<lparr>localBrokers := AList.update i b' (localBrokers h)\<rparr>)"
proof -
  show "pool_step P (leasePool h) q \<Longrightarrow> host_inv (h\<lparr>leasePool := q\<rparr>)"
    using assms pool_step_inv by (auto simp: host_inv_def brokers_ok_def)
  show "routeAuthorizer h = Some a \<Longrightarrow> auth_step P a a' \<Longrightarrow> host_inv (h\<lparr>routeAuthorizer := Some a'\<rparr>)"
    using assms auth_step_inv by (auto simp: host_inv_def brokers_ok_def)
  assume b: "map_of (localBrokers h) i = Some b" "lb_step P b b'"
  have "lb_inv b" using assms b(1) list_all_map_of [of "\<lambda>e. lb_inv (snd e)"] by (fastforce simp: host_inv_def brokers_ok_def)
  with b(2) have "lb_inv b'" by cases (simp_all add: update_inv wait_inv close_inv emit_inv)
  with assms show "host_inv (h\<lparr>localBrokers := AList.update i b' (localBrokers h)\<rparr>)"
    by (simp add: host_inv_def brokers_ok_def list_all_update)
qed

lemmas links_inv = request_stream_inv acquire_inv timeout_inv abort_inv plain_close_inv pooled_close_inv

lemma host_step_inv: "host_step P h h' \<Longrightarrow> host_inv h \<Longrightarrow> host_inv h'"
proof (induction rule: host_step.induct)
  case (streams_closed h cs ss)
  then show ?case by (simp add: host_inv_def brokers_ok_def)
qed (auto simp: begin_ids inv_attachLocalGuest inv_attachLocalBroker inv_revokeLocal inv_detachLocal inv_registerPeer
    inv_attachControl inv_controlClose inv_removeSession inv_revocation_begin inv_revocation inv_cleanup_tick inv_frame
    inv_federation_read inv_federation_finish inv_routeStream inv_removeInbound inv_upstream inv_components inv_close
    intro: inv_links [OF _ links_inv(1)] inv_links [OF _ links_inv(2)] inv_links [OF _ links_inv(3)] inv_links [OF _ links_inv(4)]
      inv_links [OF _ links_inv(5)] inv_links [OF _ links_inv(6)] host_inv_fed)

lemma new_Host_inv: "new_Host P host maxHop auth ttl negTtl ms = Inr h \<Longrightarrow> host_inv h"
proof -
  assume "new_Host P host maxHop auth ttl negTtl ms = Inr h"
  then obtain reg a d where reg: "createHostRouteRegistry P host maxHop = Inr reg" and h: "routeRegistry h = reg"
    "leasePool h = empty_pool" "routeAuthorizer h = (if auth then Some (new_authorizer (of_int a) (of_int d)) else None)"
    "localBrokers h = []" "h_peers h = []" "remoteBrokerSessions h = []" "inboundFederationHosts h = []" "fed_outcomes h = []"
    "federatedRequestStreamWaiters h = []" "fed_timers h = []" "fed_next h = 0"
    by (auto simp: new_Host_def result_simps)
  have "localRoutes reg = []" "degradedRoutes reg = []"
    using reg by (auto simp: createHostRouteRegistry_def result_simps throwE_def Let_def split: if_splits)
  with createHostRouteRegistry_inv [OF reg] have "routes_ok reg" by (simp add: routes_ok_def)
  then show ?thesis
    by (simp add: host_inv_def h brokers_ok_def sessions_ok_def empty_pool_inv new_authorizer_inv fed_inv_def promises_ok_def
        streams_ok_def queued_def granted_def)
qed

lemma host_reachable_inv: "host_reachable P h \<Longrightarrow> host_inv h"
  by (induction rule: host_reachable.induct) (blast intro: new_Host_inv host_step_inv)+

section \<open>Advertising never throws\<close>

definition event_ok :: "VerserRouteLifecycleEvent \<Rightarrow> bool" where
  "event_ok e \<longleftrightarrow> id_ok (ev_targetId e) \<and> id_ok (ev_domain e) \<and>
     (\<forall>g. ev_generation e = Some g \<longrightarrow> generation_ok g)"

lemma create_raw_of_event: "event_ok e \<Longrightarrow> createRouteLifecycleEvent P fresh (raw_of_event e) = Inr e"
  by (cases e; cases "ev_generation e"; cases "ev_reason e")
    (auto simp: event_ok_def id_ok_def createRouteLifecycleEvent_def raw_of_event_def find_event_type
      find_event_reason requireNonEmpty_valid createVerserRouteGeneration_id)

lemma create_typed_event:
  "id_ok t \<Longrightarrow> id_ok d \<Longrightarrow> (\<And>g. gen = Some g \<Longrightarrow> generation_ok g) \<Longrightarrow>
   createRouteLifecycleEvent P fresh (typed_event ty t d reason gen) =
     Inr \<lparr>ev_type = ty, ev_targetId = t, ev_domain = d, ev_reason = Some reason, ev_generation = gen\<rparr>"
  by (simp add: createRouteLifecycleEvent_typed id_ok_def)

lemma lifecycle_frame_ok:
  "list_all event_ok evs \<Longrightarrow> createBrokerRouteLifecycleControlFrame P fresh (map raw_of_event evs) = Inr evs"
  unfolding createBrokerRouteLifecycleControlFrame_def mapE_map
  by (intro mapE_Inr_id) (simp add: create_raw_of_event list_all_iff)

lemma advertiseEvents_ok:
  "list_all event_ok evs \<Longrightarrow> fst (advertiseRouteLifecycleEvents P (map raw_of_event evs) skip h) = Inr ()"
  by (simp add: advertiseRouteLifecycleEvents_def advertise_checked_def lifecycle_frame_ok Let_def)

lemma forS_total:
  assumes "\<And>x s. x \<in> set xs \<Longrightarrow> I s \<Longrightarrow> fst (f x s) = Inr () \<and> I (snd (f x s))" and "I s"
  shows "fst (forS f xs s) = Inr () \<and> I (snd (forS f xs s))"
  using assms
proof (induction xs arbitrary: s)
  case (Cons x xs)
  have "fst (f x s) = Inr () \<and> I (snd (f x s))" using Cons.prems by simp
  with Cons show ?case by (cases "f x s") simp
qed simp

lemma thenS_ok:
  "fst m = Inr a \<and> I (snd m) \<Longrightarrow> (\<And>s. I s \<Longrightarrow> fst (f a s) = Inr b) \<Longrightarrow> fst (thenS m f) = Inr b"
  by (cases m) auto

context collation
begin

lemma writeFederated_ok:
  assumes "reg_inv (routeRegistry h)"
  shows "\<exists>f. writeFederatedRoutes P st p h = (Inr (), write_frame st f h)"
proof -
  obtain rs where rs: "getFederatedRoutesForExport P (Some p) (routeRegistry h) = Inr rs"
    using export_eq [OF assms] by blast
  have "createFederatedRoutesControlFrame P rs = Inr rs"
    unfolding createFederatedRoutesControlFrame_def
    by (intro mapE_Inr_id createFederatedRouteRegistration_id) (rule export_routes(1) [OF assms rs])
  then show ?thesis by (auto simp: writeFederatedRoutes_def rs)
qed

lemma advertiseFederated_ok:
  assumes "reg_inv (routeRegistry h)"
  shows "fst (advertiseFederatedRoutes P h) = Inr ()"
proof -
  let ?I = "\<lambda>s. reg_inv (routeRegistry s)"
  have w: "fst (writeFederatedRoutes P st p s) = Inr () \<and> ?I (snd (writeFederatedRoutes P st p s))" if "?I s" for st p s
    using writeFederated_ok [OF that, of st p] that by (auto simp: write_frame_def)
  have "fst (forS (\<lambda>(_, link) h. if stream_open (ul_routeStream link) h
      then writeFederatedRoutes P (ul_routeStream link) (ul_remoteHostId link) h else (Inr (), h)) xs s) = Inr () \<and>
    ?I (snd (forS (\<lambda>(_, link) h. if stream_open (ul_routeStream link) h
      then writeFederatedRoutes P (ul_routeStream link) (ul_remoteHostId link) h else (Inr (), h)) xs s))" if "?I s" for xs s
    by (rule forS_total [where I = ?I]) (use that w in \<open>auto split: prod.split\<close>)
  moreover have "fst (forS (\<lambda>(_, link) h. case il_routeStream link of
      Some st \<Rightarrow> (if stream_open st h then writeFederatedRoutes P st (il_hostId link) h else (Inr (), h))
    | None \<Rightarrow> (Inr (), h)) xs s) = Inr ()" if "?I s" for xs s
    by (rule conjunct1 [OF forS_total [where I = ?I]]) (use that w in \<open>auto split: prod.split option.split\<close>)
  ultimately show ?thesis
    unfolding advertiseFederatedRoutes_def by (rule thenS_ok [where I = ?I]) (use assms in auto)
qed

lemma advertise_all_ok: "reg_inv (routeRegistry h) \<Longrightarrow> fst (advertise_all P h) = Inr ()"
  by (simp add: advertise_all_def advertiseFederated_ok quietD(1) [OF quiet_advertiseRoutes])

end

section \<open>Frames are written and stay written\<close>

definition wrote :: "Host \<Rightarrow> Host \<Rightarrow> bool" where
  "wrote h h' \<longleftrightarrow> set (effects h) \<subseteq> set (effects h')"

lemma wrote_refl [simp]: "wrote h h" and wrote_trans: "wrote a b \<Longrightarrow> wrote b c \<Longrightarrow> wrote a c"
  by (auto simp: wrote_def)

lemma wrote_step [simp]: "wrote h (emitLifecycle n p r e h)" "wrote h (write_frame st f h)"
  by (auto simp: wrote_def emitLifecycle_def write_frame_def)

lemma wrote_foldl: "(\<And>s x. wrote s (f s x)) \<Longrightarrow> wrote h (foldl f h xs)"
  by (rule foldl_keeps [where I = "wrote h"]) (auto intro: wrote_trans)

lemma wrote_remote: "wrote h (advertise_to_remote f peer h)"
  by (auto simp: advertise_to_remote_def split: option.split intro: wrote_trans [OF wrote_step(2) wrote_step(1)])

lemma wrote_local: "wrote h (advertise_to_local f peer h)"
  by (auto simp: advertise_to_local_def wrote_def emitLifecycle_def with_local_broker_def split: option.split)

lemma wrote_forward: "wrote h (forwardFederationEventsToPeers x mk eid h)"
proof -
  have "wrote s (forwardFederatedLifecycleEventsExcluding x f s)" for f s
    unfolding forwardFederatedLifecycleEventsExcluding_def Let_def
    by (intro wrote_trans [OF wrote_foldl wrote_foldl]) (auto split: option.split)
  moreover have "wrote h (snd (tagFederatedLifecycleFrame h))"
    by (simp add: tagFederatedLifecycleFrame_def Let_def wrote_def)
  ultimately show ?thesis
    by (auto simp: forwardFederationEventsToPeers_def split: option.split prod.split intro: wrote_trans)
qed

lemma wrote_advertiseRoutes: "wrote h (advertiseRoutes P h)"
  unfolding advertiseRoutes_def Let_def
  by (intro wrote_trans [OF wrote_foldl wrote_foldl]) (auto simp: wrote_local wrote_remote)

lemma wrote_advertiseFederated: "wrote h (snd (advertiseFederatedRoutes P h))"
  unfolding advertiseFederatedRoutes_def
  by (intro thenS_keeps [where I = "wrote h"] forS_keeps [where I = "wrote h"])
    (auto simp: writeFederatedRoutes_def split: sum.split option.split intro: wrote_trans)

text \<open>Every session of every remote Broker whose control stream is open gets the frame.\<close>

lemma remote_gets_frame:
  assumes "m \<in> set ms" and "rp_controlStream m = Some st" and "stream_open st h"
  shows "Wrote st f \<in> set (effects (foldl (\<lambda>h peer. advertise_to_remote f peer h) h ms))"
  using assms
proof (induction ms arbitrary: h)
  case (Cons x ms)
  let ?h = "advertise_to_remote f x h"
  have same: "stream_open st ?h" using Cons.prems(3) quietD(10) [OF quiet_advertise_to_remote] by (simp add: stream_open_def)
  show ?case
  proof (cases "x = m")
    case True
    with Cons.prems have "Wrote st f \<in> set (effects ?h)"
      by (simp add: advertise_to_remote_def emitLifecycle_def write_frame_def)
    moreover have "wrote ?h (foldl (\<lambda>h peer. advertise_to_remote f peer h) ?h ms)"
      by (rule wrote_foldl) (rule wrote_remote)
    ultimately show ?thesis by (auto simp: wrote_def)
  next
    case False
    with Cons.prems(1,2) Cons.IH [OF _ _ same] show ?thesis by simp
  qed
qed simp

lemma advertiseEvents_reach:
  assumes "list_all event_ok evs" and "evs \<noteq> []"
    and "m \<in> set (remote_members h)" and "rp_controlStream m = Some st" and "stream_open st h"
  shows "Wrote st (LifecycleFrame evs None) \<in> set (effects (snd (advertiseRouteLifecycleEvents P (map raw_of_event evs) False h)))"
proof -
  let ?h1 = "foldl (\<lambda>h (_, peer). advertise_to_local
      (\<lambda>b. foldl (\<lambda>b event. emitLocalBrokerRouteChange event b) b (map raw_of_event evs)) peer h) h (h_peers h)"
  let ?h2 = "foldl (\<lambda>h peer. advertise_to_remote (LifecycleFrame evs None) peer h) ?h1 (remote_members ?h1)"
  have q: "quiet h ?h1"
    by (rule quiet_foldl) (auto simp del: foldl_map intro: quiet_advertise_to_local emit_all_inv)
  have "Wrote st (LifecycleFrame evs None) \<in> set (effects ?h2)"
    by (rule remote_gets_frame) (use assms(3-5) quietD(6,10) [OF q] in \<open>simp_all add: remote_members_def stream_open_def\<close>)
  then show ?thesis
    using assms(1,2) wrote_forward [of ?h2 "[]" "\<lambda>i. LifecycleFrame evs (Some i)" None]
    by (auto simp: advertiseRouteLifecycleEvents_def advertise_checked_def lifecycle_frame_ok Let_def wrote_def)
qed

section \<open>The cleanup tick\<close>

definition timed_out_event :: "registry \<Rightarrow> jsstr \<times> jsstr \<Rightarrow> VerserRouteLifecycleEvent" where
  "timed_out_event reg = (\<lambda>(p, d). \<lparr>ev_type = removed, ev_targetId = p, ev_domain = d, ev_reason = Some timed_out,
     ev_generation = getRouteGeneration p d reg\<rparr>)"

lemma expired_entry_ok:
  assumes "routes_ok reg" and "(p, d) \<in> set (expiredRouteEntries (fst (removeExpiredDegradedRoutes now t reg)))"
  shows "id_ok p" "id_ok d" "\<And>g. getRouteGeneration p d reg = Some g \<Longrightarrow> generation_ok g"
proof -
  have inv: "reg_inv reg" using assms(1) by (simp add: routes_ok_def)
  from assms(2) obtain e where e: "map_of (degradedRoutes reg) p = Some e" "d \<in> domain ` set (de_routes e)"
    by (auto simp: expired_entries_iff [OF reg_invD(5) [OF inv]])
  show "id_ok p" using assms(1) e(1) list_all_map_of [of "\<lambda>e. id_ok (fst e)"] by (fastforce simp: routes_ok_def)
  have ok: "entry_ok reg e" by (rule degraded_lookup [OF inv e(1)])
  with e(2) show "id_ok d" by (auto simp: entry_ok_def local_ok_def)
  show "\<And>g. getRouteGeneration p d reg = Some g \<Longrightarrow> generation_ok g"
    using ok by (auto simp: getRouteGeneration_def e(1) entry_ok_def split: option.splits if_splits)
qed

lemma expiry_events:
  fixes now t :: rat and P :: "'p platform_scheme"
  assumes "routes_ok (routeRegistry h)"
  defines "es \<equiv> expiredRouteEntries (fst (removeExpiredDegradedRoutes now t (routeRegistry h)))"
  defines "cb \<equiv> createDegradedCleanupCallbacks P"
  shows "mapE (createRouteLifecycleEvent P []) (map (expiry_event (gen_cache cb h)) es) =
      Inr (map (timed_out_event (routeRegistry h)) es)"
    and "list_all event_ok (map (timed_out_event (routeRegistry h)) es)"
proof -
  have inv: "reg_inv (routeRegistry h)" using assms(1) by (simp add: routes_ok_def)
  have gen: "cached_generation (gen_cache cb h) p d = getRouteGeneration p d (routeRegistry h)" if "(p, d) \<in> set es" for p d
    using host_cleanup.expiry_generation(1) [OF inv, of p d P now t] that
    by (simp add: es_def cb_def createDegradedCleanupCallbacks_def [of P, THEN arg_cong, of cb_generation])
  note ok = expired_entry_ok [OF assms(1), of _ _ now t, folded es_def]
  show "mapE (createRouteLifecycleEvent P []) (map (expiry_event (gen_cache cb h)) es) =
      Inr (map (timed_out_event (routeRegistry h)) es)"
    unfolding mapE_map
  proof (rule mapE_Inr_map)
    fix x
    assume "x \<in> set es"
    moreover obtain p d where "x = (p, d)" by (cases x)
    ultimately show "createRouteLifecycleEvent P [] (expiry_event (gen_cache cb h) x) = Inr (timed_out_event (routeRegistry h) x)"
      using create_typed_event [OF ok(1,2) ok(3), of p d p d] by (simp add: expiry_event_def timed_out_event_def gen)
  qed
  show "list_all event_ok (map (timed_out_event (routeRegistry h)) es)"
    using ok by (auto simp: list_all_iff event_ok_def timed_out_event_def)
qed

context collation
begin

lemma cleanup_tick_form:
  fixes now :: rat
  assumes "host_inv h"
  defines "outcome \<equiv> cb_removeExpired (createDegradedCleanupCallbacks P) now (degradedRouteTimeoutMs (degradedCleanup h)) h"
  obtains s4 where "cleanup_tick P now h =
      (Inr (), s4\<lparr>degradedCleanup := stop_if_idle (createDegradedCleanupCallbacks P) (degradedCleanup h) s4\<rparr>)"
    and "quiet (snd outcome) s4"
    and "\<And>m st. m \<in> set (remote_members h) \<Longrightarrow> rp_controlStream m = Some st \<Longrightarrow> stream_open st h \<Longrightarrow>
         expiredRouteEntries (fst outcome) \<noteq> [] \<Longrightarrow>
         Wrote st (LifecycleFrame (map (timed_out_event (routeRegistry h)) (expiredRouteEntries (fst outcome))) None) \<in> set (effects s4)"
proof -
  let ?cb = "createDegradedCleanupCallbacks P"
  let ?t = "degradedRouteTimeoutMs (degradedCleanup h)"
  obtain res s1 where rem: "cb_removeExpired ?cb now ?t h = (res, s1)" by (metis surj_pair)
  then have res: "res = fst (removeExpiredDegradedRoutes now ?t (routeRegistry h))"
    and s1: "routeRegistry s1 = snd (removeExpiredDegradedRoutes now ?t (routeRegistry h))"
    by (metis host_removeExpired(1) fst_conv, metis host_removeExpired(2) snd_conv)
  have inv: "reg_inv (routeRegistry h)" by (rule host_invD(2) [OF assms(1)])
  have inv1: "reg_inv (routeRegistry s1)" by (simp add: s1 removeExpired_inv inv)
  let ?evs = "map (timed_out_event (routeRegistry h)) (expiredRouteEntries res)"
  have evs: "mapE (createRouteLifecycleEvent P []) (map (expiry_event (gen_cache ?cb h)) (expiredRouteEntries res)) = Inr ?evs"
    "list_all event_ok ?evs"
    unfolding res using expiry_events [OF host_invD(1) [OF assms(1)]] by auto
  show thesis
  proof (cases "expiredPeers res = []")
    case True
    then have "expiredRouteEntries res = []" by (auto simp: res removeExpiredDegradedRoutes_def Let_def filter_empty_conv)
    with True show thesis
      by (intro that [of s1]) (simp_all add: cleanup_tick_def check_def rem outcome_def)
  next
    case False
    let ?m = "thenS (if 0 < length ?evs then cb_advertiseEvents ?cb (map raw_of_event ?evs) s1 else (Inr (), s1))
                 (\<lambda>_ s2. thenS (cb_advertiseRoutes ?cb s2) (\<lambda>_ s3. cb_advertiseFederated ?cb s3))"
    let ?s2 = "snd (if 0 < length ?evs then advertiseRouteLifecycleEvents P (map raw_of_event ?evs) False s1 else (Inr (), s1))"
    have q2: "quiet s1 ?s2" by (simp add: quiet_advertiseEvents)
    have m: "?m = advertiseFederatedRoutes P (advertiseRoutes P ?s2)"
      using advertiseEvents_ok [OF evs(2), of P False s1]
      by (cases "advertiseRouteLifecycleEvents P (map raw_of_event ?evs) False s1")
        (simp_all add: createDegradedCleanupCallbacks_def)
    have q: "quiet s1 (snd ?m)" unfolding m
      by (rule quiet_trans [OF quiet_trans [OF q2 quiet_advertiseRoutes] quiet_advertiseFederated])
    have ok: "fst ?m = Inr ()" unfolding m
      by (rule advertiseFederated_ok) (simp add: quietD(1) [OF quiet_advertiseRoutes] quietD(1) [OF quiet_advertiseEvents] inv1)
    have w: "wrote ?s2 (snd ?m)" unfolding m
      by (rule wrote_trans [OF wrote_advertiseRoutes wrote_advertiseFederated])
    have form: "cleanup_tick P now h = (Inr (), (snd ?m)\<lparr>degradedCleanup := stop_if_idle ?cb (degradedCleanup h) (snd ?m)\<rparr>)"
      using False ok by (cases ?m) (simp add: cleanup_tick_def check_def rem evs(1))
    have members: "remote_members s1 = remote_members h" "closedStreams s1 = closedStreams h"
      using rem by (auto simp: createDegradedCleanupCallbacks_def Let_def remote_members_def
          invalidateRouteAuthorizations_def split: prod.splits)
    show thesis
    proof (rule that [OF form])
      show "quiet (snd outcome) (snd ?m)" using q by (simp add: outcome_def rem)
      fix m st
      assume "m \<in> set (remote_members h)" "rp_controlStream m = Some st" "stream_open st h" "expiredRouteEntries (fst outcome) \<noteq> []"
      then have "Wrote st (LifecycleFrame ?evs None) \<in> set (effects ?s2)"
        using advertiseEvents_reach [OF evs(2), of m s1 st P] by (simp add: outcome_def rem members stream_open_def)
      with w show "Wrote st (LifecycleFrame (map (timed_out_event (routeRegistry h)) (expiredRouteEntries (fst outcome))) None)
          \<in> set (effects (snd ?m))"
        by (auto simp: wrote_def outcome_def rem)
    qed
  qed
qed

end

section \<open>A Guest leaves\<close>

lemma advertise_created_ok:
  assumes "mapE (createRouteLifecycleEvent P []) raws = Inr evs" and "list_all event_ok evs"
  obtains y where "advertise_created P raws x = (Inr (), y)" and "quiet x y"
  using that [of "snd (advertise_created P raws x)"] advertiseEvents_ok [OF assms(2), of P False x]
    quiet_advertiseEvents [of x P "map raw_of_event evs" False] assms(1)
  by (simp add: advertise_created_def prod_eq_iff)

lemma announce_ok:
  assumes "routes_ok (routeRegistry x)" and "id_ok p"
  obtains y where "quiet x y" and "announce_degraded P p x =
    (Inr (), if 0 < length (getDegradedBrokerRoutesForPeer p (routeRegistry x)) then startDegradedRouteCleanupTimer y else y)"
proof -
  let ?reg = "routeRegistry x"
  let ?rs = "getDegradedBrokerRoutesForPeer p ?reg"
  let ?ev = "\<lambda>r. \<lparr>ev_type = degraded, ev_targetId = p, ev_domain = domain r, ev_reason = Some disconnected,
      ev_generation = getRouteGeneration p (domain r) ?reg\<rparr>"
  have inv: "reg_inv ?reg" using assms(1) by (simp add: routes_ok_def)
  have ok: "id_ok (domain r) \<and> (\<forall>g. getRouteGeneration p (domain r) ?reg = Some g \<longrightarrow> generation_ok g)" if "r \<in> set ?rs" for r
  proof -
    from that have "domain r \<in> domain ` set ?rs" by blast
    then obtain e where e: "map_of (degradedRoutes ?reg) p = Some e" "domain r \<in> domain ` set (de_routes e)"
      unfolding degraded_domains by (cases "map_of (degradedRoutes ?reg) p") auto
    with degraded_lookup [OF inv e(1)] show ?thesis
      by (auto simp: entry_ok_def local_ok_def getRouteGeneration_def split: option.splits)
  qed
  have made: "mapE (createRouteLifecycleEvent P []) (map (\<lambda>r. typed_event degraded p (domain r) disconnected
      (getRouteGeneration p (domain r) ?reg)) ?rs) = Inr (map ?ev ?rs)"
    unfolding mapE_map using ok assms(2) by (intro mapE_Inr_map) (simp add: create_typed_event)
  have evs: "list_all event_ok (map ?ev ?rs)" using ok assms(2) by (simp add: list_all_iff event_ok_def)
  obtain y where "advertise_created P (map (\<lambda>r. typed_event degraded p (domain r) disconnected
      (getRouteGeneration p (domain r) ?reg)) ?rs) x = (Inr (), y)" "quiet x y"
    by (rule advertise_created_ok [OF made evs])
  with that [of x] that [of y] show thesis
    by (cases "?rs = []") (simp_all add: announce_degraded_def Let_def)
qed

lemma degrade_ok:
  assumes "map_of (localRoutes (routeRegistry h)) p = Some rs" and "map_of (degradedRoutes (routeRegistry h)) p = None"
  obtains e where "de_routes e = rs" and "degradedAt e = now" and
    "degrade_guest P now p reason h = (Inr (), (invalidateRouteAuthorizations (clearWsIdleLeases p h))\<lparr>
       routeRegistry := (routeRegistry h)\<lparr>routeGenerationCounter := routeGenerationCounter (routeRegistry h) + 1,
         degradedRoutes := degradedRoutes (routeRegistry h) @ [(p, e)], localRoutes := AList.delete p (localRoutes (routeRegistry h))\<rparr>,
       leasePool := failQueuedLeaseAcquisitions P p reason (closeGuestLeases p (leasePool h))\<rparr>)"
proof -
  have same: "routeRegistry (clearWsIdleLeases p h) = routeRegistry h" "leasePool (clearWsIdleLeases p h) = leasePool h"
    by (simp_all add: clearWsIdleLeases_def split: option.split)
  obtain gen where "setDegraded P now p (routeRegistry h) = (Inr (), (routeRegistry h)\<lparr>routeGenerationCounter := routeGenerationCounter (routeRegistry h) + 1,
       degradedRoutes := degradedRoutes (routeRegistry h) @ [(p, \<lparr>de_routes = rs, degradedAt = now, de_generation = gen\<rparr>)],
       localRoutes := AList.delete p (localRoutes (routeRegistry h))\<rparr>)"
    using setDegraded_acts [OF assms] by metis
  then show thesis
    by (intro that [of "\<lparr>de_routes = rs, degradedAt = now, de_generation = gen\<rparr>"])
      (simp_all add: degrade_guest_def on_registry_def same Let_def invalidateRouteAuthorizations_def)
qed

lemma abort_local [simp]:
  "routeRegistry (abortLocalRequestsForPeer p h) = routeRegistry h" "leasePool (abortLocalRequestsForPeer p h) = leasePool h"
  "h_peers (abortLocalRequestsForPeer p h) = h_peers h" "wsIdleLeases (abortLocalRequestsForPeer p h) = wsIdleLeases h"
  "degradedCleanup (abortLocalRequestsForPeer p h) = degradedCleanup h"
  "map_of (activeLocalRequests (abortLocalRequestsForPeer p h)) p = None"
  by (simp_all add: abortLocalRequestsForPeer_def delete_conv' split: option.split)

lemma clear_ws [simp]:
  "h_peers (clearWsIdleLeases p h) = h_peers h" "activeLocalRequests (clearWsIdleLeases p h) = activeLocalRequests h"
  "map_of (wsIdleLeases (clearWsIdleLeases p h)) p = None"
  by (simp_all add: clearWsIdleLeases_def delete_conv' split: option.split)

lemma invalidate_fields [simp]:
  "h_peers (invalidateRouteAuthorizations h) = h_peers h" "wsIdleLeases (invalidateRouteAuthorizations h) = wsIdleLeases h"
  by (simp_all add: invalidateRouteAuthorizations_def)

lemma start_timer [simp]:
  "timer_interval (degradedCleanup (startDegradedRouteCleanupTimer h)) \<noteq> None"
  "routeRegistry (startDegradedRouteCleanupTimer h) = routeRegistry h" "leasePool (startDegradedRouteCleanupTimer h) = leasePool h"
  "h_peers (startDegradedRouteCleanupTimer h) = h_peers h" "wsIdleLeases (startDegradedRouteCleanupTimer h) = wsIdleLeases h"
  "activeLocalRequests (startDegradedRouteCleanupTimer h) = activeLocalRequests h"
  by (simp_all add: startDegradedRouteCleanupTimer_def start_cleanup_def split: option.split)

context collation
begin

lemma detach_guest:
  assumes inv: "host_inv h" and q: "map_of (h_peers h) p = Some q" "rp_transport q = in_process" "rp_role q = guest"
    and rs: "map_of (localRoutes (routeRegistry h)) p = Some rs" "map_of (degradedRoutes (routeRegistry h)) p = None"
  obtains h' e where "detachLocalPeer P now p reason h = (Inr (), h')" "h_peers h' = AList.delete p (h_peers h)"
    "routeRegistry h' = (routeRegistry h)\<lparr>routeGenerationCounter := routeGenerationCounter (routeRegistry h) + 1,
       degradedRoutes := degradedRoutes (routeRegistry h) @ [(p, e)], localRoutes := AList.delete p (localRoutes (routeRegistry h))\<rparr>"
    "de_routes e = rs" "degradedAt e = now"
    "leasePool h' = failQueuedLeaseAcquisitions P p reason (closeGuestLeases p (leasePool h))"
    "map_of (wsIdleLeases h') p = None" "map_of (activeLocalRequests h') p = None"
    "rs \<noteq> [] \<longrightarrow> timer_interval (degradedCleanup h') \<noteq> None"
proof -
  let ?h = "h\<lparr>h_peers := AList.delete p (h_peers h)\<rparr>"
  obtain e where e: "de_routes e = rs" "degradedAt e = now" and d: "degrade_guest P now p reason ?h =
      (Inr (), (invalidateRouteAuthorizations (clearWsIdleLeases p ?h))\<lparr>
       routeRegistry := (routeRegistry h)\<lparr>routeGenerationCounter := routeGenerationCounter (routeRegistry h) + 1,
         degradedRoutes := degradedRoutes (routeRegistry h) @ [(p, e)], localRoutes := AList.delete p (localRoutes (routeRegistry h))\<rparr>,
       leasePool := failQueuedLeaseAcquisitions P p reason (closeGuestLeases p (leasePool h))\<rparr>)" (is "_ = (_, ?d)")
    using degrade_ok [of ?h p rs now P reason] rs by auto
  define D where "D = ?d"
  note d = d [folded D_def]
  have D: "routeRegistry D = (routeRegistry h)\<lparr>routeGenerationCounter := routeGenerationCounter (routeRegistry h) + 1,
         degradedRoutes := degradedRoutes (routeRegistry h) @ [(p, e)], localRoutes := AList.delete p (localRoutes (routeRegistry h))\<rparr>"
    "leasePool D = failQueuedLeaseAcquisitions P p reason (closeGuestLeases p (leasePool h))"
    "h_peers D = AList.delete p (h_peers h)" "map_of (wsIdleLeases D) p = None"
    by (simp_all add: D_def)
  have "host_inv ?h" using inv_del_peer [OF inv no_sessions(2) [OF inv q(1)]] q(2) by (simp add: remote_broker_def)
  from inv_degrade_guest [OF this, of P now p reason] have invd: "host_inv D" unfolding d by simp
  let ?x = "abortLocalRequestsForPeer p D"
  have x: "host_inv ?x" using invd by (rule inv_abort)
  obtain y where y: "quiet ?x y" and a: "announce_degraded P p ?x =
      (Inr (), if 0 < length (getDegradedBrokerRoutesForPeer p (routeRegistry ?x)) then startDegradedRouteCleanupTimer y else y)"
    by (rule announce_ok [OF host_invD(1) [OF x] host_invD(4) [OF inv q(1)]])
  have deg: "0 < length (getDegradedBrokerRoutesForPeer p (routeRegistry ?x)) \<longleftrightarrow> rs \<noteq> []"
    using rs(2) e(1) by (simp add: getDegradedBrokerRoutesForPeer_def D map_of_append map_add_def split: option.split)
  define z where "z = (if rs \<noteq> [] then startDegradedRouteCleanupTimer y else y)"
  have z: "routeRegistry z = routeRegistry ?x" "h_peers z = AList.delete p (h_peers h)" "leasePool z = leasePool D"
    "map_of (wsIdleLeases z) p = None" "map_of (activeLocalRequests z) p = None" "rs \<noteq> [] \<longrightarrow> timer_interval (degradedCleanup z) \<noteq> None"
    by (simp_all add: z_def quietD [OF y] D)
  have "host_inv z" unfolding z_def using host_inv_quiet [OF y x] by simp
  let ?w = "emitLifecycle Ev_routeDegraded p (Some guest) (Some reason) z"
  define v where "v = (case rp_localBroker q of
      Some a \<Rightarrow> abortLocalRequestsForPeer p (with_local_broker (closeLocalBrokerState P reason) a ?w) | None \<Rightarrow> ?w)"
  have qw: "quiet ?w (with_local_broker (closeLocalBrokerState P reason) a ?w)" for a
    by (rule quiet_with_local_broker) (rule close_inv)
  have v: "routeRegistry v = routeRegistry ?x" "h_peers v = AList.delete p (h_peers h)" "leasePool v = leasePool D"
    "map_of (wsIdleLeases v) p = None" "map_of (activeLocalRequests v) p = None" "rs \<noteq> [] \<longrightarrow> timer_interval (degradedCleanup v) \<noteq> None"
    using z by (auto simp: v_def quietD [OF qw] split: option.split) (simp_all add: emitLifecycle_def)
  let ?u = "emitLifecycle Ev_disconnected p (Some guest) (Some reason) v"
  have u: "quiet v ?u" by (rule quiet_emitLifecycle)
  have "reg_inv (routeRegistry ?u)" using host_invD(2) [OF x] by (simp add: v)
  from advertise_all_ok [OF this] obtain h' where h': "advertise_all P ?u = (Inr (), h')"
    by (metis prod.collapse)
  have "quiet ?u (snd (advertise_all P ?u))" unfolding advertise_all_def
    by (rule quiet_trans [OF quiet_advertiseRoutes quiet_advertiseFederated])
  with h' quiet_trans [OF u] have qh: "quiet v h'" by simp
  have "detachLocalPeer P now p reason h = (Inr (), h')"
    using h' by (simp add: detachLocalPeer_def q d a [unfolded deg, folded z_def] v_def Let_def)
  then show thesis
    by (rule that [of h' e]) (use v e D in \<open>simp_all add: quietD [OF qh]\<close>)
qed

end

end
