(* ===== verification/Host_Properties.thy ===== *)
theory Host_Properties
  imports Host_System
begin

text \<open>
  What the Host as a whole guarantees: its invariant in every reachable state, the cleanup tick, the departure of a Guest,
  revocation, shutdown, and duplicate lifecycle frames between Hosts; and, as evaluated runs, four behaviours where it
  falls short of what it means to do.
\<close>

section \<open>Properties\<close>


text \<open>A Host to which a Guest is attached with one domain.\<close>

definition sample_host :: Host where
  "sample_host = projr (new_Host sample_platform (Some (js ''h1'')) None True None None None)"

definition sample_guest :: "jsstr \<Rightarrow> jsstr list \<Rightarrow> Host \<Rightarrow> Host" where
  "sample_guest p ds h = snd (attachLocalGuest_finish sample_platform p (lifecycleGeneration h) ds (ListenerFunction 0) NoCallback h)"

lemma sample_host_reachable: "host_reachable sample_platform sample_host"
proof -
  have "isl (new_Host sample_platform (Some (js ''h1'')) None True None None None) = False" by code_simp
  then show ?thesis unfolding sample_host_def by (metis host_created sum.collapse(2))
qed

lemma sample_guest_reachable:
  assumes "host_reachable sample_platform h" and "attachLocalGuest_begin sample_platform p h0 = Inr (p, lifecycleGeneration h)"
  shows "host_reachable sample_platform (sample_guest p ds h)"
  unfolding sample_guest_def by (rule host_stepped [OF assms(1) attach_guest [OF assms(2)]])

definition sample_attached :: Host where
  "sample_attached = sample_guest (js ''g'') [js ''d''] sample_host"

lemma sample_attached_reachable: "host_reachable sample_platform sample_attached"
proof -
  have "attachLocalGuest_begin sample_platform (js ''g'') sample_host = Inr (js ''g'', lifecycleGeneration sample_host)" by code_simp
  then show ?thesis unfolding sample_attached_def by (intro sample_guest_reachable sample_host_reachable)
qed




definition sample_departed :: Host where
  "sample_departed = snd (detachLocalPeer sample_platform 0 (js ''g'') (js ''bye'') sample_attached)"

lemma sample_departed_reachable: "host_reachable sample_platform sample_departed"
  unfolding sample_departed_def by (rule host_stepped [OF sample_attached_reachable detach_local])


section \<open>Tables emptied key by key\<close>

lemma foldl_delete: "foldl (\<lambda>m k. AList.delete k m) m ks = filter (\<lambda>e. fst e \<notin> set ks) m"
  by (induction ks arbitrary: m) (auto simp: AList.delete_eq case_prod_beta intro: filter_cong)

lemma foldl_deletes:
  assumes "\<And>s k. tab (f s k) = AList.delete k (tab s)"
  shows "tab (foldl f s (map fst (tab s))) = []"
proof -
  have "tab (foldl f s ks) = filter (\<lambda>e. fst e \<notin> set ks) (tab s)" for ks
    unfolding foldl_delete [symmetric] by (induction ks arbitrary: s) (simp_all add: assms)
  then show ?thesis by (simp add: filter_empty_conv)
qed

lemma failAll_queues: "federatedRequestStreamWaiters (failAllFederatedRequestStreamWaiters P m s) = []"
proof -
  have "federatedRequestStreamWaiters (failFederatedRequestStreamWaiters P h m s) =
      AList.delete h (federatedRequestStreamWaiters s)" for h s
    unfolding failFederatedRequestStreamWaiters_def
    by (rule foldl_keeps [where I = "\<lambda>x. federatedRequestStreamWaiters x = _"])
      (auto simp: fed_settle_def clear_fed_timer_def mark_settled_def split: option.split)
  then show ?thesis unfolding failAllFederatedRequestStreamWaiters_def
    by (rule foldl_deletes [where tab = federatedRequestStreamWaiters])
qed

lemma abortAll_requests: "activeLocalRequests (abortAllLocalRequests h) = []"
proof -
  have "activeLocalRequests (abortLocalRequestsForPeer p h) = AList.delete p (activeLocalRequests h)" for p h
    by (auto simp: abortLocalRequestsForPeer_def split: option.split)
      (metis delete_id fst_conv imageE map_of_eq_None_iff)
  then show ?thesis unfolding abortAllLocalRequests_def
    by (rule foldl_deletes [where tab = activeLocalRequests])
qed

lemma failAll_leases: "queuedLeaseAcquisitions (failAllQueuedLeaseAcquisitions P reason s) = []"
  unfolding failAllQueuedLeaseAcquisitions_def foldl_conv_fold [symmetric]
  by (rule foldl_deletes [where tab = queuedLeaseAcquisitions]) (simp add: failQueuedLeaseAcquisitions_def fold_fail)

lemma closeAll_tables: "idleLeases (closeAllLeases s) = []" "activeLeases (closeAllLeases s) = []"
  by (simp_all add: closeAllLeases_def Let_def)

lemma failAll_tables:
  "idleLeases (failAllQueuedLeaseAcquisitions P reason s) = idleLeases s"
  "activeLeases (failAllQueuedLeaseAcquisitions P reason s) = activeLeases s"
  unfolding failAllQueuedLeaseAcquisitions_def foldl_conv_fold [symmetric]
  by (rule foldl_keeps [where I = "\<lambda>x. _ x = _ s"], simp_all add: failQueuedLeaseAcquisitions_def fold_fail)+

section \<open>Shutdown\<close>

lemma failAll_upstream [simp]: "upstreamLinks (failAllFederatedRequestStreamWaiters P m s) = upstreamLinks s"
proof -
  have fail: "upstreamLinks (failFederatedRequestStreamWaiters P h m x) = upstreamLinks x" for h x
    unfolding failFederatedRequestStreamWaiters_def
    by (rule foldl_keeps [where I = "\<lambda>y. upstreamLinks y = upstreamLinks x"])
      (auto simp: fed_settle_def clear_fed_timer_def mark_settled_def split: option.split)
  show ?thesis unfolding failAllFederatedRequestStreamWaiters_def
    by (rule foldl_keeps [where I = "\<lambda>y. upstreamLinks y = upstreamLinks s"]) (simp_all add: fail)
qed

lemma failAll_host [simp]:
  fixes h :: Host
  shows "activeLocalRequests (failAllFederatedRequestStreamWaiters P m h) = activeLocalRequests h"
    and "leasePool (failAllFederatedRequestStreamWaiters P m h) = leasePool h"
proof -
  have fields: "FedStreams.more x = FedStreams.more h \<Longrightarrow> activeLocalRequests x = activeLocalRequests h \<and> leasePool x = leasePool h" for x
    by (cases h; cases x) simp
  show "activeLocalRequests (failAllFederatedRequestStreamWaiters P m h) = activeLocalRequests h"
    and "leasePool (failAllFederatedRequestStreamWaiters P m h) = leasePool h"
    using fields [OF more_failWaiters(2)] by auto
qed

text \<open>Closing a Host that serves: the state left behind.\<close>

lemma close_rest_form:
  obtains x links where "upstreamLinks x = upstreamLinks h"
    and "close_rest P True sessions reason h =
     (let h3 = failAllFederatedRequestStreamWaiters P (js ''Host closing: '' @ reason)
            ((abortAllLocalRequests x)\<lparr>leasePool := failAllQueuedLeaseAcquisitions P reason (closeAllLeases (leasePool (abortAllLocalRequests x)))\<rparr>);
          h4 = close_streams links h3
      in emit_closed reason (h4\<lparr>closedSessions := closedSessions h4 @ sessions, h_peers := [], remoteBrokerSessions := [],
                  inboundFederationHosts := [], routeRegistry := clear (routeRegistry h4)\<rparr>))"
proof -
  have "upstreamLinks (foldl (\<lambda>h (_ :: jsstr, peer). case rp_localBroker peer of
      Some a \<Rightarrow> with_local_broker (closeLocalBrokerState P reason) a h | None \<Rightarrow> h) h ps) = upstreamLinks h" for ps
    by (rule foldl_keeps [where I = "\<lambda>x. upstreamLinks x = upstreamLinks h"]) (auto simp: with_local_broker_def split: option.split)
  then have "upstreamLinks (close_streams sts (foldl (\<lambda>h (_ :: jsstr, peer). case rp_localBroker peer of
      Some a \<Rightarrow> with_local_broker (closeLocalBrokerState P reason) a h | None \<Rightarrow> h) h ps)) = upstreamLinks h" for sts ps
    by (simp add: close_streams_def)
  then show thesis
    by (rule that) (simp only: close_rest_def Let_def simp_thms if_False)
qed

lemma close_rest_empties:
  assumes "host_inv h" and h': "h' = close_rest P True sessions reason h"
  shows "h_peers h' = []" "remoteBrokerSessions h' = []" "inboundFederationHosts h' = []" "activeLocalRequests h' = []"
    "localRoutes (routeRegistry h') = []" "importedRoutes (routeRegistry h') = []" "degradedRoutes (routeRegistry h') = []"
    "idleLeases (leasePool h') = []" "activeLeases (leasePool h') = []" "timers (leasePool h') = []" "fed_timers h' = []"
    "upstreamLinks h' = upstreamLinks h"
proof -
  obtain x links where x: "upstreamLinks x = upstreamLinks h" and form: "h' =
     (let h3 = failAllFederatedRequestStreamWaiters P (js ''Host closing: '' @ reason)
            ((abortAllLocalRequests x)\<lparr>leasePool := failAllQueuedLeaseAcquisitions P reason (closeAllLeases (leasePool (abortAllLocalRequests x)))\<rparr>);
          h4 = close_streams links h3
      in emit_closed reason (h4\<lparr>closedSessions := closedSessions h4 @ sessions, h_peers := [], remoteBrokerSessions := [],
                  inboundFederationHosts := [], routeRegistry := clear (routeRegistry h4)\<rparr>))"
    unfolding h' by (rule close_rest_form)
  have abort: "upstreamLinks (abortAllLocalRequests x) = upstreamLinks x"
    unfolding abortAllLocalRequests_def
    by (rule foldl_keeps [where I = "\<lambda>y. upstreamLinks y = upstreamLinks x"]) (auto simp: abortLocalRequestsForPeer_def split: option.split)
  note defs = form Let_def emit_closed_def close_streams_def
  show "h_peers h' = []" "remoteBrokerSessions h' = []" "inboundFederationHosts h' = []"
    "localRoutes (routeRegistry h') = []" "importedRoutes (routeRegistry h') = []" "degradedRoutes (routeRegistry h') = []"
    by (simp_all add: defs clear_def)
  show "activeLocalRequests h' = []" "idleLeases (leasePool h') = []" "activeLeases (leasePool h') = []"
    by (simp_all add: defs abortAll_requests failAll_tables closeAll_tables)
  show "upstreamLinks h' = upstreamLinks h" by (simp add: defs abort x)
  have inv: "host_inv h'" unfolding h' by (rule inv_close(2) [OF assms(1)])
  have "federatedRequestStreamWaiters h' = []" by (simp add: defs failAll_queues)
  moreover have "promises_ok h'" using host_inv_fed [OF inv] by (simp add: fed_inv_def)
  ultimately show "fed_timers h' = []" by (simp add: promises_ok_def queued_def)
  have "queuedLeaseAcquisitions (leasePool h') = []" by (simp add: defs failAll_leases)
  moreover have "Lease_Pool.promises_ok (leasePool h')" using host_invD(3) [OF inv] by (simp add: pool_inv_def)
  ultimately show "timers (leasePool h') = []" by (simp add: Lease_Pool.promises_ok_def waiting_def)
qed

lemma delete_update_same [simp]: "AList.delete k (AList.update k v m) = AList.delete k m"
  by (induction m) auto

context collation
begin

lemma removeImported_ok:
  assumes "host_inv h"
  obtains h' where "removeImportedFederatedRoutes P u h = (Inr (), h')" "upstreamLinks h' = upstreamLinks h" "host_inv h'"
proof -
  let ?h = "invalidateRouteAuthorizations (h\<lparr>routeRegistry := removeImportedRoutes u (routeRegistry h)\<rparr>)"
  have "reg_inv (routeRegistry ?h)"
    using routes_ok_imported(2) [OF host_invD(1) [OF assms], of u] by (simp add: invalidateRouteAuthorizations_def routes_ok_def)
  then have "fst (removeImportedFederatedRoutes P u h) = Inr ()"
    unfolding removeImportedFederatedRoutes_def by (rule advertise_all_ok)
  moreover have "quiet ?h (snd (removeImportedFederatedRoutes P u h))"
    unfolding removeImportedFederatedRoutes_def advertise_all_def
    by (rule quiet_trans [OF quiet_advertiseRoutes quiet_advertiseFederated])
  then have "upstreamLinks (snd (removeImportedFederatedRoutes P u h)) = upstreamLinks h"
    by (simp add: quietD invalidateRouteAuthorizations_def)
  ultimately show thesis
    using that inv_removeImported [OF assms, of P u] by (metis prod.collapse)
qed

lemma closeUpstream_ok:
  assumes "host_inv h"
  obtains h' where "closeUpstreamLink P u h = (Inr (), h')" "upstreamLinks h' = AList.delete u (upstreamLinks h)" "host_inv h'"
proof (cases "map_of (upstreamLinks h) u")
  case None
  then have "AList.delete u (upstreamLinks h) = upstreamLinks h" by (metis delete_id map_of_eq_None_iff)
  with None assms show thesis
    by (intro that [of h]) (simp_all add: closeUpstreamLink_def closeUpstreamLink_begin_def handleUpstreamSessionClose_def)
next
  case (Some link)
  let ?h = "h\<lparr>upstreamLinks := AList.update u (link\<lparr>ul_closing := True\<rparr>) (upstreamLinks h)\<rparr>"
  obtain h1 where h1: "removeImportedFederatedRoutes P u ?h = (Inr (), h1)" "upstreamLinks h1 = upstreamLinks ?h" "host_inv h1"
    by (rule removeImported_ok [of ?h]) (use assms in simp)
  define h2 where "h2 = close_streams (ul_routeStream link # ul_requestStream link # ul_requestStreams link) h1"
  define h3 where "h3 = h2\<lparr>closedSessions := closedSessions h2 @ [ul_session link]\<rparr>"
  have begin_form: "closeUpstreamLink_begin P u h = (Inr (), h3)"
    by (simp add: closeUpstreamLink_begin_def Some h1(1) Let_def h2_def h3_def)
  have up: "upstreamLinks h3 = AList.update u (link\<lparr>ul_closing := True\<rparr>) (upstreamLinks h)"
    by (simp add: h3_def h2_def close_streams_def h1(2))
  have "host_inv (h3\<lparr>upstreamLinks := AList.delete u (upstreamLinks h3)\<rparr>)" using h1(3) by (simp add: h3_def h2_def close_streams_def)
  then obtain h5 where h5: "removeImportedFederatedRoutes P u (h3\<lparr>upstreamLinks := AList.delete u (upstreamLinks h3)\<rparr>) = (Inr (), h5)"
    "upstreamLinks h5 = AList.delete u (upstreamLinks h3)" "host_inv h5"
    by (rule removeImported_ok) simp
  have "closeUpstreamLink P u h = (Inr (), emitLifecycle Ev_closed u None None h5)"
    using h5(1) by (simp add: closeUpstreamLink_def begin_form handleUpstreamSessionClose_def up update_conv')
  moreover have "upstreamLinks (emitLifecycle Ev_closed u None None h5) = AList.delete u (upstreamLinks h)"
    by (simp add: emitLifecycle_def h5(2) up)
  moreover have "host_inv (emitLifecycle Ev_closed u None None h5)" using h5(3) by simp
  ultimately show thesis by (rule that)
qed

lemma closeUpstreams_ok:
  assumes "host_inv h"
  shows "\<exists>h'. forS (\<lambda>(u, _). closeUpstreamLink P u) (us :: (jsstr \<times> UpstreamLink) list) h = (Inr (), h') \<and>
    upstreamLinks h' = foldl (\<lambda>m k. AList.delete k m) (upstreamLinks h) (map fst us) \<and> host_inv h'"
  using assms
proof (induction us arbitrary: h)
  case (Cons x us)
  obtain h1 where "closeUpstreamLink P (fst x) h = (Inr (), h1)" "upstreamLinks h1 = AList.delete (fst x) (upstreamLinks h)" "host_inv h1"
    by (rule closeUpstream_ok [OF Cons.prems])
  with Cons.IH [of h1] show ?case by (simp add: case_prod_beta)
qed simp

end



section \<open>Departure\<close>

lemma departed_leases:
  defines "s' \<equiv> \<lambda>P g reason s. failQueuedLeaseAcquisitions P g reason (closeGuestLeases g s)"
  shows "get_list (idleLeases (s' P g reason s)) g = []" and "get_list (queuedLeaseAcquisitions (s' P g reason s)) g = []"
proof -
  have "idleLeases (closeGuestLeases g s) = AList.delete g (idleLeases s)"
    by (simp add: closeGuestLeases_eq Let_def fold_close_active(2) fold_close_lease(2))
  then show "get_list (idleLeases (s' P g reason s)) g = []" "get_list (queuedLeaseAcquisitions (s' P g reason s)) g = []"
    by (simp_all add: s'_def failQueuedLeaseAcquisitions_def fold_fail)
qed




section \<open>Where the Host falls short\<close>

definition sample_leave :: "jsstr \<Rightarrow> Host \<Rightarrow> Host" where
  "sample_leave p h = snd (detachLocalPeer sample_platform 0 p (js ''bye'') h)"

text \<open>How many peers there are, whether the cleanup timer runs, and the candidates for a domain of a Guest.\<close>

definition reached :: "jsstr \<Rightarrow> jsstr \<Rightarrow> Host \<Rightarrow> nat \<times> bool \<times> (jsstr \<times> jsstr) list" where
  "reached t d h = (length (h_peers h), timer_interval (degradedCleanup h) \<noteq> None,
     map (\<lambda>c. (targetId c, domain c)) (getCandidates sample_platform (Some t) (Some d) (routeRegistry h)))"

text \<open>A Guest that leaves without routes leaves an empty degraded entry behind. When it comes back with a domain and
  leaves again, that entry keeps the new routes from being degraded: they stay candidates although the Guest is gone, and no
  timer will remove them.\<close>

theorem routes_of_departed_guest_stay:
  "reached (js ''g'') (js ''d'') (sample_leave (js ''g'') (sample_guest (js ''g'') [js ''d'']
     (sample_leave (js ''g'') (sample_guest (js ''g'') [] sample_host)))) = (0, False, [(js ''g'', js ''d'')])"
  by code_simp

definition refusal :: "unit result \<times> Host \<Rightarrow> bool \<times> jsstr list \<times> bool" where
  "refusal r = (isl (fst r), map fst (h_peers (snd r)), isl (attachLocalGuest_begin sample_platform (js ''g'') (snd r)))"

text \<open>Attaching a Guest with an empty domain is refused with an error, but only after the Guest was entered as a
  peer: no handle is returned to close it, and the id is taken.\<close>

theorem refused_guest_stays_registered:
  "refusal (attachLocalGuest_finish sample_platform (js ''g'') 0 [[]] (ListenerFunction 0) NoCallback sample_host) =
     (True, [js ''g''], True)"
  by code_simp

section \<open>Revocation\<close>

lemma wrote_checked: "wrote h (snd (advertise_checked made events skip h))"
proof -
  have l: "wrote h (foldl (\<lambda>h (_ :: jsstr, peer). advertise_to_local f peer h) h ps)" for f ps
    by (rule wrote_foldl) (auto simp: wrote_local)
  have r: "wrote x (foldl (\<lambda>h peer. advertise_to_remote fr peer h) x ms)" for fr x ms
    by (rule wrote_foldl) (rule wrote_remote)
  show ?thesis
    unfolding advertise_checked_def Let_def
    by (cases made) (auto intro: wrote_trans [OF l r] wrote_trans [OF wrote_trans [OF l r] wrote_forward])
qed

lemma wrote_broadcast: "wrote h (snd (thenS (advertise_created P raws (invalidateRouteAuthorizations h)) (\<lambda>_ x. advertise_all P x)))"
proof -
  have "wrote x (snd (advertise_created P raws x))" for x
    by (auto simp: advertise_created_def advertiseRouteLifecycleEvents_def wrote_checked split: sum.split)
  then have "wrote (invalidateRouteAuthorizations h) (snd (thenS (advertise_created P raws (invalidateRouteAuthorizations h)) (\<lambda>_ x. advertise_all P x)))"
    by (intro thenS_keeps [where I = "wrote (invalidateRouteAuthorizations h)"])
      (auto simp: advertise_all_def intro: wrote_trans [OF _ wrote_trans [OF wrote_advertiseRoutes wrote_advertiseFederated]])
  then show ?thesis by (simp add: wrote_def invalidateRouteAuthorizations_def)
qed


lemma quiet_broadcast: "quiet x (snd (thenS (advertise_created P raws x) (\<lambda>_ y. advertise_all P y)))"
  by (rule thenS_keeps [where I = "quiet x"])
    (auto simp: advertise_created_def quiet_advertiseEvents advertise_all_def split: sum.split
      intro: quiet_trans [OF _ quiet_trans [OF quiet_advertiseRoutes quiet_advertiseFederated]])

lemma respond_ok:
  assumes "stream_open st h" and "list_all id_ok fs"
  shows "\<exists>resp. respond_revocation P st code status m (Some (failed_domains fs)) h = (Inr (), write_frame st (RevocationResponse code resp) h) \<and>
    rev_status resp = status"
proof -
  have "mapE (\<lambda>(d, e). bindE (requireNonEmpty P d ''revocation failure domain'') (\<lambda>d'. Inr (d', e))) (failed_domains fs) =
      Inr (failed_domains fs)"
    using assms(2) by (intro mapE_Inr_id) (auto simp: failed_domains_def list_all_iff requireNonEmpty_valid id_ok_def)
  then show ?thesis
    using assms(1) by (auto simp: respond_revocation_def createGuestRevocationResponse_def)
qed

lemma revocation_request_ok: "createGuestRevocationRequest P (Some ds) = Inr ds' \<Longrightarrow> list_all id_ok ds'"
  by (auto simp: createGuestRevocationRequest_def list_all_iff id_ok_def result_simps throwE_def split: if_splits
      dest!: mapE_Inr_all [where P = "\<lambda>d. trimmed d \<and> d \<noteq> []"])



section \<open>Lifecycle frames of other Hosts\<close>

lemma seen_after_remember: "seen_id (JStr e) (remember_id (JStr e) seen)"
  by (auto simp: remember_id_def Let_def)

lemma seen_foldl: "(\<And>s x. seenFederationLifecycleEventIds (f s x) = seenFederationLifecycleEventIds s) \<Longrightarrow>
    seenFederationLifecycleEventIds (foldl f h xs) = seenFederationLifecycleEventIds h"
  by (rule foldl_keeps [where I = "\<lambda>x. seenFederationLifecycleEventIds x = seenFederationLifecycleEventIds h"]) auto

lemma seen_checked: "seenFederationLifecycleEventIds (snd (advertise_checked made events True h)) = seenFederationLifecycleEventIds h"
proof -
  have l: "seenFederationLifecycleEventIds (advertise_to_local f q x) = seenFederationLifecycleEventIds x" for f q x
    by (simp add: advertise_to_local_def emitLifecycle_def with_local_broker_def split: option.split)
  have r: "seenFederationLifecycleEventIds (advertise_to_remote f q x) = seenFederationLifecycleEventIds x" for f q x
    by (simp add: advertise_to_remote_def emitLifecycle_def write_frame_def split: option.split)
  show ?thesis
    by (cases made) (simp_all add: advertise_checked_def Let_def seen_foldl r l case_prod_beta del: foldl_map)
qed

lemma seen_forward: "seenFederationLifecycleEventIds (forwardFederationEventsToPeers x mk (Some i) h) = seenFederationLifecycleEventIds h"
  unfolding forwardFederationEventsToPeers_def forwardFederatedLifecycleEventsExcluding_def Let_def option.case
  by (rule trans [OF seen_foldl seen_foldl]) (auto simp: write_frame_def split: option.split)

lemma lifecycle_frame_seen:
  assumes "obj_get f ''_eid'' = Some (JStr e)"
  shows "seen_id (JStr e) (seenFederationLifecycleEventIds (snd (handle_lifecycle_frame P fresh owner f h)))"
proof (cases "seen_id (JStr e) (seenFederationLifecycleEventIds h)")
  case False
  have removes: "seenFederationLifecycleEventIds (foldl (\<lambda>h e. if raw_type e = js ''removed''
      then remove_imported_route owner (raw_targetId e) (raw_domain e) h else h) x es) = seenFederationLifecycleEventIds x" for x es
    by (rule seen_foldl) (auto simp: remove_imported_route_def invalidateRouteAuthorizations_def Let_def split: prod.split)
  let ?h = "h\<lparr>seenFederationLifecycleEventIds := remember_id (JStr e) (seenFederationLifecycleEventIds h)\<rparr>"
  have main: "seen_id (JStr e) (seenFederationLifecycleEventIds (snd (thenS (advertise_checked made evs True ?h) (\<lambda>_ h2. (Inr (),
      foldl (\<lambda>h e. if raw_type e = js ''removed'' then remove_imported_route owner (raw_targetId e) (raw_domain e) h else h)
        (forwardFederationEventsToPeers owner mk (Some (JStr e)) h2) es)))))" for made evs mk es
    by (rule thenS_keeps [where I = "\<lambda>x. seen_id (JStr e) (seenFederationLifecycleEventIds x)"])
      (simp_all add: seen_checked seen_after_remember removes seen_forward del: seen_id.simps)
  from False seen_after_remember [of e] show ?thesis
    by (cases "obj_get f ''events''")
      (simp_all add: handle_lifecycle_frame_def assms Let_def del: seen_id.simps foldl_map split: json.split,
        intro allI impI main)
qed (simp add: handle_lifecycle_frame_def assms)


definition sample_frame :: json where
  "sample_frame = JObj [(js ''type'', JStr (js ''route-lifecycle'')), (js ''_eid'', JStr (js ''x'')),
     (js ''events'', JArr [JObj [(js ''type'', JStr (js ''added'')), (js ''targetId'', JStr (js ''t'')), (js ''domain'', JStr (js ''d''))]])]"


definition sample_upstreamed :: Host where
  "sample_upstreamed = connectUpstream_linked (new_upstream (js ''u'') (js ''h2'') 1 2 3 None) sample_host"

text \<open>A frame that arrives over the link to an upstream is handled with the name this Host gave the link as its owner, while
  the peers to forward to are compared by the id of the Host at the other end. When the two differ, the frame is sent back to the
  Host it came from.\<close>

theorem upstream_frame_is_echoed:
  "filter (\<lambda>e. case e of Wrote st f \<Rightarrow> True | _ \<Rightarrow> False)
     (effects (snd (handleFederatedRouteFrame sample_platform (\<lambda>_. []) (js ''u'') sample_frame sample_upstreamed))) =
   [Wrote 2 (ForwardedFrame sample_frame)]"
  by code_simp

end
