(* ===== verification/Broker_Routing.thy ===== *)
theory Broker_Routing
  imports Headers Envelope Host_Core
begin

text \<open>
  The routing of a Broker's request, \<open>packages/verser2-host/src/lib/broker-routing.ts\<close>: which domain of the target a
  request is for, the headers the Guest sees, hop-local authorization, the fallback to federated Hosts, and the dispatch to
  a local Guest, over a lease, or over a federated request stream, up to the response headers. The piping of bodies and
  the listeners that cancel it are not modelled.

  \<open>BrokerRoutingCallbacks\<close> is a record of functions on a world \<open>'s\<close>. A callback that is awaited returns its answer and the
  world in which the routing goes on, so whatever else happened during the wait is in that world. The HTTP/2 operations
  that the code calls directly on streams are fields of the same record.
\<close>

section \<open>Domains\<close>

definition normalizeRequestedDomain :: "'p platform_scheme \<Rightarrow> jsstr \<Rightarrow> jsstr" where
  "normalizeRequestedDomain P value =
    (let authority = trim value
     in case urlHostname P (js ''http://'' @ authority) of
          Some hostname \<Rightarrow> strip_last 46 (strip_last 93 (strip_open_bracket (toLowerCase P hostname)))
        | None \<Rightarrow> strip_last 46 (toLowerCase P authority))"

text \<open>The matches of \<open>/:(\d+)$/\<close> and \<open>/^\[[^\]]+\]:(\d+)$/\<close>.\<close>

definition is_digit :: "ucode \<Rightarrow> bool" where
  "is_digit c \<longleftrightarrow> 48 \<le> c \<and> c \<le> 57"

definition port_suffix :: "jsstr \<Rightarrow> (jsstr \<times> jsstr) option" where
  "port_suffix a =
    (let digits = rev (takeWhile is_digit (rev a)); rest = take (length a - length digits) a
     in if digits \<noteq> [] \<and> rest \<noteq> [] \<and> last rest = 58 then Some (butlast rest, digits) else None)"

definition explicitPort :: "jsstr \<Rightarrow> jsstr option" where
  "explicitPort authority =
     (if authority \<noteq> [] \<and> hd authority = 91
      then (case port_suffix authority of
              Some (host, port) \<Rightarrow> (if 3 \<le> length host \<and> last host = 93 \<and> 93 \<notin> set (butlast host) then Some port else None)
            | None \<Rightarrow> None)
      else map_option snd (port_suffix authority))"

definition normalizeAuthority :: "'p platform_scheme \<Rightarrow> jsstr \<Rightarrow> jsstr" where
  "normalizeAuthority P value =
    (let authority = trim value
     in case urlHostname P (js ''http://'' @ authority) of
          Some h \<Rightarrow>
            (let hostname = strip_last 93 (strip_open_bracket (toLowerCase P h))
             in case explicitPort authority of None \<Rightarrow> hostname | Some port \<Rightarrow> hostname @ js '':'' @ port)
        | None \<Rightarrow> strip_last 46 (toLowerCase P authority))"

type_synonym header_map = "(jsstr \<times> header_out) list"

definition headerValue :: "'p platform_scheme \<Rightarrow> header_map \<Rightarrow> string \<Rightarrow> jsstr option" where
  "headerValue P headers name =
     (case find (\<lambda>(key, _). toLowerCase P key = js name) headers of
        None \<Rightarrow> None
      | Some (_, One s) \<Rightarrow> Some s
      | Some (_, Many ss) \<Rightarrow> (case ss of [] \<Rightarrow> None | s # _ \<Rightarrow> Some s))"

text \<open>\<open>a ?? b\<close>.\<close>

definition or_else_opt :: "'a option \<Rightarrow> 'a option \<Rightarrow> 'a option" where
  "or_else_opt a b = (case a of Some x \<Rightarrow> Some x | None \<Rightarrow> b)"

definition requested_host :: "'p platform_scheme \<Rightarrow> header_map \<Rightarrow> jsstr option" where
  "requested_host P headers = or_else_opt (headerValue P headers ''host'') (headerValue P headers '':authority'')"

definition rewriteGuestHeaders :: "'p platform_scheme \<Rightarrow> header_map \<Rightarrow> jsstr option \<Rightarrow> header_map" where
  "rewriteGuestHeaders P requestedHeaders routeDomain =
     (case routeDomain of
        None \<Rightarrow> requestedHeaders
      | Some d \<Rightarrow>
          (let originalHost = requested_host P requestedHeaders;
               rewritten = obj_set (js ''host'') (One d)
                 (fromEntries (filter (\<lambda>(name, _). toLowerCase P name \<noteq> js ''x-forwarded-host'') requestedHeaders))
           in case originalHost of
                Some h \<Rightarrow> (if normalizeAuthority P h \<noteq> normalizeAuthority P d
                           then obj_set (js ''x-forwarded-host'') (One h) rewritten else rewritten)
              | None \<Rightarrow> rewritten))"

section \<open>Callbacks\<close>

record PeerInfo =
  pi_role :: VerserPeerRole
  pi_transport :: transport
  pi_session :: "nat option"
  pi_localGuest :: "nat option"

text \<open>\<open>createRoutedResponseEnvelope\<close> of \<open>routing.ts\<close> builds the response a Broker gets.\<close>

record RoutedResponseEnvelope =
  rr_requestId :: jsstr
  rr_statusCode :: int
  rr_headers :: "(jsstr \<times> jsstr) list"
  rr_statusText :: "jsstr option"
  rr_headerPairs :: "VerserHeaderPair list option"

record LocalDispatchRequest =
  ld_requestId :: jsstr
  ld_sourceId :: jsstr
  ld_targetId :: jsstr
  ld_routeDomain :: "jsstr option"
  ld_method :: jsstr
  ld_path :: jsstr
  ld_headers :: header_map
  ld_leaseAcquireTimeoutMs :: jsnumber
  ld_signal :: "nat option"
  ld_previousHopDomain :: "jsstr option"

datatype request_event = requestStarted | requestCompleted | requestFailed VerserError

record 's BrokerRoutingCallbacks =
  cb_getPeer :: "jsstr \<Rightarrow> nat option \<Rightarrow> 's \<Rightarrow> PeerInfo option"
  cb_emitRequest :: "request_event \<Rightarrow> jsstr \<Rightarrow> 's \<Rightarrow> 's"
  cb_getRouteCandidates :: "jsstr \<Rightarrow> 's \<Rightarrow> FederatedRouteRegistration list"
  cb_tryAcquireLease :: "jsstr \<Rightarrow> jsstr \<Rightarrow> jsnumber \<Rightarrow> 's \<Rightarrow> nat option result \<times> 's"
  cb_acquireLease :: "jsstr \<Rightarrow> jsstr \<Rightarrow> jsnumber \<Rightarrow> 's \<Rightarrow> nat result \<times> 's"
  cb_tryAcquireFederatedRequestStream :: "jsstr \<Rightarrow> jsnumber \<Rightarrow> 's \<Rightarrow> nat option result \<times> 's"
  cb_routeAuthorizerEnabled :: "'s \<Rightarrow> bool"
  cb_authorizeFederatedHop :: "jsstr \<Rightarrow> jsstr \<Rightarrow> 's \<Rightarrow> bool result \<times> 's"
  cb_getBrokerDomain :: "jsstr \<Rightarrow> nat option \<Rightarrow> 's \<Rightarrow> jsstr option"
  cb_getEgressSourceId :: "'s \<Rightarrow> jsstr"
  cb_newController :: "'s \<Rightarrow> nat \<times> 's"
  cb_trackController :: "jsstr \<Rightarrow> nat \<Rightarrow> 's \<Rightarrow> 's"
  cb_untrackController :: "jsstr \<Rightarrow> nat \<Rightarrow> 's \<Rightarrow> 's"
  cb_aborted :: "nat \<Rightarrow> 's \<Rightarrow> bool"
  cb_abort :: "nat \<Rightarrow> 's \<Rightarrow> 's"
  h2_session :: "nat \<Rightarrow> 's \<Rightarrow> nat option"
  h2_sessionClosed :: "nat \<Rightarrow> 's \<Rightarrow> bool"
  h2_requestEnded :: "nat \<Rightarrow> 's \<Rightarrow> bool"
  h2_closeStream :: "nat \<Rightarrow> 's \<Rightarrow> 's"
  h2_write :: "nat \<Rightarrow> bytes \<Rightarrow> 's \<Rightarrow> 's"
  h2_readEnvelope :: "nat \<Rightarrow> 's \<Rightarrow> ParsedVerserEnvelope result \<times> 's"
  h2_respond :: "nat \<Rightarrow> int \<Rightarrow> (jsstr \<times> jsstr) list \<Rightarrow> 's \<Rightarrow> 's"
  lg_dispatch :: "nat \<Rightarrow> LocalDispatchRequest \<Rightarrow> 's \<Rightarrow> RoutedResponseEnvelope result \<times> 's"

section \<open>Which domain a request is for\<close>

definition resolveRouteDomain :: "'p platform_scheme \<Rightarrow> 's BrokerRoutingCallbacks \<Rightarrow> jsstr \<Rightarrow> jsstr option \<Rightarrow> header_map \<Rightarrow> 's
    \<Rightarrow> jsstr result" where
  "resolveRouteDomain P cb target explicitDomain requestedHeaders s =
    (let requested = or_else_opt explicitDomain (requested_host P requestedHeaders);
         candidates = map (\<lambda>c. normalizeRequestedDomain P (domain c)) (cb_getRouteCandidates cb target s)
     in case requested of
          None \<Rightarrow>
            (let domains = remdups candidates in
             if length domains = 0
             then throwE P missing_guest ''Target Guest has no active route'' [(''targetId'', CStr target)]
             else if length domains \<noteq> 1
             then throwE P missing_guest ''Target-only request is ambiguous; routeDomain is required'' [(''targetId'', CStr target)]
             else Inr (hd domains))
        | Some r \<Rightarrow>
            (let normalized = normalizeRequestedDomain P r in
             if normalized \<notin> set candidates
             then throwE P missing_guest ''Target Guest route is not available'' [(''targetId'', CStr target), (''domain'', CStr normalized)]
             else Inr normalized))"

section \<open>Hop-local authorization\<close>

datatype FederationHopOutcome = hop_not_required | hop_allowed | hop_denied | route_lost

definition evaluateFederationHop :: "'p platform_scheme \<Rightarrow> 's BrokerRoutingCallbacks \<Rightarrow> jsstr option \<Rightarrow> jsstr \<Rightarrow> jsstr \<Rightarrow> 's
    \<Rightarrow> FederationHopOutcome result \<times> 's" where
  "evaluateFederationHop P cb previousDomain target nextDomain s =
     (if \<not> cb_routeAuthorizerEnabled cb s then (Inr hop_not_required, s)
      else
        (let previous = (case previousDomain of None \<Rightarrow> [] | Some d \<Rightarrow> normalizeRequestedDomain P d);
             selected = normalizeRequestedDomain P nextDomain
         in if length previous = 0 then (Inr hop_denied, s)
            else thenS (cb_authorizeFederatedHop cb previous selected s) (\<lambda>allowed s1.
              if \<not> allowed then (Inr hop_denied, s1)
              else (Inr (if \<exists>c \<in> set (cb_getRouteCandidates cb target s1). normalizeRequestedDomain P (domain c) = selected
                         then hop_allowed else route_lost), s1))))"

definition assertFederationHopAllowed :: "'p platform_scheme \<Rightarrow> 's BrokerRoutingCallbacks \<Rightarrow> jsstr option \<Rightarrow> jsstr \<Rightarrow> jsstr \<Rightarrow> 's
    \<Rightarrow> unit result \<times> 's" where
  "assertFederationHopAllowed P cb previous target nextDomain s =
     thenS (evaluateFederationHop P cb previous target nextDomain s) (\<lambda>outcome s1.
     (let context = [(''targetId'', CStr target), (''domain'', CStr (normalizeRequestedDomain P nextDomain))]
      in (if outcome = hop_denied then throwE P authorization_denied ''Federation route authorization denied'' context
          else if outcome = route_lost then throwE P missing_guest ''Federation route was removed during authorization'' context
          else Inr (), s1)))"

section \<open>The Broker behind a request stream\<close>

type_synonym http_headers = "(jsstr \<times> raw_header) list"

definition source_of :: "'p platform_scheme \<Rightarrow> 's BrokerRoutingCallbacks \<Rightarrow> nat \<Rightarrow> http_headers \<Rightarrow> 's \<Rightarrow> PeerInfo option" where
  "source_of P cb stream headers s =
    (let sourceId = raw_or_empty P headers ''x-verser-source-id''
     in if 0 < length sourceId then cb_getPeer cb sourceId (h2_session cb stream s) s else None)"

definition broker_on :: "nat option \<Rightarrow> PeerInfo option \<Rightarrow> bool" where
  "broker_on session src \<longleftrightarrow>
     (case src of
        None \<Rightarrow> False
      | Some p \<Rightarrow> pi_role p = broker \<and> pi_transport p = over_h2 \<and> pi_session p = session)"

definition not_a_broker :: "'p platform_scheme \<Rightarrow> http_headers \<Rightarrow> 'b result" where
  "not_a_broker P headers =
     throwE P authorization_denied ''Request source is not a Broker registered on this HTTP/2 session''
       [(''sourceId'', CStr (raw_or_empty P headers ''x-verser-source-id''))]"

definition resolveRemoteBrokerDomain :: "'p platform_scheme \<Rightarrow> 's BrokerRoutingCallbacks \<Rightarrow> nat \<Rightarrow> http_headers \<Rightarrow> 's \<Rightarrow> jsstr result" where
  "resolveRemoteBrokerDomain P cb stream headers s =
    (let sourceId = raw_or_empty P headers ''x-verser-source-id'' in
     if \<not> broker_on (h2_session cb stream s) (source_of P cb stream headers s) then not_a_broker P headers
     else case cb_getBrokerDomain cb sourceId (h2_session cb stream s) s of
            None \<Rightarrow> throwE P authorization_denied ''Broker has no registered domain for federation route authorization''
                      [(''sourceId'', CStr sourceId)]
          | Some d \<Rightarrow> Inr d)"

definition isRemoteBrokerRequestLive :: "'p platform_scheme \<Rightarrow> 's BrokerRoutingCallbacks \<Rightarrow> nat \<Rightarrow> http_headers \<Rightarrow> 's \<Rightarrow> bool" where
  "isRemoteBrokerRequestLive P cb stream headers s \<longleftrightarrow>
     \<not> h2_requestEnded cb stream s \<and>
     (case h2_session cb stream s of
        None \<Rightarrow> False
      | Some session \<Rightarrow> \<not> h2_sessionClosed cb session s) \<and>
     broker_on (h2_session cb stream s) (source_of P cb stream headers s)"

definition assertRemoteBrokerSession :: "'p platform_scheme \<Rightarrow> 's BrokerRoutingCallbacks \<Rightarrow> nat \<Rightarrow> http_headers \<Rightarrow> 's \<Rightarrow> unit result" where
  "assertRemoteBrokerSession P cb stream headers s =
     (if \<not> isRemoteBrokerRequestLive P cb stream headers s then not_a_broker P headers else Inr ())"

section \<open>Responses\<close>

definition status_of_json :: "'p platform_scheme \<Rightarrow> json option \<Rightarrow> int result" where
  "status_of_json P j =
     (case j of
        Some (JNum n) \<Rightarrow> requireFinalResponseStatusCode P n
      | _ \<Rightarrow> throwE P protocol_error ''Response status code must be final (200-599)'' [(''statusCode'', json_ctx j)])"

definition pairs_of_json :: "'p platform_scheme \<Rightarrow> json option \<Rightarrow> VerserHeaderPair list option result" where
  "pairs_of_json P j =
     (case j of
        None \<Rightarrow> Inr None
      | Some (JArr xs) \<Rightarrow> bindE (sanitizeHttp2ResponseHeaderPairs P xs) (\<lambda>ps. Inr (Some ps))
      | Some _ \<Rightarrow> Inl NotAFunction)"

text \<open>The envelope as its callers build it; the status, the status text and the pairs are only cast to their types.\<close>

definition createRoutedResponseEnvelope :: "'p platform_scheme \<Rightarrow> jsstr \<Rightarrow> json option \<Rightarrow> (jsstr \<times> jsstr) list \<Rightarrow> json option \<Rightarrow> json option
    \<Rightarrow> RoutedResponseEnvelope result" where
  "createRoutedResponseEnvelope P requestId statusCode headers statusText headerPairs =
     bindE (pairs_of_json P headerPairs) (\<lambda>pairs.
     bindE (requireNonEmpty P requestId ''request id'') (\<lambda>rid.
     bindE (status_of_json P statusCode) (\<lambda>status.
     bindE (case pairs of None \<Rightarrow> Inr headers | Some ps \<Rightarrow> flattenVerserHeaderPairs P (map pair_json ps)) (\<lambda>hs.
     bindE (case statusText of
              None \<Rightarrow> Inr None
            | Some (JStr t) \<Rightarrow> bindE (validateVerserStatusText P t) (\<lambda>t'. Inr (Some t'))
            | Some _ \<Rightarrow> throwE P protocol_error ''Invalid response metadata status text'' []) (\<lambda>text.
     Inr \<lparr>rr_requestId = rid, rr_statusCode = status, rr_headers = hs, rr_statusText = text, rr_headerPairs = pairs\<rparr>)))))"

text \<open>\<open>flattenVerserHeaders(validateVerserHeaders(\<dots>))\<close> of headers that are strings already.\<close>

definition checked_headers :: "'p platform_scheme \<Rightarrow> VerserHeaders \<Rightarrow> (jsstr \<times> jsstr) list result" where
  "checked_headers P headers = bindE (validateVerserHeaders P headers) (\<lambda>v. Inr (flattenVerserHeaders v))"

definition response_envelope :: "'p platform_scheme \<Rightarrow> jsstr \<Rightarrow> json \<Rightarrow> RoutedResponseEnvelope result" where
  "response_envelope P requestId metadata =
     bindE (header_entries (obj_get metadata ''headers'')) (\<lambda>entries.
     bindE (checked_headers P (map (\<lambda>(k, v). (k, HAtom (AStr v))) (sanitizeHttp2ResponseHeaders P entries))) (\<lambda>legacy.
     createRoutedResponseEnvelope P requestId (obj_get metadata ''statusCode'') legacy (obj_get metadata ''statusText'')
       (case obj_get metadata ''headerPairs'' of
          None \<Rightarrow> Some (JArr (map pair_json legacy))
        | Some JNull \<Rightarrow> Some (JArr (map pair_json legacy))
        | Some j \<Rightarrow> Some j)))"

definition respondToRemoteBroker :: "'p platform_scheme \<Rightarrow> 's BrokerRoutingCallbacks \<Rightarrow> nat \<Rightarrow> jsstr \<Rightarrow> json \<Rightarrow> 's \<Rightarrow> unit result \<times> 's" where
  "respondToRemoteBroker P cb stream requestId metadata s =
     (case bindE (response_envelope P requestId metadata) (\<lambda>r.
             bindE (encodeVerserResponseMetadata P \<lparr>md_requestId = requestId, md_statusCode = rr_statusCode r,
                      md_statusText = rr_statusText r,
                      md_headers = (case rr_headerPairs r of Some ps \<Rightarrow> ps | None \<Rightarrow> [])\<rparr>) (\<lambda>encoded.
             Inr (rr_statusCode r, AList.update VERSER_RESPONSE_METADATA_HEADER encoded (rr_headers r)))) of
        Inl e \<Rightarrow> (Inl e, s)
      | Inr (status, headers) \<Rightarrow> (Inr (), h2_respond cb stream status headers s))"

definition readFederatedResponseMetadata :: "'p platform_scheme \<Rightarrow> 's BrokerRoutingCallbacks \<Rightarrow> nat \<Rightarrow> jsstr \<Rightarrow> jsstr \<Rightarrow> 's
    \<Rightarrow> json result \<times> 's" where
  "readFederatedResponseMetadata P cb stream requestId target s =
     thenS (h2_readEnvelope cb stream s) (\<lambda>parsed s1.
     (let metadata = pe_metadata parsed in
      (case pe_type parsed of
         response \<Rightarrow> bindE (assertResponseEnvelopeRequestId P metadata requestId target) (\<lambda>_. Inr metadata)
       | error \<Rightarrow>
           bindE (assertResponseEnvelopeRequestId P metadata requestId target) (\<lambda>_.
             Inl (Verser (createVerserError P
               (toVerserErrorCode (case obj_get metadata ''code'' of Some (JStr c) \<Rightarrow> Some c | _ \<Rightarrow> None))
               (ctx_string P (json_ctx (obj_get metadata ''message'')))
               (error_envelope_context metadata requestId target))))
       | request \<Rightarrow>
           throwE P protocol_error ''Federated request returned a non-response envelope''
             [(''targetId'', CStr target), (''requestId'', CStr requestId)], s1)))"

text \<open>\<open>readLeaseResponseMetadataFromStream\<close> on a lease, once its envelope has been read.\<close>

definition read_lease_response :: "'p platform_scheme \<Rightarrow> 's BrokerRoutingCallbacks \<Rightarrow> nat \<Rightarrow> jsstr \<Rightarrow> jsstr \<Rightarrow> 's \<Rightarrow> json result \<times> 's" where
  "read_lease_response P cb stream requestId target s =
     thenS (h2_readEnvelope cb stream s) (\<lambda>parsed s1.
     (let metadata = pe_metadata parsed in
      (case pe_type parsed of
         response \<Rightarrow> bindE (assertResponseEnvelopeRequestId P metadata requestId target) (\<lambda>_. Inr metadata)
       | error \<Rightarrow>
           bindE (assertResponseEnvelopeRequestId P metadata requestId target) (\<lambda>_.
             Inl (Verser (createVerserError P
               (if obj_get metadata ''code'' = Some (JStr (code_string local_handler_failure))
                then local_handler_failure else protocol_error)
               (ctx_string P (json_ctx (obj_get metadata ''message'')))
               (error_envelope_context metadata requestId target))))
       | request \<Rightarrow>
           throwE P protocol_error ''Lease stream returned a non-response envelope''
             [(''targetId'', CStr target), (''requestId'', CStr requestId)], s1)))"

section \<open>Sending a request\<close>

definition request_metadata :: "jsstr \<Rightarrow> jsstr \<Rightarrow> jsstr \<Rightarrow> jsstr option \<Rightarrow> jsstr \<Rightarrow> jsstr \<Rightarrow> (jsstr \<times> jsstr) list \<Rightarrow> json" where
  "request_metadata requestId sourceId target routeDomain method path headers =
     JObj ([(js ''requestId'', JStr requestId), (js ''sourceId'', JStr sourceId), (js ''targetId'', JStr target)] @
           (case routeDomain of Some d \<Rightarrow> [(js ''routeDomain'', JStr d)] | None \<Rightarrow> []) @
           [(js ''method'', JStr method), (js ''path'', JStr path),
            (js ''headers'', JObj (map (\<lambda>(k, v). (k, JStr v)) headers))])"

definition send_request :: "'p platform_scheme \<Rightarrow> 's BrokerRoutingCallbacks \<Rightarrow> nat \<Rightarrow> json \<Rightarrow> 's \<Rightarrow> unit result \<times> 's" where
  "send_request P cb stream metadata s =
     (case encodeVerserEnvelope P \<lparr>env_type = request, env_metadata = metadata\<rparr> of
        Inl e \<Rightarrow> (Inl e, s)
      | Inr bs \<Rightarrow> (Inr (), h2_write cb stream bs s))"

text \<open>\<open>String(headers[name] ?? other)\<close>.\<close>

definition raw_or :: "'p platform_scheme \<Rightarrow> http_headers \<Rightarrow> string \<Rightarrow> jsstr \<Rightarrow> jsstr" where
  "raw_or P headers name other = (if map_of headers (js name) = None then other else raw_or_empty P headers name)"

definition request_method :: "'p platform_scheme \<Rightarrow> http_headers \<Rightarrow> jsstr" where
  "request_method P headers = raw_or P headers ''x-verser-method'' (raw_or P headers '':method'' (js ''GET''))"

definition request_path :: "'p platform_scheme \<Rightarrow> http_headers \<Rightarrow> jsstr" where
  "request_path P headers = raw_or P headers ''x-verser-path'' (js ''/'')"

definition carried_headers :: "'p platform_scheme \<Rightarrow> http_headers \<Rightarrow> header_map result" where
  "carried_headers P headers = decodeHeaderMap P (raw_or P headers ''x-verser-headers'' (js ''{}''))"

definition as_headers :: "header_map \<Rightarrow> VerserHeaders" where
  "as_headers m = map (\<lambda>(k, v). (k, case v of One s \<Rightarrow> HAtom (AStr s) | Many ss \<Rightarrow> HArr (map AStr ss))) m"

definition routeH2BrokerRequestOverFederationStream :: "'p platform_scheme \<Rightarrow> 's BrokerRoutingCallbacks \<Rightarrow> nat \<Rightarrow> http_headers
    \<Rightarrow> nat \<Rightarrow> jsstr \<Rightarrow> jsstr \<Rightarrow> jsstr option \<Rightarrow> jsstr \<Rightarrow> 's \<Rightarrow> unit result \<times> 's" where
  "routeH2BrokerRequestOverFederationStream P cb stream headers requestStream requestId target routeDomain egressSourceId s =
     (case bindE (carried_headers P headers) (\<lambda>m. checked_headers P (as_headers m)) of
        Inl e \<Rightarrow> (Inl e, s)
      | Inr hs \<Rightarrow>
          thenS (send_request P cb requestStream (request_metadata requestId egressSourceId target routeDomain
                   (request_method P headers) (request_path P headers) hs) s) (\<lambda>_ s1.
          thenS (readFederatedResponseMetadata P cb requestStream requestId target s1) (\<lambda>metadata s2.
          respondToRemoteBroker P cb stream requestId metadata s2)))"

definition routeBrokerRequestOverLease :: "'p platform_scheme \<Rightarrow> 's BrokerRoutingCallbacks \<Rightarrow> nat \<Rightarrow> http_headers
    \<Rightarrow> nat \<Rightarrow> jsstr \<Rightarrow> jsstr \<Rightarrow> jsstr option \<Rightarrow> 's \<Rightarrow> unit result \<times> 's" where
  "routeBrokerRequestOverLease P cb stream headers lease requestId target routeDomain s =
     (case bindE (carried_headers P headers) (\<lambda>m. checked_headers P (as_headers (rewriteGuestHeaders P m routeDomain))) of
        Inl e \<Rightarrow> (Inl e, s)
      | Inr hs \<Rightarrow>
          thenS (send_request P cb lease (request_metadata requestId (raw_or_empty P headers ''x-verser-source-id'') target None
                   (request_method P headers) (request_path P headers) hs) s) (\<lambda>_ s1.
          thenS (read_lease_response P cb lease requestId target s1) (\<lambda>metadata s2.
          respondToRemoteBroker P cb stream requestId metadata s2)))"

section \<open>The fallback to federated Hosts\<close>

text \<open>The two copies of the loop over the candidates, for requests of remote and of local Brokers, differ in how the
  previous hop is found, in whether the request can end while the loop waits, and in how the request is sent on.\<close>

record ('s, 'a) hop_query =
  hq_target :: jsstr
  hq_requestedDomain :: "jsstr option"
  hq_timeoutMs :: jsnumber
  hq_candidateCount :: nat
  hq_previous :: "'s \<Rightarrow> jsstr result"
  hq_live :: "'s \<Rightarrow> bool"
  hq_forward :: "FederatedRouteRegistration \<Rightarrow> nat \<Rightarrow> 's \<Rightarrow> 'a result \<times> 's"

record hop_state =
  hadUpstreamCandidate :: bool
  hadDeniedCandidate :: bool
  previousHopDomain :: "jsstr option"
  hopDomainResolved :: bool
  unavailableCandidates :: "FederatedRouteRegistration list"

datatype 'a hop_end = Forwarded 'a | RequestEnded | NoCandidate

definition no_candidate :: "'p platform_scheme \<Rightarrow> ('s, 'a) hop_query \<Rightarrow> hop_state \<Rightarrow> 'a hop_end result" where
  "no_candidate P q ls =
     (if hadDeniedCandidate ls
      then throwE P authorization_denied ''Federation route authorization denied for every resolved candidate''
             [(''targetId'', CStr (hq_target q)), (''direction'', CStr (js ''federated-candidates'')),
              (''deniedCount'', nat_ctx (hq_candidateCount q))]
      else if hadUpstreamCandidate ls
      then (let list = (\<lambda>f. CStr (join_with comma (map f (unavailableCandidates ls)))) in
            throwE P upstream_unavailable ''No federated route candidates are available''
              [(''targetId'', CStr (hq_target q)), (''direction'', CStr (js ''federated-candidates'')),
               (''candidateCount'', nat_ctx (length (unavailableCandidates ls))),
               (''nextHopHostIds'', list nextHopHostId), (''originHostIds'', list originHostId), (''domains'', list domain)])
      else Inr NoCandidate)"

definition wanted :: "'p platform_scheme \<Rightarrow> jsstr option \<Rightarrow> FederatedRouteRegistration \<Rightarrow> bool" where
  "wanted P requestedDomain c \<longleftrightarrow>
     (case requestedDomain of None \<Rightarrow> True | Some d \<Rightarrow> normalizeRequestedDomain P (domain c) = d)"

definition resolve_previous :: "'s BrokerRoutingCallbacks \<Rightarrow> ('s, 'a) hop_query \<Rightarrow> hop_state \<Rightarrow> 's \<Rightarrow> hop_state result" where
  "resolve_previous cb q ls s =
     (if cb_routeAuthorizerEnabled cb s \<and> \<not> hopDomainResolved ls
      then bindE (hq_previous q s) (\<lambda>d. Inr (ls\<lparr>hopDomainResolved := True, previousHopDomain := Some d\<rparr>))
      else Inr ls)"

fun try_candidates :: "'p platform_scheme \<Rightarrow> 's BrokerRoutingCallbacks \<Rightarrow> ('s, 'a) hop_query \<Rightarrow> FederatedRouteRegistration list
    \<Rightarrow> hop_state \<Rightarrow> 's \<Rightarrow> 'a hop_end result \<times> 's" where
  "try_candidates P cb q [] ls s = (no_candidate P q ls, s)"
| "try_candidates P cb q (c # cs) ls s =
     (if \<not> wanted P (hq_requestedDomain q) c then try_candidates P cb q cs ls s
      else case resolve_previous cb q (ls\<lparr>hadUpstreamCandidate := True\<rparr>) s of
        Inl e \<Rightarrow> (Inl e, s)
      | Inr ls1 \<Rightarrow>
          thenS (evaluateFederationHop P cb (previousHopDomain ls1) (hq_target q) (domain c) s) (\<lambda>hop s1.
          if \<not> hq_live q s1 then (Inr RequestEnded, s1)
          else if hop = hop_denied \<or> hop = route_lost
          then try_candidates P cb q cs (ls1\<lparr>hadDeniedCandidate := hadDeniedCandidate ls1 \<or> hop = hop_denied\<rparr>) s1
          else
            thenS (cb_tryAcquireFederatedRequestStream cb (nextHopHostId c) (hq_timeoutMs q) s1) (\<lambda>acquired s2.
            if \<not> hq_live q s2
            then (Inr RequestEnded, case acquired of Some st \<Rightarrow> h2_closeStream cb st s2 | None \<Rightarrow> s2)
            else case acquired of
              None \<Rightarrow> try_candidates P cb q cs (ls1\<lparr>unavailableCandidates := unavailableCandidates ls1 @ [c]\<rparr>) s2
            | Some st \<Rightarrow> thenS (hq_forward q c st s2) (\<lambda>a s3. (Inr (Forwarded a), s3)))))"

definition upstream_candidates :: "'s BrokerRoutingCallbacks \<Rightarrow> jsstr \<Rightarrow> 's \<Rightarrow> FederatedRouteRegistration list" where
  "upstream_candidates cb target s = filter (\<lambda>c. source c = src_upstream) (cb_getRouteCandidates cb target s)"

definition start_hops :: "jsstr option \<Rightarrow> hop_state" where
  "start_hops previous = \<lparr>hadUpstreamCandidate = False, hadDeniedCandidate = False, previousHopDomain = previous,
     hopDomainResolved = (previous \<noteq> None), unavailableCandidates = []\<rparr>"

definition route_to_federation :: "'p platform_scheme \<Rightarrow> 's BrokerRoutingCallbacks \<Rightarrow> ('s, 'a) hop_query \<Rightarrow> jsstr option \<Rightarrow> 's
    \<Rightarrow> 'a hop_end result \<times> 's" where
  "route_to_federation P cb q previous s =
    (let candidates = upstream_candidates cb (hq_target q) s in
     if hq_requestedDomain q = None \<and> 1 < length (remdups (map (\<lambda>c. normalizeRequestedDomain P (domain c)) candidates))
     then (throwE P missing_guest ''Target-only request is ambiguous; routeDomain is required'' [(''targetId'', CStr (hq_target q))], s)
     else try_candidates P cb (q\<lparr>hq_candidateCount := length candidates\<rparr>) candidates (start_hops previous) s)"

definition requested_domain :: "'p platform_scheme \<Rightarrow> jsstr option \<Rightarrow> header_map \<Rightarrow> jsstr option" where
  "requested_domain P explicitDomain headers =
     map_option (normalizeRequestedDomain P) (or_else_opt explicitDomain (requested_host P headers))"

definition route_domain_header :: "'p platform_scheme \<Rightarrow> http_headers \<Rightarrow> jsstr option" where
  "route_domain_header P headers =
     (if map_of headers (js ''x-verser-route-domain'') = None then None else Some (raw_or_empty P headers ''x-verser-route-domain''))"

definition lease_timeout :: "'p platform_scheme \<Rightarrow> http_headers \<Rightarrow> jsnumber" where
  "lease_timeout P headers = parseLeaseAcquireTimeoutMs P (map_of headers (js ''x-verser-lease-acquire-timeout-ms''))"

definition tryRouteH2BrokerRequestToFederatedHost :: "'p platform_scheme \<Rightarrow> 's BrokerRoutingCallbacks \<Rightarrow> nat \<Rightarrow> http_headers \<Rightarrow> jsstr \<Rightarrow> jsstr
    \<Rightarrow> 's \<Rightarrow> unit hop_end result \<times> 's" where
  "tryRouteH2BrokerRequestToFederatedHost P cb stream headers requestId target s =
     (case carried_headers P headers of
        Inl e \<Rightarrow> (Inl e, s)
      | Inr requestedHeaders \<Rightarrow>
          route_to_federation P cb
            \<lparr>hq_target = target,
             hq_requestedDomain = requested_domain P (route_domain_header P headers) requestedHeaders,
             hq_timeoutMs = lease_timeout P headers, hq_candidateCount = 0,
             hq_previous = resolveRemoteBrokerDomain P cb stream headers,
             hq_live = isRemoteBrokerRequestLive P cb stream headers,
             hq_forward = (\<lambda>c st s. routeH2BrokerRequestOverFederationStream P cb stream headers st requestId target
               (Some (domain c)) (cb_getEgressSourceId cb s) s)\<rparr> None s)"

section \<open>Requests of local Brokers\<close>

definition disconnected_during :: "'p platform_scheme \<Rightarrow> LocalDispatchRequest \<Rightarrow> 'b result" where
  "disconnected_during P r =
     throwE P disconnected_target ''Local peer disconnected during request''
       [(''requestId'', CStr (ld_requestId r)), (''targetId'', CStr (ld_targetId r)), (''sourceId'', CStr (ld_sourceId r))]"

definition send_local :: "'p platform_scheme \<Rightarrow> 's BrokerRoutingCallbacks \<Rightarrow> nat \<Rightarrow> jsstr \<Rightarrow> LocalDispatchRequest \<Rightarrow> 's \<Rightarrow> unit result \<times> 's" where
  "send_local P cb stream sourceId r s =
     (case checked_headers P (as_headers (ld_headers r)) of
        Inl e \<Rightarrow> (Inl e, s)
      | Inr hs \<Rightarrow> send_request P cb stream (request_metadata (ld_requestId r) sourceId (ld_targetId r) (ld_routeDomain r)
                    (ld_method r) (ld_path r) hs) s)"

definition routeLocalRequestOverFederationStream :: "'p platform_scheme \<Rightarrow> 's BrokerRoutingCallbacks \<Rightarrow> LocalDispatchRequest \<Rightarrow> nat \<Rightarrow> jsstr
    \<Rightarrow> 's \<Rightarrow> RoutedResponseEnvelope result \<times> 's" where
  "routeLocalRequestOverFederationStream P cb r requestStream egressSourceId s =
     thenS (send_local P cb requestStream egressSourceId r s) (\<lambda>_ s1.
     thenS (readFederatedResponseMetadata P cb requestStream (ld_requestId r) (ld_targetId r) s1) (\<lambda>metadata s2.
     (response_envelope P (ld_requestId r) metadata, s2)))"

definition routeLocalRequestToH2Guest :: "'p platform_scheme \<Rightarrow> 's BrokerRoutingCallbacks \<Rightarrow> LocalDispatchRequest \<Rightarrow> 's
    \<Rightarrow> RoutedResponseEnvelope result \<times> 's" where
  "routeLocalRequestToH2Guest P cb r s =
     thenS (cb_acquireLease cb (ld_targetId r) (ld_requestId r) (ld_leaseAcquireTimeoutMs r) s) (\<lambda>lease s1.
     if (case ld_signal r of Some c \<Rightarrow> cb_aborted cb c s1 | None \<Rightarrow> False)
     then (disconnected_during P r, h2_closeStream cb lease s1)
     else
       thenS (send_local P cb lease (ld_sourceId r) r s1) (\<lambda>_ s2.
       thenS (read_lease_response P cb lease (ld_requestId r) (ld_targetId r) s2) (\<lambda>metadata s3.
       (response_envelope P (ld_requestId r) metadata, s3))))"

definition tryRouteLocalRequestToFederatedHost :: "'p platform_scheme \<Rightarrow> 's BrokerRoutingCallbacks \<Rightarrow> LocalDispatchRequest \<Rightarrow> 's
    \<Rightarrow> RoutedResponseEnvelope hop_end result \<times> 's" where
  "tryRouteLocalRequestToFederatedHost P cb r s =
     route_to_federation P cb
       \<lparr>hq_target = ld_targetId r,
        hq_requestedDomain = requested_domain P (ld_routeDomain r) (ld_headers r),
        hq_timeoutMs = ld_leaseAcquireTimeoutMs r, hq_candidateCount = 0,
        hq_previous = (\<lambda>s. case cb_getBrokerDomain cb (ld_sourceId r) None s of
            None \<Rightarrow> throwE P authorization_denied ''Broker has no registered domain for federation route authorization''
                      [(''sourceId'', CStr (ld_sourceId r)), (''targetId'', CStr (ld_targetId r))]
          | Some d \<Rightarrow> Inr d),
        hq_live = (\<lambda>_. True),
        hq_forward = (\<lambda>c st s. routeLocalRequestOverFederationStream P cb (r\<lparr>ld_routeDomain := Some (domain c)\<rparr>) st
          (cb_getEgressSourceId cb s) s)\<rparr> (ld_previousHopDomain r) s"

text \<open>The dispatch: to a federated Host, to a local Guest, or over a lease. The controller stays tracked until the body
  of the response ends, unless there is no response.\<close>

definition dispatch_to_guest :: "'p platform_scheme \<Rightarrow> 's BrokerRoutingCallbacks \<Rightarrow> LocalDispatchRequest \<Rightarrow> nat \<Rightarrow> PeerInfo \<Rightarrow> 's
    \<Rightarrow> RoutedResponseEnvelope result \<times> 's" where
  "dispatch_to_guest P cb r controller target s =
     thenS (resolveRouteDomain P cb (ld_targetId r) (ld_routeDomain r) (ld_headers r) s, s) (\<lambda>routeDomain s1.
     thenS (if ld_previousHopDomain r \<noteq> None
            then assertFederationHopAllowed P cb (ld_previousHopDomain r) (ld_targetId r) routeDomain s1 else (Inr (), s1)) (\<lambda>_ s2.
     (let r' = r\<lparr>ld_signal := Some controller, ld_routeDomain := Some routeDomain,
                 ld_headers := rewriteGuestHeaders P (ld_headers r) (Some routeDomain)\<rparr>;
          s3 = cb_emitRequest cb requestStarted (ld_targetId r) s2
      in thenS (if pi_transport target = in_process
                then (case pi_localGuest target of
                        None \<Rightarrow> (throwE P disconnected_target ''Target local Guest is not attached'' [(''targetId'', CStr (ld_targetId r))], s3)
                      | Some listener \<Rightarrow> lg_dispatch cb listener r' s3)
                else routeLocalRequestToH2Guest P cb r' s3) (\<lambda>resp s4.
         (Inr resp, cb_emitRequest cb requestCompleted (ld_targetId r) s4)))))"

definition untrack_both :: "'s BrokerRoutingCallbacks \<Rightarrow> LocalDispatchRequest \<Rightarrow> nat \<Rightarrow> 's \<Rightarrow> 's" where
  "untrack_both cb r controller s =
     cb_untrackController cb (ld_targetId r) controller (cb_untrackController cb (ld_sourceId r) controller s)"

definition routeLocalRequestDispatch :: "'p platform_scheme \<Rightarrow> 's BrokerRoutingCallbacks \<Rightarrow> LocalDispatchRequest \<Rightarrow> 's
    \<Rightarrow> RoutedResponseEnvelope result \<times> 's" where
  "routeLocalRequestDispatch P cb r s0 =
    (let target = cb_getPeer cb (ld_targetId r) None s0;
         (controller, s1) = cb_newController cb s0;
         s2 = (if (case ld_signal r of Some c \<Rightarrow> cb_aborted cb c s1 | None \<Rightarrow> False) then cb_abort cb controller s1 else s1);
         s3 = cb_trackController cb (ld_targetId r) controller (cb_trackController cb (ld_sourceId r) controller s2);
         outcome =
           (case target of
              Some p \<Rightarrow>
                (if pi_role p = guest then dispatch_to_guest P cb r controller p s3
                 else thenS (tryRouteLocalRequestToFederatedHost P cb (r\<lparr>ld_signal := Some controller\<rparr>) s3) (\<lambda>e s4.
                   (case e of Forwarded resp \<Rightarrow> Inr resp
                    | _ \<Rightarrow> throwE P missing_guest ''Target Guest is not registered'' [(''targetId'', CStr (ld_targetId r))], s4)))
            | None \<Rightarrow>
                thenS (tryRouteLocalRequestToFederatedHost P cb (r\<lparr>ld_signal := Some controller\<rparr>) s3) (\<lambda>e s4.
                  (case e of Forwarded resp \<Rightarrow> Inr resp
                   | _ \<Rightarrow> throwE P missing_guest ''Target Guest is not registered'' [(''targetId'', CStr (ld_targetId r))], s4)))
     in case outcome of
          (Inr resp, s) \<Rightarrow> (Inr resp, s)
        | (Inl e, s) \<Rightarrow>
            (let verserError = toVerserError P e None
             in (Inl (Verser verserError), untrack_both cb r controller (cb_emitRequest cb (requestFailed verserError) (ld_targetId r) s))))"

text \<open>\<open>body\<close> needs no model.\<close>

definition routeLocalBrokerRequest :: "'p platform_scheme \<Rightarrow> 's BrokerRoutingCallbacks \<Rightarrow> jsstr \<Rightarrow> LocalBrokerState \<Rightarrow> jsstr \<Rightarrow> jsstr option \<Rightarrow> jsstr \<Rightarrow> jsstr
    \<Rightarrow> VerserHeaders \<Rightarrow> raw_header option \<Rightarrow> nat option \<Rightarrow> 's \<Rightarrow> RoutedResponseEnvelope result \<times> LocalBrokerState \<times> 's" where
  "routeLocalBrokerRequest P cb sourceId b target routeDomain method path headers timeoutMs signal s =
     (if lb_closed b then (throwE P disconnected_target ''Local Broker is closed'' [], b, s)
      else
        (let b' = b\<lparr>requestCounter := requestCounter b + 1\<rparr>
         in case bindE (createPeerId P target) (\<lambda>t. bindE (validateLocalHeaders P headers) (\<lambda>hs. Inr (t, hs))) of
              Inl e \<Rightarrow> (Inl e, b', s)
            | Inr (t, hs) \<Rightarrow>
                (let (r, s1) = routeLocalRequestDispatch P cb
                   \<lparr>ld_requestId = sourceId @ js ''-'' @ dec (requestCounter b'), ld_sourceId = sourceId, ld_targetId = t, ld_routeDomain = routeDomain,
                    ld_method = method, ld_path = path, ld_headers = map (\<lambda>(k, v). (k, One v)) (flattenVerserHeaders hs),
                    ld_leaseAcquireTimeoutMs = parseLeaseAcquireTimeoutMs P timeoutMs, ld_signal = signal, ld_previousHopDomain = None\<rparr> s
                 in (r, b', s1))))"

section \<open>Requests of remote Brokers\<close>

definition routeH2BrokerRequestToLocalGuest :: "'p platform_scheme \<Rightarrow> 's BrokerRoutingCallbacks \<Rightarrow> nat \<Rightarrow> http_headers \<Rightarrow> jsstr \<Rightarrow> jsstr \<Rightarrow> jsstr option
    \<Rightarrow> 's \<Rightarrow> unit result \<times> 's" where
  "routeH2BrokerRequestToLocalGuest P cb stream headers requestId target routeDomain s0 =
    (let (controller, s) = cb_newController cb s0 in
     case bindE (carried_headers P headers) (\<lambda>m. checked_headers P (as_headers (rewriteGuestHeaders P m routeDomain))) of
       Inl e \<Rightarrow> (Inl e, s)
     | Inr hs \<Rightarrow>
         thenS (routeLocalRequestDispatch P cb
                  \<lparr>ld_requestId = requestId, ld_sourceId = raw_or_empty P headers ''x-verser-source-id'', ld_targetId = target,
                   ld_routeDomain = None, ld_method = request_method P headers, ld_path = request_path P headers,
                   ld_headers = map (\<lambda>(k, v). (k, One v)) hs, ld_leaseAcquireTimeoutMs = lease_timeout P headers,
                   ld_signal = Some controller, ld_previousHopDomain = None\<rparr> s) (\<lambda>r s1.
         respondToRemoteBroker P cb stream requestId
           (JObj ([(js ''statusCode'', JNum (Fin (of_int (rr_statusCode r)))),
                   (js ''headers'', JObj (map (\<lambda>(k, v). (k, JStr v)) (rr_headers r)))] @
                  (case rr_statusText r of Some t \<Rightarrow> [(js ''statusText'', JStr t)] | None \<Rightarrow> []) @
                  (case rr_headerPairs r of Some ps \<Rightarrow> [(js ''headerPairs'', JArr (map pair_json ps))] | None \<Rightarrow> []))) s1))"

text \<open>\<open>now\<close> is the text of \<open>Date.now()\<close>.\<close>

definition routeBrokerRequest :: "'p platform_scheme \<Rightarrow> 's BrokerRoutingCallbacks \<Rightarrow> jsstr \<Rightarrow> nat \<Rightarrow> http_headers \<Rightarrow> 's \<Rightarrow> unit result \<times> 's" where
  "routeBrokerRequest P cb now stream headers s =
     (case assertRemoteBrokerSession P cb stream headers s of
        Inl e \<Rightarrow> (Inl e, s)
      | Inr _ \<Rightarrow>
        (let target = raw_or_empty P headers ''x-verser-target-id'';
             requestId = raw_or P headers ''x-verser-request-id'' (js ''req-'' @ now);
             live = isRemoteBrokerRequestLive P cb stream headers;
             over = (\<lambda>lease routeDomain s. if \<not> live s then (Inr (), h2_closeStream cb lease s)
                       else routeBrokerRequestOverLease P cb stream headers lease requestId target routeDomain s)
         in case cb_getPeer cb target None s of
              None \<Rightarrow>
                thenS (tryRouteH2BrokerRequestToFederatedHost P cb stream headers requestId target s) (\<lambda>e s1.
                (case e of NoCandidate \<Rightarrow> throwE P missing_guest ''Target Guest is not registered'' [(''targetId'', CStr target)]
                 | _ \<Rightarrow> Inr (), s1))
            | Some p \<Rightarrow>
                if pi_role p \<noteq> guest
                then (throwE P missing_guest ''Target peer is not a Guest'' [(''targetId'', CStr target)], s)
                else
                  thenS (bindE (carried_headers P headers) (\<lambda>m.
                           resolveRouteDomain P cb target (route_domain_header P headers) m s), s) (\<lambda>routeDomain s.
                  thenS (createPeerId P target, s) (\<lambda>t s.
                  if pi_transport p = in_process
                  then routeH2BrokerRequestToLocalGuest P cb stream headers requestId t (Some routeDomain) s
                  else
                    thenS (cb_tryAcquireLease cb t requestId (lease_timeout P headers) s) (\<lambda>lease s1.
                    case lease of
                      Some l \<Rightarrow> over l (Some routeDomain) s1
                    | None \<Rightarrow>
                        if \<not> live s1 then (Inr (), s1)
                        else thenS (cb_acquireLease cb t requestId (lease_timeout P headers) s1) (\<lambda>l. over l (Some routeDomain)))))))"

section \<open>What the loop over the candidates does\<close>

lemma thenS_InrE:
  assumes "thenS m f = (Inr b, s')"
  obtains a s where "m = (Inr a, s)" "f a s = (Inr b, s')"
  using assms by (cases m; cases "fst m") auto

text \<open>\<open>Q\<close> holds of the domain the previous hop was resolved to.\<close>

definition hops_ok :: "(jsstr \<Rightarrow> bool) \<Rightarrow> hop_state \<Rightarrow> bool" where
  "hops_ok Q ls \<longleftrightarrow> (hopDomainResolved ls \<longrightarrow> (\<exists>d. previousHopDomain ls = Some d \<and> Q d))"

lemma resolve_previous_ok:
  assumes "resolve_previous cb q ls s = Inr ls1" and "hops_ok Q ls" and "\<And>d. hq_previous q s = Inr d \<Longrightarrow> Q d"
  shows "hops_ok Q ls1" and "cb_routeAuthorizerEnabled cb s \<Longrightarrow> \<exists>d. previousHopDomain ls1 = Some d \<and> Q d"
  using assms by (auto simp: resolve_previous_def hops_ok_def result_simps split: if_splits)

lemma evaluate_allowed:
  assumes "evaluateFederationHop P cb previous t d s = (Inr hop, s1)" and "hop \<in> {hop_not_required, hop_allowed}"
    and "cb_routeAuthorizerEnabled cb s"
  obtains p where "previous = Some p" "normalizeRequestedDomain P p \<noteq> []"
    "cb_authorizeFederatedHop cb (normalizeRequestedDomain P p) (normalizeRequestedDomain P d) s = (Inr True, s1)"
    "normalizeRequestedDomain P d \<in> (\<lambda>r. normalizeRequestedDomain P (domain r)) ` set (cb_getRouteCandidates cb t s1)"
  using assms by (auto simp: evaluateFederationHop_def Let_def image_iff eq_commute [of "normalizeRequestedDomain P d"]
      elim!: thenS_InrE split: if_splits option.splits)

text \<open>How a request gets to another Host: over a hop that the callbacks answered for or that needed no answer, on a stream
  of the candidate's next Host, while the request was live. The states in between come one after another.\<close>

definition forwarded_via :: "'p platform_scheme \<Rightarrow> 's BrokerRoutingCallbacks \<Rightarrow> ('s \<Rightarrow> 's \<Rightarrow> bool) \<Rightarrow> ('s, 'a) hop_query \<Rightarrow> (jsstr \<Rightarrow> bool)
    \<Rightarrow> 's \<Rightarrow> 'a \<Rightarrow> 's \<Rightarrow> FederatedRouteRegistration \<Rightarrow> bool" where
  "forwarded_via P cb R q Q s a s' c \<longleftrightarrow> wanted P (hq_requestedDomain q) c \<and>
     (\<exists>st s0 s1 s2. R s s0 \<and> R s0 s1 \<and> R s1 s2 \<and>
        (cb_routeAuthorizerEnabled cb s0 \<longrightarrow> (\<exists>d. Q d \<and>
           cb_authorizeFederatedHop cb (normalizeRequestedDomain P d) (normalizeRequestedDomain P (domain c)) s0 = (Inr True, s1) \<and>
           normalizeRequestedDomain P (domain c) \<in> (\<lambda>r. normalizeRequestedDomain P (domain r)) ` set (cb_getRouteCandidates cb (hq_target q) s1))) \<and>
        cb_tryAcquireFederatedRequestStream cb (nextHopHostId c) (hq_timeoutMs q) s1 = (Inr (Some st), s2) \<and>
        hq_live q s2 \<and> hq_forward q c st s2 = (Inr a, s'))"

lemma forwarded_viaI:
  assumes "wanted P (hq_requestedDomain q) c" and "R s s0" and "R s0 s1" and "R s1 s2"
    and "cb_routeAuthorizerEnabled cb s0 \<Longrightarrow> \<exists>d. Q d \<and>
           cb_authorizeFederatedHop cb (normalizeRequestedDomain P d) (normalizeRequestedDomain P (domain c)) s0 = (Inr True, s1) \<and>
           normalizeRequestedDomain P (domain c) \<in> (\<lambda>r. normalizeRequestedDomain P (domain r)) ` set (cb_getRouteCandidates cb (hq_target q) s1)"
    and "cb_tryAcquireFederatedRequestStream cb (nextHopHostId c) (hq_timeoutMs q) s1 = (Inr (Some st), s2)"
    and "hq_live q s2" and "hq_forward q c st s2 = (Inr a, s')"
  shows "forwarded_via P cb R q Q s a s' c"
  unfolding forwarded_via_def using assms by blast

text \<open>\<open>R\<close> relates a state to those in which a wait that began there may end.\<close>

locale routing_world =
  fixes cb :: "'s BrokerRoutingCallbacks" and R :: "'s \<Rightarrow> 's \<Rightarrow> bool"
  assumes R_refl: "R s s"
    and R_trans: "R s s1 \<Longrightarrow> R s1 s2 \<Longrightarrow> R s s2"
    and authorize_waits: "cb_authorizeFederatedHop cb d d' s = (r, s1) \<Longrightarrow> R s s1"
    and acquire_waits: "cb_tryAcquireFederatedRequestStream cb hid ms s = (st, s1) \<Longrightarrow> R s s1"
begin

lemma evaluate_waits: "evaluateFederationHop P cb previous t d s = (r, s1) \<Longrightarrow> R s s1"
  by (cases "cb_authorizeFederatedHop cb (normalizeRequestedDomain P (the previous)) (normalizeRequestedDomain P d) s";
      cases "fst (cb_authorizeFederatedHop cb (normalizeRequestedDomain P (the previous)) (normalizeRequestedDomain P d) s)")
    (auto simp: evaluateFederationHop_def Let_def intro: R_refl dest: authorize_waits split: if_splits option.splits)

lemma forwarded_via_later: "R s s1 \<Longrightarrow> forwarded_via P cb R q Q s1 a s' c \<Longrightarrow> forwarded_via P cb R q Q s a s' c"
  unfolding forwarded_via_def by (meson R_trans)

lemma try_candidates_forwarded:
  assumes "try_candidates P cb q cs ls s = (Inr (Forwarded a), s')"
    and "hops_ok Q ls" and "\<And>x d. R s x \<Longrightarrow> hq_previous q x = Inr d \<Longrightarrow> Q d"
  shows "\<exists>c \<in> set cs. forwarded_via P cb R q Q s a s' c"
  using assms
proof (induction cs arbitrary: ls s)
  case (Cons c cs)
  note run = Cons.prems(1) and ok = Cons.prems(2) and Q = Cons.prems(3)
  have IH: "\<exists>c \<in> set (c # cs). forwarded_via P cb R q Q s a s' c"
    if "try_candidates P cb q cs l t = (Inr (Forwarded a), s')" "R s t" "hops_ok Q l" for l t
  proof -
    have "\<exists>c \<in> set cs. forwarded_via P cb R q Q t a s' c"
      by (rule Cons.IH [OF that(1,3)]) (rule Q [OF R_trans [OF that(2)]])
    then show ?thesis by (auto dest: forwarded_via_later [OF that(2)])
  qed
  show ?case
  proof (cases "wanted P (hq_requestedDomain q) c")
    case False
    with run IH [OF _ R_refl ok] show ?thesis by simp
  next
    case True
    with run obtain ls1 where ls1: "resolve_previous cb q (ls\<lparr>hadUpstreamCandidate := True\<rparr>) s = Inr ls1"
      by (cases "resolve_previous cb q (ls\<lparr>hadUpstreamCandidate := True\<rparr>) s") auto
    have ok': "hops_ok Q (ls\<lparr>hadUpstreamCandidate := True\<rparr>)" using ok by (simp add: hops_ok_def)
    note prev = resolve_previous_ok [OF ls1 ok' Q [OF R_refl], simplified]
    from run True ls1 obtain hop s1 where hop: "evaluateFederationHop P cb (previousHopDomain ls1) (hq_target q) (domain c) s = (Inr hop, s1)"
      and rest1: "(if hop = hop_denied \<or> hop = route_lost
          then try_candidates P cb q cs (ls1\<lparr>hadDeniedCandidate := hadDeniedCandidate ls1 \<or> hop = hop_denied\<rparr>) s1
          else thenS (cb_tryAcquireFederatedRequestStream cb (nextHopHostId c) (hq_timeoutMs q) s1) (\<lambda>acquired s2.
            if \<not> hq_live q s2
            then (Inr RequestEnded, case acquired of Some st \<Rightarrow> h2_closeStream cb st s2 | None \<Rightarrow> s2)
            else case acquired of
              None \<Rightarrow> try_candidates P cb q cs (ls1\<lparr>unavailableCandidates := unavailableCandidates ls1 @ [c]\<rparr>) s2
            | Some st \<Rightarrow> thenS (hq_forward q c st s2) (\<lambda>a s3. (Inr (Forwarded a), s3)))) = (Inr (Forwarded a), s')"
      by (auto elim!: thenS_InrE split: if_splits)
    note R1 = evaluate_waits [OF hop]
    show ?thesis
    proof (cases "hop = hop_denied \<or> hop = route_lost")
      case True
      with rest1 have "try_candidates P cb q cs (ls1\<lparr>hadDeniedCandidate := hadDeniedCandidate ls1 \<or> hop = hop_denied\<rparr>) s1 =
          (Inr (Forwarded a), s')" by simp
      from IH [OF this R1] prev(1) show ?thesis by (simp add: hops_ok_def)
    next
      case False
      with rest1 obtain acquired s2 where acq: "cb_tryAcquireFederatedRequestStream cb (nextHopHostId c) (hq_timeoutMs q) s1 = (Inr acquired, s2)"
        and live: "hq_live q s2" and rest2: "(case acquired of
              None \<Rightarrow> try_candidates P cb q cs (ls1\<lparr>unavailableCandidates := unavailableCandidates ls1 @ [c]\<rparr>) s2
            | Some st \<Rightarrow> thenS (hq_forward q c st s2) (\<lambda>a s3. (Inr (Forwarded a), s3))) = (Inr (Forwarded a), s')"
        by (auto elim!: thenS_InrE split: if_splits)
      note R2 = acquire_waits [OF acq]
      show ?thesis
      proof (cases acquired)
        case None
        with rest2 have "try_candidates P cb q cs (ls1\<lparr>unavailableCandidates := unavailableCandidates ls1 @ [c]\<rparr>) s2 =
            (Inr (Forwarded a), s')" by simp
        from IH [OF this R_trans [OF R1 R2]] prev(1) show ?thesis by (simp add: hops_ok_def)
      next
        case (Some st)
        with rest2 have fwd: "hq_forward q c st s2 = (Inr a, s')" by (auto elim!: thenS_InrE)
        have hop': "hop \<in> {hop_not_required, hop_allowed}" using False by (cases hop) auto
        have authorized: "\<exists>d. Q d \<and>
           cb_authorizeFederatedHop cb (normalizeRequestedDomain P d) (normalizeRequestedDomain P (domain c)) s = (Inr True, s1) \<and>
           normalizeRequestedDomain P (domain c) \<in> (\<lambda>r. normalizeRequestedDomain P (domain r)) ` set (cb_getRouteCandidates cb (hq_target q) s1)"
          if on: "cb_routeAuthorizerEnabled cb s"
        proof -
          from prev(2) [OF on] obtain d where d: "previousHopDomain ls1 = Some d" "Q d" by blast
          obtain p where "previousHopDomain ls1 = Some p"
            and auth: "cb_authorizeFederatedHop cb (normalizeRequestedDomain P p) (normalizeRequestedDomain P (domain c)) s = (Inr True, s1)"
              "normalizeRequestedDomain P (domain c) \<in> (\<lambda>r. normalizeRequestedDomain P (domain r)) ` set (cb_getRouteCandidates cb (hq_target q) s1)"
            by (rule evaluate_allowed [OF hop hop' on])
          with d have "p = d" by simp
          with d auth show ?thesis by blast
        qed
        have "forwarded_via P cb R q Q s a s' c"
          by (rule forwarded_viaI [OF True R_refl R1 R2 authorized acq [unfolded Some] live fwd])
        then show ?thesis by simp
      qed
    qed
  qed
qed (simp add: no_candidate_def Let_def split: if_splits)

lemma route_to_federation_forwarded:
  assumes "route_to_federation P cb q None s = (Inr (Forwarded a), s')"
  shows "\<exists>c \<in> set (upstream_candidates cb (hq_target q) s).
    forwarded_via P cb R (q\<lparr>hq_candidateCount := length (upstream_candidates cb (hq_target q) s)\<rparr>)
      (\<lambda>d. \<exists>x. R s x \<and> hq_previous q x = Inr d) s a s' c"
proof -
  let ?q = "q\<lparr>hq_candidateCount := length (upstream_candidates cb (hq_target q) s)\<rparr>"
  have "try_candidates P cb ?q (upstream_candidates cb (hq_target q) s) (start_hops None) s = (Inr (Forwarded a), s')"
    using assms by (simp add: route_to_federation_def Let_def split: if_splits)
  from try_candidates_forwarded [OF this, of "\<lambda>d. \<exists>x. R s x \<and> hq_previous q x = Inr d"] show ?thesis
    by (auto simp: hops_ok_def start_hops_def)
qed

text \<open>A remote Broker's request that reached another Host.\<close>

lemma h2_forwarded:
  assumes "tryRouteH2BrokerRequestToFederatedHost P cb stream headers requestId target s = (Inr (Forwarded u), s')"
  shows "\<exists>c \<in> set (cb_getRouteCandidates cb target s). \<exists>st s0 s1 s2.
     source c = src_upstream \<and> R s s0 \<and> R s0 s1 \<and> R s1 s2 \<and>
     (cb_routeAuthorizerEnabled cb s0 \<longrightarrow> (\<exists>d x. R s x \<and> resolveRemoteBrokerDomain P cb stream headers x = Inr d \<and>
        cb_authorizeFederatedHop cb (normalizeRequestedDomain P d) (normalizeRequestedDomain P (domain c)) s0 = (Inr True, s1) \<and>
        normalizeRequestedDomain P (domain c) \<in> (\<lambda>r. normalizeRequestedDomain P (domain r)) ` set (cb_getRouteCandidates cb target s1))) \<and>
     cb_tryAcquireFederatedRequestStream cb (nextHopHostId c) (lease_timeout P headers) s1 = (Inr (Some st), s2) \<and>
     isRemoteBrokerRequestLive P cb stream headers s2 \<and>
     routeH2BrokerRequestOverFederationStream P cb stream headers st requestId target (Some (domain c)) (cb_getEgressSourceId cb s2) s2
       = (Inr u, s')"
proof -
  from assms obtain hs where hs: "carried_headers P headers = Inr hs"
    by (auto simp: tryRouteH2BrokerRequestToFederatedHost_def split: sum.splits)
  from route_to_federation_forwarded [OF assms [unfolded tryRouteH2BrokerRequestToFederatedHost_def hs sum.case]]
  show ?thesis unfolding forwarded_via_def upstream_candidates_def hop_query.simps set_filter by blast
qed

end

section \<open>When no candidate takes the request\<close>

lemma try_unwanted: "\<forall>c \<in> set cs. \<not> wanted P (hq_requestedDomain q) c \<Longrightarrow> try_candidates P cb q cs ls s = (no_candidate P q ls, s)"
  by (induction cs arbitrary: ls) auto

lemma resolve_upstream: "resolve_previous cb q ls s = Inr ls1 \<Longrightarrow> hadUpstreamCandidate ls1 = hadUpstreamCandidate ls"
  by (auto simp: resolve_previous_def result_simps split: if_splits)

text \<open>The request is left to the caller only when no federated Host advertises a route it asks for, and then nothing
  has been done.\<close>

lemma try_no_candidate:
  "try_candidates P cb q cs ls s = (Inr NoCandidate, s') \<Longrightarrow>
     \<not> hadUpstreamCandidate ls \<and> s' = s \<and> (\<forall>c \<in> set cs. \<not> wanted P (hq_requestedDomain q) c)"
proof (induction cs arbitrary: ls s)
  case (Cons c cs)
  have "\<not> wanted P (hq_requestedDomain q) c"
  proof
    assume w: "wanted P (hq_requestedDomain q) c"
    with Cons.prems obtain ls1 where ls1: "resolve_previous cb q (ls\<lparr>hadUpstreamCandidate := True\<rparr>) s = Inr ls1"
      by (cases "resolve_previous cb q (ls\<lparr>hadUpstreamCandidate := True\<rparr>) s") auto
    have "\<exists>ls' t. hadUpstreamCandidate ls' \<and> try_candidates P cb q cs ls' t = (Inr NoCandidate, s')"
      using Cons.prems w ls1 resolve_upstream [OF ls1]
      by (auto elim!: thenS_InrE split: if_splits option.splits)
        (metis hop_state.ext_inject hop_state.surjective hop_state.update_convs)+
    with Cons.IH show False by blast
  qed
  with Cons show ?case by auto
qed (auto simp: no_candidate_def throwE_def Let_def split: if_splits)

lemma try_denied:
  assumes "cb_routeAuthorizerEnabled cb s" and "hq_live q s" and "hq_previous q s = Inr d"
    and "\<And>c. c \<in> set cs \<Longrightarrow> cb_authorizeFederatedHop cb (normalizeRequestedDomain P d) (normalizeRequestedDomain P (domain c)) s = (Inr False, s)"
    and "hops_ok (\<lambda>x. x = d) ls"
  shows "\<exists>ls'. try_candidates P cb q cs ls s = (no_candidate P q ls', s) \<and>
    (hadDeniedCandidate ls' \<longleftrightarrow> hadDeniedCandidate ls \<or> (\<exists>c \<in> set cs. wanted P (hq_requestedDomain q) c))"
  using assms(4,5)
proof (induction cs arbitrary: ls)
  case (Cons c cs)
  obtain ls1 where ls1: "resolve_previous cb q (ls\<lparr>hadUpstreamCandidate := True\<rparr>) s = Inr ls1"
    using assms(3) by (cases "resolve_previous cb q (ls\<lparr>hadUpstreamCandidate := True\<rparr>) s")
      (auto simp: resolve_previous_def split: if_splits)
  have "hops_ok (\<lambda>x. x = d) (ls\<lparr>hadUpstreamCandidate := True\<rparr>)" using Cons.prems(2) by (simp add: hops_ok_def)
  note prev = resolve_previous_ok [OF ls1 this] assms(3)
  have p: "previousHopDomain ls1 = Some d" and ok1: "hops_ok (\<lambda>x. x = d) (ls1\<lparr>hadDeniedCandidate := True\<rparr>)"
    using prev assms(1) by (auto simp: hops_ok_def)
  have hop: "evaluateFederationHop P cb (previousHopDomain ls1) t (domain c) s = (Inr hop_denied, s)" for t
    using assms(1) Cons.prems(1) [of c] by (auto simp: p evaluateFederationHop_def Let_def)
  show ?case
    using Cons.IH [OF Cons.prems(1), of ls] Cons.IH [OF Cons.prems(1), of "ls1\<lparr>hadDeniedCandidate := True\<rparr>"] Cons.prems(2) ok1 assms(2)
    by (simp add: ls1 hop)
qed auto

section \<open>Headers a Guest sees\<close>

text \<open>The value under each lower-cased name, the last spelling winning.\<close>

definition lowered :: "'p platform_scheme \<Rightarrow> (jsstr \<times> 'v) list \<Rightarrow> jsstr \<Rightarrow> 'v option" where
  "lowered P m = map_of (rev (map (\<lambda>(n, v). (toLowerCase P n, v)) m))"

lemma lowered_Nil [simp]: "lowered P [] = Map.empty"
  by (simp add: lowered_def)

lemma lowered_append: "lowered P (m @ m') = lowered P m ++ lowered P m'"
  by (simp add: lowered_def)

lemma lowered_Cons: "lowered P (x # m) = [toLowerCase P (fst x) \<mapsto> snd x] ++ lowered P m"
  by (simp add: lowered_def map_add_def fun_eq_iff split: option.split prod.split)

lemma lowered_None: "lowered P m k = None \<longleftrightarrow> k \<notin> toLowerCase P ` fst ` set m"
  by (induction m) (auto simp: lowered_Cons map_add_None)

lemma lowered_update_new: "n \<notin> fst ` set m \<Longrightarrow> lowered P (AList.update n v m) = (lowered P m)(toLowerCase P n \<mapsto> v)"
  by (induction m) (auto simp: lowered_Cons)

lemma lowered_update_old:
  "distinct (map fst m) \<Longrightarrow> (\<And>n'. n' \<in> fst ` set m \<Longrightarrow> toLowerCase P n' = toLowerCase P n \<Longrightarrow> n' = n) \<Longrightarrow>
   lowered P (AList.update n v m) = (lowered P m)(toLowerCase P n \<mapsto> v)"
proof (induction m)
  case (Cons x m)
  show ?case
  proof (cases "fst x = n")
    case True
    have "lowered P m (toLowerCase P n) = None"
      unfolding lowered_None
    proof
      assume "toLowerCase P n \<in> toLowerCase P ` fst ` set m"
      then obtain n' where "n' \<in> fst ` set m" "toLowerCase P n' = toLowerCase P n" by (metis imageE)
      moreover from this Cons.prems(2) [of n'] have "n' = n" by simp
      ultimately show False using Cons.prems(1) True by simp
    qed
    with True show ?thesis by (cases x) (simp add: lowered_Cons map_add_def fun_eq_iff split: option.split)
  next
    case False
    moreover have "toLowerCase P (fst x) \<noteq> toLowerCase P n" using False Cons.prems(2) [of "fst x"] by auto
    ultimately show ?thesis using Cons.IH Cons.prems
      by (cases x) (simp add: lowered_Cons fun_eq_iff map_add_def split: option.split)
  qed
qed (simp add: lowered_Cons)

lemma lowered_filter:
  "lowered P (filter (\<lambda>(n, _). Q (toLowerCase P n)) m) k = (if Q k then lowered P m k else None)"
  by (induction m) (auto simp: lowered_Cons map_add_def split: option.split prod.split)

lemma lowered_distinct:
  "distinct (map (\<lambda>e. toLowerCase P (fst e)) m) \<Longrightarrow> (n, v) \<in> set m \<Longrightarrow> lowered P m (toLowerCase P n) = Some v"
  unfolding lowered_def by (rule map_of_is_SomeI) (force simp: comp_def split_def rev_map [symmetric])+

lemma fromEntries_distinct: "distinct (map fst es) \<Longrightarrow> fromEntries es = es"
proof (induction es rule: rev_induct)
  case (snoc x es)
  then show ?case by (cases x) (simp add: fromEntries_def update_new)
qed (simp add: fromEntries_def)

lemma foldl_obj_set_lookup:
  "k \<noteq> js ''__proto__'' \<Longrightarrow>
   map_of (foldl (\<lambda>m (n, v). obj_set n (f v) m) m0 es) k = (map_of m0 ++ (map_option f \<circ> map_of (rev es))) k"
  by (induction es arbitrary: m0) (auto simp: obj_set_def update_conv' map_add_def split: option.split)

lemma map_of_rev_distinct: "distinct (map fst v) \<Longrightarrow> map_of (rev v) = map_of v"
  by (rule map_of_inject_set [THEN iffD2]) (simp_all add: rev_map [symmetric])

lemma flatten_lookup:
  assumes "distinct (map fst v)" and "k \<noteq> js ''__proto__''"
  shows "map_of (flattenVerserHeaders v) k = map_option header_out_string (map_of v k)"
  using foldl_obj_set_lookup [OF assms(2), of header_out_string "[]" v] map_of_rev_distinct [OF assms(1)]
  by (simp add: flattenVerserHeaders_def)

lemma validate_foldl:
  assumes "foldE (\<lambda>(name, value) validated.
        (let normalizedName = toLowerCase P name in
         if \<not> isValidHttpHeaderName normalizedName
         then headerError P (js ''Invalid header name'') name
         else if normalizedName \<in> set FORBIDDEN_HTTP1_HEADERS
         then headerError P (js ''Forbidden header for routed metadata'') normalizedName
         else
           (let values = header_values P value in
            if \<exists>v \<in> set values. \<not> isValidHeaderValue v
            then headerError P (js ''Invalid header value'') normalizedName
            else Inr (obj_set normalizedName (header_out_of value values) validated)))) (as_headers m) v0 = Inr v"
  shows "v = foldl (\<lambda>acc (n, x). obj_set n x acc) v0 (map (\<lambda>(n, x). (toLowerCase P n, x)) m)"
  using assms
proof (induction m arbitrary: v0)
  case (Cons e m)
  obtain n x where e: "e = (n, x)" by (cases e)
  have x: "header_out_of (case x of One s \<Rightarrow> HAtom (AStr s) | Many ss \<Rightarrow> HArr (map AStr ss))
      (header_values P (case x of One s \<Rightarrow> HAtom (AStr s) | Many ss \<Rightarrow> HArr (map AStr ss))) = x"
    by (cases x) (simp_all add: header_out_of_def comp_def)
  from Cons.prems show ?case
    by (auto simp: as_headers_def e x Let_def result_simps headerError_def split: if_splits intro: Cons.IH [unfolded as_headers_def])
qed (simp add: as_headers_def)

lemma validate_lookup:
  assumes "validateVerserHeaders P (as_headers m) = Inr v" and "k \<noteq> js ''__proto__''"
  shows "map_of v k = lowered P m k"
  unfolding validate_foldl [OF assms(1) [unfolded validateVerserHeaders_def]] lowered_def
  using foldl_obj_set_lookup [OF assms(2), where f = id and es = "map (\<lambda>(n, x). (toLowerCase P n, x)) m" and ?m0.0 = "[]"]
  by (simp add: option.map_id0)

lemma validate_distinct:
  assumes "validateVerserHeaders P (as_headers m) = Inr v"
  shows "distinct (map fst v)"
proof -
  have "distinct (map fst v0) \<Longrightarrow> distinct (map fst (foldl (\<lambda>acc (n, x). obj_set n x acc) v0 es))" for v0 :: "(jsstr \<times> header_out) list" and es
    by (induction es arbitrary: v0) (auto simp: obj_set_distinct)
  then show ?thesis unfolding validate_foldl [OF assms(1) [unfolded validateVerserHeaders_def]] by simp
qed

lemma checked_lookup:
  assumes "checked_headers P (as_headers m) = Inr hs" and "k \<noteq> js ''__proto__''"
  shows "map_of hs k = map_option header_out_string (lowered P m k)"
  using assms by (auto simp: checked_headers_def result_simps validate_lookup flatten_lookup validate_distinct)


lemma lower_host [simp]: "toLowerCase P (js ''host'') = js ''host''" "toLowerCase P (js ''x-forwarded-host'') = js ''x-forwarded-host''"
  by (simp_all add: toLowerCase_def js_def ascii_lower_def is_ascii_def)

lemma host_names [simp]: "js ''x-forwarded-host'' \<noteq> js ''host''" "js ''host'' \<noteq> js ''__proto__''" "js ''x-forwarded-host'' \<noteq> js ''__proto__''"
  by (simp_all add: js_def)

lemma rewritten_lookup:
  assumes "distinct (map (\<lambda>e. toLowerCase P (fst e)) m)"
  shows "lowered P (rewriteGuestHeaders P m (Some d)) =
    (lowered P m)(js ''host'' \<mapsto> One d,
      js ''x-forwarded-host'' := (case requested_host P m of
         Some h \<Rightarrow> (if normalizeAuthority P h \<noteq> normalizeAuthority P d then Some (One h) else None)
       | None \<Rightarrow> None))"
proof -
  let ?F = "filter (\<lambda>(n, _). toLowerCase P n \<noteq> js ''x-forwarded-host'') m"
  have dist: "distinct (map (\<lambda>e. toLowerCase P (fst e)) ?F)"
    by (rule distinct_map_filter [OF assms])
  then have fsts: "distinct (map fst ?F)" by (simp add: distinct_map comp_inj_on_iff [symmetric] inj_on_def) metis
  have host: "lowered P (AList.update (js ''host'') (One d) ?F) = (lowered P ?F)(js ''host'' \<mapsto> One d)"
  proof (cases "js ''host'' \<in> fst ` set ?F")
    case True
    have "n' = js ''host''" if "n' \<in> fst ` set ?F" "toLowerCase P n' = toLowerCase P (js ''host'')" for n'
      using dist that True unfolding distinct_map inj_on_def by force
    from lowered_update_old [OF fsts this] show ?thesis by simp
  qed (simp add: lowered_update_new)
  have new: "js ''x-forwarded-host'' \<notin> fst ` set (AList.update (js ''host'') (One d) ?F)"
    by (auto simp: dom_update host_names)
  have filt: "lowered P ?F = (lowered P m)(js ''x-forwarded-host'' := None)"
    using lowered_filter [of P "\<lambda>n. n \<noteq> js ''x-forwarded-host''" m] by auto
  show ?thesis
    by (auto simp: rewriteGuestHeaders_def Let_def fromEntries_distinct [OF fsts] obj_set_def host filt lowered_update_new [OF new] fun_eq_iff split: option.split)
qed



text \<open>With a second spelling of \<open>host\<close> after the first, the Guest sees what the caller sent there.\<close>

theorem second_host_spelling_wins:
  "(case checked_headers sample_platform (as_headers (rewriteGuestHeaders sample_platform
        [(js ''host'', One (js ''b'')), (js ''Host'', One (js ''c''))] (Some (js ''a'')))) of
      Inr hs \<Rightarrow> map_of hs (js ''host'') = Some (js ''c'') | Inl _ \<Rightarrow> False)"
  by code_simp

text \<open>A remote Broker's request to an in-process Guest has its headers rewritten by \<open>routeH2BrokerRequestToLocalGuest\<close> and
  again by \<open>routeLocalRequestDispatch\<close>, which then sees the route's domain as the original host: the \<open>x-forwarded-host\<close> of
  the first pass is dropped.\<close>

theorem second_rewrite_drops_forwarded_host:
  "checked_headers sample_platform (as_headers (rewriteGuestHeaders sample_platform [(js ''host'', One (js ''b''))] (Some (js ''a'')))) =
     Inr [(js ''host'', js ''a''), (js ''x-forwarded-host'', js ''b'')] \<and>
   rewriteGuestHeaders sample_platform [(js ''host'', One (js ''a'')), (js ''x-forwarded-host'', One (js ''b''))] (Some (js ''a'')) =
     [(js ''host'', One (js ''a''))]"
  by code_simp

end
