(* ===== verification/Host_Authority.thy ===== *)
theory Host_Authority
  imports Host_System
begin

text \<open>
  The authorizer of a Host: no operation of the Host sets, clears or replaces it, so in every later state it is the
  authorizer the Host had, some steps of its own further.
\<close>

section \<open>The authorizer stays\<close>

definition gated :: "'p platform_scheme \<Rightarrow> authorizer \<Rightarrow> Host \<Rightarrow> bool" where
  "gated P a h \<longleftrightarrow> (\<exists>a'. routeAuthorizer h = Some a' \<and> (auth_step P)\<^sup>*\<^sup>* a a')"

lemma gated_quiet: "quiet h h' \<Longrightarrow> gated P0 a0 h' = gated P0 a0 h"
  using quiet_field [of h h' routeAuthorizer] by (simp add: gated_def quiet_view_def)

lemma gated_more: "FedStreams.more h' = FedStreams.more h \<Longrightarrow> gated P0 a0 h' = gated P0 a0 h"
  by (cases h; cases h') (simp add: gated_def)

lemma gated_fields [simp]:
  "gated P0 a0 (h\<lparr>closedStreams := x1\<rparr>) = gated P0 a0 h" "gated P0 a0 (h\<lparr>wsIdleLeases := x2\<rparr>) = gated P0 a0 h"
  "gated P0 a0 (h\<lparr>activeLocalRequests := x3\<rparr>) = gated P0 a0 h" "gated P0 a0 (h\<lparr>abortedControllers := x4\<rparr>) = gated P0 a0 h"
  "gated P0 a0 (h\<lparr>degradedCleanup := x5\<rparr>) = gated P0 a0 h" "gated P0 a0 (h\<lparr>closedSessions := x6\<rparr>) = gated P0 a0 h"
  "gated P0 a0 (h\<lparr>routeRegistry := x7\<rparr>) = gated P0 a0 h" "gated P0 a0 (h\<lparr>leasePool := x8\<rparr>) = gated P0 a0 h"
  "gated P0 a0 (h\<lparr>h_peers := x9\<rparr>) = gated P0 a0 h" "gated P0 a0 (h\<lparr>remoteBrokerSessions := x10\<rparr>) = gated P0 a0 h"
  "gated P0 a0 (h\<lparr>localBrokers := x11\<rparr>) = gated P0 a0 h" "gated P0 a0 (h\<lparr>pendingInboundFederationHosts := x12\<rparr>) = gated P0 a0 h"
  "gated P0 a0 (h\<lparr>pendingUpstreamConnections := x13\<rparr>) = gated P0 a0 h" "gated P0 a0 (h\<lparr>upstreamLinks := x14\<rparr>) = gated P0 a0 h"
  "gated P0 a0 (h\<lparr>inboundFederationHosts := x15\<rparr>) = gated P0 a0 h" "gated P0 a0 (h\<lparr>seenFederationLifecycleEventIds := x16\<rparr>) = gated P0 a0 h"
  "gated P0 a0 (h\<lparr>lifecycleGeneration := x17\<rparr>) = gated P0 a0 h" "gated P0 a0 (h\<lparr>effects := x18\<rparr>) = gated P0 a0 h"
  by (simp_all add: gated_def)

lemma gated_parts [simp]:
  "gated P0 a0 (emitLifecycle n p r e h) = gated P0 a0 h" "gated P0 a0 (write_frame st f h) = gated P0 a0 h"
  "gated P0 a0 (clearWsIdleLeases p h) = gated P0 a0 h"
  "gated P0 a0 (abortLocalRequestsForPeer p h) = gated P0 a0 h" "gated P0 a0 (startDegradedRouteCleanupTimer h) = gated P0 a0 h"
  "gated P0 a0 (stopDegradedRouteCleanupTimer h) = gated P0 a0 h" "gated P0 a0 (emit_error h) = gated P0 a0 h" "gated P0 a0 (emit_closed s h) = gated P0 a0 h"
  "gated P0 a0 (snd (on_registry g h)) = gated P0 a0 h" "gated P0 a0 (with_local_broker k a h) = gated P0 a0 h" "gated P0 a0 (close_streams sts h) = gated P0 a0 h"
  "gated P0 a0 (no_longer_pending u h) = gated P0 a0 h" "gated P0 a0 (connectUpstream_failed u s' h) = gated P0 a0 h"
  by (auto simp: gated_def emitLifecycle_def write_frame_def clearWsIdleLeases_def
      abortLocalRequestsForPeer_def startDegradedRouteCleanupTimer_def stopDegradedRouteCleanupTimer_def emit_error_def
      emit_closed_def on_registry_def with_local_broker_def close_streams_def no_longer_pending_def connectUpstream_failed_def
      split: option.split prod.split)

lemma gated_invalidate [simp]: "gated P0 a0 h \<Longrightarrow> gated P0 a0 (invalidateRouteAuthorizations h)"
  by (auto simp: gated_def invalidateRouteAuthorizations_def intro: rtranclp.rtrancl_into_rtrancl invalidated)

lemma gated_authorizer: "gated P0 a0 h \<Longrightarrow> routeAuthorizer h = Some a \<Longrightarrow> auth_step P0 a a' \<Longrightarrow> gated P0 a0 (h\<lparr>routeAuthorizer := Some a'\<rparr>)"
  by (auto simp: gated_def)

lemma gated_advertise [simp]:
  "gated P0 a0 (snd (advertise_created P raws h)) = gated P0 a0 h" "gated P0 a0 (snd (advertise_all P h)) = gated P0 a0 h"
  "gated P0 a0 (snd (advertise_checked made evs skip h)) = gated P0 a0 h" "gated P0 a0 (forwardFederationEventsToPeers x mk eid h) = gated P0 a0 h"
  "gated P0 a0 (snd (writeFederatedRoutes P st p h)) = gated P0 a0 h" "gated P0 a0 (snd (advertiseFederatedRoutes P h)) = gated P0 a0 h"
  "gated P0 a0 (snd (advertiseRouteLifecycleEvents P raws skip h)) = gated P0 a0 h" "gated P0 a0 (advertiseRoutes P h) = gated P0 a0 h"
  by (auto simp: advertise_created_def advertise_all_def gated_quiet [OF quiet_advertiseEvents]
      gated_quiet [OF quiet_advertiseFederated] gated_quiet [OF quiet_advertiseRoutes] gated_quiet [OF quiet_advertise_checked]
      gated_quiet [OF quiet_forward] gated_quiet [OF quiet_writeFederatedRoutes] split: sum.split)

lemmas gated_then = thenS_keeps [where I = "gated P0 a0"] for P0 a0

lemma gated_routes:
  assumes "gated P0 a0 h"
  shows "gated P0 a0 (snd (set_domains P p ds h))" and "gated P0 a0 (snd (replace_degraded P p ds h))"
    and "gated P0 a0 (snd (degrade_guest P now p reason h))" and "gated P0 a0 (snd (announce_degraded P p h))"
    and "gated P0 a0 (snd (apply_local_routes P p ds h))" and "gated P0 a0 (snd (apply_remote_routes P p ds h))"
proof -
  have sets: "gated P0 a0 (snd (set_domains P p ds x))" if "gated P0 a0 x" for x
    using that by (auto simp: set_domains_def split: sum.split)
  then show "gated P0 a0 (snd (set_domains P p ds h))" by (simp add: assms)
  have replaced: "gated P0 a0 (snd (replace_degraded P p ds x))" if "gated P0 a0 x" for x
    unfolding replace_degraded_def Let_def using that by (auto intro!: gated_then sets)
  then show "gated P0 a0 (snd (replace_degraded P p ds h))" by (simp add: assms)
  show "gated P0 a0 (snd (degrade_guest P now p reason h))" "gated P0 a0 (snd (announce_degraded P p h))"
    using assms by (auto simp: degrade_guest_def announce_degraded_def Let_def intro!: gated_then)
  show "gated P0 a0 (snd (apply_local_routes P p ds h))" "gated P0 a0 (snd (apply_remote_routes P p ds h))"
    using assms by (auto simp: apply_local_routes_def apply_remote_routes_def Let_def intro!: gated_then sets replaced)
qed

lemma gated_local:
  assumes "gated P0 a0 h"
  shows "gated P0 a0 (snd (attachLocalGuest_finish P p gen ds listener answer h))" "gated P0 a0 (snd (attachLocalBroker_finish P p bd gen answer h))"
    "gated P0 a0 (snd (revokeLocalRoutes P c p ds h))" "gated P0 a0 (snd (detachLocalPeer P now p reason h))"
proof -
  have auth: "gated P0 a0 (snd (authorizeLocalRegistration P answer p role x)) = gated P0 a0 x" for role x
    by (simp add: authorizeLocalRegistration_def Let_def split: admission.split)
  show "gated P0 a0 (snd (attachLocalGuest_finish P p gen ds listener answer h))" "gated P0 a0 (snd (attachLocalBroker_finish P p bd gen answer h))"
    using assms unfolding attachLocalGuest_finish_def attachLocalBroker_finish_def Let_def
    by (auto intro!: gated_then gated_routes simp: auth)
  show "gated P0 a0 (snd (revokeLocalRoutes P c p ds h))" "gated P0 a0 (snd (detachLocalPeer P now p reason h))"
    using assms by (auto simp: revokeLocalRoutes_def detachLocalPeer_def Let_def split: prod.split option.split
        intro!: gated_then gated_routes)
qed

lemma gated_remote:
  assumes "gated P0 a0 h"
  shows "gated P0 a0 (detachRemoteBrokerSession p s h)" "gated P0 a0 (handleRemoteBrokerControlClose running p s c h)"
    "gated P0 a0 (snd (registerPeer_finish P tls p st s gen reg answer h))" "gated P0 a0 (snd (attachGuestControlStream P p st h))"
    "gated P0 a0 (snd (handleGuestRevocation_begin P header st sess h))" "gated P0 a0 (snd (handleGuestRevocation_finish P p st body h))"
    "gated P0 a0 (snd (removeSessionPeers P now s h))"
proof -
  have detach: "gated P0 a0 (detachRemoteBrokerSession p s x)" if "gated P0 a0 x" for p x
    using that by (auto simp: detachRemoteBrokerSession_def Let_def split: option.split list.split)
  then show "gated P0 a0 (detachRemoteBrokerSession p s h)" by (simp add: assms)
  then show "gated P0 a0 (handleRemoteBrokerControlClose running p s c h)"
    using assms by (auto simp: handleRemoteBrokerControlClose_def split: option.split)
  have "gated P0 a0 (snd (authorizeRegistration answer st s p reg h))"
    using assms by (simp add: authorizeRegistration_def Let_def split: admission.split)
  moreover obtain b h0 where b: "authorizeRegistration answer st s p reg h = (b, h0)" by (metis surj_pair)
  ultimately have h0: "gated P0 a0 h0" by simp
  have "gated P0 a0 (snd (publish_peer P p s q x))" if "gated P0 a0 x" for q x
    using that by (auto simp: publish_peer_def already_registered_def Let_def split: option.split)
  with h0 show "gated P0 a0 (snd (registerPeer_finish P tls p st s gen reg answer h))"
    unfolding registerPeer_finish_def b Let_def prod.case by (auto intro!: gated_then gated_routes)
  show "gated P0 a0 (snd (attachGuestControlStream P p st h))"
    using assms by (auto simp: attachGuestControlStream_def split: option.split)
  have respond: "gated P0 a0 (snd (respond_revocation P st c status m f x)) = gated P0 a0 x" for c status m f x
    by (auto simp: respond_revocation_def split: sum.split)
  then show "gated P0 a0 (snd (handleGuestRevocation_begin P header st sess h))" "gated P0 a0 (snd (handleGuestRevocation_finish P p st body h))"
    using assms by (auto simp: handleGuestRevocation_begin_def handleGuestRevocation_finish_def Let_def
        split: option.split sum.split prod.split intro!: gated_then)
  have "gated P0 a0 (foldl (\<lambda>h p. detachRemoteBrokerSession p s h) h ps)" for ps
    by (rule foldl_keeps [where I = "gated P0 a0"]) (simp_all add: assms detach)
  moreover have "gated P0 a0 (snd (remove_session_peer P now p q x))" if "gated P0 a0 x" for p q x
    using that by (auto simp: remove_session_peer_def Let_def intro!: gated_then gated_routes)
  ultimately show "gated P0 a0 (snd (removeSessionPeers P now s h))"
    unfolding removeSessionPeers_def Let_def
    by (auto intro!: gated_then forS_keeps [where I = "gated P0 a0"])
qed

lemma gated_tick: "gated P0 a0 h \<Longrightarrow> gated P0 a0 (snd (cleanup_tick P now h))"
proof -
  assume h: "gated P0 a0 h"
  let ?cb = "createDegradedCleanupCallbacks P"
  have "gated P0 a0 (snd (check P ?cb now (degradedCleanup h) h))"
    by (rule check_keeps) (use h in \<open>auto simp: createDegradedCleanupCallbacks_def Let_def split: prod.split\<close>)
  then show ?thesis by (auto simp: cleanup_tick_def Let_def split: prod.split)
qed

lemma gated_imported:
  assumes "gated P0 a0 h"
  shows "gated P0 a0 (snd (setImportedFederatedRoutes P u rs h))" "gated P0 a0 (snd (removeImportedFederatedRoutes P u h))"
    "gated P0 a0 (remove_imported_route u t d h)"
proof -
  have errors: "gated P0 a0 (foldl (\<lambda>h _. emit_error h) x xs)" if "gated P0 a0 x" for x and xs :: "'z list"
    by (rule foldl_keeps [where I = "gated P0 a0"]) (auto simp: that)
  show "gated P0 a0 (snd (setImportedFederatedRoutes P u rs h))"
    using assms unfolding setImportedFederatedRoutes_def Let_def by (auto intro!: gated_then simp: errors)
  show "gated P0 a0 (snd (removeImportedFederatedRoutes P u h))" "gated P0 a0 (remove_imported_route u t d h)"
    using assms by (auto simp: removeImportedFederatedRoutes_def remove_imported_route_def Let_def split: prod.split)
qed

lemma gated_frame: "gated P0 a0 h \<Longrightarrow> gated P0 a0 (snd (handleFederatedRouteFrame P fresh owner f h))"
proof -
  have removes: "gated P0 a0 (foldl (\<lambda>h e. if raw_type e = js ''removed'' then remove_imported_route owner (raw_targetId e) (raw_domain e) h
      else h) x es)" if "gated P0 a0 x" for x es
    by (rule foldl_keeps [where I = "gated P0 a0"]) (auto simp: that gated_imported)
  have lifecycle: "gated P0 a0 (snd (handle_lifecycle_frame P fresh owner f x))" if "gated P0 a0 x" for x
    using that by (auto simp: handle_lifecycle_frame_def Let_def removes split: json.split option.split intro!: gated_then)
  with gated_imported(1) show "gated P0 a0 h \<Longrightarrow> ?thesis"
    by (auto simp: handleFederatedRouteFrame_def split: option.split json.split intro!: gated_then)
qed

lemma gated_links:
  assumes "gated P0 a0 h"
  shows "gated P0 a0 (snd (handleHostFederationStream_read P toNum hs sess r h))"
    "gated P0 a0 (snd (handleHostFederationStream_finish P lid gen r st s hid answer h))"
    "gated P0 a0 (snd (handleHostFederationRouteStream P header sess st h))" "gated P0 a0 (snd (removeInboundFederationHost P hid h))"
    "gated P0 a0 (snd (connectUpstream_begin P pool u h))" "gated P0 a0 (connectUpstream_linked link h)"
    "gated P0 a0 (snd (connectUpstream_finish P u s h))" "gated P0 a0 (snd (handleUpstreamSessionClose P u h))"
    "gated P0 a0 (snd (handleUpstreamRouteStreamClose P u h))" "gated P0 a0 (snd (closeUpstreamLink_begin P u h))"
proof -
  show "gated P0 a0 (snd (handleHostFederationStream_read P toNum hs sess r h))" "gated P0 a0 (snd (connectUpstream_begin P pool u h))"
    "gated P0 a0 (connectUpstream_linked link h)"
    using assms by (auto simp: handleHostFederationStream_read_def connectUpstream_begin_def connectUpstream_linked_def Let_def
        split: sum.split option.split prod.split)
  have "gated P0 a0 (snd (authorizeHostFederation answer st s hid h))"
    using assms by (simp add: authorizeHostFederation_def Let_def split: admission.split)
  then show "gated P0 a0 (snd (handleHostFederationStream_finish P lid gen r st s hid answer h))"
    by (cases "authorizeHostFederation answer st s hid h") (simp add: handleHostFederationStream_finish_def Let_def)
  show "gated P0 a0 (snd (handleHostFederationRouteStream P header sess st h))"
    using assms by (auto simp: handleHostFederationRouteStream_def split: sum.split prod.split)
  show "gated P0 a0 (snd (removeInboundFederationHost P hid h))"
    using assms gated_more [of "remove_link P hid h" h]
    by (auto simp: removeInboundFederationHost_def intro!: gated_then gated_imported)
  have "gated P0 a0 (snd (advertiseFederatedRoutes P (emitLifecycle Ev_connected u None None h)))" using assms by simp
  then show "gated P0 a0 (snd (connectUpstream_finish P u s h))"
    by (cases "advertiseFederatedRoutes P (emitLifecycle Ev_connected u None None h)") (auto simp: connectUpstream_finish_def split: sum.split)
  have session: "gated P0 a0 (snd (handleUpstreamSessionClose P u x))" if "gated P0 a0 x" for x
    using that by (auto simp: handleUpstreamSessionClose_def split: option.split intro!: gated_then gated_imported)
  then show "gated P0 a0 (snd (handleUpstreamSessionClose P u h))" by (simp add: assms)
  show "gated P0 a0 (snd (handleUpstreamRouteStreamClose P u h))" "gated P0 a0 (snd (closeUpstreamLink_begin P u h))"
    using assms by (auto simp: handleUpstreamRouteStreamClose_def closeUpstreamLink_begin_def Let_def split: option.split
        intro!: session gated_then gated_imported)
qed

lemma gated_close:
  assumes "gated P0 a0 h"
  shows "gated P0 a0 (close_begin h)" and "gated P0 a0 (close_rest P running sessions reason h)"
proof -
  show "gated P0 a0 (close_begin h)" using assms by (simp add: close_begin_def)
  define h1 where "h1 = foldl (\<lambda>h (_ :: jsstr, peer). case rp_localBroker peer of
      Some a \<Rightarrow> with_local_broker (closeLocalBrokerState P reason) a h | None \<Rightarrow> h) h (h_peers h)"
  have h1: "gated P0 a0 h1"
    unfolding h1_def by (rule foldl_keeps [where I = "gated P0 a0"]) (auto simp: assms split: option.split)
  have abort: "gated P0 a0 (abortAllLocalRequests x)" if "gated P0 a0 x" for x
    unfolding abortAllLocalRequests_def by (rule foldl_keeps [where I = "gated P0 a0"]) (simp_all add: that)
  have waiters: "gated P0 a0 (failAllFederatedRequestStreamWaiters P m x) = gated P0 a0 x" for x m
    by (rule gated_more) simp
  show "gated P0 a0 (close_rest P running sessions reason h)"
    using assms unfolding close_rest_def Let_def h1_def [symmetric] by (simp add: waiters abort h1)
qed

lemma gated_requests [simp]:
  "gated P0 a0 (snd (handleHostFederationRequestStream P msg header sess policy st h)) = gated P0 a0 h"
  "gated P0 a0 (snd (acquireFederatedRequestStream P hid ms aborted h)) = gated P0 a0 h" "gated P0 a0 (waiter_timeout P p h) = gated P0 a0 h"
  "gated P0 a0 (waiter_abort P p h) = gated P0 a0 h" "gated P0 a0 (plain_stream_close hid st h) = gated P0 a0 h" "gated P0 a0 (pooled_stream_close P hid st h) = gated P0 a0 h"
  by (rule gated_more, simp)+

lemma host_step_gated: "host_step P0 h h' \<Longrightarrow> gated P0 a0 h \<Longrightarrow> gated P0 a0 h'"
  by (induction rule: host_step.induct)
    (simp_all add: gated_authorizer gated_local gated_remote gated_tick gated_frame gated_links gated_close)

end
