(* ===== verification/Host_Routing.thy ===== *)
theory Host_Routing
  imports Broker_Routing Host_Authority Host_Properties
begin

text \<open>
  The routing of broker-routing.ts on the Host's own state: \<open>getBrokerRoutingCallbacks\<close> of
  \<open>node-http2-verser-host.ts\<close> with the methods behind it. What reaches another Host was allowed by the route authorizer,
  and what is routed at all comes from a Broker registered on the session it arrived over.

  A promise that is awaited is settled in a later state of the Host. The record \<open>awaits\<close> gives that state and the outcome;
  the locale \<open>host_awaits\<close> states what the event loop guarantees of it: only steps of the Host lie in between, and the
  outcome is the one the promise was settled with.
\<close>

section \<open>The Host's callbacks\<close>

record awaits =
  aw_answer :: "nat \<Rightarrow> Host \<Rightarrow> bool result \<times> Host"
  aw_stream :: "fed_answer \<Rightarrow> Host \<Rightarrow> nat result \<times> Host"
  aw_lease :: "nat \<Rightarrow> Host \<Rightarrow> nat result \<times> Host"
  aw_aborted :: "Host \<Rightarrow> bool option"
  aw_now :: "Host \<Rightarrow> rat"

text \<open>The streams and sessions of Node, and the in-process Guests.\<close>

record node_io =
  io_session :: "nat \<Rightarrow> Host \<Rightarrow> nat option"
  io_ended :: "nat \<Rightarrow> Host \<Rightarrow> bool"
  io_close :: "nat \<Rightarrow> Host \<Rightarrow> Host"
  io_write :: "nat \<Rightarrow> bytes \<Rightarrow> Host \<Rightarrow> Host"
  io_read :: "nat \<Rightarrow> Host \<Rightarrow> ParsedVerserEnvelope result \<times> Host"
  io_respond :: "nat \<Rightarrow> int \<Rightarrow> (jsstr \<times> jsstr) list \<Rightarrow> Host \<Rightarrow> Host"
  io_localGuest :: "jsstr \<Rightarrow> nat option"
  io_dispatch :: "nat \<Rightarrow> LocalDispatchRequest \<Rightarrow> Host \<Rightarrow> RoutedResponseEnvelope result \<times> Host"
  io_controller :: "Host \<Rightarrow> nat"

definition getPeerForSession :: "jsstr \<Rightarrow> nat \<Rightarrow> Host \<Rightarrow> RegisteredPeer option" where
  "getPeerForSession peerId session h =
     (case Option.bind (map_of (remoteBrokerSessions h) peerId) (\<lambda>ms. map_of ms session) of
        Some m \<Rightarrow> Some m
      | None \<Rightarrow>
          (case map_of (h_peers h) peerId of
             None \<Rightarrow> None
           | Some q \<Rightarrow> (if rp_session q = Some session then Some q else None)))"

definition peer_for :: "jsstr \<Rightarrow> nat option \<Rightarrow> Host \<Rightarrow> RegisteredPeer option" where
  "peer_for peerId session h =
     (case session of None \<Rightarrow> map_of (h_peers h) peerId | Some s \<Rightarrow> getPeerForSession peerId s h)"

definition getRegisteredBrokerDomain :: "jsstr \<Rightarrow> nat option \<Rightarrow> Host \<Rightarrow> jsstr option" where
  "getRegisteredBrokerDomain peerId session h =
     (case peer_for peerId session h of
        None \<Rightarrow> None
      | Some q \<Rightarrow> (if rp_role q \<noteq> broker then None else rp_brokerDomain q))"

definition authorizeFederatedHopPair :: "'p platform_scheme \<Rightarrow> awaits \<Rightarrow> jsstr \<Rightarrow> jsstr \<Rightarrow> Host \<Rightarrow> bool result \<times> Host" where
  "authorizeFederatedHopPair P w previous next h =
     (case routeAuthorizer h of
        None \<Rightarrow> (Inr True, h)
      | Some a \<Rightarrow>
          (let (answer, a1) = authorizeHop P \<lparr>previousAdvertisedDomain = previous, nextSelectedDomain = next\<rparr> (aw_now w h) a;
               h1 = h\<lparr>routeAuthorizer := Some a1\<rparr>
           in case answer of
                Immediate b \<Rightarrow> (Inr b, h1)
              | Joined e \<Rightarrow> aw_answer w e h1
              | Started e \<Rightarrow> aw_answer w e h1))"

text \<open>\<open>setTimeout\<close> gets what \<open>parseLeaseAcquireTimeoutMs\<close> returns, a finite number.\<close>

definition finite_ms :: "jsnumber \<Rightarrow> rat" where
  "finite_ms n = (case n of Fin r \<Rightarrow> r | _ \<Rightarrow> 0)"

definition tryAcquireFederatedRequestStream :: "'p platform_scheme \<Rightarrow> awaits \<Rightarrow> jsstr \<Rightarrow> jsnumber \<Rightarrow> Host \<Rightarrow> nat option result \<times> Host" where
  "tryAcquireFederatedRequestStream P w hid timeoutMs h =
    (let (promise, h1) = acquireFederatedRequestStream P hid (finite_ms timeoutMs) (aw_aborted w h) h
     in case aw_stream w promise h1 of
          (Inr st, h2) \<Rightarrow> (Inr (Some st), h2)
        | (Inl e, h2) \<Rightarrow>
            (let verserError = toVerserError P e None
             in (if err_code verserError = upstream_unavailable then Inr None else Inl (Verser verserError), h2)))"

definition peer_info :: "node_io \<Rightarrow> RegisteredPeer \<Rightarrow> PeerInfo" where
  "peer_info n q = \<lparr>pi_role = rp_role q, pi_transport = rp_transport q, pi_session = rp_session q,
     pi_localGuest = io_localGuest n (rp_peerId q)\<rparr>"

definition request_lifecycle :: "request_event \<Rightarrow> jsstr \<Rightarrow> Host \<Rightarrow> Host" where
  "request_lifecycle ev p h =
     emitLifecycle (case ev of requestStarted \<Rightarrow> Ev_requestStarted | requestCompleted \<Rightarrow> Ev_requestCompleted | requestFailed _ \<Rightarrow> Ev_error)
       p (Some guest) None h"

definition lease_promise :: "awaits \<Rightarrow> nat \<times> LeasePool \<Rightarrow> Host \<Rightarrow> nat result \<times> Host" where
  "lease_promise w r h = aw_lease w (fst r) (h\<lparr>leasePool := snd r\<rparr>)"

definition getBrokerRoutingCallbacks :: "'p platform_scheme \<Rightarrow> awaits \<Rightarrow> node_io \<Rightarrow> Host BrokerRoutingCallbacks" where
  "getBrokerRoutingCallbacks P w n =
     \<lparr>cb_getPeer = (\<lambda>peerId session h. map_option (peer_info n) (peer_for peerId session h)),
      cb_emitRequest = request_lifecycle,
      cb_getRouteCandidates = (\<lambda>target h. getCandidates P (Some target) None (routeRegistry h)),
      cb_tryAcquireLease = (\<lambda>g rid ms h.
        (case tryAcquireLease g rid ms (leasePool h) of
           (None, pool) \<Rightarrow> (Inr None, h\<lparr>leasePool := pool\<rparr>)
         | (Some promise, pool) \<Rightarrow> thenS (lease_promise w (promise, pool) h) (\<lambda>l h1. (Inr (Some l), h1)))),
      cb_acquireLease = (\<lambda>g rid ms h. lease_promise w (acquireLease g rid ms (leasePool h)) h),
      cb_tryAcquireFederatedRequestStream = tryAcquireFederatedRequestStream P w,
      cb_routeAuthorizerEnabled = (\<lambda>h. routeAuthorizer h \<noteq> None),
      cb_authorizeFederatedHop = authorizeFederatedHopPair P w,
      cb_getBrokerDomain = getRegisteredBrokerDomain,
      cb_getEgressSourceId = (\<lambda>h. case optionsHostId h of Some i \<Rightarrow> i | None \<Rightarrow> js ''host''),
      cb_newController = (\<lambda>h. (io_controller n h, h)),
      cb_trackController = trackLocalRequestController,
      cb_untrackController = untrackLocalRequestController,
      cb_aborted = (\<lambda>c h. c \<in> set (abortedControllers h)),
      cb_abort = (\<lambda>c h. h\<lparr>abortedControllers := abortedControllers h @ [c]\<rparr>),
      h2_session = io_session n,
      h2_sessionClosed = (\<lambda>s h. s \<in> set (closedSessions h)),
      h2_requestEnded = io_ended n,
      h2_closeStream = io_close n, h2_write = io_write n, h2_readEnvelope = io_read n, h2_respond = io_respond n,
      lg_dispatch = io_dispatch n\<rparr>"

lemma host_callbacks [simp]:
  "cb_getPeer (getBrokerRoutingCallbacks P w n) p s h = map_option (peer_info n) (peer_for p s h)"
  "cb_getRouteCandidates (getBrokerRoutingCallbacks P w n) t h = getCandidates P (Some t) None (routeRegistry h)"
  "cb_tryAcquireFederatedRequestStream (getBrokerRoutingCallbacks P w n) = tryAcquireFederatedRequestStream P w"
  "cb_routeAuthorizerEnabled (getBrokerRoutingCallbacks P w n) h \<longleftrightarrow> routeAuthorizer h \<noteq> None"
  "cb_authorizeFederatedHop (getBrokerRoutingCallbacks P w n) = authorizeFederatedHopPair P w"
  "cb_getBrokerDomain (getBrokerRoutingCallbacks P w n) = getRegisteredBrokerDomain"
  "cb_newController (getBrokerRoutingCallbacks P w n) h = (io_controller n h, h)"
  "cb_emitRequest (getBrokerRoutingCallbacks P w n) = request_lifecycle"
  "cb_untrackController (getBrokerRoutingCallbacks P w n) = untrackLocalRequestController"
  "h2_session (getBrokerRoutingCallbacks P w n) = io_session n"
  "h2_sessionClosed (getBrokerRoutingCallbacks P w n) x h \<longleftrightarrow> x \<in> set (closedSessions h)"
  by (simp_all add: getBrokerRoutingCallbacks_def)

section \<open>Who a request comes from\<close>

text \<open>The peer found for a session is of that session.\<close>

lemma peer_for_session:
  assumes "host_inv h" and "peer_for p (Some s) h = Some q"
  shows "rp_session q = Some s"
    and "remote_broker q \<Longrightarrow> \<exists>ms. map_of (remoteBrokerSessions h) p = Some ms"
  using host_invD(5) [OF assms(1), unfolded sessions_ok_def] assms(2)
  by (auto simp: peer_for_def getPeerForSession_def split: option.splits if_splits bind_splits)

lemma live_broker:
  assumes "host_inv h" and "isRemoteBrokerRequestLive P (getBrokerRoutingCallbacks P w n) stream headers h"
  shows "\<exists>s q. io_session n stream h = Some s \<and> s \<notin> set (closedSessions h) \<and>
    peer_for (raw_or_empty P headers ''x-verser-source-id'') (Some s) h = Some q \<and> remote_broker q \<and> rp_session q = Some s \<and>
    map_of (remoteBrokerSessions h) (raw_or_empty P headers ''x-verser-source-id'') \<noteq> None"
proof -
  let ?id = "raw_or_empty P headers ''x-verser-source-id''"
  from assms(2) obtain s where s: "io_session n stream h = Some s" "s \<notin> set (closedSessions h)"
    and on: "broker_on (Some s) (source_of P (getBrokerRoutingCallbacks P w n) stream headers h)"
    by (auto simp: isRemoteBrokerRequestLive_def split: option.splits)
  from on s obtain q where q: "peer_for ?id (Some s) h = Some q" "remote_broker q" "rp_session q = Some s"
    by (auto simp: broker_on_def source_of_def Let_def remote_broker_def peer_info_def split: option.splits if_splits)
  from peer_for_session [OF assms(1) q(1)] q(2) s q show ?thesis by auto
qed


text \<open>C4: A Host routes a request only for a Broker that is registered over the session the request came in on, under the id
  the request names. Every other request is refused as it stands, and nothing changes.\<close>

theorem broker_request_attributed:
  assumes "host_reachable P h"
    and "routeBrokerRequest P (getBrokerRoutingCallbacks P w n) now stream headers h \<noteq> (not_a_broker P headers, h)"
  shows "\<exists>s q. io_session n stream h = Some s \<and> s \<notin> set (closedSessions h) \<and>
    peer_for (raw_or_empty P headers ''x-verser-source-id'') (Some s) h = Some q \<and>
    rp_role q = broker \<and> rp_transport q = over_h2 \<and> rp_session q = Some s \<and>
    map_of (remoteBrokerSessions h) (raw_or_empty P headers ''x-verser-source-id'') \<noteq> None"
proof -
  have "isRemoteBrokerRequestLive P (getBrokerRoutingCallbacks P w n) stream headers h"
    using assms(2) by (auto simp: routeBrokerRequest_def assertRemoteBrokerSession_def not_a_broker_def throwE_def split: if_splits)
  from live_broker [OF host_reachable_inv [OF assms(1)] this] show ?thesis unfolding remote_broker_def by blast
qed

section \<open>What the authorizer allowed\<close>

text \<open>The configured callback has been asked about the pair and has answered \<open>allow\<close>.\<close>

definition allowed_pair :: "authorizer \<Rightarrow> jsstr \<Rightarrow> bool" where
  "allowed_pair a key \<longleftrightarrow> (\<exists>e < length (decisions a). pd_key (decisions a ! e) = key \<and> (e, Answered True) \<in> set (decided a))"

lemma decision_key_step:
  "auth_step P a a' \<Longrightarrow> e < length (decisions a) \<Longrightarrow> e < length (decisions a') \<and> pd_key (decisions a' ! e) = pd_key (decisions a ! e)"
proof (induction rule: auth_step.induct)
  case (hop s p now)
  then show ?case using authorizeHop_log [of P p now s] by (auto simp: nth_append)
next
  case (revoke s p)
  have "pd_key (xs[i := (xs ! i)\<lparr>pd_revoked := True\<rparr>] ! e) = pd_key (xs ! e)" for xs i
    by (cases "i < length xs"; cases "i = e"; simp add: list_update_beyond)
  with revoke show ?case by (auto simp: revokePair_def Let_def split: option.splits)
qed (auto simp: finish_decision_log invalidate_def)

lemma decision_key_steps:
  "(auth_step P)\<^sup>*\<^sup>* a a' \<Longrightarrow> e < length (decisions a) \<Longrightarrow>
   e < length (decisions a') \<and> pd_key (decisions a' ! e) = pd_key (decisions a ! e)"
  by (induction rule: rtranclp_induct) (use decision_key_step in fastforce)+

lemma authorizeHop_cases:
  assumes "auth_inv a" and "authorizeHop P p now a = (answer, a1)"
  defines "key \<equiv> federatedRouteAuthorizationPairKey P p"
  shows "answer = Immediate True \<Longrightarrow> allowed_pair a1 key"
    and "answer \<in> {Joined e, Started e} \<Longrightarrow> e < length (decisions a1) \<and> pd_key (decisions a1 ! e) = key"
proof -
  have inv: "auth_inv a1" using authorizeHop_inv [OF assms(1), of P p now] assms(2) by simp
  show "allowed_pair a1 key" if "answer = Immediate True"
  proof -
    have "map_of (allowedPairs a1) key \<noteq> None"
      using assms(2) that by (auto simp: authorizeHop_def Let_def isLive_eq key_def split: option.splits if_splits prod.splits)
    with inv show ?thesis by (auto simp: auth_inv_def provenance_ok_def backed_def allowed_pair_def)
  qed
  show "e < length (decisions a1) \<and> pd_key (decisions a1 ! e) = key" if "answer \<in> {Joined e, Started e}"
  proof (cases "answer = Started e")
    case True
    with assms(2) show ?thesis
      by (auto simp: authorizeHop_def Let_def key_def split: option.splits if_splits prod.splits)
  next
    case False
    with that have "map_of (pendingDecisions a1) key = Some e"
      using assms(2) by (auto simp: authorizeHop_def Let_def key_def split: option.splits if_splits prod.splits)
    with inv show ?thesis by (auto simp: auth_inv_def pending_ok_def in_flight_def)
  qed
qed

section \<open>Waiting on the Host\<close>

text \<open>What the event loop guarantees of an awaited promise.\<close>

locale host_awaits =
  fixes P :: "'p platform_scheme" and w :: awaits
  assumes answer_steps: "aw_answer w e h = (r, h1) \<Longrightarrow> (host_step P)\<^sup>*\<^sup>* h h1"
    and answer_settled: "aw_answer w e h = (Inr b, h1) \<Longrightarrow> \<exists>a. routeAuthorizer h1 = Some a \<and> (e, Answered b) \<in> set (decided a)"
    and stream_steps: "aw_stream w p h = (r', h1) \<Longrightarrow> (host_step P)\<^sup>*\<^sup>* h h1"
    and stream_settled: "aw_stream w (FedPromise i) h = (Inr st, h1) \<Longrightarrow> (i, FedStream st) \<in> set (fed_outcomes h1)"
begin

lemma authorize_steps:
  assumes "authorizeFederatedHopPair P w d d' h = (r, h1)"
  shows "(host_step P)\<^sup>*\<^sup>* h h1"
proof (cases "routeAuthorizer h")
  case None
  with assms show ?thesis by (simp add: authorizeFederatedHopPair_def)
next
  case (Some a)
  let ?p = "\<lparr>previousAdvertisedDomain = d, nextSelectedDomain = d'\<rparr>"
  obtain answer a1 where hop: "authorizeHop P ?p (aw_now w h) a = (answer, a1)" by fastforce
  have step: "host_step P h (h\<lparr>routeAuthorizer := Some a1\<rparr>)"
    using host_step.authorizer [OF Some auth_step.hop [of P a ?p "aw_now w h"]] hop by simp
  show ?thesis
    using assms step by (cases answer) (auto simp: authorizeFederatedHopPair_def Some hop dest: answer_steps
        intro: converse_rtranclp_into_rtranclp)
qed

lemma acquire_steps:
  assumes "tryAcquireFederatedRequestStream P w hid ms h = (r, h1)"
  shows "(host_step P)\<^sup>*\<^sup>* h h1"
proof -
  obtain promise h0 where a: "acquireFederatedRequestStream P hid (finite_ms ms) (aw_aborted w h) h = (promise, h0)" by fastforce
  have step: "host_step P h h0" using host_step.request_acquire [of P h hid "finite_ms ms" "aw_aborted w h"] a by simp
  obtain x h2 where x: "aw_stream w promise h0 = (x, h2)" by fastforce
  with assms a have "h1 = h2" by (auto simp: tryAcquireFederatedRequestStream_def Let_def split: sum.splits)
  with step stream_steps [OF x] show ?thesis by (auto intro: converse_rtranclp_into_rtranclp)
qed

lemma authorize_allowed:
  assumes "host_inv h" and "routeAuthorizer h \<noteq> None" and "authorizeFederatedHopPair P w d d' h = (Inr True, h1)"
  shows "\<exists>a1. routeAuthorizer h1 = Some a1 \<and>
    allowed_pair a1 (federatedRouteAuthorizationPairKey P \<lparr>previousAdvertisedDomain = d, nextSelectedDomain = d'\<rparr>)"
proof -
  let ?p = "\<lparr>previousAdvertisedDomain = d, nextSelectedDomain = d'\<rparr>"
  from assms(2) obtain a where a: "routeAuthorizer h = Some a" by blast
  obtain answer a1 where hop: "authorizeHop P ?p (aw_now w h) a = (answer, a1)" by fastforce
  have inv: "auth_inv a" using assms(1) a by (simp add: host_inv_def)
  note cs = authorizeHop_cases [OF inv hop]
  have waited: ?thesis if e: "answer \<in> {Joined e, Started e}" and aw: "aw_answer w e (h\<lparr>routeAuthorizer := Some a1\<rparr>) = (Inr True, h1)" for e
  proof -
    have "gated P a1 (h\<lparr>routeAuthorizer := Some a1\<rparr>)" by (simp add: gated_def)
    with answer_steps [OF aw] have "gated P a1 h1" by (induction rule: rtranclp_induct) (auto intro: host_step_gated)
    then obtain a2 where a2: "routeAuthorizer h1 = Some a2" "(auth_step P)\<^sup>*\<^sup>* a1 a2" by (auto simp: gated_def)
    with answer_settled [OF aw] cs(2) [OF e] decision_key_steps [OF a2(2), of e] show ?thesis by (auto simp: allowed_pair_def)
  qed
  show ?thesis
    using assms(3) cs(1) waited by (cases answer) (auto simp: authorizeFederatedHopPair_def a hop)
qed

end

sublocale host_awaits \<subseteq> routing: routing_world "getBrokerRoutingCallbacks P w n" "(host_step P)\<^sup>*\<^sup>*" for n
  by unfold_locales (auto dest: authorize_steps acquire_steps)

context host_awaits
begin

lemmas host_forwarded = routing.h2_forwarded

end


section \<open>Requests that leave for another Host\<close>

lemma steps_inv: "(host_step P)\<^sup>*\<^sup>* h h' \<Longrightarrow> host_inv h \<Longrightarrow> host_inv h'"
  by (induction rule: rtranclp_induct) (auto intro: host_step_inv)

lemma steps_authorizer: "(host_step P)\<^sup>*\<^sup>* h h' \<Longrightarrow> routeAuthorizer h \<noteq> None \<Longrightarrow> routeAuthorizer h' \<noteq> None"
proof -
  assume "routeAuthorizer h \<noteq> None"
  then obtain a where "gated P a h" by (auto simp: gated_def)
  assume "(host_step P)\<^sup>*\<^sup>* h h'"
  then have "gated P a h'" using \<open>gated P a h\<close> by (induction rule: rtranclp_induct) (auto intro: host_step_gated)
  then show ?thesis by (auto simp: gated_def)
qed

lemma resolved_domain:
  assumes "resolveRemoteBrokerDomain P (getBrokerRoutingCallbacks P w n) stream headers x = Inr d"
  shows "\<exists>q. peer_for (raw_or_empty P headers ''x-verser-source-id'') (io_session n stream x) x = Some q \<and>
    rp_role q = broker \<and> rp_transport q = over_h2 \<and> rp_session q = io_session n stream x \<and> rp_brokerDomain q = Some d"
proof -
  have on: "broker_on (io_session n stream x) (source_of P (getBrokerRoutingCallbacks P w n) stream headers x)"
    and d: "getRegisteredBrokerDomain (raw_or_empty P headers ''x-verser-source-id'') (io_session n stream x) x = Some d"
    using assms by (auto simp: resolveRemoteBrokerDomain_def not_a_broker_def throwE_def Let_def split: if_splits option.splits)
  from d obtain q where "peer_for (raw_or_empty P headers ''x-verser-source-id'') (io_session n stream x) x = Some q" "rp_brokerDomain q = Some d"
    by (auto simp: getRegisteredBrokerDomain_def split: option.splits if_splits)
  with on show ?thesis by (auto simp: broker_on_def source_of_def Let_def peer_info_def split: if_splits)
qed

lemma candidate_target: "c \<in> set (getCandidates P (Some t) None reg) \<Longrightarrow> targetId c = t"
  by (auto simp: getCandidates_def)

section \<open>A Host with a Broker and a federated route\<close>

text \<open>Awaiting only what is settled already.\<close>

definition settled_awaits :: awaits where
  "settled_awaits =
     \<lparr>aw_answer = (\<lambda>e h. case Option.bind (routeAuthorizer h) (\<lambda>a. map_of (decided a) e) of
         Some (Answered b) \<Rightarrow> (Inr b, h) | _ \<Rightarrow> (Inl NotAFunction, h)),
      aw_stream = (\<lambda>p h. case p of
         FedPromise i \<Rightarrow> (case map_of (fed_outcomes h) i of Some (FedStream st) \<Rightarrow> (Inr st, h) | _ \<Rightarrow> (Inl NotAFunction, h))
       | OpenUpstream u \<Rightarrow> (Inl NotAFunction, h)),
      aw_lease = (\<lambda>_ h. (Inl NotAFunction, h)), aw_aborted = (\<lambda>_. Some False), aw_now = (\<lambda>_. 0)\<rparr>"

interpretation settled: host_awaits P settled_awaits for P
  by unfold_locales
    (auto simp: settled_awaits_def split: option.splits settlement.splits fed_answer.splits fed_outcome.splits bind_splits dest!: map_of_SomeD)

definition sample_io :: node_io where
  "sample_io =
     \<lparr>io_session = (\<lambda>st _. if st = 5 then Some 1 else None), io_ended = (\<lambda>_ _. False),
      io_close = (\<lambda>st h. h\<lparr>closedStreams := closedStreams h @ [st]\<rparr>), io_write = (\<lambda>_ _ h. h),
      io_read = (\<lambda>_ h. (Inr \<lparr>pe_type = response, pe_metadata = JObj [(js ''requestId'', JStr (js ''r'')), (js ''statusCode'', JNum (Fin 200)),
          (js ''headers'', JObj [])], bodyRemainder = []\<rparr>, h)),
      io_respond = (\<lambda>_ _ _ h. h), io_localGuest = (\<lambda>_. None), io_dispatch = (\<lambda>_ _ h. (Inl NotAFunction, h)), io_controller = (\<lambda>_. 0)\<rparr>"

definition sample_broker :: Host where
  "sample_broker = snd (registerPeer_finish sample_platform \<lparr>mtlsEnabled = False, tlsAuthorized = False, certificate = None\<rparr> (js ''b'') 4 1 0
     \<lparr>rg_peerId = js ''b'', rg_role = broker, rg_routedDomains = [], rg_brokerDomain = Some (js ''p'')\<rparr> NoCallback sample_host)"

definition sample_linked_host :: Host where
  "sample_linked_host =
    (let h1 = snd (handleHostFederationStream_finish sample_platform (js ''h1'') 0 0 6 2 (js ''h2'') NoCallback sample_broker);
         h2 = snd (handleFederatedRouteFrame sample_platform (\<lambda>_. []) (js ''h2'')
           (JObj [(js ''type'', JStr (js ''federated-routes'')), (js ''routes'', JArr [JObj [(js ''targetId'', JStr (js ''t'')),
              (js ''domain'', JStr (js ''d'')), (js ''originHostId'', JStr (js ''h2'')), (js ''nextHopHostId'', JStr (js ''h2'')),
              (js ''hopCount'', JNum (Fin 1)), (js ''viaHostIds'', JArr [JStr (js ''h2'')]), (js ''source'', JStr (js ''upstream''))]])]) h1)
     in h2)"

definition sample_federated :: Host where
  "sample_federated =
    (let link = \<lparr>il_hostId = js ''h2'', il_session = 2, il_routeStream = None, il_requestStream = Some 9, il_requestBusy = False,
           il_requestStreams = None, il_requestBusyStreams = None, il_requestPool = None\<rparr>;
         peer = \<lparr>rp_peerId = js ''b'', rp_role = broker, rp_transport = over_h2, rp_session = Some 1, rp_controlStream = Some 4,
           rp_localBroker = None, rp_brokerDomain = Some (js ''p''), rp_brokerFingerprint = None, rp_brokerRegistrationKey = Some (js ''{}'')\<rparr>
     in \<lparr>inboundFederationHosts = [(js ''h2'', link)], upstreamLinks = [], federatedRequestStreamWaiters = [],
      fed_waiters = [], fed_timers = [], fed_outcomes = [], fed_next = 0, closedStreams = [], closedSessions = [],
      optionsHostId = Some (js ''h1''),
      routeRegistry = \<lparr>hostId = js ''h1'', maxFederationHopCount = 8, localRoutes = [],
        importedRoutes = [(js ''h2'', [\<lparr>targetId = js ''t'', domain = js ''d'', originHostId = js ''h2'', nextHopHostId = js ''h2'', hopCount = 1,
          viaHostIds = [js ''h2''], source = src_upstream\<rparr>])], degradedRoutes = [], routeGenerationCounter = 0\<rparr>,
      routeAuthorizer = Some (new_authorizer 60000 6000), leasePool = empty_pool,
      degradedCleanup = \<lparr>timer_interval = None, degradedRouteTimeoutMs = 5000\<rparr>,
      h_peers = [(js ''b'', peer)], remoteBrokerSessions = [(js ''b'', [(1, peer)])],
      localBrokers = [], pendingInboundFederationHosts = [], pendingUpstreamConnections = [], seenFederationLifecycleEventIds = [],
      federationLifecycleEventIdCounter = 0, lifecycleGeneration = 0, wsIdleLeases = [], activeLocalRequests = [], abortedControllers = [],
      effects = [Lifecycle Ev_registered (Some (js ''b'')) (Some broker) None, Wrote 4 (RegistrationResponse []),
        Lifecycle Ev_registered (Some (js ''h2'')) None None, Wrote 6 (FederationRegistered (js ''h1''))]\<rparr>)"

definition sample_allowing :: "bool \<Rightarrow> Host" where
  "sample_allowing b =
    (let a = the (routeAuthorizer sample_federated);
         a1 = snd (authorizeHop sample_platform \<lparr>previousAdvertisedDomain = js ''p'', nextSelectedDomain = js ''d''\<rparr> 0 a);
         a2 = finish_decision sample_platform 0 (Inr (Some (JStr (if b then js ''allow'' else js ''deny'')))) 0 a1
     in sample_federated\<lparr>routeAuthorizer := Some a2\<rparr>)"

definition sample_request :: http_headers where
  "sample_request = [(js ''x-verser-source-id'', RStr (js ''b'')), (js ''x-verser-target-id'', RStr (js ''t'')),
     (js ''x-verser-route-domain'', RStr (js ''d''))]"

lemma sample_federated_reachable: "host_reachable sample_platform sample_federated"
proof -
  have "registerPeer_begin sample_platform (Some 1) \<lparr>rg_peerId = js ''b'', rg_role = broker, rg_routedDomains = [], rg_brokerDomain = Some (js ''p'')\<rparr>
      sample_host = Inr (js ''b'', 1, 0)" by code_simp
  then have "host_reachable sample_platform sample_broker"
    unfolding sample_broker_def by (intro host_stepped [OF sample_host_reachable] host_step.register)
  then have linked: "host_reachable sample_platform sample_linked_host"
    unfolding sample_linked_host_def Let_def by (rule host_stepped [OF host_stepped [OF _ host_step.federation_finish] host_step.route_frame])
  have "granted sample_linked_host = []" "map snd (inboundFederationHosts sample_linked_host) = [new_link (js ''h2'') 2]" by code_simp+
  note granted = this(1) and links = this(2)
  have "9 \<notin> link_free k" if "map_of (inboundFederationHosts sample_linked_host) g = Some k" for g k
  proof -
    have "k \<in> set (map snd (inboundFederationHosts sample_linked_host))" using map_of_SomeD [OF that] by force
    then show ?thesis unfolding links by (simp add: new_link_def link_free_def)
  qed
  then have "host_reachable sample_platform
      (snd (handleHostFederationRequestStream sample_platform [] (js ''h2'') (Some 2) None 9 sample_linked_host))"
    by (intro host_stepped [OF linked host_step.request_stream]) (simp_all only: granted list.set empty_iff not_False_eq_True)
  moreover have "snd (handleHostFederationRequestStream sample_platform [] (js ''h2'') (Some 2) None 9 sample_linked_host) = sample_federated"
    by code_simp
  ultimately show ?thesis by simp
qed

lemma sample_allowing_reachable: "host_reachable sample_platform (sample_allowing b)"
proof -
  let ?p = "\<lparr>previousAdvertisedDomain = js ''p'', nextSelectedDomain = js ''d''\<rparr>"
  obtain a where a: "routeAuthorizer sample_federated = Some a"
  proof -
    have "routeAuthorizer sample_federated \<noteq> None" by code_simp
    with that show ?thesis by blast
  qed
  let ?a1 = "snd (authorizeHop sample_platform ?p 0 a)"
  have "in_flight (snd (authorizeHop sample_platform ?p 0 (the (routeAuthorizer sample_federated)))) 0" by code_simp
  with a have fl: "in_flight ?a1 0" by simp
  have "host_step sample_platform sample_federated (sample_federated\<lparr>routeAuthorizer := Some ?a1\<rparr>)"
    by (rule host_step.authorizer [OF a auth_step.hop])
  moreover have "host_step sample_platform (sample_federated\<lparr>routeAuthorizer := Some ?a1\<rparr>) (sample_allowing b)"
    using host_step.authorizer [OF _ auth_step.finish [OF fl], of "sample_federated\<lparr>routeAuthorizer := Some ?a1\<rparr>" sample_platform]
    by (simp add: sample_allowing_def a Let_def)
  ultimately show ?thesis by (blast intro: host_stepped sample_federated_reachable)
qed

text \<open>C3: With a route authorizer configured, a Broker's request goes on to another Host only by a route the target had when
  the routing began, only after the authorizer allowed the pair of the domain under which that Broker had registered on the
  session of the request and the domain of the route, and only while the target still had that route. It goes over a stream
  of the route's next Host, while the Broker is still there, and under this Host's own id.\<close>

theorem forwarded_only_when_allowed:
  assumes "host_awaits P w" and "host_reachable P h" and "routeAuthorizer h \<noteq> None"
    and "tryRouteH2BrokerRequestToFederatedHost P (getBrokerRoutingCallbacks P w n) stream headers requestId target h = (Inr (Forwarded u), h')"
  shows "\<exists>c \<in> set (getCandidates P (Some target) None (routeRegistry h)). \<exists>d x q h1 a st h2.
     source c = src_upstream \<and> targetId c = target \<and>
     (host_step P)\<^sup>*\<^sup>* h x \<and> peer_for (raw_or_empty P headers ''x-verser-source-id'') (io_session n stream x) x = Some q \<and>
     rp_role q = broker \<and> rp_transport q = over_h2 \<and> rp_session q = io_session n stream x \<and> rp_brokerDomain q = Some d \<and>
     (host_step P)\<^sup>*\<^sup>* h h1 \<and> routeAuthorizer h1 = Some a \<and>
     allowed_pair a (federatedRouteAuthorizationPairKey P
       \<lparr>previousAdvertisedDomain = normalizeRequestedDomain P d, nextSelectedDomain = normalizeRequestedDomain P (domain c)\<rparr>) \<and>
     (\<exists>r \<in> set (getCandidates P (Some target) None (routeRegistry h1)).
        normalizeRequestedDomain P (domain r) = normalizeRequestedDomain P (domain c)) \<and>
     tryAcquireFederatedRequestStream P w (nextHopHostId c) (lease_timeout P headers) h1 = (Inr (Some st), h2) \<and>
     isRemoteBrokerRequestLive P (getBrokerRoutingCallbacks P w n) stream headers h2 \<and>
     routeH2BrokerRequestOverFederationStream P (getBrokerRoutingCallbacks P w n) stream headers st requestId target (Some (domain c))
       (case optionsHostId h2 of Some i \<Rightarrow> i | None \<Rightarrow> js ''host'') h2 = (Inr u, h')"
proof -
  let ?cb = "getBrokerRoutingCallbacks P w n"
  note host_awaits.host_forwarded [OF assms(1,4)]
  then obtain c st s0 s1 s2 where c: "c \<in> set (getCandidates P (Some target) None (routeRegistry h))" "source c = src_upstream"
    and steps: "(host_step P)\<^sup>*\<^sup>* h s0" "(host_step P)\<^sup>*\<^sup>* s0 s1"
    and allowed: "routeAuthorizer s0 \<noteq> None \<longrightarrow> (\<exists>d x. (host_step P)\<^sup>*\<^sup>* h x \<and> resolveRemoteBrokerDomain P ?cb stream headers x = Inr d \<and>
        authorizeFederatedHopPair P w (normalizeRequestedDomain P d) (normalizeRequestedDomain P (domain c)) s0 = (Inr True, s1) \<and>
        normalizeRequestedDomain P (domain c) \<in> (\<lambda>r. normalizeRequestedDomain P (domain r)) `
          set (getCandidates P (Some target) None (routeRegistry s1)))"
    and sent: "tryAcquireFederatedRequestStream P w (nextHopHostId c) (lease_timeout P headers) s1 = (Inr (Some st), s2)"
      "isRemoteBrokerRequestLive P ?cb stream headers s2"
      "routeH2BrokerRequestOverFederationStream P ?cb stream headers st requestId target (Some (domain c)) (cb_getEgressSourceId ?cb s2) s2
         = (Inr u, h')"
    unfolding host_callbacks by blast
  have s0: "host_inv s0" "routeAuthorizer s0 \<noteq> None"
    using steps_inv [OF steps(1) host_reachable_inv [OF assms(2)]] steps_authorizer [OF steps(1) assms(3)] by simp_all
  with allowed obtain d x where x: "(host_step P)\<^sup>*\<^sup>* h x" "resolveRemoteBrokerDomain P ?cb stream headers x = Inr d"
    and pair: "authorizeFederatedHopPair P w (normalizeRequestedDomain P d) (normalizeRequestedDomain P (domain c)) s0 = (Inr True, s1)"
    and active: "normalizeRequestedDomain P (domain c) \<in> (\<lambda>r. normalizeRequestedDomain P (domain r)) `
          set (getCandidates P (Some target) None (routeRegistry s1))"
    by blast
  from host_awaits.authorize_allowed [OF assms(1) s0 pair] obtain a where a: "routeAuthorizer s1 = Some a"
    "allowed_pair a (federatedRouteAuthorizationPairKey P
       \<lparr>previousAdvertisedDomain = normalizeRequestedDomain P d, nextSelectedDomain = normalizeRequestedDomain P (domain c)\<rparr>)"
    by blast
  have egress: "cb_getEgressSourceId ?cb s2 = (case optionsHostId s2 of Some i \<Rightarrow> i | None \<Rightarrow> js ''host'')"
    by (simp add: getBrokerRoutingCallbacks_def)
  have active': "\<exists>r \<in> set (getCandidates P (Some target) None (routeRegistry s1)).
        normalizeRequestedDomain P (domain r) = normalizeRequestedDomain P (domain c)"
    using active unfolding image_iff by metis
  have h1: "(host_step P)\<^sup>*\<^sup>* h s1" using steps by (rule rtranclp_trans)
  from resolved_domain [OF x(2)] obtain q where
    q: "peer_for (raw_or_empty P headers ''x-verser-source-id'') (io_session n stream x) x = Some q"
    "rp_role q = broker" "rp_transport q = over_h2" "rp_session q = io_session n stream x" "rp_brokerDomain q = Some d" by blast
  show ?thesis
    using c(2) candidate_target [OF c(1)] x(1) q h1 a active' sent [unfolded egress]
    by (intro bexI [OF _ c(1)] exI conjI) assumption+
qed


lemma sample_send:
  "send_request sample_platform (getBrokerRoutingCallbacks sample_platform settled_awaits sample_io) st m s = (Inr (), s)"
proof -
  have "\<exists>bs. encodeVerserEnvelope sample_platform \<lparr>env_type = request, env_metadata = m\<rparr> = Inr bs"
    by (simp add: encodeVerserEnvelope_def VERSER_ENVELOPE_TYPES_def sample_platform_def js_def utf8_1_def)
  then show ?thesis by (auto simp: send_request_def getBrokerRoutingCallbacks_def sample_io_def)
qed

definition sample_reply :: json where
  "sample_reply = JObj [(js ''requestId'', JStr (js ''r'')), (js ''statusCode'', JNum (Fin 200)), (js ''headers'', JObj [])]"

lemma sample_forward:
  "routeH2BrokerRequestOverFederationStream sample_platform (getBrokerRoutingCallbacks sample_platform settled_awaits sample_io) 5
     sample_request st (js ''r'') (js ''t'') d egress s = (Inr (), s)"
proof -
  let ?cb = "getBrokerRoutingCallbacks sample_platform settled_awaits sample_io"
  have hs: "bindE (carried_headers sample_platform sample_request) (\<lambda>m. checked_headers sample_platform (as_headers m)) = Inr []"
    and ok: "assertResponseEnvelopeRequestId sample_platform sample_reply (js ''r'') (js ''t'') = Inr ()"
    and resp: "isl (bindE (response_envelope sample_platform (js ''r'') sample_reply) (\<lambda>r.
             bindE (encodeVerserResponseMetadata sample_platform \<lparr>md_requestId = js ''r'', md_statusCode = rr_statusCode r,
                      md_statusText = rr_statusText r,
                      md_headers = (case rr_headerPairs r of Some ps \<Rightarrow> ps | None \<Rightarrow> [])\<rparr>) (\<lambda>encoded.
             Inr (rr_statusCode r, AList.update VERSER_RESPONSE_METADATA_HEADER encoded (rr_headers r))))) = False"
    by code_simp+
  have read: "readFederatedResponseMetadata sample_platform ?cb st (js ''r'') (js ''t'') s = (Inr sample_reply, s)" for s
    using ok by (simp add: readFederatedResponseMetadata_def getBrokerRoutingCallbacks_def sample_io_def sample_reply_def)
  have "respondToRemoteBroker sample_platform ?cb 5 (js ''r'') sample_reply s = (Inr (), s)" for s
    using resp unfolding respondToRemoteBroker_def
    by (auto simp: getBrokerRoutingCallbacks_def sample_io_def split: sum.split)
  then show ?thesis by (simp add: routeH2BrokerRequestOverFederationStream_def hs sample_send read)
qed

lemma sample_forwarded:
  "\<exists>h'. tryRouteH2BrokerRequestToFederatedHost sample_platform (getBrokerRoutingCallbacks sample_platform settled_awaits sample_io) 5
     sample_request (js ''r'') (js ''t'') (sample_allowing True) = (Inr (Forwarded ()), h')"
proof -
  let ?cb = "getBrokerRoutingCallbacks sample_platform settled_awaits sample_io" and ?h = "sample_allowing True"
  let ?c = "\<lparr>targetId = js ''t'', domain = js ''d'', originHostId = js ''h2'', nextHopHostId = js ''h2'', hopCount = 1,
      viaHostIds = [js ''h2''], source = src_upstream\<rparr>"
  define s1 where "s1 = snd (evaluateFederationHop sample_platform ?cb (Some (js ''p'')) (js ''t'') (js ''d'') ?h)"
  define s2 where "s2 = snd (tryAcquireFederatedRequestStream sample_platform settled_awaits (js ''h2'') (lease_timeout sample_platform sample_request) s1)"
  have e: "evaluateFederationHop sample_platform ?cb (Some (js ''p'')) (js ''t'') (js ''d'') ?h = (Inr hop_allowed, s1)"
  proof (rule prod_eqI)
    show "fst (evaluateFederationHop sample_platform ?cb (Some (js ''p'')) (js ''t'') (js ''d'') ?h) = fst (Inr hop_allowed, s1)" by code_simp
  qed (simp add: s1_def)
  have a: "tryAcquireFederatedRequestStream sample_platform settled_awaits (js ''h2'') (lease_timeout sample_platform sample_request) s1 = (Inr (Some 9), s2)"
  proof (rule prod_eqI)
    show "fst (tryAcquireFederatedRequestStream sample_platform settled_awaits (js ''h2'') (lease_timeout sample_platform sample_request) s1) =
      fst (Inr (Some 9), s2)" unfolding s1_def by code_simp
  qed (simp add: s2_def)
  have live: "isRemoteBrokerRequestLive sample_platform ?cb 5 sample_request s1" "isRemoteBrokerRequestLive sample_platform ?cb 5 sample_request s2"
    unfolding s2_def s1_def by code_simp+
  have c: "upstream_candidates ?cb (js ''t'') ?h = [?c]" and d: "carried_headers sample_platform sample_request = Inr []"
    "requested_domain sample_platform (route_domain_header sample_platform sample_request) [] = Some (js ''d'')"
    and p: "resolveRemoteBrokerDomain sample_platform ?cb 5 sample_request ?h = Inr (js ''p'')"
    and on: "routeAuthorizer ?h \<noteq> None" and w: "wanted sample_platform (Some (js ''d'')) ?c"
    by code_simp+
  show ?thesis
    using on by (simp add: tryRouteH2BrokerRequestToFederatedHost_def route_to_federation_def c d w start_hops_def resolve_previous_def p e live a
        sample_forward)
qed

theorem forwarded_only_when_allowed_witness:
  "\<exists>h1 a. (host_step sample_platform)\<^sup>*\<^sup>* (sample_allowing True) h1 \<and> routeAuthorizer h1 = Some a \<and>
     (\<exists>d d'. allowed_pair a (federatedRouteAuthorizationPairKey sample_platform \<lparr>previousAdvertisedDomain = d, nextSelectedDomain = d'\<rparr>))"
proof -
  have on: "routeAuthorizer (sample_allowing True) \<noteq> None" by code_simp
  obtain h' where "tryRouteH2BrokerRequestToFederatedHost sample_platform (getBrokerRoutingCallbacks sample_platform settled_awaits sample_io) 5
     sample_request (js ''r'') (js ''t'') (sample_allowing True) = (Inr (Forwarded ()), h')" using sample_forwarded by blast
  from forwarded_only_when_allowed [OF settled.host_awaits_axioms sample_allowing_reachable on this] show ?thesis by blast
qed

definition sample_misdirected :: http_headers where
  "sample_misdirected = [(js ''x-verser-source-id'', RStr (js ''b'')), (js ''x-verser-target-id'', RStr (js ''b''))]"

theorem broker_request_attributed_witness:
  "\<exists>q. peer_for (js ''b'') (Some 1) (sample_allowing True) = Some q \<and> rp_role q = broker \<and> rp_session q = Some 1"
proof -
  let ?cb = "getBrokerRoutingCallbacks sample_platform settled_awaits sample_io"
  have "fst (routeBrokerRequest sample_platform ?cb [] 5 sample_misdirected (sample_allowing True)) \<noteq> not_a_broker sample_platform sample_misdirected"
    and ids: "raw_or_empty sample_platform sample_misdirected ''x-verser-source-id'' = js ''b''" "io_session sample_io 5 (sample_allowing True) = Some 1"
    by code_simp+
  then have "routeBrokerRequest sample_platform ?cb [] 5 sample_misdirected (sample_allowing True) \<noteq>
      (not_a_broker sample_platform sample_misdirected, sample_allowing True)" by (metis fst_conv)
  from broker_request_attributed [OF sample_allowing_reachable this] ids show ?thesis by auto
qed

section \<open>Failed dispatches\<close>

definition tracked :: "jsstr \<Rightarrow> Host \<Rightarrow> nat list" where
  "tracked p h = (case map_of (activeLocalRequests h) p of Some cs \<Rightarrow> cs | None \<Rightarrow> [])"

lemma tracked_untrack: "tracked p (untrackLocalRequestController p' c h) = (if p = p' then removeAll c (tracked p h) else tracked p h)"
  by (auto simp: tracked_def untrackLocalRequestController_def update_conv' delete_conv' Let_def split: option.split)

lemma dispatch_outcome:
  "\<exists>out. routeLocalRequestDispatch P cb r s0 =
     (case out of (Inr resp, s) \<Rightarrow> (Inr resp, s)
      | (Inl e, s) \<Rightarrow> (let verserError = toVerserError P e None
          in (Inl (Verser verserError), untrack_both cb r (fst (cb_newController cb s0))
                (cb_emitRequest cb (requestFailed verserError) (ld_targetId r) s))))"
  unfolding routeLocalRequestDispatch_def Let_def split_def by (rule exI, rule refl)

text \<open>A dispatch that fails leaves nothing behind that a later abort of either peer would reach: its controller is tracked
  neither for the Broker nor for the Guest, the failure is an error event, and the error thrown is a \<open>VerserError\<close>.\<close>

theorem failed_dispatch_untracked:
  assumes "routeLocalRequestDispatch P (getBrokerRoutingCallbacks P w n) r h = (Inl e, h')"
  shows "(\<exists>ve. e = Verser ve) \<and>
    io_controller n h \<notin> set (tracked (ld_sourceId r) h') \<and> io_controller n h \<notin> set (tracked (ld_targetId r) h') \<and>
    last (effects h') = Lifecycle Ev_error (Some (ld_targetId r)) (Some guest) None"
proof -
  obtain out where "routeLocalRequestDispatch P (getBrokerRoutingCallbacks P w n) r h =
      (case out of (Inr resp, s) \<Rightarrow> (Inr resp, s)
       | (Inl e, s) \<Rightarrow> (Inl (Verser (toVerserError P e None)), untrack_both (getBrokerRoutingCallbacks P w n) r (io_controller n h)
           (request_lifecycle (requestFailed (toVerserError P e None)) (ld_targetId r) s)))"
    using dispatch_outcome [of P "getBrokerRoutingCallbacks P w n" r h] unfolding host_callbacks Let_def fst_conv by (elim exE)
  with assms obtain s e0 where e: "e = Verser (toVerserError P e0 None)" and h': "h' = untrack_both (getBrokerRoutingCallbacks P w n) r (io_controller n h)
      (request_lifecycle (requestFailed (toVerserError P e0 None)) (ld_targetId r) s)"
    by (cases out; cases "fst out") auto
  have untrack: "untrack_both (getBrokerRoutingCallbacks P w n) r c s = untrackLocalRequestController (ld_targetId r) c
      (untrackLocalRequestController (ld_sourceId r) c s)" for c s
    by (simp add: untrack_both_def)
  have effects: "effects (untrackLocalRequestController p c s) = effects s" for p c s
    by (simp add: untrackLocalRequestController_def Let_def split: option.split)
  show ?thesis
    by (simp add: e h' untrack tracked_untrack effects request_lifecycle_def emitLifecycle_def)
qed

theorem failed_dispatch_untracked_witness:
  "\<exists>e h'. routeLocalRequestDispatch sample_platform (getBrokerRoutingCallbacks sample_platform settled_awaits sample_io)
     \<lparr>ld_requestId = js ''r'', ld_sourceId = js ''l'', ld_targetId = js ''x'', ld_routeDomain = None, ld_method = js ''GET'', ld_path = js ''/'',
      ld_headers = [], ld_leaseAcquireTimeoutMs = Fin 0, ld_signal = None, ld_previousHopDomain = None\<rparr> sample_federated = (Inl e, h') \<and>
     0 \<notin> set (tracked (js ''l'') h') \<and> 0 \<notin> set (tracked (js ''x'') h')"
proof -
  let ?r = "\<lparr>ld_requestId = js ''r'', ld_sourceId = js ''l'', ld_targetId = js ''x'', ld_routeDomain = None, ld_method = js ''GET'', ld_path = js ''/'',
      ld_headers = [], ld_leaseAcquireTimeoutMs = Fin 0, ld_signal = None, ld_previousHopDomain = None\<rparr>"
  let ?cb = "getBrokerRoutingCallbacks sample_platform settled_awaits sample_io"
  have none: "peer_for (js ''x'') None sample_federated = None"
    "getCandidates sample_platform (Some (js ''x'')) None (routeRegistry sample_federated) = []" by code_simp+
  have reg: "routeRegistry (cb_trackController ?cb p c h) = routeRegistry h" for p c h
    by (simp add: getBrokerRoutingCallbacks_def trackLocalRequestController_def Let_def)
  have "tryRouteLocalRequestToFederatedHost sample_platform ?cb (?r\<lparr>ld_signal := Some c\<rparr>) h = (Inr NoCandidate, h)"
    if "routeRegistry h = routeRegistry sample_federated" for c h
    using none(2) that by (simp add: tryRouteLocalRequestToFederatedHost_def route_to_federation_def upstream_candidates_def no_candidate_def start_hops_def)
  then obtain e h' where run: "routeLocalRequestDispatch sample_platform ?cb ?r sample_federated = (Inl e, h')"
    using none(1) by (simp add: routeLocalRequestDispatch_def reg throwE_def Let_def)
  have "io_controller sample_io sample_federated = 0" by (simp add: sample_io_def)
  with failed_dispatch_untracked [OF run] run show ?thesis by simp
qed

section \<open>Denials, domains and what crosses Hosts\<close>

text \<open>When the authorizer denies the hop to every candidate, the request fails with \<open>authorization-denied\<close>, and no
  stream has been asked for. The count in the error is that of all candidates, also of those of other domains.\<close>

theorem fallback_denied:
  assumes "carried_headers P headers = Inr hs" and "requested_domain P (route_domain_header P headers) hs = Some d"
    and "cb_routeAuthorizerEnabled cb s" and "isRemoteBrokerRequestLive P cb stream headers s"
    and "resolveRemoteBrokerDomain P cb stream headers s = Inr previous"
    and "\<And>c. c \<in> set (upstream_candidates cb target s) \<Longrightarrow>
      cb_authorizeFederatedHop cb (normalizeRequestedDomain P previous) (normalizeRequestedDomain P (domain c)) s = (Inr False, s)"
    and "c \<in> set (upstream_candidates cb target s)" and "normalizeRequestedDomain P (domain c) = d"
  shows "tryRouteH2BrokerRequestToFederatedHost P cb stream headers requestId target s =
    (throwE P authorization_denied ''Federation route authorization denied for every resolved candidate''
       [(''targetId'', CStr target), (''direction'', CStr (js ''federated-candidates'')),
        (''deniedCount'', nat_ctx (length (upstream_candidates cb target s)))], s)"
proof -
  let ?q = "\<lparr>hq_target = target, hq_requestedDomain = Some d, hq_timeoutMs = lease_timeout P headers,
     hq_candidateCount = length (upstream_candidates cb target s),
     hq_previous = resolveRemoteBrokerDomain P cb stream headers, hq_live = isRemoteBrokerRequestLive P cb stream headers,
     hq_forward = (\<lambda>c st s. routeH2BrokerRequestOverFederationStream P cb stream headers st requestId target
               (Some (domain c)) (cb_getEgressSourceId cb s) s)\<rparr>"
  have "hq_live ?q s" "hq_previous ?q s = Inr previous" using assms(4,5) by simp_all
  from try_denied [OF assms(3) this assms(6), of "upstream_candidates cb target s" "start_hops None"] obtain ls where
    "try_candidates P cb ?q (upstream_candidates cb target s) (start_hops None) s = (no_candidate P ?q ls, s)"
    "hadDeniedCandidate ls \<longleftrightarrow> (\<exists>c \<in> set (upstream_candidates cb target s). wanted P (Some d) c)"
    unfolding start_hops_def hop_state.simps hop_query.simps hops_ok_def by auto
  moreover have "\<exists>c \<in> set (upstream_candidates cb target s). wanted P (Some d) c" using assms(7,8) by (auto simp: wanted_def)
  ultimately show ?thesis
    by (simp add: tryRouteH2BrokerRequestToFederatedHost_def assms(1,2) route_to_federation_def no_candidate_def)
qed

theorem fallback_denied_witness:
  "tryRouteH2BrokerRequestToFederatedHost sample_platform (getBrokerRoutingCallbacks sample_platform settled_awaits sample_io) 5
     sample_request (js ''r'') (js ''t'') (sample_allowing False) =
   (throwE sample_platform authorization_denied ''Federation route authorization denied for every resolved candidate''
      [(''targetId'', CStr (js ''t'')), (''direction'', CStr (js ''federated-candidates'')), (''deniedCount'', nat_ctx 1)], sample_allowing False)"
proof -
  let ?cb = "getBrokerRoutingCallbacks sample_platform settled_awaits sample_io" and ?h = "sample_allowing False"
  let ?c = "\<lparr>targetId = js ''t'', domain = js ''d'', originHostId = js ''h2'', nextHopHostId = js ''h2'', hopCount = 1,
      viaHostIds = [js ''h2''], source = src_upstream\<rparr>"
  have c: "upstream_candidates ?cb (js ''t'') ?h = [?c]" by code_simp
  have d: "carried_headers sample_platform sample_request = Inr []"
    "requested_domain sample_platform (route_domain_header sample_platform sample_request) [] = Some (js ''d'')" by code_simp+
  have on: "cb_routeAuthorizerEnabled ?cb ?h" and live: "isRemoteBrokerRequestLive sample_platform ?cb 5 sample_request ?h"
    and p: "resolveRemoteBrokerDomain sample_platform ?cb 5 sample_request ?h = Inr (js ''p'')"
    and n: "normalizeRequestedDomain sample_platform (domain ?c) = js ''d''" by code_simp+
  have "cb_authorizeFederatedHop ?cb (normalizeRequestedDomain sample_platform (js ''p'')) (normalizeRequestedDomain sample_platform (domain ?c)) ?h
      = (Inr False, ?h)" by code_simp
  with fallback_denied [OF d on live p, of "js ''t''" ?c "js ''r''"] c n show ?thesis by simp
qed

text \<open>Nothing is done when no federated Host advertises a route the request asks for. The request is left to the
  caller then and only then.\<close>

theorem fallback_left_to_caller:
  assumes "carried_headers P headers = Inr hs"
  shows "tryRouteH2BrokerRequestToFederatedHost P cb stream headers requestId target s = (Inr NoCandidate, s') \<longleftrightarrow>
    s' = s \<and> (\<forall>c \<in> set (upstream_candidates cb target s). \<not> wanted P (requested_domain P (route_domain_header P headers) hs) c)"
proof -
  let ?d = "requested_domain P (route_domain_header P headers) hs"
  have wanted: "wanted P None c" for c by (simp add: wanted_def)
  show ?thesis
    using assms try_no_candidate
    by (auto simp: tryRouteH2BrokerRequestToFederatedHost_def route_to_federation_def Let_def throwE_def wanted try_unwanted
        no_candidate_def start_hops_def dest!: try_no_candidate split: if_splits)
qed

theorem fallback_left_to_caller_witness:
  "tryRouteH2BrokerRequestToFederatedHost sample_platform (getBrokerRoutingCallbacks sample_platform settled_awaits sample_io) 5
     sample_request (js ''r'') (js ''x'') sample_federated = (Inr NoCandidate, sample_federated)"
proof -
  have "carried_headers sample_platform sample_request = Inr []"
    "upstream_candidates (getBrokerRoutingCallbacks sample_platform settled_awaits sample_io) (js ''x'') sample_federated = []" by code_simp+
  then show ?thesis by (simp add: fallback_left_to_caller)
qed

text \<open>A request is for a domain the target is advertised under: the one it names, or, when it names none, the only one.
  Otherwise it is refused with \<open>missing-guest\<close>.\<close>

theorem resolveRouteDomain_correct:
  "(case resolveRouteDomain P cb target explicitDomain headers s of
      Inr d \<Rightarrow> (\<exists>c \<in> set (cb_getRouteCandidates cb target s). normalizeRequestedDomain P (domain c) = d) \<and>
        (case or_else_opt explicitDomain (requested_host P headers) of
           Some r \<Rightarrow> d = normalizeRequestedDomain P r
         | None \<Rightarrow> (\<forall>c \<in> set (cb_getRouteCandidates cb target s). normalizeRequestedDomain P (domain c) = d))
    | Inl e \<Rightarrow> (\<exists>m ctx. e = Verser (createVerserError P missing_guest m ctx)) \<and>
        (case or_else_opt explicitDomain (requested_host P headers) of
           Some r \<Rightarrow> (\<forall>c \<in> set (cb_getRouteCandidates cb target s). normalizeRequestedDomain P (domain c) \<noteq> normalizeRequestedDomain P r)
         | None \<Rightarrow> \<not> (\<exists>d. (\<lambda>c. normalizeRequestedDomain P (domain c)) ` set (cb_getRouteCandidates cb target s) = {d})))"
proof (cases "or_else_opt explicitDomain (requested_host P headers)")
  case (Some r)
  then show ?thesis
    by (auto simp: resolveRouteDomain_def Let_def throwE_def image_iff eq_commute [of "normalizeRequestedDomain P r"])
next
  case None
  let ?ds = "map (\<lambda>c. normalizeRequestedDomain P (domain c)) (cb_getRouteCandidates cb target s)"
  show ?thesis
  proof (cases "length (remdups ?ds) = 1")
    case True
    then obtain d where d: "remdups ?ds = [d]" by (metis One_nat_def length_0_conv length_Suc_conv)
    then have eq: "set ?ds = {d}" by (metis set_remdups empty_set list.simps(15))
    then have "\<forall>c \<in> set (cb_getRouteCandidates cb target s). normalizeRequestedDomain P (domain c) = d" by auto
    moreover from eq obtain c where "c \<in> set (cb_getRouteCandidates cb target s)" by (cases "cb_getRouteCandidates cb target s") auto
    moreover have "resolveRouteDomain P cb target explicitDomain headers s = Inr d" using None d by (auto simp: resolveRouteDomain_def Let_def)
    ultimately show ?thesis using None by auto
  next
    case False
    then have "\<not> (\<exists>d. set ?ds = {d})" by (metis One_nat_def card_1_singleton_iff length_remdups_card_conv)
    with None False show ?thesis by (auto simp: resolveRouteDomain_def Let_def throwE_def)
  qed
qed

theorem resolveRouteDomain_correct_witness:
  "\<exists>d. resolveRouteDomain sample_platform (getBrokerRoutingCallbacks sample_platform settled_awaits sample_io) (js ''t'') None [] sample_federated = Inr d \<and>
     (\<forall>c \<in> set (getCandidates sample_platform (Some (js ''t'')) None (routeRegistry sample_federated)). normalizeRequestedDomain sample_platform (domain c) = d)"
proof -
  let ?cb = "getBrokerRoutingCallbacks sample_platform settled_awaits sample_io"
  have "resolveRouteDomain sample_platform ?cb (js ''t'') None [] sample_federated = Inr (js ''d'')"
    and "or_else_opt None (requested_host sample_platform []) = (None :: jsstr option)" by code_simp+
  with resolveRouteDomain_correct [where P = sample_platform and cb = ?cb and target = "js ''t''" and explicitDomain = None and headers = "[]"
      and s = sample_federated] show ?thesis by simp
qed

text \<open>What another Host gets, and what comes back, does not depend on the id under which the Broker asked: two requests
  that differ only there run alike.\<close>

theorem federation_hides_the_source:
  assumes "\<And>name. name \<noteq> js ''x-verser-source-id'' \<Longrightarrow> map_of headers name = map_of headers' name"
  shows "routeH2BrokerRequestOverFederationStream P cb stream headers st requestId target routeDomain egress s =
         routeH2BrokerRequestOverFederationStream P cb stream headers' st requestId target routeDomain egress s"
proof -
  have same: "raw_or P headers n other = raw_or P headers' n other" if "js n \<noteq> js ''x-verser-source-id''" for n other
    using assms [OF that] by (simp add: raw_or_def raw_or_empty_def)
  have "carried_headers P headers = carried_headers P headers'" "request_method P headers = request_method P headers'"
    "request_path P headers = request_path P headers'"
    by (simp_all add: carried_headers_def request_method_def request_path_def same js_def)
  then show ?thesis unfolding routeH2BrokerRequestOverFederationStream_def by (simp only:)
qed

theorem federation_hides_the_source_witness:
  "routeH2BrokerRequestOverFederationStream sample_platform (getBrokerRoutingCallbacks sample_platform settled_awaits sample_io) 5
     ((js ''x-verser-source-id'', RStr (js ''other'')) # sample_request) 9 (js ''r'') (js ''t'') None (js ''h1'') sample_federated = (Inr (), sample_federated)"
proof -
  have "map_of ((js ''x-verser-source-id'', RStr (js ''other'')) # sample_request) name = map_of sample_request name"
    if "name \<noteq> js ''x-verser-source-id''" for name using that by simp
  note same = federation_hides_the_source [OF this, where P = sample_platform and cb = "getBrokerRoutingCallbacks sample_platform settled_awaits sample_io"]
  show ?thesis by (subst same) (auto intro: sample_forward)
qed

end
