(* ===== verification/Line_Frames.thy ===== *)
theory Line_Frames
  imports Envelope
begin

text \<open>
  Newline-delimited JSON, the control-stream reader of \<open>verser-common/src/lib/ndjson.ts\<close>.

  \<open>readNdjsonLines\<close> is modelled as the handler of the \<open>data\<close> event over the variable \<open>pending\<close>, the
  state its callbacks change and whether the stream was destroyed; chunks are strings, because the reader
  asks the stream to decode. It is shown to refine a reader of whole lines, however the text is cut. The
  locale \<open>line_reader\<close> holds the refinement for any callbacks on a stream that can be destroyed; the control
  stream of a Broker interprets it.
\<close>

section \<open>NDJSON control frames\<close>

definition encodeJsonLine :: "'p platform_scheme \<Rightarrow> json \<Rightarrow> bytes" where
  "encodeJsonLine P v = utf8 (jsonStringify P v @ [10])"

text \<open>The callbacks may throw. \<open>nd_syntax\<close> is the message of the \<open>SyntaxError\<close> that \<open>JSON.parse\<close>
  throws for a line; \<open>nd_destroys\<close> tells whether the stream has a \<open>destroy\<close> method.\<close>

record 's ndjson_callbacks =
  nd_onFrame :: "json \<Rightarrow> 's \<Rightarrow> unit result \<times> 's"
  nd_onError :: "(VerserError \<Rightarrow> 's \<Rightarrow> unit result \<times> 's) option"
  nd_syntax :: "jsstr \<Rightarrow> jsstr"
  nd_destroys :: bool

record 's ndjson_reader =
  nd_pending :: jsstr
  nd_destroyed :: bool
  nd_state :: 's

fun break_line :: "jsstr \<Rightarrow> (jsstr \<times> jsstr) option" where
  "break_line [] = None"
| "break_line (c # s) = (if c = 10 then Some ([], s) else map_option (\<lambda>(l, r). (c # l, r)) (break_line s))"

definition take_frame :: "'p platform_scheme \<Rightarrow> 's ndjson_callbacks \<Rightarrow> jsstr \<Rightarrow> 's \<Rightarrow> unit result \<times> 's" where
  "take_frame P cb line s =
     (case jsonParse P line of
        None \<Rightarrow> (Inl (PlainErr (nd_syntax cb line) None), s)
      | Some frame \<Rightarrow> nd_onFrame cb frame s)"

definition bad_frame :: "'p platform_scheme \<Rightarrow> 's ndjson_callbacks \<Rightarrow> thrown \<Rightarrow> 's \<Rightarrow> unit result \<times> 's" where
  "bad_frame P cb e s =
     (case nd_onError cb of
        None \<Rightarrow> (Inr (), s)
      | Some onError \<Rightarrow>
          onError (createVerserError P protocol_error (js ''Invalid NDJSON control frame'')
                     [(js ''cause'', CStr (thrown_message e))]) s)"

lemma break_line_shorter: "break_line p = Some (l, r) \<Longrightarrow> length r < length p"
  by (induction p arbitrary: l r) (auto split: if_splits intro: less_SucI)

function ndjson_loop :: "'p platform_scheme \<Rightarrow> 's ndjson_callbacks \<Rightarrow> 's ndjson_reader \<Rightarrow> unit result \<times> 's ndjson_reader" where
  "ndjson_loop P cb r =
     (case break_line (nd_pending r) of
        None \<Rightarrow> (Inr (), r)
      | Some (line, rest) \<Rightarrow>
          if 0 < length line
          then (case take_frame P cb line (nd_state r) of
                  (Inr _, s) \<Rightarrow> ndjson_loop P cb (r\<lparr>nd_pending := rest, nd_state := s\<rparr>)
                | (Inl e, s) \<Rightarrow>
                    (case bad_frame P cb e s of
                       (Inl e', s') \<Rightarrow> (Inl e', r\<lparr>nd_pending := rest, nd_state := s'\<rparr>)
                     | (Inr _, s') \<Rightarrow> (Inr (), r\<lparr>nd_pending := rest, nd_state := s',
                                               nd_destroyed := nd_destroyed r \<or> nd_destroys cb\<rparr>)))
          else ndjson_loop P cb (r\<lparr>nd_pending := rest\<rparr>))"
  by auto
termination
  by (relation "measure (\<lambda>(P, cb, r). length (nd_pending r))") (auto dest: break_line_shorter)

declare ndjson_loop.simps [simp del]

definition ndjson_data :: "'p platform_scheme \<Rightarrow> 's ndjson_callbacks \<Rightarrow> jsstr \<Rightarrow> 's ndjson_reader \<Rightarrow> unit result \<times> 's ndjson_reader" where
  "ndjson_data P cb chunk r = ndjson_loop P cb (r\<lparr>nd_pending := nd_pending r @ chunk\<rparr>)"

text \<open>A destroyed stream emits no more data.\<close>

fun readNdjsonLines :: "'p platform_scheme \<Rightarrow> 's ndjson_callbacks \<Rightarrow> jsstr list \<Rightarrow> 's ndjson_reader \<Rightarrow> unit result \<times> 's ndjson_reader" where
  "readNdjsonLines P cb [] r = (Inr (), r)"
| "readNdjsonLines P cb (c # cs) r =
     (if nd_destroyed r then (Inr (), r)
      else case ndjson_data P cb c r of
             (Inl e, r') \<Rightarrow> (Inl e, r')
           | (Inr _, r') \<Rightarrow> readNdjsonLines P cb cs r')"

definition new_reader :: "'s \<Rightarrow> 's ndjson_reader" where
  "new_reader s = \<lparr>nd_pending = [], nd_destroyed = False, nd_state = s\<rparr>"

section \<open>What the reader refines\<close>

text \<open>A reader that is given whole lines: it takes one after the other, skips empty ones, and stops for
  good at the first that is no frame. \<open>Stopped\<close> carries what the error callback threw, if it threw.\<close>

datatype 's reading = Reading 's | Stopped "unit result" 's

fun read_lines :: "'p platform_scheme \<Rightarrow> 's ndjson_callbacks \<Rightarrow> jsstr list \<Rightarrow> 's \<Rightarrow> 's reading" where
  "read_lines P cb [] s = Reading s"
| "read_lines P cb (l # ls) s =
     (if l = [] then read_lines P cb ls s
      else case take_frame P cb l s of
             (Inr _, s1) \<Rightarrow> read_lines P cb ls s1
           | (Inl e, s1) \<Rightarrow> (case bad_frame P cb e s1 of (r, s2) \<Rightarrow> Stopped r s2))"

abbreviation complete_lines :: "jsstr \<Rightarrow> jsstr list" where
  "complete_lines text \<equiv> butlast (split_on 10 text)"

fun abs_reading :: "unit result \<times> 's ndjson_reader \<Rightarrow> 's reading" where
  "abs_reading (res, r) = (if nd_destroyed r \<or> res \<noteq> Inr () then Stopped res (nd_state r) else Reading (nd_state r))"

lemma split_on_not_Nil [simp]: "split_on d s \<noteq> []"
  by (cases s) (auto split: list.splits)

lemma break_line_split:
  "split_on 10 p = (case break_line p of None \<Rightarrow> [p] | Some (l, r) \<Rightarrow> l # split_on 10 r)"
  by (induction p) (auto split: option.splits)

lemma split_on_append:
  "split_on d (a @ b) = butlast (split_on d a) @ split_on d (last (split_on d a) @ b)"
proof (induction a)
  case (Cons c a)
  then show ?case by (cases "split_on d a"; cases "split_on d b") (auto split: list.splits)
qed simp

lemma complete_lines_append:
  "complete_lines (a @ b) = complete_lines a @ complete_lines (last (split_on 10 a) @ b)"
  by (subst split_on_append) (simp add: butlast_append)

lemma last_line_append: "last (split_on 10 (a @ b)) = last (split_on 10 (last (split_on 10 a) @ b))"
  by (subst split_on_append) simp

lemma read_lines_append:
  "read_lines P cb (xs @ ys) s =
     (case read_lines P cb xs s of Reading s1 \<Rightarrow> read_lines P cb ys s1 | Stopped r s1 \<Rightarrow> Stopped r s1)"
  by (induction xs arbitrary: s) (auto split: prod.splits sum.splits)

lemma split_on_last [simp]: "split_on d (last (split_on d a)) = [last (split_on d a)]"
  using split_on_append [of d a "[]"] append_butlast_last_id [OF split_on_not_Nil [of d a]]
  by (metis append_Nil2 same_append_eq)

locale line_reader =
  fixes P :: "'p platform_scheme" and cb :: "'s ndjson_callbacks"
  assumes destroys: "nd_destroys cb"
begin

lemma loop_refines:
  assumes "\<not> nd_destroyed r"
  shows "abs_reading (ndjson_loop P cb r) = read_lines P cb (complete_lines (nd_pending r)) (nd_state r) \<and>
     (\<forall>s. abs_reading (ndjson_loop P cb r) = Reading s \<longrightarrow>
        snd (ndjson_loop P cb r) = \<lparr>nd_pending = last (split_on 10 (nd_pending r)), nd_destroyed = False, nd_state = s\<rparr>)"
  using assms
proof (induction "length (nd_pending r)" arbitrary: r rule: less_induct)
  case less
  show ?case
  proof (cases "break_line (nd_pending r)")
    case None
    then show ?thesis
      using less.prems by (simp add: ndjson_loop.simps [of P cb r] break_line_split [of "nd_pending r"])
  next
    case (Some lr)
    then obtain line rest where lr: "break_line (nd_pending r) = Some (line, rest)" by (cases lr) auto
    have IH: "abs_reading (ndjson_loop P cb r') = read_lines P cb (complete_lines rest) (nd_state r') \<and>
        (\<forall>s. abs_reading (ndjson_loop P cb r') = Reading s \<longrightarrow>
        snd (ndjson_loop P cb r') = \<lparr>nd_pending = last (split_on 10 rest), nd_destroyed = False, nd_state = s\<rparr>)"
      if "nd_pending r' = rest" "\<not> nd_destroyed r'" for r'
      using less.hyps [of r'] break_line_shorter [OF lr] that by simp
    show ?thesis
    proof (cases "line = []")
      case True
      then show ?thesis
        using less.prems lr IH [of "r\<lparr>nd_pending := rest\<rparr>"]
        by (simp add: ndjson_loop.simps [of P cb r] break_line_split [of "nd_pending r"])
    next
      case False
      then show ?thesis
        using less.prems lr IH [of "r\<lparr>nd_pending := rest, nd_state := s\<rparr>" for s] destroys
        by (auto simp: ndjson_loop.simps [of P cb r] break_line_split [of "nd_pending r"]
              split: prod.splits sum.splits)
    qed
  qed
qed


lemma reader_refines:
  assumes "\<not> nd_destroyed r" and "split_on 10 (nd_pending r) = [nd_pending r]"
  shows "abs_reading (readNdjsonLines P cb cs r) =
    read_lines P cb (complete_lines (nd_pending r @ concat cs)) (nd_state r)"
  using assms
proof (induction cs arbitrary: r)
  case (Cons c cs)
  let ?r = "r\<lparr>nd_pending := nd_pending r @ c\<rparr>"
  have step: "abs_reading (ndjson_data P cb c r) = read_lines P cb (complete_lines (nd_pending r @ c)) (nd_state r)"
    and cont: "\<And>s. abs_reading (ndjson_data P cb c r) = Reading s \<Longrightarrow> snd (ndjson_data P cb c r) =
       \<lparr>nd_pending = last (split_on 10 (nd_pending r @ c)), nd_destroyed = False, nd_state = s\<rparr>"
    using loop_refines [of ?r] Cons.prems by (simp_all add: ndjson_data_def)
  obtain res r' where eq: "ndjson_data P cb c r = (res, r')" by fastforce
  have split: "complete_lines (nd_pending r @ c @ concat cs) =
      complete_lines (nd_pending r @ c) @ complete_lines (last (split_on 10 (nd_pending r @ c)) @ concat cs)"
    using complete_lines_append [of "nd_pending r @ c"] by simp
  show ?case
  proof (cases "nd_destroyed r' \<or> res \<noteq> Inr ()")
    case True
    then have "abs_reading (readNdjsonLines P cb (c # cs) r) = Stopped res (nd_state r')"
      using Cons.prems eq by (cases cs; cases res) auto
    with True show ?thesis
      using step [symmetric] eq by (simp add: split read_lines_append)
  next
    case False
    then have r': "r' = \<lparr>nd_pending = last (split_on 10 (nd_pending r @ c)), nd_destroyed = False, nd_state = nd_state r'\<rparr>"
      using cont [of "nd_state r'"] eq by simp
    with False have "abs_reading (readNdjsonLines P cb cs r') =
        read_lines P cb (complete_lines (last (split_on 10 (nd_pending r @ c)) @ concat cs)) (nd_state r')"
      using Cons.IH [of r'] by (metis ndjson_reader.select_convs(1,2) split_on_last)
    then show ?thesis
      using False step [symmetric] eq Cons.prems by (simp add: split read_lines_append)
  qed
qed simp

end

section \<open>UTF-8 and newlines\<close>

lemma of_nat_newline: "m < 256 \<Longrightarrow> (of_nat m :: byte) = 10 \<longleftrightarrow> m = 10"
  using unat_of_nat [where 'a = 8, of m] by (auto simp: take_bit_eq_mod)

lemma utf8_1_bytes:
  assumes "n < 0x110000"
  obtains ms where "utf8_1 n = map of_nat ms" and "\<forall>m \<in> set ms. m < 256 \<and> (m = 10 \<longrightarrow> n = 10)"
proof -
  consider "n < 0x80" | "0x80 \<le> n" "n < 0x800" | "0x800 \<le> n" "n < 0x10000" | "0x10000 \<le> n" by linarith
  then show ?thesis
  proof cases
    case 1
    then show ?thesis by (intro that [of "[n]"]) (auto simp: utf8_1_def)
  next
    case 2
    moreover have "n div 64 < 32" using 2 by (simp add: div_less_iff_less_mult)
    ultimately show ?thesis
      by (intro that [of "[0xC0 + n div 64, 0x80 + n mod 64]"]) (auto simp: utf8_1_def)
  next
    case 3
    moreover have "n div 4096 < 16" using 3 by (simp add: div_less_iff_less_mult)
    ultimately show ?thesis
      by (intro that [of "[0xE0 + n div 4096, 0x80 + n div 64 mod 64, 0x80 + n mod 64]"]) (auto simp: utf8_1_def)
  next
    case 4
    moreover have "n div 262144 < 5" using assms by (simp add: div_less_iff_less_mult)
    ultimately show ?thesis
      by (intro that [of "[0xF0 + n div 262144, 0x80 + n div 4096 mod 64, 0x80 + n div 64 mod 64, 0x80 + n mod 64]"])
        (auto simp: utf8_1_def)
  qed
qed

lemma utf8_1_newline: "n < 0x110000 \<Longrightarrow> n \<noteq> 10 \<Longrightarrow> 10 \<notin> set (utf8_1 n)"
  by (erule utf8_1_bytes) (auto simp: eq_commute [of 10] of_nat_newline)

lemma pair_code_point_less: "high_surrogate c \<Longrightarrow> low_surrogate d \<Longrightarrow> pair_code_point c d < 0x110000 \<and> pair_code_point c d \<noteq> 10"
  by (auto simp: high_surrogate_def low_surrogate_def pair_code_point_def word_le_nat_alt)

lemma unat_ucode_less: "unat (c :: ucode) < 0x110000"
  using unsigned_less [where ?'a = nat, of c] by simp

lemma unat_eq_10: "unat (c :: ucode) = 10 \<longleftrightarrow> c = 10"
  by (simp add: word_unat_eq_iff)

lemma utf8_no_newline: "10 \<notin> set s \<Longrightarrow> 10 \<notin> set (utf8 s)"
  by (induction s rule: utf8.induct)
    (auto simp: utf8_1_newline unat_ucode_less unat_eq_10 pair_code_point_less split: if_splits)

lemma utf8_newline_append: "utf8 (s @ 10 # t) = utf8 s @ 10 # utf8 t"
proof (induction s rule: utf8.induct)
  case 1
  show ?case by (cases t) (auto simp: low_surrogate_def high_surrogate_def utf8_1_def)
next
  case (2 c)
  show ?case by (cases t) (auto simp: low_surrogate_def high_surrogate_def utf8_1_def)
qed auto

section \<open>Properties\<close>

text \<open>What \<open>JSON.stringify\<close> promises of the text of a value: it is one line, it does not end in white
  space, and \<open>JSON.parse\<close> reads the value back.\<close>

definition line_text :: "'p platform_scheme \<Rightarrow> json \<Rightarrow> bool" where
  "line_text P j \<longleftrightarrow>
     (let t = jsonStringify P j in t \<noteq> [] \<and> 10 \<notin> set t \<and> \<not> js_ws (last t) \<and> jsonParse P t = Some j)"

lemma encodeJsonLines: "concat (map (encodeJsonLine P) vs) = utf8 (concat (map (\<lambda>v. jsonStringify P v @ [10]) vs))"
  by (induction vs) (simp_all add: encodeJsonLine_def utf8_newline_append)

lemma split_on_no: "d \<notin> set a \<Longrightarrow> split_on d (a @ d # b) = a # split_on d b"
  by (induction a) auto

lemma complete_lines_lines:
  "\<forall>t \<in> set ts. 10 \<notin> set t \<Longrightarrow> split_on 10 (concat (map (\<lambda>t. t @ [10]) ts)) = ts @ [[]]"
  by (induction ts) (simp_all add: split_on_no)

lemma read_lines_frames:
  assumes "\<forall>v \<in> set vs. line_text P v \<and> (\<forall>s. fst (nd_onFrame cb v s) = Inr ())"
  shows "read_lines P cb (map (jsonStringify P) vs) s = Reading (fold (\<lambda>v s. snd (nd_onFrame cb v s)) vs s)"
  using assms
proof (induction vs arbitrary: s)
  case (Cons v vs)
  then have "take_frame P cb (jsonStringify P v) s = (Inr (), snd (nd_onFrame cb v s))"
    by (simp add: line_text_def take_frame_def Let_def prod_eq_iff)
  with Cons show ?case by (simp add: line_text_def Let_def)
qed simp

text \<open>C29: The reader of a control stream refines a reader of whole lines: however the text is cut into
  chunks, it calls back for the complete non-empty lines in their order, and the first line that is no
  frame, or whose callback throws, is reported once and ends the reading, even with further lines in the
  same chunk.\<close>

theorem ndjson_reader_refines:
  "nd_destroys cb \<Longrightarrow>
   abs_reading (readNdjsonLines P cb chunks (new_reader s)) = read_lines P cb (complete_lines (concat chunks)) s"
  using line_reader.reader_refines [OF line_reader.intro, of cb "new_reader s" P chunks] by (simp add: new_reader_def)

definition counting :: "nat ndjson_callbacks" where
  "counting = \<lparr>nd_onFrame = (\<lambda>f n. (Inr (), n + 1)), nd_onError = None, nd_syntax = id, nd_destroys = True\<rparr>"

theorem ndjson_reader_refines_witness:
  "abs_reading (readNdjsonLines sample_platform counting [js ''{'', [125, 10, 10, 49], [48, 10, 55]] (new_reader 0)) = Reading 2"
  by (subst ndjson_reader_refines)
    (simp_all add: counting_def js_def take_frame_def sample_platform_def)

text \<open>What \<open>encodeJsonLine\<close> writes is read back: the callback runs once for every value, in order,
  however the decoded text is cut.\<close>

theorem ndjson_roundtrip:
  assumes "nd_destroys cb"
    and "\<forall>v \<in> set vs. line_text P v \<and> (\<forall>s. fst (nd_onFrame cb v s) = Inr ())"
    and "utf8ToString P (utf8 (concat (map (\<lambda>v. jsonStringify P v @ [10]) vs))) = concat (map (\<lambda>v. jsonStringify P v @ [10]) vs)"
    and "concat chunks = utf8ToString P (concat (map (encodeJsonLine P) vs))"
  shows "abs_reading (readNdjsonLines P cb chunks (new_reader s)) = Reading (fold (\<lambda>v s. snd (nd_onFrame cb v s)) vs s)"
proof -
  have "concat chunks = concat (map (\<lambda>t. t @ [10]) (map (jsonStringify P) vs))"
    using assms(3,4) by (simp add: encodeJsonLines comp_def)
  moreover have "\<forall>t \<in> set (map (jsonStringify P) vs). 10 \<notin> set t"
    using assms(2) by (auto simp: line_text_def Let_def)
  ultimately have "complete_lines (concat chunks) = map (jsonStringify P) vs"
    using complete_lines_lines by (metis butlast_snoc)
  then show ?thesis
    using line_reader.reader_refines [OF line_reader.intro [OF assms(1)], of "new_reader s" P chunks]
      read_lines_frames [OF assms(2)] by (simp add: new_reader_def)
qed

end
