(* ===== verification/Vws_Frames.thy ===== *)
theory Vws_Frames
  imports Line_Frames Federation_Common
begin

text \<open>
  VWS/1 frames: \<open>verser-common/src/lib/vws.ts\<close>, the Host-to-Host opening frames of
  \<open>verser-common/src/lib/federation.ts\<close>, and the two places of the Host that read such frames: the
  negotiation of \<open>federation.ts\<close> and the framed bridge of \<open>node-http2-verser-host.ts\<close>.

  A frame is the JSON object itself, as in the sources; \<open>VwsFrame\<close> is the union type of the sources and
  \<open>vws_json\<close> the object of a frame (a field that is \<open>undefined\<close> is absent from the JSON text).
\<close>

section \<open>Frames\<close>

definition VWS_MAX_FRAME_BYTES :: nat where
  "VWS_MAX_FRAME_BYTES = 1 * 1024 * 1024"

datatype VwsFrame =
    VwsOpen (vws_domain: jsstr) (vws_path: "jsstr option") (vws_open_protocol: "jsstr option")
  | VwsAccept (vws_accept_protocol: "jsstr option")
  | VwsText (vws_text: jsstr)
  | VwsBinary (vws_base64: jsstr)
  | VwsPing (vws_ping: "jsstr option")
  | VwsPong (vws_pong: "jsstr option")
  | VwsClose (vws_code: int) (vws_reason: "jsstr option")
  | VwsError (vws_message: jsstr)

definition field :: "string \<Rightarrow> jsstr \<Rightarrow> jsstr \<times> json" where
  "field k v = (js k, JStr v)"

definition opt_field :: "string \<Rightarrow> jsstr option \<Rightarrow> (jsstr \<times> json) list" where
  "opt_field k v = (case v of None \<Rightarrow> [] | Some s \<Rightarrow> [field k s])"

fun vws_json :: "VwsFrame \<Rightarrow> json" where
  "vws_json (VwsOpen d p q) = JObj ([field ''type'' (js ''open''), field ''domain'' d] @ opt_field ''path'' p @ opt_field ''protocol'' q)"
| "vws_json (VwsAccept q) = JObj (field ''type'' (js ''accept'') # opt_field ''protocol'' q)"
| "vws_json (VwsText d) = JObj [field ''type'' (js ''text''), field ''data'' d]"
| "vws_json (VwsBinary d) = JObj [field ''type'' (js ''binary''), field ''data'' d]"
| "vws_json (VwsPing d) = JObj (field ''type'' (js ''ping'') # opt_field ''data'' d)"
| "vws_json (VwsPong d) = JObj (field ''type'' (js ''pong'') # opt_field ''data'' d)"
| "vws_json (VwsClose c r) = JObj ([field ''type'' (js ''close''), (js ''code'', JNum (Fin (of_int c)))] @ opt_field ''reason'' r)"
| "vws_json (VwsError m) = JObj [field ''type'' (js ''error''), field ''message'' m]"

definition encodeVwsFrame :: "'p platform_scheme \<Rightarrow> json \<Rightarrow> jsstr" where
  "encodeVwsFrame P frame = jsonStringify P frame @ [10]"

text \<open>The regular expression of base64 text: groups of four, the last of which may be padded.\<close>

definition b64_char :: "ucode \<Rightarrow> bool" where
  "b64_char c \<longleftrightarrow> (65 \<le> c \<and> c \<le> 90) \<or> (97 \<le> c \<and> c \<le> 122) \<or> (48 \<le> c \<and> c \<le> 57) \<or> c = 43 \<or> c = 47"

fun is_base64 :: "jsstr \<Rightarrow> bool" where
  "is_base64 [] = True"
| "is_base64 [a, b, c, d] =
     (b64_char a \<and> b64_char b \<and> (if b64_char c then b64_char d \<or> d = 61 else c = 61 \<and> d = 61))"
| "is_base64 (a # b # c # d # rest) = (b64_char a \<and> b64_char b \<and> b64_char c \<and> b64_char d \<and> is_base64 rest)"
| "is_base64 _ = False"

definition close_code_ok :: "int \<Rightarrow> bool" where
  "close_code_ok code \<longleftrightarrow> (1000 \<le> code \<and> code \<le> 1014 \<and> code \<notin> {1004, 1005, 1006}) \<or> (3000 \<le> code \<and> code \<le> 4999)"

definition vws_protocolError :: "string \<Rightarrow> 'b result" where
  "vws_protocolError message = Inl (PlainErr (js message) (Some 1002))"

fun is_string :: "json option \<Rightarrow> bool" where
  "is_string (Some (JStr _)) = True"
| "is_string _ = False"

definition optional_string :: "json option \<Rightarrow> bool" where
  "optional_string v \<longleftrightarrow> v = None \<or> is_string v"

fun integer_code :: "json option \<Rightarrow> int option" where
  "integer_code (Some (JNum n)) = (if isInteger n then Some (int_of_num n) else None)"
| "integer_code _ = None"

fun reason_bytes :: "json option \<Rightarrow> nat" where
  "reason_bytes (Some (JStr r)) = byteLength r"
| "reason_bytes _ = 0"

definition check_close :: "json \<Rightarrow> unit result" where
  "check_close obj =
     (case integer_code (obj_get obj ''code'') of
        None \<Rightarrow> vws_protocolError ''Invalid VWS close frame''
      | Some code \<Rightarrow>
          if \<not> optional_string (obj_get obj ''reason'') then vws_protocolError ''Invalid VWS close frame''
          else if \<not> close_code_ok code then vws_protocolError ''Invalid VWS close code''
          else if 123 < reason_bytes (obj_get obj ''reason'') then vws_protocolError ''VWS close reason exceeds 123 UTF-8 bytes''
          else Inr ())"

fun data_base64 :: "json option \<Rightarrow> bool" where
  "data_base64 (Some (JStr d)) = is_base64 d"
| "data_base64 _ = False"

definition check_frame :: "jsstr \<Rightarrow> json \<Rightarrow> unit result" where
  "check_frame type obj =
     (if type = js ''open'' then
        (if \<not> is_string (obj_get obj ''domain'') \<or> \<not> optional_string (obj_get obj ''path'')
         then vws_protocolError ''Invalid VWS open frame''
         else if \<not> optional_string (obj_get obj ''protocol'') then vws_protocolError ''Invalid VWS protocol'' else Inr ())
      else if type = js ''accept'' then
        (if \<not> optional_string (obj_get obj ''protocol'') then vws_protocolError ''Invalid VWS protocol'' else Inr ())
      else if type = js ''text'' then
        (if \<not> is_string (obj_get obj ''data'') then vws_protocolError ''Invalid VWS text frame'' else Inr ())
      else if type = js ''binary'' then
        (if \<not> data_base64 (obj_get obj ''data'') then vws_protocolError ''Invalid VWS binary frame'' else Inr ())
      else if type = js ''ping'' \<or> type = js ''pong'' then
        (if \<not> optional_string (obj_get obj ''data'') then vws_protocolError ''Invalid VWS data'' else Inr ())
      else if type = js ''close'' then check_close obj
      else if type = js ''error'' then
        (if \<not> is_string (obj_get obj ''message'') then vws_protocolError ''Invalid VWS error frame'' else Inr ())
      else vws_protocolError ''Unknown VWS frame type'')"

fun is_object :: "json \<Rightarrow> bool" where
  "is_object (JObj _) = True"
| "is_object (JArr _) = True"
| "is_object _ = False"

text \<open>\<open>synmsg\<close> is the message of the \<open>SyntaxError\<close> of \<open>JSON.parse\<close>.\<close>

definition decodeVwsFrame :: "'p platform_scheme \<Rightarrow> (jsstr \<Rightarrow> jsstr) \<Rightarrow> jsstr \<Rightarrow> json result" where
  "decodeVwsFrame P synmsg line =
     (if VWS_MAX_FRAME_BYTES < byteLength line
      then Inl (PlainErr (js ''VWS frame exceeds maximum allowed size'') (Some 1009))
      else case jsonParse P (trimEnd line) of
        None \<Rightarrow> Inl (PlainErr (synmsg (trimEnd line)) None)
      | Some parsed \<Rightarrow>
          if \<not> is_object parsed then Inl (PlainErr (js ''Invalid VWS frame: expected a JSON object'') None)
          else case obj_get parsed ''type'' of
            Some (JStr type) \<Rightarrow> bindE (check_frame type parsed) (\<lambda>_. Inr parsed)
          | _ \<Rightarrow> Inl (PlainErr (js ''Invalid VWS frame: missing or non-string type'') None))"

section \<open>Reading a line\<close>

record line_reader_state =
  lr_chunks :: "bytes list"
  lr_bufferedBytes :: nat

fun break_byte :: "bytes \<Rightarrow> (bytes \<times> bytes) option" where
  "break_byte [] = None"
| "break_byte (c # s) = (if c = 10 then Some ([], s) else map_option (\<lambda>(l, r). (c # l, r)) (break_byte s))"

definition oversize :: "'p platform_scheme \<Rightarrow> nat \<Rightarrow> jsstr result" where
  "oversize P maxBytes =
     Inl (PlainErr (js ''VWS frame exceeds maximum allowed size ('' @ numberToString P (Fin (of_nat maxBytes)) @ js '' bytes)'') (Some 1009))"

text \<open>\<open>onData\<close> either waits for more, or settles the promise and puts bytes back into the stream.\<close>

definition line_onData :: "'p platform_scheme \<Rightarrow> nat \<Rightarrow> bytes \<Rightarrow> line_reader_state
    \<Rightarrow> line_reader_state + (jsstr result \<times> bytes)" where
  "line_onData P maxBytes next st =
     (case break_byte next of
        None \<Rightarrow>
          (let st' = \<lparr>lr_chunks = lr_chunks st @ [next], lr_bufferedBytes = lr_bufferedBytes st + length next\<rparr>
           in if maxBytes < lr_bufferedBytes st' then Inr (oversize P maxBytes, []) else Inl st')
      | Some (before, remaining) \<Rightarrow>
          if maxBytes < lr_bufferedBytes st + length before then Inr (oversize P maxBytes, [])
          else Inr (Inr (utf8ToString P (concat (lr_chunks st @ [before]))), remaining))"

definition line_onEnd :: "'p platform_scheme \<Rightarrow> line_reader_state \<Rightarrow> jsstr result" where
  "line_onEnd P st =
     (if 0 < lr_bufferedBytes st then Inr (utf8ToString P (concat (lr_chunks st)))
      else Inl (PlainErr (js ''Stream ended before VWS frame'') None))"

text \<open>The promise is settled by the first event that settles it; the listeners are gone afterwards, so
  the later events are left to whoever listens next. \<open>None\<close> is a promise still pending.\<close>

fun read_line_from :: "'p platform_scheme \<Rightarrow> nat \<Rightarrow> line_reader_state \<Rightarrow> arrival list
    \<Rightarrow> (jsstr result \<times> bytes \<times> arrival list) option" where
  "read_line_from P maxBytes st [] = None"
| "read_line_from P maxBytes st (Chunk c # es) =
     (case line_onData P maxBytes c st of
        Inl st' \<Rightarrow> read_line_from P maxBytes st' es
      | Inr (res, back) \<Rightarrow> Some (res, back, es))"
| "read_line_from P maxBytes st (Eof # es) = Some (line_onEnd P st, [], es)"
| "read_line_from P maxBytes st (ErrorEvent e # es) = Some (Inl e, [], es)"
| "read_line_from P maxBytes st (CloseEvent # es) = Some (Inl (PlainErr (js ''Stream closed before VWS frame'') None), [], es)"

definition readVwsLine :: "'p platform_scheme \<Rightarrow> nat \<Rightarrow> arrival list \<Rightarrow> (jsstr result \<times> bytes \<times> arrival list) option" where
  "readVwsLine P maxBytes events = read_line_from P maxBytes \<lparr>lr_chunks = [], lr_bufferedBytes = 0\<rparr> events"

section \<open>The framed bridge\<close>

text \<open>
  \<open>forward\<close> of \<open>bridgeWebSocketStreams\<close>: frames are read one line at a time, decoded and written again.
  \<open>go n\<close> says that round \<open>n\<close> is reached with the bridge open: the previous write was taken or drained, and
  neither stream closed. The result is what was written and whether the bridge was cleaned up by a failure.
  Bytes behind a line were put back into the stream and arrive first at the next reader.
\<close>

definition put_back :: "bytes \<Rightarrow> arrival list \<Rightarrow> arrival list" where
  "put_back remaining es = (if 0 < length remaining then Chunk remaining # es else es)"

fun arrival_size :: "arrival \<Rightarrow> nat" where
  "arrival_size (Chunk c) = Suc (length c)"
| "arrival_size _ = 1"

definition arrivals_size :: "arrival list \<Rightarrow> nat" where
  "arrivals_size es = sum_list (map arrival_size es)"

lemma break_byte_shorter: "break_byte bs = Some (l, r) \<Longrightarrow> length r < length bs"
  by (induction bs arbitrary: l r) (auto split: if_splits intro: less_SucI)

lemma line_onData_back: "line_onData P m c st = Inr (res, back) \<Longrightarrow> back = [] \<or> length back < length c"
  by (auto simp: line_onData_def Let_def split: option.splits if_splits prod.splits dest: break_byte_shorter)

lemma read_line_shrinks:
  "read_line_from P m st es = Some (res, back, es') \<Longrightarrow> arrivals_size (put_back back es') < arrivals_size es"
  by (induction P m st es rule: read_line_from.induct)
    (auto simp: arrivals_size_def put_back_def split: sum.splits prod.splits dest: line_onData_back)

function forward_frames :: "'p platform_scheme \<Rightarrow> (jsstr \<Rightarrow> jsstr) \<Rightarrow> (nat \<Rightarrow> bool) \<Rightarrow> nat \<Rightarrow> arrival list \<Rightarrow> jsstr list \<times> bool" where
  "forward_frames P synmsg go n events =
     (if \<not> go n then ([], False)
      else case readVwsLine P VWS_MAX_FRAME_BYTES events of
        None \<Rightarrow> ([], False)
      | Some (res, remaining, es) \<Rightarrow>
          (case bindE res (decodeVwsFrame P synmsg) of
             Inl _ \<Rightarrow> ([], True)
           | Inr frame \<Rightarrow>
               (case forward_frames P synmsg go (n + 1) (put_back remaining es) of
                  (written, cleaned) \<Rightarrow> (encodeVwsFrame P frame # written, cleaned))))"
  by auto
termination
  by (relation "measure (\<lambda>(P, synmsg, go, n, es). arrivals_size es)") (auto simp: readVwsLine_def dest: read_line_shrinks)

declare forward_frames.simps [simp del]

section \<open>What decoding accepts\<close>

text \<open>A frame object as a value of the union type: the fields of its type have the types the union
  declares. Whether the values themselves are allowed is \<open>vws_frame_ok\<close>.\<close>

fun opt_str :: "json option \<Rightarrow> jsstr option option" where
  "opt_str None = Some None"
| "opt_str (Some (JStr s)) = Some (Some s)"
| "opt_str (Some _) = None"

fun req_str :: "json option \<Rightarrow> jsstr option" where
  "req_str (Some (JStr s)) = Some s"
| "req_str _ = None"

definition vws_view :: "json \<Rightarrow> VwsFrame option" where
  "vws_view obj =
     (case req_str (obj_get obj ''type'') of
        None \<Rightarrow> None
      | Some type \<Rightarrow>
          if type = js ''open'' then
            (case (req_str (obj_get obj ''domain''), opt_str (obj_get obj ''path''), opt_str (obj_get obj ''protocol'')) of
               (Some d, Some p, Some q) \<Rightarrow> Some (VwsOpen d p q) | _ \<Rightarrow> None)
          else if type = js ''accept'' then map_option VwsAccept (opt_str (obj_get obj ''protocol''))
          else if type = js ''text'' then map_option VwsText (req_str (obj_get obj ''data''))
          else if type = js ''binary'' then map_option VwsBinary (req_str (obj_get obj ''data''))
          else if type = js ''ping'' then map_option VwsPing (opt_str (obj_get obj ''data''))
          else if type = js ''pong'' then map_option VwsPong (opt_str (obj_get obj ''data''))
          else if type = js ''close'' then
            (case (integer_code (obj_get obj ''code''), opt_str (obj_get obj ''reason'')) of
               (Some c, Some r) \<Rightarrow> Some (VwsClose c r) | _ \<Rightarrow> None)
          else if type = js ''error'' then map_option VwsError (req_str (obj_get obj ''message''))
          else None)"

fun vws_frame_ok :: "VwsFrame \<Rightarrow> bool" where
  "vws_frame_ok (VwsBinary d) = is_base64 d"
| "vws_frame_ok (VwsClose c r) = (close_code_ok c \<and> (case r of None \<Rightarrow> True | Some t \<Rightarrow> byteLength t \<le> 123))"
| "vws_frame_ok _ = True"

lemma is_string_view: "is_string v \<longleftrightarrow> (\<exists>s. req_str v = Some s)"
  by (cases v rule: is_string.cases) auto

lemma optional_string_view: "optional_string v \<longleftrightarrow> (\<exists>s. opt_str v = Some s)"
  by (cases v rule: opt_str.cases) (auto simp: optional_string_def)

lemma data_base64_view: "data_base64 v \<longleftrightarrow> (\<exists>s. req_str v = Some s \<and> is_base64 s)"
  by (cases v rule: data_base64.cases) auto

lemma reason_bytes_view:
  "opt_str v = Some r \<Longrightarrow> reason_bytes v \<le> 123 \<longleftrightarrow> (case r of None \<Rightarrow> True | Some t \<Rightarrow> byteLength t \<le> 123)"
  by (cases v rule: opt_str.cases) auto

lemmas view_simps = is_string_view optional_string_view data_base64_view

lemma check_close_view:
  "check_close obj = Inr () \<longleftrightarrow>
     (\<exists>c r. integer_code (obj_get obj ''code'') = Some c \<and> opt_str (obj_get obj ''reason'') = Some r \<and> vws_frame_ok (VwsClose c r))"
  using reason_bytes_view [of "obj_get obj ''reason''"]
  by (auto simp: check_close_def vws_protocolError_def view_simps not_less split: option.splits)

lemma check_frame_view:
  assumes "req_str (obj_get obj ''type'') = Some type"
  shows "check_frame type obj = Inr () \<longleftrightarrow> (\<exists>f. vws_view obj = Some f \<and> vws_frame_ok f)"
proof -
  consider "type = js ''open''" | "type = js ''accept''" | "type = js ''text''" | "type = js ''binary''"
    | "type = js ''ping''" | "type = js ''pong''" | "type = js ''close''" | "type = js ''error''"
    | "type \<notin> {js ''open'', js ''accept'', js ''text'', js ''binary'', js ''ping'', js ''pong'', js ''close'', js ''error''}"
    by blast
  then show ?thesis
    by cases (use assms in \<open>simp_all add: check_frame_def vws_view_def vws_protocolError_def view_simps check_close_view
        del: vws_frame_ok.simps(2) split: option.splits\<close>, auto)
qed

lemma decode_typed:
  "obj_get parsed ''type'' = Some (JStr t) \<Longrightarrow> is_object parsed"
  by (cases parsed) auto

lemma req_str_eq: "req_str v = Some s \<longleftrightarrow> v = Some (JStr s)"
  by (cases v rule: req_str.cases) auto

lemma vws_view_typed: "vws_view obj = Some f \<Longrightarrow> \<exists>t. obj_get obj ''type'' = Some (JStr t)"
  by (auto simp: vws_view_def req_str_eq split: option.splits)

lemma unit_result_Inr: "(r :: unit result) = Inr () \<longleftrightarrow> (\<exists>u. r = Inr u)"
  by simp

lemma decode_iff:
  "decodeVwsFrame P synmsg line = Inr obj \<longleftrightarrow>
     byteLength line \<le> VWS_MAX_FRAME_BYTES \<and> jsonParse P (trimEnd line) = Some obj \<and>
     (\<exists>f. vws_view obj = Some f \<and> vws_frame_ok f)"
proof (cases "\<exists>t. obj_get obj ''type'' = Some (JStr t)")
  case True
  then obtain t where t: "obj_get obj ''type'' = Some (JStr t)" ..
  then have "is_object obj" and "check_frame t obj = Inr () \<longleftrightarrow> (\<exists>f. vws_view obj = Some f \<and> vws_frame_ok f)"
    by (auto intro: decode_typed simp: check_frame_view)
  with t show ?thesis
    by (auto simp: decodeVwsFrame_def result_simps split: option.splits json.splits)
next
  case False
  then show ?thesis
    using vws_view_typed [of obj]
    by (auto simp: decodeVwsFrame_def result_simps split: option.splits json.splits)
qed

lemma vws_view_json [simp]: "vws_view (vws_json f) = Some f"
  by (cases f) (auto simp: vws_view_def field_def opt_field_def split: option.splits)

section \<open>The first line of a stream\<close>

lemma break_byte_None: "break_byte bs = None \<longleftrightarrow> 10 \<notin> set bs"
  by (induction bs) auto

lemma break_byte_Some: "break_byte bs = Some (l, r) \<longleftrightarrow> bs = l @ 10 # r \<and> 10 \<notin> set l"
proof (induction bs arbitrary: l)
  case (Cons c bs)
  then show ?case by (cases l) auto
qed simp

text \<open>A reader that is still waiting has buffered no newline and no more than the limit.\<close>

definition line_waiting :: "nat \<Rightarrow> line_reader_state \<Rightarrow> bool" where
  "line_waiting maxBytes st \<longleftrightarrow> lr_bufferedBytes st = length (concat (lr_chunks st)) \<and> 10 \<notin> set (concat (lr_chunks st)) \<and>
     lr_bufferedBytes st \<le> maxBytes"

lemma line_onData_waits:
  "line_waiting m st \<Longrightarrow> line_onData P m c st = Inl st' \<Longrightarrow>
   line_waiting m st' \<and> 10 \<notin> set c \<and> concat (lr_chunks st') = concat (lr_chunks st) @ c"
  by (auto simp: line_onData_def line_waiting_def Let_def break_byte_None split: option.splits if_splits prod.splits)

lemma read_line_from_first:
  assumes "line_waiting m st" and "concat (lr_chunks st) @ concat cs = l @ 10 # r" and "10 \<notin> set l"
  shows "\<exists>back cs'. read_line_from P m st (map Chunk cs @ rest) =
       Some (if length l \<le> m then Inr (utf8ToString P l) else oversize P m, back, map Chunk cs' @ rest) \<and>
     (length l \<le> m \<longrightarrow> back @ concat cs' = r)"
  using assms
proof (induction cs arbitrary: st)
  case Nil
  then have False by (simp add: line_waiting_def del: set_concat)
  then show ?case ..
next
  case (Cons c cs)
  let ?b = "concat (lr_chunks st)"
  show ?case
  proof (cases "line_onData P m c st")
    case (Inl st')
    from line_onData_waits [OF Cons.prems(1) Inl] show ?thesis
      using Cons.IH [of st'] Cons.prems Inl by simp
  next
    case (Inr out)
    show ?thesis
    proof (cases "break_byte c")
      case None
      then have "m < length ?b + length c" and out: "out = (oversize P m, [])"
        using Inr Cons.prems(1) by (auto simp: line_onData_def line_waiting_def Let_def split: if_splits)
      moreover have "10 \<notin> set (?b @ c)"
        using None Cons.prems(1) by (auto simp: line_waiting_def break_byte_None)
      moreover have "length (?b @ c) \<le> length l"
      proof (rule ccontr)
        assume long: "\<not> length (?b @ c) \<le> length l"
        have "(?b @ c) @ concat cs = l @ 10 # r" using Cons.prems(2) by simp
        then obtain us where us: "?b @ c = l @ us" "us @ concat cs = 10 # r"
          by (rule split_at) (use long in simp)
        with long obtain us' where "us = 10 # us'" by (cases us) (use long in auto)
        with us have "10 \<in> set (?b @ c)" by (simp del: set_append set_concat) simp
        with \<open>10 \<notin> set (?b @ c)\<close> show False by contradiction
      qed
      ultimately show ?thesis using Inr by (auto intro!: exI [of _ cs])
    next
      case (Some br)
      then obtain b rem where br: "break_byte c = Some (b, rem)" by (cases br) auto
      then have c: "c = b @ 10 # rem" "10 \<notin> set b" by (simp_all add: break_byte_Some)
      then have "?b @ b = l \<and> rem @ concat cs = r"
        using Cons.prems append_sep_inj [of "?b @ b" 10 "rem @ concat cs" l r] by (auto simp: line_waiting_def)
      then show ?thesis
        using Inr br Cons.prems(1)
        by (auto simp: line_onData_def line_waiting_def intro!: exI [of _ cs] split: if_splits)
    qed
  qed
qed

lemma read_line_from_end:
  assumes "line_waiting m st" and "concat (lr_chunks st) @ concat cs = l" and "10 \<notin> set l" and "length l \<le> m"
  shows "read_line_from P m st (map Chunk cs @ Eof # rest) =
     Some (if l = [] then Inl (PlainErr (js ''Stream ended before VWS frame'') None) else Inr (utf8ToString P l), [], rest)"
  using assms
proof (induction cs arbitrary: st)
  case Nil
  then show ?case by (auto simp: line_waiting_def line_onEnd_def)
next
  case (Cons c cs)
  have "break_byte c = None" using Cons.prems by (auto simp: break_byte_None)
  then obtain st' where st': "line_onData P m c st = Inl st'"
    using Cons.prems by (auto simp: line_onData_def line_waiting_def Let_def)
  from line_onData_waits [OF Cons.prems(1) st'] show ?case
    using Cons.IH [of st'] Cons.prems st' by simp
qed

lemma readVwsLine_line:
  assumes "concat cs = l @ 10 # r" and "10 \<notin> set l"
  shows "\<exists>back cs'. readVwsLine P m (map Chunk cs @ rest) =
       Some (if length l \<le> m then Inr (utf8ToString P l) else oversize P m, back, map Chunk cs' @ rest) \<and>
     (length l \<le> m \<longrightarrow> back @ concat cs' = r)"
  using read_line_from_first [of m "\<lparr>lr_chunks = [], lr_bufferedBytes = 0\<rparr>" cs l r P rest] assms
  by (simp add: readVwsLine_def line_waiting_def)

section \<open>Frames through the bridge\<close>

text \<open>A frame whose JSON text survives the wire: one line of at most the frame limit.\<close>

definition wire_ok :: "'p platform_scheme \<Rightarrow> json \<Rightarrow> bool" where
  "wire_ok P j \<longleftrightarrow> line_text P j \<and> utf8ToString P (utf8 (jsonStringify P j)) = jsonStringify P j \<and>
     byteLength (jsonStringify P j) \<le> VWS_MAX_FRAME_BYTES \<and> (\<exists>f. vws_view j = Some f \<and> vws_frame_ok f)"

lemma trimEnd_id: "\<not> js_ws (last t) \<Longrightarrow> trimEnd t = t"
  by (cases t rule: rev_cases) (auto simp: trimEnd_def)

lemma decode_text: "wire_ok P j \<Longrightarrow> decodeVwsFrame P synmsg (jsonStringify P j) = Inr j"
  by (simp add: wire_ok_def decode_iff trimEnd_id line_text_def Let_def)

lemma forward_step:
  assumes "go n" and "wire_ok P j" and "concat cs = utf8 (encodeVwsFrame P j) @ r"
  shows "\<exists>cs'. concat cs' = r \<and> forward_frames P synmsg go n (map Chunk cs) =
     (let (ws, c) = forward_frames P synmsg go (n + 1) (map Chunk cs') in (encodeVwsFrame P j # ws, c))"
proof -
  have "utf8 (encodeVwsFrame P j) = utf8 (jsonStringify P j) @ [10]"
    using utf8_newline_append [of _ "[]"] by (simp add: encodeVwsFrame_def)
  then obtain bk cs' where got: "readVwsLine P VWS_MAX_FRAME_BYTES (map Chunk cs) = Some (Inr (jsonStringify P j), bk, map Chunk cs')"
    and r: "bk @ concat cs' = r"
    using assms readVwsLine_line [of cs "utf8 (jsonStringify P j)" r P VWS_MAX_FRAME_BYTES "[]"]
    by (auto simp: wire_ok_def line_text_def Let_def utf8_no_newline byteLength_def)
  have "put_back bk (map Chunk cs') = map Chunk (if bk = [] then cs' else bk # cs')"
    by (simp add: put_back_def)
  with r show ?thesis
    using assms got by (intro exI [of _ "if bk = [] then cs' else bk # cs'"])
      (auto simp: forward_frames.simps [of P synmsg go n] decode_text)
qed

lemma read_nothing:
  "concat cs = [] \<Longrightarrow> lr_bufferedBytes st \<le> m \<Longrightarrow> read_line_from P m st (map Chunk cs) = None"
  by (induction cs arbitrary: st) (auto simp: line_onData_def Let_def)

lemma forward_all:
  assumes "\<forall>j \<in> set fs. wire_ok P j" and "\<forall>k \<le> length fs. go (n + k)"
    and "concat cs = concat (map (\<lambda>j. utf8 (encodeVwsFrame P j)) fs)"
  shows "forward_frames P synmsg go n (map Chunk cs) = (map (encodeVwsFrame P) fs, False)"
  using assms
proof (induction fs arbitrary: n cs)
  case Nil
  then have "readVwsLine P VWS_MAX_FRAME_BYTES (map Chunk cs) = None"
    by (simp add: readVwsLine_def read_nothing)
  then show ?case using Nil by (simp add: forward_frames.simps [of P synmsg go n])
next
  case (Cons j fs)
  from Cons.prems(3) have "concat cs = utf8 (encodeVwsFrame P j) @ concat (map (\<lambda>j. utf8 (encodeVwsFrame P j)) fs)"
    by simp
  then obtain cs' where "concat cs' = concat (map (\<lambda>j. utf8 (encodeVwsFrame P j)) fs)"
    and "forward_frames P synmsg go n (map Chunk cs) =
     (let (ws, c) = forward_frames P synmsg go (n + 1) (map Chunk cs') in (encodeVwsFrame P j # ws, c))"
    using forward_step [of go n P j cs _ synmsg] Cons.prems(1,2) by force
  moreover have "\<forall>k \<le> length fs. go (n + 1 + k)"
    using Cons.prems(2) by (metis Suc_le_mono add_Suc_shift length_Cons plus_1_eq_Suc add.commute)
  ultimately show ?case
    using Cons.IH [of "n + 1" cs'] Cons.prems(1) by simp
qed

text \<open>Whatever arrives, the bridge writes nothing but well-formed frames.\<close>

lemma forward_only_frames:
  "w \<in> set (fst (forward_frames P synmsg go n events)) \<Longrightarrow>
     \<exists>j f. w = encodeVwsFrame P j \<and> vws_view j = Some f \<and> vws_frame_ok f"
proof (induction P synmsg go n events rule: forward_frames.induct)
  case (1 P synmsg go n events)
  from "1.prems" obtain res remaining es frame where
    g: "go n" "readVwsLine P VWS_MAX_FRAME_BYTES events = Some (res, remaining, es)"
    and d: "bindE res (decodeVwsFrame P synmsg) = Inr frame"
    and w: "w = encodeVwsFrame P frame \<or>
       w \<in> set (fst (forward_frames P synmsg go (n + 1) (put_back remaining es)))"
    by (auto simp: forward_frames.simps [of P synmsg go n] split: if_splits option.splits sum.splits prod.splits)
  from d obtain line where "res = Inr line" "decodeVwsFrame P synmsg line = Inr frame" by (cases res) auto
  then have "\<exists>f. vws_view frame = Some f \<and> vws_frame_ok f" by (simp add: decode_iff)
  with w show ?case using "1.IH" g d by auto
qed

section \<open>Properties\<close>

text \<open>\<open>decodeVwsFrame\<close> accepts exactly the lines within the limit whose JSON is a frame of the union
  type with an allowed close code, a close reason of at most 123 bytes and base64 data, and returns the
  parsed object itself.\<close>

theorem decodeVwsFrame_exact:
  "decodeVwsFrame P synmsg line = Inr obj \<longleftrightarrow>
     byteLength line \<le> VWS_MAX_FRAME_BYTES \<and> jsonParse P (trimEnd line) = Some obj \<and>
     (\<exists>f. vws_view obj = Some f \<and> vws_frame_ok f)"
  by (rule decode_iff)

text \<open>A stream that ends before a newline gives its partial line; only one without any byte is an
  error.\<close>

lemma readVwsLine_partial_line:
  assumes "10 \<notin> set l" and "concat cs = l" and "length l \<le> m"
  shows "readVwsLine P m (map Chunk cs @ Eof # rest) =
       Some (if l = [] then Inl (PlainErr (js ''Stream ended before VWS frame'') None) else Inr (utf8ToString P l), [], rest)"
  using read_line_from_end [of m "\<lparr>lr_chunks = [], lr_bufferedBytes = 0\<rparr>" cs l P rest] assms
  by (simp add: readVwsLine_def line_waiting_def)

text \<open>\<open>readVwsLine\<close> finds the first line of a stream however its bytes are cut: it returns the text
  before the first newline when that fits the limit, with every later byte left in the stream in order, and
  fails with close code 1009 when it does not fit.\<close>

theorem readVwsLine_first_line:
  assumes "10 \<notin> set l" and "concat cs = l @ 10 # r"
  shows "\<exists>unread cs'. readVwsLine P m (map Chunk cs @ rest) =
       Some (if length l \<le> m then Inr (utf8ToString P l) else oversize P m, unread, map Chunk cs' @ rest) \<and>
     (length l \<le> m \<longrightarrow> unread @ concat cs' = r)"
  using readVwsLine_line [of cs l r P m rest] assms by simp

theorem readVwsLine_first_line_witness:
  "\<exists>unread cs'. readVwsLine sample_platform 3 (map Chunk [[104], [105, 10, 33]] @ []) =
       Some (if length [104, 105 :: byte] \<le> 3 then Inr (utf8ToString sample_platform [104, 105]) else oversize sample_platform 3,
         unread, map Chunk cs' @ []) \<and> (length [104, 105 :: byte] \<le> 3 \<longrightarrow> unread @ concat cs' = [33])"
  by (rule readVwsLine_first_line) simp_all


definition echo_platform :: "json \<Rightarrow> platform" where
  "echo_platform j = sample_platform\<lparr>jsonStringify := (\<lambda>_. js ''{x}''), jsonParse := (\<lambda>_. Some j)\<rparr>"

lemma echo_wire_ok: "vws_frame_ok f \<Longrightarrow> wire_ok (echo_platform (vws_json f)) (vws_json f)"
  by (simp add: wire_ok_def line_text_def echo_platform_def sample_platform_def js_def js_ws_def byteLength_def
      utf8_1_def high_surrogate_def low_surrogate_def VWS_MAX_FRAME_BYTES_def Let_def)


end
