(* ===== verification/Vws_Open.thy ===== *)
theory Vws_Open
  imports Vws_Frames Host_Federation
begin

text \<open>
  Opening a WebSocket across Hosts: the open, accept and error frames of
  \<open>verser-common/src/lib/federation.ts\<close>, and their validation, forwarding and negotiation in
  \<open>verser2-host/src/lib/node-http2-verser-host.ts\<close> and \<open>federation.ts\<close>.

  An open frame carries the path of Hosts it has passed. The main result is that the checks of the Hosts
  alone keep that path free of loops and within the hop limit, and hide the Broker behind the first Host.
\<close>

section \<open>Frames between Hosts\<close>

definition FEDERATION_VWS_VERSION :: int where
  "FEDERATION_VWS_VERSION = 1"

record FederationVwsOpen =
  vo_sourceId :: jsstr
  vo_targetId :: jsstr
  vo_domain :: jsstr
  vo_path :: jsstr
  vo_protocol :: "jsstr option"
  vo_originHostId :: jsstr
  vo_viaHostIds :: "jsstr list"
  vo_hopCount :: int

definition version_field :: "jsstr \<times> json" where
  "version_field = (js ''version'', JNum (Fin (of_int FEDERATION_VWS_VERSION)))"

definition open_json :: "FederationVwsOpen \<Rightarrow> json" where
  "open_json v =
     JObj ([field ''type'' (js ''open''), version_field, field ''sourceId'' (vo_sourceId v), field ''targetId'' (vo_targetId v),
            field ''domain'' (vo_domain v), field ''path'' (vo_path v)]
           @ opt_field ''protocol'' (vo_protocol v)
           @ [field ''originHostId'' (vo_originHostId v), (js ''viaHostIds'', JArr (map JStr (vo_viaHostIds v))),
              (js ''hopCount'', JNum (Fin (of_int (vo_hopCount v))))])"

text \<open>A property that must be a non-empty string.\<close>

fun filled :: "json option \<Rightarrow> bool" where
  "filled (Some (JStr s)) = (0 < length s)"
| "filled _ = False"

fun the_str :: "json option \<Rightarrow> jsstr" where
  "the_str (Some (JStr s)) = s"
| "the_str _ = []"

definition createFederationVwsOpen :: "'p platform_scheme \<Rightarrow> json \<Rightarrow> FederationVwsOpen result" where
  "createFederationVwsOpen P input =
     (if \<not> isRecord input \<or> \<not> filled (obj_get input ''sourceId'')
      then throwE P protocol_error ''Federation VWS open source id is required'' []
      else if \<not> filled (obj_get input ''targetId'') then throwE P protocol_error ''Federation VWS open target id is required'' []
      else if \<not> filled (obj_get input ''domain'') then throwE P protocol_error ''Federation VWS open domain is required'' []
      else if \<not> filled (obj_get input ''path'') then throwE P protocol_error ''Federation VWS open path is required'' []
      else case (isValidHopCount (obj_get input ''hopCount''), obj_get input ''viaHostIds'') of
        (True, Some (JArr vias)) \<Rightarrow>
          (if \<not> optional_string (obj_get input ''protocol'')
           then throwE P protocol_error ''Federation VWS protocol must be a string'' []
           else
             bindE (createVerserHostId P (obj_get input ''originHostId'')) (\<lambda>origin.
             bindE (mapE (\<lambda>v. createVerserHostId P (Some v)) vias) (\<lambda>via.
             Inr \<lparr>vo_sourceId = the_str (obj_get input ''sourceId''), vo_targetId = the_str (obj_get input ''targetId''),
                  vo_domain = the_str (obj_get input ''domain''), vo_path = the_str (obj_get input ''path''),
                  vo_protocol = req_str (obj_get input ''protocol''), vo_originHostId = origin,
                  vo_viaHostIds = via, vo_hopCount = json_int (obj_get input ''hopCount'')\<rparr>)))
      | _ \<Rightarrow> throwE P protocol_error ''Federation VWS route metadata is invalid'' [])"

definition createFederationVwsAccept :: "jsstr option \<Rightarrow> json" where
  "createFederationVwsAccept protocol =
     JObj ([field ''type'' (js ''accept''), version_field] @ opt_field ''protocol'' protocol)"

definition createFederationVwsError :: "'p platform_scheme \<Rightarrow> jsstr \<Rightarrow> VerserErrorCode \<Rightarrow> json result" where
  "createFederationVwsError P message code =
     (if length message = 0 then throwE P protocol_error ''Federation VWS error message is required'' []
      else Inr (JObj [field ''type'' (js ''error''), version_field, field ''message'' message, field ''code'' (code_string code)]))"

definition createFederationVwsNegotiationFailure :: "'p platform_scheme \<Rightarrow> VerserErrorContext \<Rightarrow> VerserError" where
  "createFederationVwsNegotiationFailure P context =
     createVerserError P websocket_negotiation_failed (js ''Federation VWS negotiation response was not received'') context"

section \<open>Validation and forwarding by a Host\<close>

definition validateFederationVwsOpen :: "'p platform_scheme \<Rightarrow> Host \<Rightarrow> FederationVwsOpen \<Rightarrow> jsstr option \<Rightarrow> unit result" where
  "validateFederationVwsOpen P h v sender =
     bindE (getFederationHostId P h) (\<lambda>localHostId.
     (let via = vo_viaHostIds v
      in if length via = 0 \<or> vo_originHostId v \<noteq> hd via
         then throwE P protocol_error ''Federation VWS origin/via metadata is invalid'' []
         else if card (set via) \<noteq> length via
         then throwE P route_loop ''Federation VWS route metadata contains a loop'' []
         else if sender \<noteq> None \<and> (length via < 2 \<or> last via \<noteq> localHostId)
         then throwE P authorization_denied ''Federation VWS destination metadata is not bound to this Host'' []
         else if localHostId \<in> set (butlast via)
         then throwE P route_loop ''Federation VWS route revisits this Host'' [(''hostId'', CStr localHostId)]
         else if sender \<noteq> None \<and> 1 < length via \<and> Some (via ! (length via - 2)) \<noteq> sender
         then throwE P authorization_denied ''Federation VWS traversal metadata is not bound to the sender'' []
         else if vo_hopCount v \<noteq> int (length via) - 1
         then throwE P protocol_error ''Federation VWS hop metadata is invalid'' []
         else if maxFederationHopCount (routeRegistry h) < vo_hopCount v
         then throwE P route_loop ''Federation VWS route exceeds maximum hop count'' []
         else Inr ()))"

definition createForwardedFederationVwsOpen :: "'p platform_scheme \<Rightarrow> Host \<Rightarrow> FederationVwsOpen \<Rightarrow> jsstr \<Rightarrow> FederationVwsOpen result" where
  "createForwardedFederationVwsOpen P h v nextHop =
     bindE (validateFederationVwsOpen P h v None) (\<lambda>_.
     bindE (getFederationHostId P h) (\<lambda>localHostId.
     createFederationVwsOpen P (open_json (v\<lparr>vo_sourceId := localHostId,
        vo_viaHostIds := vo_viaHostIds v @ [nextHop], vo_hopCount := vo_hopCount v + 1\<rparr>))))"

text \<open>The open frame a Host makes for a Broker.\<close>

definition broker_open :: "'p platform_scheme \<Rightarrow> Host \<Rightarrow> jsstr \<Rightarrow> jsstr \<Rightarrow> jsstr \<Rightarrow> jsstr \<Rightarrow> jsstr \<Rightarrow> FederationVwsOpen result" where
  "broker_open P h sourceId target dmn wsPath protocol =
     createFederationVwsOpen P (open_json
       \<lparr>vo_sourceId = sourceId, vo_targetId = target, vo_domain = dmn, vo_path = wsPath,
        vo_protocol = (if 0 < length protocol then Some protocol else None),
        vo_originHostId = (case optionsHostId h of Some i \<Rightarrow> i | None \<Rightarrow> js ''host-local''),
        vo_viaHostIds = (case optionsHostId h of Some i \<Rightarrow> [i] | None \<Rightarrow> []), vo_hopCount = 0\<rparr>)"

text \<open>The frame that reaches the Guest has only what the Guest needs.\<close>

definition guest_open :: "FederationVwsOpen \<Rightarrow> VwsFrame" where
  "guest_open v = VwsOpen (vo_domain v) (Some (vo_path v)) (vo_protocol v)"

section \<open>Negotiation\<close>

text \<open>The promise of \<open>readFederationVwsNegotiation\<close> is settled by the first of these events; a timeout or
  an abort cancels the stream.\<close>

datatype negotiation_event = NegotiationTimeout | NegotiationAbort | LineRead jsstr | LineFailed thrown

fun negotiation_line :: "'p platform_scheme \<Rightarrow> VerserErrorContext \<Rightarrow> negotiation_event \<Rightarrow> jsstr result \<times> bool" where
  "negotiation_line P context NegotiationTimeout = (Inl (Verser (createFederationVwsNegotiationFailure P context)), True)"
| "negotiation_line P context NegotiationAbort =
     (Inl (Verser (createVerserError P stream_failure (js ''Federation VWS negotiation was cancelled'') context)), True)"
| "negotiation_line P context (LineRead line) = (Inr line, False)"
| "negotiation_line P context (LineFailed (PlainErr m c)) =
     ((if c = Some 1009 then Inl (Verser (createVerserError P protocol_error m (context @ [(js ''cause'', CStr m)])))
       else Inl (Verser (createFederationVwsNegotiationFailure P context))), False)"
| "negotiation_line P context (LineFailed _) = (Inl (Verser (createFederationVwsNegotiationFailure P context)), False)"

text \<open>An error frame of the peer is rethrown with the peer's own code, which is not checked: the raw code
  is kept.\<close>

datatype negotiation = Accepted "jsstr option" | Refused "json option" jsstr | NegotiationFailed thrown

definition negotiation_frame :: "'p platform_scheme \<Rightarrow> (jsstr \<Rightarrow> jsstr) \<Rightarrow> VerserErrorContext \<Rightarrow> jsstr \<Rightarrow> negotiation" where
  "negotiation_frame P synmsg context reply =
     (case decodeVwsFrame P synmsg reply of
        Inl e \<Rightarrow> NegotiationFailed (Verser (createVerserError P protocol_error (thrown_message e) context))
      | Inr frame \<Rightarrow>
          if obj_get frame ''version'' \<noteq> Some (JNum (Fin (of_int FEDERATION_VWS_VERSION)))
          then NegotiationFailed (Verser (createVerserError P protocol_error (js ''Federation VWS protocol version mismatch'')
                 (context @ [(js ''version'', numericContextValue (obj_get frame ''version''))])))
          else if obj_get frame ''type'' = Some (JStr (js ''error''))
          then Refused (obj_get frame ''code'') (the_str (obj_get frame ''message''))
          else if obj_get frame ''type'' \<noteq> Some (JStr (js ''accept''))
          then NegotiationFailed (Verser (createVerserError P protocol_error (js ''Expected federation VWS accept response'') context))
          else Accepted (req_str (obj_get frame ''protocol'')))"

definition readFederationVwsNegotiation :: "'p platform_scheme \<Rightarrow> (jsstr \<Rightarrow> jsstr) \<Rightarrow> VerserErrorContext \<Rightarrow> negotiation_event
    \<Rightarrow> negotiation \<times> bool" where
  "readFederationVwsNegotiation P synmsg context ev =
     (case negotiation_line P context ev of
        (Inl e, cancelled) \<Rightarrow> (NegotiationFailed e, cancelled)
      | (Inr reply, cancelled) \<Rightarrow> (negotiation_frame P synmsg context reply, cancelled))"

section \<open>Well-formed open frames\<close>

definition open_ok :: "FederationVwsOpen \<Rightarrow> bool" where
  "open_ok v \<longleftrightarrow> vo_sourceId v \<noteq> [] \<and> vo_targetId v \<noteq> [] \<and> vo_domain v \<noteq> [] \<and> vo_path v \<noteq> [] \<and>
     id_ok (vo_originHostId v) \<and> (\<forall>i \<in> set (vo_viaHostIds v). id_ok i) \<and> 0 \<le> vo_hopCount v"

lemma filled_the_str: "filled j \<Longrightarrow> the_str j \<noteq> []"
  by (cases j rule: filled.cases) auto

lemma createFederationVwsOpen_InrE:
  assumes "createFederationVwsOpen P j = Inr v"
  obtains vias where "filled (obj_get j ''sourceId'')" "filled (obj_get j ''targetId'')" "filled (obj_get j ''domain'')"
    "filled (obj_get j ''path'')" "isValidHopCount (obj_get j ''hopCount'')"
    "createVerserHostId P (obj_get j ''originHostId'') = Inr (vo_originHostId v)"
    "mapE (\<lambda>v. createVerserHostId P (Some v)) vias = Inr (vo_viaHostIds v)"
    "vo_sourceId v = the_str (obj_get j ''sourceId'')" "vo_targetId v = the_str (obj_get j ''targetId'')"
    "vo_domain v = the_str (obj_get j ''domain'')" "vo_path v = the_str (obj_get j ''path'')"
    "vo_hopCount v = json_int (obj_get j ''hopCount'')"
proof -
  from assms obtain vias where "obj_get j ''viaHostIds'' = Some (JArr vias)" and "isValidHopCount (obj_get j ''hopCount'')"
    by (auto simp: createFederationVwsOpen_def split: if_splits bool.splits option.splits json.splits)
  with assms show ?thesis
    by (intro that [of vias])
      (auto simp: createFederationVwsOpen_def bindE_Inr_iff split: if_splits)
qed

lemma createFederationVwsOpen_ok:
  assumes "createFederationVwsOpen P j = Inr v"
  shows "open_ok v"
  using assms
proof (rule createFederationVwsOpen_InrE)
  fix vias
  assume via: "mapE (\<lambda>v. createVerserHostId P (Some v)) vias = Inr (vo_viaHostIds v)"
    and origin: "createVerserHostId P (obj_get j ''originHostId'') = Inr (vo_originHostId v)"
    and "isValidHopCount (obj_get j ''hopCount'')" "vo_hopCount v = json_int (obj_get j ''hopCount'')"
    and "filled (obj_get j ''sourceId'')" "filled (obj_get j ''targetId'')" "filled (obj_get j ''domain'')"
      "filled (obj_get j ''path'')"
    and "vo_sourceId v = the_str (obj_get j ''sourceId'')" "vo_targetId v = the_str (obj_get j ''targetId'')"
      "vo_domain v = the_str (obj_get j ''domain'')" "vo_path v = the_str (obj_get j ''path'')"
  moreover have "\<forall>i \<in> set (vo_viaHostIds v). id_ok i"
    using via by (rule mapE_Inr_all) (auto simp: result_simps id_ok_def)
  moreover have "id_ok (vo_originHostId v)"
    using origin unfolding createVerserHostId_Inr id_ok_def by auto
  ultimately show ?thesis
    by (simp add: open_ok_def filled_the_str isValidHopCount_nonneg)
qed

text \<open>What a Host sends is read back unchanged.\<close>

lemma createFederationVwsOpen_id:
  assumes "open_ok v"
  shows "createFederationVwsOpen P (open_json v) = Inr v"
proof -
  have "mapE (\<lambda>v. createVerserHostId P (Some v)) (map JStr (vo_viaHostIds v)) = Inr (vo_viaHostIds v)"
    unfolding mapE_map using assms
    by (intro mapE_Inr_id) (simp add: open_ok_def createVerserHostId_id del: createVerserHostId.simps)
  then show ?thesis
    using assms
    by (cases "vo_protocol v")
      (simp_all add: createFederationVwsOpen_def open_json_def open_ok_def field_def opt_field_def version_field_def
        optional_string_def createVerserHostId_id del: createVerserHostId.simps isValidHopCount.simps)
qed

section \<open>The path of an open frame\<close>

lemma validate_iff:
  assumes "getFederationHostId P h = Inr i"
  shows "validateFederationVwsOpen P h v sender = Inr () \<longleftrightarrow>
     vo_viaHostIds v \<noteq> [] \<and> vo_originHostId v = hd (vo_viaHostIds v) \<and> distinct (vo_viaHostIds v) \<and>
     (sender \<noteq> None \<longrightarrow> 2 \<le> length (vo_viaHostIds v) \<and> last (vo_viaHostIds v) = i \<and>
        sender = Some (vo_viaHostIds v ! (length (vo_viaHostIds v) - 2))) \<and>
     i \<notin> set (butlast (vo_viaHostIds v)) \<and> vo_hopCount v = int (length (vo_viaHostIds v)) - 1 \<and>
     vo_hopCount v \<le> maxFederationHopCount (routeRegistry h)"
  using assms card_distinct [of "vo_viaHostIds v"] distinct_card [of "vo_viaHostIds v"]
  by (cases sender) (auto simp: validateFederationVwsOpen_def Let_def)

lemma getFederationHostId_ok: "getFederationHostId P h = Inr i \<Longrightarrow> id_ok i"
  by (auto simp: getFederationHostId_def result_simps id_ok_def split: option.splits if_splits)

lemma forwarded_open:
  assumes "open_ok v" and "id_ok nextHop" and "createForwardedFederationVwsOpen P h v nextHop = Inr v'"
    and "getFederationHostId P h = Inr i"
  shows "validateFederationVwsOpen P h v None = Inr () \<and>
     v' = v\<lparr>vo_sourceId := i, vo_viaHostIds := vo_viaHostIds v @ [nextHop], vo_hopCount := vo_hopCount v + 1\<rparr>"
proof -
  let ?v = "v\<lparr>vo_sourceId := i, vo_viaHostIds := vo_viaHostIds v @ [nextHop], vo_hopCount := vo_hopCount v + 1\<rparr>"
  have "open_ok ?v" using assms(1,2) getFederationHostId_ok [OF assms(4)] by (auto simp: open_ok_def id_ok_def)
  then show ?thesis
    using assms(3,4) createFederationVwsOpen_id [of ?v P]
    by (cases "validateFederationVwsOpen P h v None") (auto simp: createForwardedFederationVwsOpen_def)
qed

text \<open>An open frame on its way: made by a Host for a Broker, then forwarded from Host to Host and accepted by
  each with the previous Host as sender.\<close>

inductive vws_travels :: "'p platform_scheme \<Rightarrow> Host list \<Rightarrow> FederationVwsOpen \<Rightarrow> bool" for P where
  opened: "getFederationHostId P h = Inr i \<Longrightarrow> broker_open P h sourceId target dmn wsPath protocol = Inr v \<Longrightarrow> vws_travels P [h] v"
| forwarded: "vws_travels P (hs @ [h]) v \<Longrightarrow> getFederationHostId P h = Inr i \<Longrightarrow> id_ok nextHop \<Longrightarrow>
     createForwardedFederationVwsOpen P h v nextHop = Inr v' \<Longrightarrow>
     validateFederationVwsOpen P h' v' (Some i) = Inr () \<Longrightarrow> vws_travels P (hs @ [h, h']) v'"

definition host_id :: "'p platform_scheme \<Rightarrow> Host \<Rightarrow> jsstr" where
  "host_id P h = (case getFederationHostId P h of Inr i \<Rightarrow> i | Inl _ \<Rightarrow> [])"

lemma validated_has_id: "validateFederationVwsOpen P h v s = Inr () \<Longrightarrow> getFederationHostId P h = Inr (host_id P h)"
  by (cases "getFederationHostId P h") (simp_all add: validateFederationVwsOpen_def host_id_def)

lemma broker_open_path:
  assumes "getFederationHostId P h = Inr i" and "broker_open P h sourceId target dmn wsPath protocol = Inr v"
  shows "open_ok v \<and> vo_viaHostIds v = [i] \<and> vo_originHostId v = i \<and> vo_hopCount v = 0 \<and> vo_sourceId v = sourceId"
proof -
  from assms(1) obtain raw where "optionsHostId h = Some raw" "i = trim raw" "trim raw \<noteq> []"
    by (auto simp: getFederationHostId_def result_simps split: option.splits if_splits)
  moreover have "open_ok v" using assms(2) unfolding broker_open_def by (rule createFederationVwsOpen_ok)
  ultimately show ?thesis
    using assms(2)
    by (auto simp: broker_open_def createFederationVwsOpen_def open_json_def field_def opt_field_def version_field_def
        bindE_Inr_iff requireNonEmpty_def split: if_splits)
qed

lemma travels_path:
  assumes "vws_travels P hs v"
  shows "open_ok v \<and> vo_viaHostIds v = map (host_id P) hs \<and> (\<forall>h \<in> set hs. getFederationHostId P h = Inr (host_id P h)) \<and>
     distinct (map (host_id P) hs) \<and> vo_hopCount v = int (length hs) - 1 \<and> vo_originHostId v = host_id P (hd hs) \<and>
     (2 \<le> length hs \<longrightarrow> vo_sourceId v = host_id P (hs ! (length hs - 2)) \<and>
        vo_hopCount v \<le> maxFederationHopCount (routeRegistry (last hs)))"
  using assms
proof induction
  case (opened h i sourceId target dmn wsPath protocol v)
  then show ?case using broker_open_path [OF opened] by (simp add: host_id_def)
next
  case (forwarded hs h v i nextHop v' h')
  have i: "i = host_id P h" using forwarded.hyps(2) by (simp add: host_id_def)
  have v': "v' = v\<lparr>vo_sourceId := i, vo_viaHostIds := vo_viaHostIds v @ [nextHop], vo_hopCount := vo_hopCount v + 1\<rparr>"
    using forwarded.IH forwarded.hyps(2-4) forwarded_open by blast
  have id': "getFederationHostId P h' = Inr (host_id P h')" by (rule validated_has_id [OF forwarded.hyps(5)])
  have "open_ok v'" using v' forwarded.IH forwarded.hyps(3) getFederationHostId_ok [OF forwarded.hyps(2)]
    by (auto simp: open_ok_def id_ok_def)
  moreover have "nextHop = host_id P h'" "distinct (vo_viaHostIds v')" "vo_hopCount v' \<le> maxFederationHopCount (routeRegistry h')"
    using forwarded.hyps(5) v' unfolding validate_iff [OF id'] by auto
  ultimately show ?case
    using forwarded.IH v' i id' by (auto simp: hd_append nth_append)
qed

section \<open>Properties\<close>

text \<open>C28: However a WebSocket open frame travels, the Hosts it has visited are exactly its path, no Host is
  visited twice, the number of hops respects the limit of the Host that accepted it last, and beyond the
  first Host the source it names is the previous Host and not the Broker.\<close>

theorem vws_open_never_loops:
  assumes "vws_travels P hs v"
  shows "vo_viaHostIds v = map (host_id P) hs \<and> distinct (map (host_id P) hs) \<and>
     vo_originHostId v = host_id P (hd hs) \<and> vo_hopCount v = int (length hs) - 1 \<and>
     (2 \<le> length hs \<longrightarrow> vo_sourceId v = host_id P (hs ! (length hs - 2)) \<and>
        vo_hopCount v \<le> maxFederationHopCount (routeRegistry (last hs)))"
  using travels_path [OF assms] by blast

definition named_host :: "string \<Rightarrow> Host" where
  "named_host i = (case new_Host sample_platform (Some (js i)) None False None None None of Inr h \<Rightarrow> h)"

definition sample_open :: FederationVwsOpen where
  "sample_open = \<lparr>vo_sourceId = js ''k'', vo_targetId = js ''t'', vo_domain = js ''d'', vo_path = js ''/'', vo_protocol = None,
     vo_originHostId = js ''a'', vo_viaHostIds = [js ''a''], vo_hopCount = 0\<rparr>"

definition sample_forwarded :: FederationVwsOpen where
  "sample_forwarded = sample_open\<lparr>vo_sourceId := js ''a'', vo_viaHostIds := [js ''a'', js ''b''], vo_hopCount := 1\<rparr>"

lemma sample_travels: "vws_travels sample_platform [named_host ''a'', named_host ''b''] sample_forwarded"
proof -
  have "getFederationHostId sample_platform (named_host ''a'') = Inr (js ''a'')" by code_simp
  moreover have "broker_open sample_platform (named_host ''a'') (js ''k'') (js ''t'') (js ''d'') (js ''/'') [] = Inr sample_open"
    by code_simp
  moreover have "createForwardedFederationVwsOpen sample_platform (named_host ''a'') sample_open (js ''b'') = Inr sample_forwarded"
    by code_simp
  moreover have "validateFederationVwsOpen sample_platform (named_host ''b'') sample_forwarded (Some (js ''a'')) = Inr ()"
    by code_simp
  moreover have "id_ok (js ''b'')" by code_simp
  ultimately show ?thesis
    using vws_travels.forwarded [of sample_platform "[]" "named_host ''a''" sample_open "js ''a''" "js ''b''" sample_forwarded "named_host ''b''"]
      vws_travels.opened [of sample_platform "named_host ''a''"] by simp
qed

theorem vws_open_never_loops_witness:
  "vo_viaHostIds sample_forwarded = [host_id sample_platform (named_host ''a''), host_id sample_platform (named_host ''b'')] \<and>
   distinct [host_id sample_platform (named_host ''a''), host_id sample_platform (named_host ''b'')]"
  using vws_open_never_loops [OF sample_travels] by simp

end
