(* ===== verification/Web_Socket.thy ===== *)
theory Web_Socket
  imports Vws_Frames
begin

text \<open>
  The VWS/1 socket of \<open>verser2-guest-node/src/lib/verser-websocket.ts\<close> (class \<open>VerserWebSocket\<close>).

  The state holds the private fields of the class, the text not yet split into lines, what was written to
  the stream, the events emitted and the outcomes of the promises of \<open>send\<close>. A write returns a promise:
  what happens when it settles is kept as a continuation in \<open>ws_writes\<close>, and settling it is a step of its
  own, in any order. A line that was written is recorded as its frame, with the number of the \<open>send\<close> call
  it came from. A listener is not run inside the operation that calls it; its end is a later step.
\<close>

section \<open>Base64\<close>

text \<open>\<open>Buffer.toString('base64')\<close> and \<open>Buffer.from(s, 'base64')\<close> of text that \<open>is_base64\<close> accepts.\<close>

definition b64_digit :: "nat \<Rightarrow> ucode" where
  "b64_digit n = of_nat (if n < 26 then 65 + n else if n < 52 then 71 + n else if n < 62 then n - 4 else if n = 62 then 43 else 47)"

definition b64_value :: "ucode \<Rightarrow> nat" where
  "b64_value c = (let n = unat c in if 97 \<le> n then n - 71 else if 65 \<le> n then n - 65 else if 48 \<le> n then n + 4 else if n = 43 then 62 else 63)"

fun base64_encode :: "bytes \<Rightarrow> jsstr" where
  "base64_encode [] = []"
| "base64_encode [a] = [b64_digit (unat a div 4), b64_digit (unat a mod 4 * 16), 61, 61]"
| "base64_encode [a, b] =
     [b64_digit (unat a div 4), b64_digit (unat a mod 4 * 16 + unat b div 16), b64_digit (unat b mod 16 * 4), 61]"
| "base64_encode (a # b # c # rest) =
     [b64_digit (unat a div 4), b64_digit (unat a mod 4 * 16 + unat b div 16),
      b64_digit (unat b mod 16 * 4 + unat c div 64), b64_digit (unat c mod 64)] @ base64_encode rest"

fun base64_decode :: "jsstr \<Rightarrow> bytes" where
  "base64_decode (a # b # c # d # rest) =
     (let a = b64_value a; b = b64_value b
      in if c = 61 then [of_nat (a * 4 + b div 16)]
         else (let c = b64_value c
               in if d = 61 then [of_nat (a * 4 + b div 16), of_nat (b mod 16 * 16 + c div 4)]
                  else [of_nat (a * 4 + b div 16), of_nat (b mod 16 * 16 + c div 4), of_nat (c mod 4 * 64 + b64_value d)]
                       @ base64_decode rest))"
| "base64_decode _ = []"

section \<open>The socket\<close>

definition MAX_MESSAGES :: nat where
  "MAX_MESSAGES = 64"

datatype ws_data = TextData jsstr | BinaryData bytes

record send_entry =
  se_id :: nat
  se_frame :: VwsFrame
  se_bytes :: nat

record inbound_entry =
  ie_data :: ws_data
  ie_bytes :: nat

datatype ws_event =
    EvMessage (ev_data: ws_data)
  | EvClose (ev_code: int) (ev_reason: jsstr)
  | EvError (ev_error: jsstr) (ev_closeCode: "int option")
  | EvPong (ev_pong: jsstr)

text \<open>What runs when a write settles: nothing, the flush after the accept frame, the next entry of the
  flush, or the next round of the pump.\<close>

datatype ws_continuation = KIgnore | KAccept | KFlush send_entry "send_entry list" | KPump send_entry

record ws =
  ws_protocol :: jsstr
  closeSent :: bool
  ws_destroyed :: bool
  accepted :: bool
  acceptWritten :: bool
  sendQueue :: "send_entry list"
  sendQueueBytes :: nat
  outboundQueue :: "send_entry list"
  outboundQueueBytes :: nat
  writingOutbound :: bool
  inboundQueue :: "inbound_entry list"
  inboundQueueBytes :: nat
  processingInbound :: bool
  closeTimer :: bool
  lineBuffer :: jsstr
  ws_wrote :: "(nat option \<times> VwsFrame) list"
  ws_writes :: "(nat \<times> ws_continuation) list"
  ws_next :: nat
  ws_settled :: "(nat \<times> unit result) list"
  ws_emitted :: "ws_event list"
  ws_ended :: bool
  ws_aborted :: bool
  ws_paused :: bool

definition new_ws :: "jsstr \<Rightarrow> bool \<Rightarrow> ws" where
  "new_ws protocol alreadyAccepted =
     \<lparr>ws_protocol = protocol, closeSent = False, ws_destroyed = False, accepted = alreadyAccepted, acceptWritten = alreadyAccepted,
      sendQueue = [], sendQueueBytes = 0, outboundQueue = [], outboundQueueBytes = 0, writingOutbound = False,
      inboundQueue = [], inboundQueueBytes = 0, processingInbound = False, closeTimer = False, lineBuffer = [],
      ws_wrote = [], ws_writes = [], ws_next = 0, ws_settled = [], ws_emitted = [], ws_ended = False, ws_aborted = False,
      ws_paused = False\<rparr>"

definition ws_emit :: "ws_event \<Rightarrow> ws \<Rightarrow> ws" where
  "ws_emit e s = s\<lparr>ws_emitted := ws_emitted s @ [e]\<rparr>"

definition writeLine :: "nat option \<Rightarrow> VwsFrame \<Rightarrow> ws_continuation \<Rightarrow> ws \<Rightarrow> ws" where
  "writeLine i f k s = s\<lparr>ws_wrote := ws_wrote s @ [(i, f)], ws_writes := ws_writes s @ [(ws_next s, k)], ws_next := ws_next s + 1\<rparr>"

definition settle_sends :: "unit result \<Rightarrow> send_entry list \<Rightarrow> ws \<Rightarrow> ws" where
  "settle_sends r es s = s\<lparr>ws_settled := ws_settled s @ map (\<lambda>e. (se_id e, r)) es\<rparr>"

definition plain :: "string \<Rightarrow> unit result" where
  "plain m = Inl (PlainErr (js m) None)"

definition failOutboundQueue :: "unit result \<Rightarrow> ws \<Rightarrow> ws" where
  "failOutboundQueue e s = (settle_sends e (outboundQueue s) s)\<lparr>outboundQueue := [], outboundQueueBytes := 0\<rparr>"

text \<open>\<open>pumpOutboundQueue\<close> up to the next write; the entry being written is in its continuation.\<close>

definition pump_loop :: "ws \<Rightarrow> ws" where
  "pump_loop s =
     (case outboundQueue s of
        entry # rest \<Rightarrow>
          if \<not> ws_destroyed s then writeLine (Some (se_id entry)) (se_frame entry) (KPump entry) (s\<lparr>outboundQueue := rest\<rparr>)
          else s\<lparr>writingOutbound := False\<rparr>
      | [] \<Rightarrow> s\<lparr>writingOutbound := False\<rparr>)"

definition pumpOutboundQueue :: "ws \<Rightarrow> ws" where
  "pumpOutboundQueue s = (if writingOutbound s then s else pump_loop (s\<lparr>writingOutbound := True\<rparr>))"

text \<open>\<open>drainSendQueue(false)\<close> rejects; \<open>drainSendQueue(true)\<close> writes the queue one entry after the other
  and is followed by the pump.\<close>

definition discard_send_queue :: "ws \<Rightarrow> ws" where
  "discard_send_queue s = (settle_sends (plain ''WebSocket closed before accept'') (sendQueue s) s)\<lparr>sendQueue := [], sendQueueBytes := 0\<rparr>"

fun flushNext :: "send_entry list \<Rightarrow> ws \<Rightarrow> ws" where
  "flushNext [] s = pumpOutboundQueue s"
| "flushNext (e # es) s = writeLine (Some (se_id e)) (se_frame e) (KFlush e es) s"

definition flush_send_queue :: "ws \<Rightarrow> ws" where
  "flush_send_queue s = flushNext (sendQueue s) (s\<lparr>sendQueue := [], sendQueueBytes := 0\<rparr>)"

text \<open>A write settles: with success, or with an error of the stream.\<close>

fun write_ok :: "ws_continuation \<Rightarrow> ws \<Rightarrow> ws" where
  "write_ok KIgnore s = s"
| "write_ok KAccept s = flush_send_queue (s\<lparr>acceptWritten := True\<rparr>)"
| "write_ok (KFlush e es) s = flushNext es (settle_sends (Inr ()) [e] s)"
| "write_ok (KPump e) s =
     pump_loop (settle_sends (Inr ()) [e] (s\<lparr>outboundQueueBytes := outboundQueueBytes s - se_bytes e\<rparr>))"

fun write_failed :: "thrown \<Rightarrow> ws_continuation \<Rightarrow> ws \<Rightarrow> ws" where
  "write_failed err KIgnore s = s"
| "write_failed err KAccept s = s"
| "write_failed err (KFlush e es) s = pumpOutboundQueue (settle_sends (Inl err) (e # es) s)"
| "write_failed err (KPump e) s =
     (settle_sends (Inl err) (e # outboundQueue s) s)\<lparr>outboundQueue := [], outboundQueueBytes := 0, writingOutbound := False\<rparr>"

definition take_write :: "nat \<Rightarrow> ws \<Rightarrow> ws" where
  "take_write i s = s\<lparr>ws_writes := AList.delete i (ws_writes s)\<rparr>"

section \<open>Closing\<close>

definition validateClose :: "'p platform_scheme \<Rightarrow> int \<Rightarrow> jsstr \<Rightarrow> unit result" where
  "validateClose P code reason =
     (if \<not> close_code_ok code
      then Inl (PlainErr (js ''Invalid WebSocket close code: '' @ numberToString P (Fin (of_int code))) None)
      else if 123 < byteLength reason then plain ''WebSocket close reason exceeds 123 UTF-8 bytes''
      else Inr ())"

definition close_now :: "int \<Rightarrow> jsstr \<Rightarrow> ws \<Rightarrow> ws" where
  "close_now code reason s =
     (let s1 = failOutboundQueue (plain ''WebSocket is closing'') (s\<lparr>closeSent := True\<rparr>);
          s2 = (if \<not> accepted s then discard_send_queue s1 else s1)
      in (writeLine None (VwsClose code (Some reason)) KIgnore s2)\<lparr>closeTimer := True\<rparr>)"

definition ws_close :: "'p platform_scheme \<Rightarrow> int \<Rightarrow> jsstr \<Rightarrow> ws \<Rightarrow> unit result \<times> ws" where
  "ws_close P code reason s =
     (if closeSent s \<or> ws_destroyed s then (Inr (), s)
      else case validateClose P code reason of
             Inl e \<Rightarrow> (Inl e, s)
           | Inr _ \<Rightarrow> (Inr (), close_now code reason s))"

text \<open>The close codes and reasons of the class itself are valid, so its own call of \<open>close\<close> does not
  throw.\<close>

definition handleProtocolFault :: "jsstr \<Rightarrow> int \<Rightarrow> string \<Rightarrow> ws \<Rightarrow> ws" where
  "handleProtocolFault message code reason s =
     (let s1 = ws_emit (EvError message (Some code)) s
      in if closeSent s1 \<or> ws_destroyed s1 then s1 else close_now code (js reason) s1)"

definition endStream :: "ws \<Rightarrow> ws" where
  "endStream s = s\<lparr>ws_ended := True\<rparr>"

definition close_timeout :: "ws \<Rightarrow> ws" where
  "close_timeout s =
     (if ws_destroyed s then s\<lparr>closeTimer := False\<rparr>
      else ws_emit (EvClose 1006 (js ''close handshake timeout''))
             ((endStream (failOutboundQueue (plain ''WebSocket close timed out'') (s\<lparr>closeTimer := False, ws_destroyed := True\<rparr>)))
                \<lparr>ws_aborted := True\<rparr>))"

definition terminate :: "ws \<Rightarrow> ws" where
  "terminate s =
     (if ws_destroyed s then s
      else ws_emit (EvClose 1006 (js ''terminated''))
             ((failOutboundQueue (plain ''WebSocket terminated'') (s\<lparr>ws_destroyed := True\<rparr>))\<lparr>ws_aborted := True\<rparr>))"

definition stream_gone :: "ws \<Rightarrow> ws" where
  "stream_gone s =
     (let s1 = failOutboundQueue (plain ''WebSocket closed'') (s\<lparr>ws_destroyed := True\<rparr>);
          s2 = (if \<not> accepted s then discard_send_queue s1 else s1)
      in ws_emit (EvClose 1006 []) s2)"

definition on_end :: "ws \<Rightarrow> ws" where
  "on_end s =
     (let s1 = s\<lparr>closeTimer := False\<rparr>
      in if ws_destroyed s1 then s1 else stream_gone (s1\<lparr>lineBuffer := []\<rparr>))"

definition on_close :: "ws \<Rightarrow> ws" where
  "on_close s = (let s1 = s\<lparr>closeTimer := False\<rparr> in if ws_destroyed s1 then s1 else stream_gone s1)"

definition on_error :: "thrown \<Rightarrow> ws \<Rightarrow> ws" where
  "on_error e s = (if ws_destroyed s then s else ws_emit (EvError (thrown_message e) None) s)"

section \<open>Sending\<close>

datatype send_answer = SendResolved | SendRejected thrown | SendQueued nat

definition send_frame :: "'p platform_scheme \<Rightarrow> bool \<Rightarrow> ws_data \<Rightarrow> VwsFrame" where
  "send_frame P binary d =
     (if binary then VwsBinary (base64_encode (case d of BinaryData b \<Rightarrow> b | TextData t \<Rightarrow> utf8 t))
      else VwsText (case d of TextData t \<Rightarrow> t | BinaryData b \<Rightarrow> utf8ToString P b))"

definition message_bytes :: "'p platform_scheme \<Rightarrow> VwsFrame \<Rightarrow> nat" where
  "message_bytes P f = byteLength (jsonStringify P (vws_json f)) + 1"

definition size_message :: "'p platform_scheme \<Rightarrow> string \<Rightarrow> jsstr" where
  "size_message P what =
     js ''VWS '' @ js what @ js '' exceeds maximum size ('' @ numberToString P (Fin (of_nat VWS_MAX_FRAME_BYTES)) @ js '' bytes)''"

definition queue_full :: "string \<Rightarrow> ws \<Rightarrow> send_answer \<times> ws" where
  "queue_full m s = (SendRejected (PlainErr (js m) (Some 1009)), handleProtocolFault (js m) 1009 ''message queue too large'' s)"

definition send :: "'p platform_scheme \<Rightarrow> bool \<Rightarrow> ws_data \<Rightarrow> ws \<Rightarrow> send_answer \<times> ws" where
  "send P binary d s =
     (if closeSent s \<or> ws_destroyed s then (SendResolved, s)
      else
        (let f = send_frame P binary d; bytes = message_bytes P f;
             entry = \<lparr>se_id = ws_next s, se_frame = f, se_bytes = bytes\<rparr>;
             queued = s\<lparr>ws_next := ws_next s + 1\<rparr>
         in if VWS_MAX_FRAME_BYTES < bytes
            then (SendResolved, handleProtocolFault (size_message P ''message'') 1009 ''message too large'' s)
            else if \<not> accepted s
            then (if MAX_MESSAGES \<le> length (sendQueue s) \<or> VWS_MAX_FRAME_BYTES < sendQueueBytes s + bytes
                  then queue_full ''VWS pre-accept send queue exceeded'' s
                  else (SendQueued (ws_next s),
                        queued\<lparr>sendQueue := sendQueue s @ [entry], sendQueueBytes := sendQueueBytes s + bytes\<rparr>))
            else if MAX_MESSAGES \<le> length (outboundQueue s) \<or> VWS_MAX_FRAME_BYTES < outboundQueueBytes s + bytes
            then queue_full ''VWS outbound send queue exceeded'' s
            else (SendQueued (ws_next s),
                  (let s1 = queued\<lparr>outboundQueue := outboundQueue s @ [entry], outboundQueueBytes := outboundQueueBytes s + bytes\<rparr>
                   in if acceptWritten s then pumpOutboundQueue s1 else s1))))"

definition getBufferedAmount :: "ws \<Rightarrow> nat" where
  "getBufferedAmount s = outboundQueueBytes s"

definition ping :: "jsstr \<Rightarrow> ws \<Rightarrow> send_answer \<times> ws" where
  "ping d s =
     (if closeSent s \<or> ws_destroyed s then (SendResolved, s)
      else if VWS_MAX_FRAME_BYTES < byteLength d + 40
      then (SendRejected (PlainErr (js ''VWS ping exceeds maximum size'') (Some 1009)),
            handleProtocolFault (js ''VWS ping exceeds maximum size'') 1009 ''message too large'' s)
      else (SendQueued (ws_next s), writeLine None (VwsPing (Some d)) KIgnore s))"

definition pong :: "jsstr \<Rightarrow> ws \<Rightarrow> send_answer \<times> ws" where
  "pong d s =
     (if closeSent s \<or> ws_destroyed s then (SendResolved, s)
      else (SendQueued (ws_next s), writeLine None (VwsPong (Some d)) KIgnore s))"

definition sendAccept :: "jsstr option \<Rightarrow> ws \<Rightarrow> ws" where
  "sendAccept protocol s =
     (if ws_destroyed s then discard_send_queue s
      else (let p = (case protocol of Some q \<Rightarrow> q | None \<Rightarrow> ws_protocol s)
            in writeLine None (VwsAccept (Some p)) KAccept (s\<lparr>ws_protocol := p, accepted := True\<rparr>)))"

section \<open>Receiving\<close>

definition inbound_finish :: "ws \<Rightarrow> ws" where
  "inbound_finish s =
     s\<lparr>processingInbound := False, ws_paused := (if \<not> ws_destroyed s \<and> inboundQueue s = [] then False else ws_paused s)\<rparr>"

text \<open>The loop of \<open>processInboundQueue\<close> up to the next listener, whose end is a step of its own.\<close>

definition inbound_loop :: "ws \<Rightarrow> ws" where
  "inbound_loop s =
     (case inboundQueue s of
        entry # rest \<Rightarrow>
          if \<not> ws_destroyed s
          then ws_emit (EvMessage (ie_data entry)) (s\<lparr>inboundQueue := rest, inboundQueueBytes := inboundQueueBytes s - ie_bytes entry\<rparr>)
          else inbound_finish s
      | [] \<Rightarrow> inbound_finish s)"

definition processInboundQueue :: "ws \<Rightarrow> ws" where
  "processInboundQueue s = (if processingInbound s then s else inbound_loop (s\<lparr>processingInbound := True\<rparr>))"

definition listener_failed :: "thrown \<Rightarrow> ws \<Rightarrow> ws" where
  "listener_failed e s = inbound_finish (handleProtocolFault (thrown_message e) 1011 ''message handler failure'' s)"

definition enqueueInbound :: "ws_data \<Rightarrow> nat \<Rightarrow> ws \<Rightarrow> ws" where
  "enqueueInbound d bytes s =
     (if VWS_MAX_FRAME_BYTES < bytes \<or> MAX_MESSAGES \<le> length (inboundQueue s) \<or> VWS_MAX_FRAME_BYTES < inboundQueueBytes s + bytes
      then handleProtocolFault (js ''VWS inbound message queue exceeded'') 1009 ''message too large'' s
      else processInboundQueue
             (s\<lparr>inboundQueue := inboundQueue s @ [\<lparr>ie_data = d, ie_bytes = bytes\<rparr>], inboundQueueBytes := inboundQueueBytes s + bytes,
                ws_paused := True\<rparr>))"

definition protocol_fault :: "string \<Rightarrow> ws \<Rightarrow> ws" where
  "protocol_fault m s = handleProtocolFault (js m) 1002 ''protocol error'' s"

definition or_empty :: "json option \<Rightarrow> jsstr" where
  "or_empty v = (case v of Some (JStr t) \<Rightarrow> t | _ \<Rightarrow> [])"

text \<open>A valid close frame of the peer ends the socket and is answered unless a close frame was sent before.\<close>

definition peer_closed :: "int \<Rightarrow> jsstr \<Rightarrow> ws \<Rightarrow> ws" where
  "peer_closed code reason s =
     (let s1 = ws_emit (EvClose code reason) (s\<lparr>ws_destroyed := True, closeTimer := False\<rparr>)
      in endStream (if \<not> closeSent s1 then writeLine None (VwsClose code (Some reason)) KIgnore s1 else s1))"

definition handle_close_frame :: "'p platform_scheme \<Rightarrow> json \<Rightarrow> ws \<Rightarrow> ws" where
  "handle_close_frame P frame s =
     (case integer_code (obj_get frame ''code'') of
        None \<Rightarrow> protocol_fault ''Invalid VWS close frame'' s
      | Some code \<Rightarrow>
          if \<not> optional_string (obj_get frame ''reason'') then protocol_fault ''Invalid VWS close frame'' s
          else
            (let reason = or_empty (obj_get frame ''reason'')
             in case validateClose P code reason of
                  Inl e \<Rightarrow> handleProtocolFault (thrown_message e) 1002 ''protocol error'' s
                | Inr _ \<Rightarrow> peer_closed code reason s))"

definition handleFrame :: "'p platform_scheme \<Rightarrow> json \<Rightarrow> ws \<Rightarrow> ws" where
  "handleFrame P frame s =
     (case obj_get frame ''type'' of
        Some (JStr type) \<Rightarrow>
          (if type = js ''text'' then
             (case obj_get frame ''data'' of
                Some (JStr d) \<Rightarrow> enqueueInbound (TextData d) (byteLength d) s
              | _ \<Rightarrow> protocol_fault ''Invalid VWS text frame'' s)
           else if type = js ''binary'' then
             (if data_base64 (obj_get frame ''data'')
              then (let d = base64_decode (or_empty (obj_get frame ''data'')) in enqueueInbound (BinaryData d) (length d) s)
              else protocol_fault ''Invalid VWS binary frame'' s)
           else if type = js ''ping'' then
             (if optional_string (obj_get frame ''data'')
              then writeLine None (VwsPong (Some (or_empty (obj_get frame ''data'')))) KIgnore s
              else protocol_fault ''Invalid VWS ping frame'' s)
           else if type = js ''pong'' then
             (if optional_string (obj_get frame ''data'') then ws_emit (EvPong (or_empty (obj_get frame ''data''))) s
              else protocol_fault ''Invalid VWS pong frame'' s)
           else if type = js ''close'' then handle_close_frame P frame s
           else if type = js ''error'' then
             (case obj_get frame ''message'' of
                Some (JStr m) \<Rightarrow> ws_emit (EvError m None) s
              | _ \<Rightarrow> protocol_fault ''Invalid VWS error frame'' s)
           else if type = js ''open'' \<or> type = js ''accept''
           then handleProtocolFault (js ''Unexpected VWS '' @ type @ js '' frame'') 1002 ''protocol error'' s
           else protocol_fault ''Unknown VWS frame type'' s)
      | _ \<Rightarrow> protocol_fault ''Unknown VWS frame type'' s)"

lemmas closing_defs = handleProtocolFault_def protocol_fault_def close_now_def failOutboundQueue_def discard_send_queue_def
  settle_sends_def writeLine_def ws_emit_def endStream_def Let_def

lemmas inbound_defs = enqueueInbound_def processInboundQueue_def inbound_loop_def inbound_finish_def

lemma lineBuffer_fault [simp]: "lineBuffer (handleProtocolFault m c r s) = lineBuffer s"
  by (simp add: closing_defs)

lemma lineBuffer_enqueue [simp]: "lineBuffer (enqueueInbound d b s) = lineBuffer s"
  by (simp add: inbound_defs ws_emit_def split: list.splits)

text \<open>What a frame can do, for proofs that do not care which frame it was.\<close>

lemma if_all: "Q x \<Longrightarrow> Q y \<Longrightarrow> Q (if b then x else y)"
  by simp

lemma option_all: "Q z \<Longrightarrow> (\<And>x. Q (f x)) \<Longrightarrow> Q (case v of None \<Rightarrow> z | Some x \<Rightarrow> f x)"
  by (cases v) simp_all

lemma sum_all: "(\<And>x. Q (g x)) \<Longrightarrow> (\<And>x. Q (f x)) \<Longrightarrow> Q (case v of Inl x \<Rightarrow> g x | Inr x \<Rightarrow> f x)"
  by (cases v) simp_all

lemma json_all: "Q z \<Longrightarrow> (\<And>x. Q (f x)) \<Longrightarrow> Q (case v of JStr x \<Rightarrow> f x | _ \<Rightarrow> z)"
  by (cases v) simp_all

lemma handleFrame_cases:
  assumes "\<And>m c r. Q (handleProtocolFault m c r s)" and "\<And>d b. Q (enqueueInbound d b s)"
    and "\<And>t. Q (writeLine None (VwsPong (Some t)) KIgnore s)" and "\<And>t. Q (ws_emit (EvPong t) s)"
    and "\<And>m. Q (ws_emit (EvError m None) s)" and "\<And>c r. Q (peer_closed c r s)"
  shows "Q (handleFrame P f s)"
  unfolding handleFrame_def handle_close_frame_def protocol_fault_def Let_def
  by (intro if_all [of Q] option_all [of Q] sum_all [of Q] json_all [of Q] assms)

lemma lineBuffer_handleFrame [simp]: "lineBuffer (handleFrame P f s) = lineBuffer s"
  by (rule handleFrame_cases) (simp_all add: peer_closed_def closing_defs)

text \<open>The loop of \<open>processIncoming\<close>, on the text of the string decoder.\<close>

function ws_lines :: "'p platform_scheme \<Rightarrow> (jsstr \<Rightarrow> jsstr) \<Rightarrow> ws \<Rightarrow> ws" where
  "ws_lines P synmsg s =
     (if ws_destroyed s then s
      else case break_line (lineBuffer s) of
        None \<Rightarrow>
          if VWS_MAX_FRAME_BYTES < byteLength (lineBuffer s)
          then handleProtocolFault (size_message P ''frame'') 1009 ''frame too large'' (s\<lparr>lineBuffer := []\<rparr>)
          else s
      | Some (line, rest) \<Rightarrow>
          if VWS_MAX_FRAME_BYTES < byteLength line
          then handleProtocolFault (size_message P ''frame'') 1009 ''frame too large'' (s\<lparr>lineBuffer := rest\<rparr>)
          else case decodeVwsFrame P synmsg line of
                 Inl e \<Rightarrow> handleProtocolFault (thrown_message e) 1002 ''protocol error'' (s\<lparr>lineBuffer := rest\<rparr>)
               | Inr frame \<Rightarrow> ws_lines P synmsg (handleFrame P frame (s\<lparr>lineBuffer := rest\<rparr>)))"
  by auto
termination
  by (relation "measure (\<lambda>(P, synmsg, s). length (lineBuffer s))") (auto dest: break_line_shorter)

declare ws_lines.simps [simp del]

definition processIncoming :: "'p platform_scheme \<Rightarrow> (jsstr \<Rightarrow> jsstr) \<Rightarrow> jsstr \<Rightarrow> ws \<Rightarrow> ws" where
  "processIncoming P synmsg chunk s =
     (if ws_destroyed s then s else ws_lines P synmsg (s\<lparr>lineBuffer := lineBuffer s @ chunk\<rparr>))"

section \<open>Steps\<close>

inductive ws_step :: "'p platform_scheme \<Rightarrow> (jsstr \<Rightarrow> jsstr) \<Rightarrow> ws \<Rightarrow> ws \<Rightarrow> bool" for P synmsg where
  sending: "ws_step P synmsg s (snd (send P binary d s))"
| pinging: "ws_step P synmsg s (snd (ping t s))"
| ponging: "ws_step P synmsg s (snd (pong t s))"
| closing: "ws_step P synmsg s (snd (ws_close P code reason s))"
| terminating: "ws_step P synmsg s (terminate s)"
| chunk_in: "ws_step P synmsg s (processIncoming P synmsg chunk s)"
| wrote: "map_of (ws_writes s) i = Some k \<Longrightarrow> ws_step P synmsg s (write_ok k (take_write i s))"
| not_wrote: "map_of (ws_writes s) i = Some k \<Longrightarrow> ws_step P synmsg s (write_failed e k (take_write i s))"
| listened: "processingInbound s \<Longrightarrow> ws_step P synmsg s (inbound_loop s)"
| listener_threw: "processingInbound s \<Longrightarrow> ws_step P synmsg s (listener_failed e s)"
| timed_out: "closeTimer s \<Longrightarrow> ws_step P synmsg s (close_timeout s)"
| source_end: "ws_step P synmsg s (on_end s)"
| source_close: "ws_step P synmsg s (on_close s)"
| source_error: "ws_step P synmsg s (on_error e s)"

text \<open>The Guest accepts a socket once; the Broker's socket is accepted from the start.\<close>

inductive ws_reachable :: "'p platform_scheme \<Rightarrow> (jsstr \<Rightarrow> jsstr) \<Rightarrow> bool \<Rightarrow> ws \<Rightarrow> bool" for P synmsg already where
  created: "ws_reachable P synmsg already (new_ws protocol already)"
| stepped: "ws_reachable P synmsg already s \<Longrightarrow> ws_step P synmsg s s' \<Longrightarrow> ws_reachable P synmsg already s'"
| accepting: "ws_reachable P synmsg already s \<Longrightarrow> \<not> accepted s \<Longrightarrow> ws_reachable P synmsg already (sendAccept protocol s)"

section \<open>The invariant\<close>

fun k_entries :: "ws_continuation \<Rightarrow> send_entry list" where
  "k_entries (KFlush e es) = e # es"
| "k_entries (KPump e) = [e]"
| "k_entries _ = []"

fun k_pumping :: "ws_continuation \<Rightarrow> nat" where
  "k_pumping (KPump e) = 1"
| "k_pumping _ = 0"

fun k_bytes :: "ws_continuation \<Rightarrow> nat" where
  "k_bytes (KPump e) = se_bytes e"
| "k_bytes _ = 0"

definition on_writes :: "(ws_continuation \<Rightarrow> nat) \<Rightarrow> ws \<Rightarrow> nat" where
  "on_writes f s = sum_list (map (\<lambda>w. f (snd w)) (ws_writes s))"

text \<open>How often the promise of the \<open>send\<close> call \<open>j\<close> is settled or waiting to be settled.\<close>

definition owed :: "ws \<Rightarrow> nat \<Rightarrow> nat" where
  "owed s j = count_list (map fst (ws_settled s)) j + count_list (map se_id (sendQueue s)) j +
     count_list (map se_id (outboundQueue s)) j + on_writes (\<lambda>k. count_list (map se_id (k_entries k)) j) s"

definition close_events :: "ws \<Rightarrow> nat" where
  "close_events s = length (filter is_EvClose (ws_emitted s))"

definition close_frames :: "ws \<Rightarrow> nat" where
  "close_frames s = length (filter (\<lambda>w. is_VwsClose (snd w)) (ws_wrote s))"

definition is_data :: "VwsFrame \<Rightarrow> bool" where
  "is_data f \<longleftrightarrow> is_VwsText f \<or> is_VwsBinary f"

definition closing_inv :: "ws \<Rightarrow> bool" where
  "closing_inv s \<longleftrightarrow> close_events s = (if ws_destroyed s then 1 else 0) \<and> close_frames s \<le> 1 \<and>
     (\<not> closeSent s \<and> \<not> ws_destroyed s \<longrightarrow> close_frames s = 0) \<and> (closeSent s \<and> \<not> ws_destroyed s \<longrightarrow> closeTimer s) \<and>
     (\<forall>i k e. (i, k) \<in> set (ws_writes s) \<and> e \<in> set (k_entries k) \<longrightarrow> is_data (se_frame e)) \<and>
     (\<forall>e \<in> set (sendQueue s) \<union> set (outboundQueue s). is_data (se_frame e))"

definition bytes_of :: "send_entry list \<Rightarrow> nat" where
  "bytes_of es = sum_list (map se_bytes es)"

definition queue_inv :: "ws \<Rightarrow> bool" where
  "queue_inv s \<longleftrightarrow>
     length (sendQueue s) \<le> MAX_MESSAGES \<and> sendQueueBytes s = bytes_of (sendQueue s) \<and> sendQueueBytes s \<le> VWS_MAX_FRAME_BYTES \<and>
     length (outboundQueue s) \<le> MAX_MESSAGES \<and> outboundQueueBytes s \<le> VWS_MAX_FRAME_BYTES \<and>
     (bytes_of (outboundQueue s) + on_writes k_bytes s \<le> outboundQueueBytes s \<or> outboundQueue s = [] \<and> (closeSent s \<or> ws_destroyed s)) \<and>
     length (inboundQueue s) \<le> MAX_MESSAGES \<and> inboundQueueBytes s = sum_list (map ie_bytes (inboundQueue s)) \<and>
     inboundQueueBytes s \<le> VWS_MAX_FRAME_BYTES"

definition pump_inv :: "ws \<Rightarrow> bool" where
  "pump_inv s \<longleftrightarrow> on_writes k_pumping s = (if writingOutbound s then 1 else 0)"

definition write_ids_ok :: "ws \<Rightarrow> bool" where
  "write_ids_ok s \<longleftrightarrow> distinct (map fst (ws_writes s)) \<and> (\<forall>i \<in> fst ` set (ws_writes s). i < ws_next s)"

definition accept_inv :: "ws \<Rightarrow> bool" where
  "accept_inv s \<longleftrightarrow> (acceptWritten s \<longrightarrow> accepted s) \<and> (\<not> accepted s \<longrightarrow> outboundQueue s = [] \<and> KAccept \<notin> snd ` set (ws_writes s)) \<and>
     (\<not> acceptWritten s \<longrightarrow> (\<forall>w \<in> set (ws_wrote s). \<not> is_data (snd w)) \<and> on_writes (\<lambda>k. length (k_entries k)) s = 0)"

text \<open>What holds of a socket that was accepted from the start: the data frames written and those still
  queued are in the order of their \<open>send\<close> calls, and no data frame follows a close frame.\<close>

definition data_ids :: "ws \<Rightarrow> nat list" where
  "data_ids s = concat (map (\<lambda>(i, f). case i of Some j \<Rightarrow> if is_data f then [j] else [] | None \<Rightarrow> []) (ws_wrote s))"

fun no_data_after_close :: "VwsFrame list \<Rightarrow> bool" where
  "no_data_after_close [] = True"
| "no_data_after_close (f # fs) = (if is_VwsClose f then \<forall>g \<in> set fs. \<not> is_data g else no_data_after_close fs)"

definition fifo_inv :: "ws \<Rightarrow> bool" where
  "fifo_inv s \<longleftrightarrow> sendQueue s = [] \<and> accepted s \<and> acceptWritten s \<and>
     (\<forall>w \<in> set (ws_writes s). snd w = KIgnore \<or> k_pumping (snd w) = 1) \<and>
     sorted_wrt (<) (data_ids s @ map se_id (outboundQueue s)) \<and>
     (\<forall>i \<in> set (data_ids s) \<union> se_id ` set (outboundQueue s). i < ws_next s) \<and>
     no_data_after_close (map snd (ws_wrote s)) \<and> (closeSent s \<longrightarrow> outboundQueue s = [])"

lemma no_data_after_close_append: "no_data_after_close (fs @ [g]) \<longleftrightarrow> no_data_after_close fs \<and> (is_data g \<longrightarrow> (\<forall>f \<in> set fs. \<not> is_VwsClose f))"
  by (induction fs) (auto simp: is_data_def)

text \<open>The invariant of a socket while the entries \<open>es\<close> are in the hands of a running operation.\<close>

definition ws_inv_with :: "send_entry list \<Rightarrow> ws \<Rightarrow> bool" where
  "ws_inv_with es s \<longleftrightarrow> closing_inv s \<and> queue_inv s \<and> pump_inv s \<and> accept_inv s \<and> write_ids_ok s \<and>
     (\<forall>j. owed s j + count_list (map se_id es) j \<le> 1) \<and> (\<forall>j \<ge> ws_next s. owed s j + count_list (map se_id es) j = 0) \<and>
     (\<forall>e \<in> set es. is_data (se_frame e))"

abbreviation ws_inv :: "ws \<Rightarrow> bool" where
  "ws_inv \<equiv> ws_inv_with []"

lemmas measure_defs = on_writes_def owed_def close_events_def close_frames_def bytes_of_def

lemmas ws_inv_defs = closing_inv_def queue_inv_def pump_inv_def accept_inv_def write_ids_ok_def fifo_inv_def data_ids_def no_data_after_close_append sorted_wrt_append

lemmas ws_op_defs = closing_defs terminate_def close_timeout_def stream_gone_def on_end_def on_close_def on_error_def
  ping_def pong_def listener_failed_def inbound_defs

lemma data_not_close: "is_data f \<Longrightarrow> \<not> is_VwsClose f"
  by (cases f) (auto simp: is_data_def)

lemma not_data [simp]: "\<not> is_data (VwsClose c r)" "\<not> is_data (VwsPong t)" "\<not> is_data (VwsPing t)" "\<not> is_data (VwsAccept t)"
  by (simp_all add: is_data_def)

lemma is_data_send [simp]: "is_data (send_frame P b d)"
  by (simp add: is_data_def send_frame_def)

declare sum_list_eq_0_iff [simp del]

subsection \<open>Operations that make no promise\<close>

definition keeps :: "ws \<Rightarrow> ws \<Rightarrow> bool" where
  "keeps s s' \<longleftrightarrow> (closing_inv s \<longrightarrow> closing_inv s') \<and> (queue_inv s \<longrightarrow> queue_inv s') \<and> (pump_inv s \<longrightarrow> pump_inv s') \<and>
     (accept_inv s \<longrightarrow> accept_inv s') \<and> (write_ids_ok s \<longrightarrow> write_ids_ok s') \<and> (\<forall>j. owed s' j = owed s j) \<and> ws_next s \<le> ws_next s' \<and>
     (fifo_inv s \<longrightarrow> fifo_inv s')"

lemma keepsI:
  assumes "closing_inv s \<Longrightarrow> closing_inv s'" and "queue_inv s \<Longrightarrow> queue_inv s'" and "pump_inv s \<Longrightarrow> pump_inv s'"
    and "accept_inv s \<Longrightarrow> accept_inv s'" and "write_ids_ok s \<Longrightarrow> write_ids_ok s'" and "\<And>j. owed s' j = owed s j"
    and "ws_next s \<le> ws_next s'" and "fifo_inv s \<Longrightarrow> fifo_inv s'"
  shows "keeps s s'"
  using assms by (simp add: keeps_def)

lemma keeps_inv: "keeps s s' \<Longrightarrow> ws_inv_with es s \<Longrightarrow> ws_inv_with es s'"
  by (auto simp: keeps_def ws_inv_with_def)

lemma keeps_refl: "keeps s s"
  by (simp add: keeps_def)

lemma keeps_trans: "keeps s t \<Longrightarrow> keeps t u \<Longrightarrow> keeps s u"
  by (auto simp: keeps_def)

lemma keeps_error: "keeps s (ws_emit (EvError m c) s)"
  by (rule keepsI) (auto simp: ws_inv_defs measure_defs ws_emit_def)

lemma keeps_pong: "keeps s (ws_emit (EvPong t) s)"
  by (rule keepsI) (auto simp: ws_inv_defs measure_defs ws_emit_def)

lemma keeps_control: "is_VwsPing f \<or> is_VwsPong f \<Longrightarrow> keeps s (writeLine None f KIgnore s)"
  by (rule keepsI) (auto simp: ws_inv_defs measure_defs writeLine_def is_data_def less_Suc_eq)

lemma keeps_close_now: "\<not> closeSent s \<Longrightarrow> \<not> ws_destroyed s \<Longrightarrow> keeps s (close_now c r s)"
  by (rule keepsI) (auto simp: ws_inv_defs measure_defs closing_defs comp_def less_Suc_eq)

lemma keeps_terminate: "keeps s (terminate s)"
  by (rule keepsI) (auto simp: ws_inv_defs measure_defs ws_op_defs comp_def less_Suc_eq)

lemma keeps_inbound_loop: "keeps s (inbound_loop s)"
  by (rule keepsI) (auto simp: ws_inv_defs measure_defs ws_op_defs split: list.splits)

lemma keeps_peer_closed: "\<not> ws_destroyed s \<Longrightarrow> keeps s (peer_closed c r s)"
  by (rule keepsI) (auto simp: ws_inv_defs measure_defs ws_op_defs peer_closed_def less_Suc_eq)

lemma keeps_stream_gone: "\<not> ws_destroyed s \<Longrightarrow> keeps s (stream_gone s)"
  by (rule keepsI) (auto simp: ws_inv_defs measure_defs ws_op_defs comp_def)

lemma keeps_on_end: "keeps s (on_end s)"
proof (cases "ws_destroyed s")
  case True
  then show ?thesis by (intro keepsI) (auto simp: ws_inv_defs measure_defs on_end_def Let_def)
next
  case False
  have "keeps s (s\<lparr>closeTimer := False, lineBuffer := []\<rparr>)" if "\<not> closeSent s"
    using that by (intro keepsI) (auto simp: ws_inv_defs measure_defs)
  then show ?thesis
    using False by (intro keepsI) (auto simp: ws_inv_defs measure_defs ws_op_defs comp_def)
qed

lemma keeps_on_close: "keeps s (on_close s)"
  by (rule keepsI) (auto simp: ws_inv_defs measure_defs ws_op_defs comp_def)

lemma keeps_on_error: "keeps s (on_error e s)"
  using keeps_error keeps_refl by (simp add: on_error_def)

lemma keeps_close_timeout: "keeps s (close_timeout s)"
  by (rule keepsI) (auto simp: ws_inv_defs measure_defs ws_op_defs comp_def)

lemma keeps_fault: "keeps s (handleProtocolFault m c r s)"
proof -
  have "keeps s (ws_emit (EvError m (Some c)) s)" by (rule keeps_error)
  moreover have "\<not> closeSent s \<Longrightarrow> \<not> ws_destroyed s \<Longrightarrow>
      keeps (ws_emit (EvError m (Some c)) s) (close_now c (js r) (ws_emit (EvError m (Some c)) s))"
    by (rule keeps_close_now) (simp_all add: ws_emit_def)
  ultimately show ?thesis
    by (auto simp: handleProtocolFault_def Let_def ws_emit_def intro: keeps_trans)
qed

lemma keeps_enqueue: "keeps s (enqueueInbound d b s)"
proof -
  let ?s = "s\<lparr>inboundQueue := inboundQueue s @ [\<lparr>ie_data = d, ie_bytes = b\<rparr>], inboundQueueBytes := inboundQueueBytes s + b,
                ws_paused := True\<rparr>"
  have "keeps s ?s" if "\<not> (VWS_MAX_FRAME_BYTES < b \<or> MAX_MESSAGES \<le> length (inboundQueue s) \<or> VWS_MAX_FRAME_BYTES < inboundQueueBytes s + b)"
    using that by (intro keepsI) (auto simp: ws_inv_defs measure_defs)
  moreover have "keeps ?s (processInboundQueue ?s)"
  proof -
    have "keeps ?s (?s\<lparr>processingInbound := True\<rparr>)" by (rule keepsI) (auto simp: ws_inv_defs measure_defs)
    then show ?thesis
      unfolding processInboundQueue_def using keeps_inbound_loop keeps_refl keeps_trans by (auto split: if_splits)
  qed
  ultimately show ?thesis
    unfolding enqueueInbound_def using keeps_fault keeps_trans by (auto split: if_splits)
qed

lemma keeps_inbound_finish: "keeps s (inbound_finish s)"
  by (rule keepsI) (auto simp: ws_inv_defs measure_defs inbound_finish_def)

lemma keeps_listener_failed: "keeps s (listener_failed e s)"
  unfolding listener_failed_def by (rule keeps_trans [OF keeps_fault keeps_inbound_finish])

lemma keeps_handleFrame: "\<not> ws_destroyed s \<Longrightarrow> keeps s (handleFrame P f s)"
  by (rule handleFrame_cases)
    (simp_all add: keeps_fault keeps_enqueue keeps_control keeps_pong keeps_error keeps_peer_closed)

lemma keeps_lineBuffer: "keeps s (s\<lparr>lineBuffer := b\<rparr>)"
  by (rule keepsI) (auto simp: ws_inv_defs measure_defs)

lemma keeps_ws_lines: "keeps s (ws_lines P synmsg s)"
proof (induction P synmsg s rule: ws_lines.induct)
  case (1 P synmsg s)
  have fault: "keeps s (handleProtocolFault m c r (s\<lparr>lineBuffer := b\<rparr>))" for m c r b
    by (rule keeps_trans [OF keeps_lineBuffer keeps_fault])
  have frame: "keeps s (handleFrame P f (s\<lparr>lineBuffer := b\<rparr>))" if "\<not> ws_destroyed s" for f b
    using that keeps_trans [OF keeps_lineBuffer keeps_handleFrame] by simp
  have "keeps s (ws_lines P synmsg (handleFrame P f (s\<lparr>lineBuffer := rest\<rparr>)))"
    if "\<not> ws_destroyed s" "break_line (lineBuffer s) = Some (line, rest)" "\<not> VWS_MAX_FRAME_BYTES < byteLength line"
      "decodeVwsFrame P synmsg line = Inr f" for line rest f
    by (rule keeps_trans [OF frame [OF that(1)] 1 [OF that(1,2) refl that(3,4)]])
  then show ?case
    by (auto simp: ws_lines.simps [of P synmsg s] keeps_refl fault split: option.splits sum.splits)
qed

lemma keeps_processIncoming: "keeps s (processIncoming P synmsg c s)"
  unfolding processIncoming_def by (auto intro: keeps_refl keeps_trans [OF keeps_lineBuffer keeps_ws_lines])

subsection \<open>Writes and promises\<close>

lemma sum_list_delete:
  "distinct (map fst ws) \<Longrightarrow> map_of ws i = Some k \<Longrightarrow>
     sum_list (map (\<lambda>w. f (snd w)) ws) = (f k :: nat) + sum_list (map (\<lambda>w. f (snd w)) (AList.delete i ws))"
proof (induction ws)
  case (Cons w ws)
  then show ?case by (cases w) (auto simp: delete_id image_iff)
qed simp

lemma on_writes_take:
  "write_ids_ok s \<Longrightarrow> map_of (ws_writes s) i = Some k \<Longrightarrow> on_writes f s = f k + on_writes f (take_write i s)"
  unfolding on_writes_def take_write_def write_ids_ok_def by (simp add: sum_list_delete)

lemma on_writes_upd [simp]:
  "on_writes f (s\<lparr>outboundQueue := q\<rparr>) = on_writes f s" "on_writes f (s\<lparr>outboundQueueBytes := n\<rparr>) = on_writes f s"
  "on_writes f (s\<lparr>writingOutbound := b\<rparr>) = on_writes f s" "on_writes f (s\<lparr>sendQueue := q\<rparr>) = on_writes f s"
  "on_writes f (s\<lparr>sendQueueBytes := n\<rparr>) = on_writes f s" "on_writes f (s\<lparr>acceptWritten := b\<rparr>) = on_writes f s"
  "on_writes f (s\<lparr>ws_settled := x\<rparr>) = on_writes f s" "on_writes f (s\<lparr>ws_next := m\<rparr>) = on_writes f s"
  "on_writes f (settle_sends r es s) = on_writes f s" "on_writes f (writeLine i g k s) = on_writes f s + f k"
  by (simp_all add: on_writes_def settle_sends_def writeLine_def)

lemma no_pump_no_bytes: "on_writes k_pumping s = 0 \<Longrightarrow> on_writes k_bytes s = 0"
proof -
  have "k_pumping k = 0 \<Longrightarrow> k_bytes k = 0" for k by (cases k) simp_all
  then show "on_writes k_pumping s = 0 \<Longrightarrow> on_writes k_bytes s = 0" by (auto simp: on_writes_def sum_list_eq_0_iff)
qed

lemma set_take_write: "set (ws_writes (take_write i s)) \<subseteq> set (ws_writes s)"
  by (auto simp: take_write_def AList.delete_eq)

lemma taken_closing: "closing_inv s \<Longrightarrow> closing_inv (take_write i s)"
  using set_take_write [of i s] by (simp add: closing_inv_def measure_defs) (auto simp: take_write_def)

lemma taken_ids: "write_ids_ok s \<Longrightarrow> write_ids_ok (take_write i s)"
  using set_take_write [of i s] by (auto simp: write_ids_ok_def take_write_def AList.distinct_delete)

lemma taken_accept: "write_ids_ok s \<Longrightarrow> map_of (ws_writes s) i = Some k \<Longrightarrow> accept_inv s \<Longrightarrow>
    accept_inv (take_write i s) \<and> (k_entries k \<noteq> [] \<longrightarrow> acceptWritten s) \<and> (k = KAccept \<longrightarrow> accepted s)"
  using on_writes_take [of s i k "\<lambda>k. length (k_entries k)"] set_take_write [of i s] map_of_SomeD [of "ws_writes s" i k]
  by (simp add: accept_inv_def) (auto simp: take_write_def image_iff)

lemma taken_owed: "write_ids_ok s \<Longrightarrow> map_of (ws_writes s) i = Some k \<Longrightarrow>
    owed s j = owed (take_write i s) j + count_list (map se_id (k_entries k)) j"
  using on_writes_take [of s i k "\<lambda>k. count_list (map se_id (k_entries k)) j"] by (simp add: owed_def) (simp add: take_write_def)

lemma taken_data: "closing_inv s \<Longrightarrow> map_of (ws_writes s) i = Some k \<Longrightarrow> \<forall>e \<in> set (k_entries k). is_data (se_frame e)"
  by (auto simp: closing_inv_def dest: map_of_SomeD)

lemma ws_settle_sel [simp]:
  "closing_inv (settle_sends r es s) = closing_inv s" "queue_inv (settle_sends r es s) = queue_inv s" "pump_inv (settle_sends r es s) = pump_inv s"
  "accept_inv (settle_sends r es s) = accept_inv s" "write_ids_ok (settle_sends r es s) = write_ids_ok s" "ws_next (settle_sends r es s) = ws_next s"
  "owed (settle_sends r es s) j = owed s j + count_list (map se_id es) j"
  by (simp_all add: ws_inv_defs measure_defs settle_sends_def comp_def)

lemma settle_inv: "ws_inv_with (es @ es') s \<Longrightarrow> ws_inv_with es' (settle_sends r es s)"
  by (simp add: ws_inv_with_def add.assoc)

text \<open>The pump, entered with the queue consistent and no write of its own under way.\<close>

lemma pump_loop_inv:
  assumes "closing_inv s" "queue_inv s" "accept_inv s" "write_ids_ok s" "acceptWritten s" "writingOutbound s"
    and "on_writes k_pumping s = 0" "\<forall>j. owed s j \<le> 1" "\<forall>j \<ge> ws_next s. owed s j = 0"
  shows "ws_inv (pump_loop s)"
proof (cases "outboundQueue s")
  case Nil
  then show ?thesis
    using assms by (auto simp: pump_loop_def ws_inv_with_def ws_inv_defs owed_def measure_defs)
next
  case (Cons e es)
  show ?thesis
  proof (cases "ws_destroyed s")
    case True
    then show ?thesis
      using assms Cons by (auto simp: pump_loop_def ws_inv_with_def ws_inv_defs measure_defs)
  next
    case False
    then have p: "pump_loop s = writeLine (Some (se_id e)) (se_frame e) (KPump e) (s\<lparr>outboundQueue := es\<rparr>)"
      by (simp add: pump_loop_def Cons)
    have "closing_inv (pump_loop s)"
      using assms(1) Cons data_not_close by (auto simp: p closing_inv_def close_events_def close_frames_def writeLine_def)
    moreover have "queue_inv (pump_loop s)"
      using assms(2) Cons False by (auto simp: p queue_inv_def bytes_of_def) (auto simp: writeLine_def)
    moreover have "pump_inv (pump_loop s)"
      using assms(6,7) by (simp add: p pump_inv_def) (simp add: writeLine_def)
    moreover have "accept_inv (pump_loop s)"
      using assms(3,5) by (auto simp: p accept_inv_def writeLine_def)
    moreover have "write_ids_ok (pump_loop s)"
      using assms(4) by (auto simp: p write_ids_ok_def writeLine_def less_Suc_eq)
    moreover have "owed (pump_loop s) j = owed s j" for j
      using Cons by (simp add: p owed_def) (simp add: writeLine_def)
    moreover have "ws_next s \<le> ws_next (pump_loop s)" by (simp add: p writeLine_def)
    ultimately show ?thesis using assms(8,9) by (simp add: ws_inv_with_def)
  qed
qed

lemma pumpOutboundQueue_inv: "ws_inv s \<Longrightarrow> acceptWritten s \<Longrightarrow> ws_inv (pumpOutboundQueue s)"
proof (cases "writingOutbound s")
  case False
  let ?s = "s\<lparr>writingOutbound := True\<rparr>"
  assume "ws_inv s" "acceptWritten s"
  moreover from this False have "closing_inv ?s \<and> queue_inv ?s \<and> accept_inv ?s \<and> write_ids_ok ?s \<and> on_writes k_pumping ?s = 0"
    by (auto simp: ws_inv_with_def ws_inv_defs measure_defs)
  moreover have "owed ?s j = owed s j" for j by (simp add: owed_def)
  ultimately show ?thesis
    using False pump_loop_inv [of ?s] by (simp add: pumpOutboundQueue_def ws_inv_with_def)
qed (simp add: pumpOutboundQueue_def)

lemma flushNext_inv:
  assumes "ws_inv_with es s" and "acceptWritten s"
  shows "ws_inv (flushNext es s)"
proof (cases es)
  case Nil
  then show ?thesis using assms pumpOutboundQueue_inv by simp
next
  case (Cons e es')
  then have f: "flushNext es s = writeLine (Some (se_id e)) (se_frame e) (KFlush e es') s" by simp
  have "closing_inv (flushNext es s)"
    using assms Cons data_not_close by (auto simp: f ws_inv_with_def closing_inv_def close_events_def close_frames_def writeLine_def)
  moreover have "queue_inv (flushNext es s) \<and> pump_inv (flushNext es s)"
    using assms by (simp add: f ws_inv_with_def queue_inv_def pump_inv_def) (simp add: writeLine_def)
  moreover have "accept_inv (flushNext es s)"
    using assms by (auto simp: f ws_inv_with_def accept_inv_def writeLine_def)
  moreover have "write_ids_ok (flushNext es s)"
    using assms by (auto simp: f ws_inv_with_def write_ids_ok_def writeLine_def less_Suc_eq)
  moreover have "owed (flushNext es s) j = owed s j + count_list (map se_id es) j" for j
    by (simp add: f owed_def Cons) (simp add: writeLine_def)
  moreover have "ws_next s \<le> ws_next (flushNext es s)" by (simp add: f writeLine_def)
  ultimately show ?thesis using assms(1) by (simp add: ws_inv_with_def)
qed

lemma owed_bytes: "owed (s\<lparr>outboundQueueBytes := n\<rparr>) j = owed s j"
  by (simp add: owed_def)

lemma taken_inv:
  assumes "ws_inv s" and "map_of (ws_writes s) i = Some k" and "k_pumping k = 0"
  shows "ws_inv_with (k_entries k) (take_write i s)"
proof -
  have ids: "write_ids_ok s" using assms(1) by (simp add: ws_inv_with_def)
  have "k_bytes k = 0" using assms(3) by (cases k) simp_all
  then have "queue_inv (take_write i s) \<and> pump_inv (take_write i s)"
    using assms(1,3) on_writes_take [OF ids assms(2), of k_bytes] on_writes_take [OF ids assms(2), of k_pumping]
    by (simp add: ws_inv_with_def queue_inv_def pump_inv_def) (simp add: take_write_def)
  moreover have "ws_next (take_write i s) = ws_next s" by (simp add: take_write_def)
  ultimately show ?thesis
    using assms(1) taken_closing taken_ids [OF ids] taken_accept [OF ids assms(2)] taken_owed [OF ids assms(2)]
      taken_data [OF _ assms(2)]
    by (simp add: ws_inv_with_def)
qed

lemma write_ok_inv:
  assumes "ws_inv s" and "map_of (ws_writes s) i = Some k"
  shows "ws_inv (write_ok k (take_write i s))"
proof (cases k)
  case KIgnore
  then show ?thesis using taken_inv [OF assms] by simp
next
  case KAccept
  let ?s = "(take_write i s)\<lparr>acceptWritten := True, sendQueue := [], sendQueueBytes := 0\<rparr>"
  have inv: "ws_inv (take_write i s)" and acc: "accepted s"
    using taken_inv [OF assms] taken_accept [OF _ assms(2)] assms(1) KAccept by (auto simp: ws_inv_with_def)
  have "closing_inv ?s" using inv by (simp add: ws_inv_with_def closing_inv_def close_events_def close_frames_def)
  moreover have "queue_inv ?s" using inv by (simp add: ws_inv_with_def queue_inv_def bytes_of_def)
  moreover have "pump_inv ?s \<and> write_ids_ok ?s" using inv by (simp add: ws_inv_with_def pump_inv_def write_ids_ok_def)
  moreover have "accept_inv ?s" using inv acc by (simp add: ws_inv_with_def accept_inv_def) (simp add: take_write_def)
  moreover have "owed ?s j + count_list (map se_id (sendQueue (take_write i s))) j = owed (take_write i s) j" for j
    by (simp add: owed_def)
  moreover have "\<forall>e \<in> set (sendQueue (take_write i s)). is_data (se_frame e)"
    using inv by (simp add: ws_inv_with_def closing_inv_def)
  ultimately have "ws_inv_with (sendQueue (take_write i s)) ?s"
    using inv by (simp add: ws_inv_with_def)
  then show ?thesis
    using flushNext_inv [of "sendQueue (take_write i s)" ?s] KAccept by (simp add: flush_send_queue_def)
next
  case (KFlush e es)
  then have "ws_inv_with ([e] @ es) (take_write i s)" and "acceptWritten s"
    using taken_inv [OF assms] taken_accept [OF _ assms(2)] assms(1) by (auto simp: ws_inv_with_def)
  then have "ws_inv_with es (settle_sends (Inr ()) [e] (take_write i s))" by (intro settle_inv)
  then show ?thesis
    using flushNext_inv \<open>acceptWritten s\<close> KFlush by (simp add: settle_sends_def take_write_def)
next
  case (KPump e)
  let ?t = "take_write i s"
  let ?s = "?t\<lparr>outboundQueueBytes := outboundQueueBytes ?t - se_bytes e\<rparr>"
  have ids: "write_ids_ok s" using assms(1) by (simp add: ws_inv_with_def)
  have eqs: "on_writes k_bytes s = se_bytes e + on_writes k_bytes ?t" "on_writes k_pumping s = 1 + on_writes k_pumping ?t"
    "\<And>j. owed s j = owed ?t j + (if se_id e = j then 1 else 0)"
    using on_writes_take [OF ids assms(2)] taken_owed [OF ids assms(2)] KPump by simp_all
  have sel: "ws_next ?t = ws_next s" "outboundQueue ?t = outboundQueue s" "outboundQueueBytes ?t = outboundQueueBytes s"
    "writingOutbound ?t = writingOutbound s" "acceptWritten ?t = acceptWritten s" "sendQueue ?t = sendQueue s"
    "sendQueueBytes ?t = sendQueueBytes s" "inboundQueue ?t = inboundQueue s" "inboundQueueBytes ?t = inboundQueueBytes s"
    "closeSent ?t = closeSent s" "ws_destroyed ?t = ws_destroyed s"
    by (simp_all add: take_write_def)
  have "queue_inv ?s" using assms(1) eqs(1) by (auto simp: ws_inv_with_def queue_inv_def sel)
  moreover have "on_writes k_pumping ?t = 0" "writingOutbound s"
    using assms(1) eqs(2) by (auto simp: ws_inv_with_def pump_inv_def split: if_splits)
  moreover have "closing_inv ?s"
    using assms(1) taken_closing [of s i] by (simp add: ws_inv_with_def closing_inv_def close_events_def close_frames_def)
  moreover have "accept_inv s" using assms(1) by (simp add: ws_inv_with_def)
  with taken_accept [OF ids assms(2)] KPump have "accept_inv ?t" and acc: "acceptWritten s" by simp_all
  then have "accept_inv ?s" by (simp add: accept_inv_def)
  moreover note acc
  moreover have "write_ids_ok ?s" using taken_ids [OF ids, of i] by (simp add: write_ids_ok_def)
  moreover have "owed (settle_sends (Inr ()) [e] ?s) j = owed s j" for j
    using eqs(3) [of j] by (simp add: owed_bytes)
  moreover have "\<forall>j. owed s j \<le> 1" "\<forall>j \<ge> ws_next s. owed s j = 0" using assms(1) by (simp_all add: ws_inv_with_def)
  moreover have "acceptWritten (settle_sends r [e] ?s) = acceptWritten s" "writingOutbound (settle_sends r [e] ?s) = writingOutbound s" for r
    by (simp_all add: settle_sends_def sel)
  ultimately have "ws_inv (pump_loop (settle_sends (Inr ()) [e] ?s))"
    by (intro pump_loop_inv) (simp_all only: ws_settle_sel on_writes_upd, simp_all add: sel)
  then show ?thesis using KPump by simp
qed

lemma write_failed_inv:
  assumes "ws_inv s" and "map_of (ws_writes s) i = Some k"
  shows "ws_inv (write_failed err k (take_write i s))"
proof (cases k)
  case (KFlush e es)
  then have "ws_inv_with ((e # es) @ []) (take_write i s)" and "acceptWritten s"
    using taken_inv [OF assms] taken_accept [OF _ assms(2)] assms(1) by (auto simp: ws_inv_with_def)
  then have "ws_inv (settle_sends (Inl err) (e # es) (take_write i s))" by (intro settle_inv)
  then show ?thesis
    using pumpOutboundQueue_inv \<open>acceptWritten s\<close> KFlush by (simp add: settle_sends_def take_write_def)
next
  case (KPump e)
  let ?t = "take_write i s"
  let ?s = "write_failed err k ?t"
  have ids: "write_ids_ok s" using assms(1) by (simp add: ws_inv_with_def)
  have pump: "on_writes k_pumping ?t = 0"
    using assms(1) on_writes_take [OF ids assms(2), of k_pumping] KPump by (auto simp: ws_inv_with_def pump_inv_def split: if_splits)
  have "closing_inv ?t" "accept_inv ?t" "write_ids_ok ?t" "queue_inv s"
    using assms(1) taken_closing [of s i] taken_accept [OF ids assms(2)] taken_ids [OF ids] by (simp_all add: ws_inv_with_def)
  then have "closing_inv ?s" "accept_inv ?s" "write_ids_ok ?s"
    by (simp_all add: KPump settle_sends_def closing_inv_def accept_inv_def write_ids_ok_def close_events_def close_frames_def on_writes_def)
  moreover have "queue_inv ?s"
    using \<open>queue_inv s\<close> no_pump_no_bytes [OF pump]
    by (simp add: KPump queue_inv_def bytes_of_def) (simp add: settle_sends_def take_write_def)
  moreover have "pump_inv ?s" using pump by (simp add: KPump pump_inv_def)
  moreover have "owed ?s j = owed s j" for j
    using taken_owed [OF ids assms(2), of j] KPump by (simp add: owed_def settle_sends_def comp_def on_writes_def)
  ultimately show ?thesis
    using assms(1) by (simp add: ws_inv_with_def) (simp add: KPump settle_sends_def take_write_def)
qed (use taken_inv [OF assms] in simp_all)

lemma send_inv:
  assumes "ws_inv s"
  shows "ws_inv (snd (send P binary d s))"
proof -
  have full: "ws_inv (snd (queue_full m s))" for m
    using assms keeps_inv [OF keeps_fault] by (simp add: queue_full_def)
  let ?e = "\<lparr>se_id = ws_next s, se_frame = send_frame P binary d, se_bytes = message_bytes P (send_frame P binary d)\<rparr>"
  let ?q = "s\<lparr>ws_next := ws_next s + 1, sendQueue := sendQueue s @ [?e], sendQueueBytes := sendQueueBytes s + se_bytes ?e\<rparr>"
  let ?o = "s\<lparr>ws_next := ws_next s + 1, outboundQueue := outboundQueue s @ [?e], outboundQueueBytes := outboundQueueBytes s + se_bytes ?e\<rparr>"
  have fresh: "owed s (ws_next s) = 0" using assms by (simp add: ws_inv_with_def)
  have "ws_inv ?q" if "\<not> MAX_MESSAGES \<le> length (sendQueue s)" "\<not> VWS_MAX_FRAME_BYTES < sendQueueBytes s + se_bytes ?e"
  proof -
    have "closing_inv ?q" "accept_inv ?q" "write_ids_ok ?q" "pump_inv ?q" "queue_inv ?q"
      using assms that by (auto simp: ws_inv_with_def ws_inv_defs close_events_def close_frames_def bytes_of_def less_Suc_eq)
    moreover have "owed ?q j = owed s j + (if j = ws_next s then 1 else 0)" for j by (simp add: owed_def)
    ultimately show ?thesis using assms fresh by (auto simp: ws_inv_with_def)
  qed
  moreover have "ws_inv ?o" if "\<not> MAX_MESSAGES \<le> length (outboundQueue s)" "\<not> VWS_MAX_FRAME_BYTES < outboundQueueBytes s + se_bytes ?e"
    "accepted s" "\<not> closeSent s" "\<not> ws_destroyed s"
  proof -
    have "closing_inv ?o" "accept_inv ?o" "write_ids_ok ?o" "pump_inv ?o" "queue_inv ?o"
      using assms that by (auto simp: ws_inv_with_def ws_inv_defs close_events_def close_frames_def bytes_of_def less_Suc_eq)
    moreover have "owed ?o j = owed s j + (if j = ws_next s then 1 else 0)" for j by (simp add: owed_def)
    ultimately show ?thesis using assms fresh by (auto simp: ws_inv_with_def)
  qed
  ultimately show ?thesis
    using assms full keeps_inv [OF keeps_fault assms] pumpOutboundQueue_inv [of ?o]
    by (simp add: send_def Let_def)
qed

lemma sendAccept_inv:
  assumes "ws_inv s" and "\<not> accepted s"
  shows "ws_inv (sendAccept protocol s)"
proof (cases "ws_destroyed s")
  case True
  have "keeps s (discard_send_queue s)"
    by (rule keepsI) (auto simp: ws_inv_defs measure_defs closing_defs comp_def)
  with True assms show ?thesis using keeps_inv by (simp add: sendAccept_def)
next
  case False
  have "keeps s (sendAccept protocol s)"
    using assms(2) False by (intro keepsI) (auto simp: ws_inv_defs measure_defs sendAccept_def writeLine_def Let_def less_Suc_eq)
  then show ?thesis using assms(1) keeps_inv by blast
qed

subsection \<open>The order of data frames\<close>

lemma no_close_frame: "closing_inv s \<Longrightarrow> \<not> closeSent s \<Longrightarrow> \<not> ws_destroyed s \<Longrightarrow> \<forall>w \<in> set (ws_wrote s). \<not> is_VwsClose (snd w)"
  by (auto simp: closing_inv_def close_frames_def filter_empty_conv)

lemma fifo_pump_loop:
  assumes "fifo_inv s" and "closing_inv s"
  shows "fifo_inv (pump_loop s)"
proof (cases "outboundQueue s")
  case Nil
  then show ?thesis using assms(1) by (simp add: pump_loop_def fifo_inv_def data_ids_def)
next
  case (Cons e es)
  show ?thesis
  proof (cases "ws_destroyed s")
    case True
    then show ?thesis using assms(1) Cons by (simp add: pump_loop_def fifo_inv_def data_ids_def)
  next
    case False
    have "is_data (se_frame e)" and "\<forall>w \<in> set (ws_wrote s). \<not> is_VwsClose (snd w)"
      using assms Cons False no_close_frame [of s] by (auto simp: closing_inv_def fifo_inv_def)
    then show ?thesis
      using assms(1) Cons False
      by (auto simp: pump_loop_def writeLine_def fifo_inv_def data_ids_def no_data_after_close_append sorted_wrt_append less_Suc_eq)
  qed
qed

lemma fifo_writing: "fifo_inv (s\<lparr>writingOutbound := b\<rparr>) = fifo_inv s" "closing_inv (s\<lparr>writingOutbound := b\<rparr>) = closing_inv s"
  by (simp_all add: fifo_inv_def closing_inv_def data_ids_def close_events_def close_frames_def)

lemma fifo_pump: "fifo_inv s \<Longrightarrow> closing_inv s \<Longrightarrow> fifo_inv (pumpOutboundQueue s)"
  by (simp add: pumpOutboundQueue_def fifo_pump_loop fifo_writing)

lemma fifo_take: "fifo_inv s \<Longrightarrow> fifo_inv (take_write i s)"
  using set_take_write [of i s]
  by (simp add: fifo_inv_def data_ids_def del: set_concat set_map) (simp add: take_write_def del: set_concat set_map, blast)

lemma fifo_settle [simp]: "fifo_inv (settle_sends r es s) = fifo_inv s"
  by (simp add: fifo_inv_def settle_sends_def data_ids_def)

lemma fifo_written:
  assumes "fifo_inv s" and "closing_inv s" and "map_of (ws_writes s) i = Some k"
  shows "fifo_inv (write_ok k (take_write i s))" and "fifo_inv (write_failed err k (take_write i s))"
proof -
  have t: "fifo_inv (take_write i s)" "closing_inv (take_write i s)"
    using assms by (simp_all add: fifo_take taken_closing)
  have "k = KIgnore \<or> k_pumping k = 1" using assms(1) map_of_SomeD [OF assms(3)] by (fastforce simp: fifo_inv_def)
  then consider "k = KIgnore" | e where "k = KPump e" by (cases k) auto
  then show "fifo_inv (write_ok k (take_write i s))"
  proof cases
    case 2
    have "fifo_inv (s\<lparr>outboundQueueBytes := n\<rparr>) = fifo_inv s" "closing_inv (s\<lparr>outboundQueueBytes := n\<rparr>) = closing_inv s" for s :: ws and n
      by (simp_all add: fifo_inv_def closing_inv_def data_ids_def close_events_def close_frames_def)
    then show ?thesis using 2 t by (simp add: fifo_pump_loop)
  qed (use t in simp)
  from \<open>k = KIgnore \<or> k_pumping k = 1\<close> show "fifo_inv (write_failed err k (take_write i s))"
    using t(1) by (cases k) (auto simp: fifo_inv_def settle_sends_def data_ids_def sorted_wrt_append)
qed

lemma fifo_send:
  assumes "fifo_inv s" and "closing_inv s"
  shows "fifo_inv (snd (send P binary d s))"
proof -
  let ?e = "\<lparr>se_id = ws_next s, se_frame = send_frame P binary d, se_bytes = message_bytes P (send_frame P binary d)\<rparr>"
  let ?o = "s\<lparr>ws_next := ws_next s + 1, outboundQueue := outboundQueue s @ [?e], outboundQueueBytes := outboundQueueBytes s + se_bytes ?e\<rparr>"
  have fault: "fifo_inv (handleProtocolFault m c r s)" for m c r
    using keeps_fault assms(1) by (simp add: keeps_def)
  have "fifo_inv ?o" if "\<not> closeSent s"
    using assms(1) that by (auto simp: fifo_inv_def data_ids_def sorted_wrt_append less_Suc_eq)
  moreover have "closing_inv ?o" using assms(2) by (auto simp: closing_inv_def close_events_def close_frames_def)
  moreover have "accepted s" using assms(1) by (simp add: fifo_inv_def)
  ultimately show ?thesis
    using assms(1) fault fifo_pump [of ?o] by (simp add: send_def Let_def queue_full_def)
qed

lemma ws_inv_closing: "ws_inv s \<Longrightarrow> closing_inv s"
  by (simp add: ws_inv_with_def)

lemma kept: "keeps s s' \<Longrightarrow> ws_inv s \<Longrightarrow> ws_inv s' \<and> (fifo_inv s \<longrightarrow> fifo_inv s')"
  using keeps_inv by (auto simp: keeps_def)

lemma ws_step_inv: "ws_step P synmsg s s' \<Longrightarrow> ws_inv s \<Longrightarrow> ws_inv s' \<and> (fifo_inv s \<longrightarrow> fifo_inv s')"
proof (induction rule: ws_step.induct)
  case (sending s binary d)
  then show ?case using send_inv fifo_send ws_inv_closing by blast
next
  case (wrote s i k)
  then show ?case using write_ok_inv fifo_written(1) ws_inv_closing by blast
next
  case (not_wrote s i k e)
  then show ?case using write_failed_inv fifo_written(2) ws_inv_closing by blast
next
  case (closing s code reason)
  have "keeps s (snd (ws_close P code reason s))"
    by (auto simp: ws_close_def keeps_refl keeps_close_now split: sum.splits)
  then show ?case using closing by (rule kept)
next
  case (pinging s t)
  have "keeps s (snd (ping t s))" by (simp add: ping_def keeps_refl keeps_control keeps_fault)
  then show ?case using pinging by (rule kept)
next
  case (ponging s t)
  have "keeps s (snd (pong t s))" by (simp add: pong_def keeps_refl keeps_control)
  then show ?case using ponging by (rule kept)
qed (rule kept, (rule keeps_terminate keeps_processIncoming keeps_inbound_loop keeps_listener_failed keeps_close_timeout keeps_on_end
    keeps_on_close keeps_on_error), assumption)+

lemma new_ws_inv: "ws_inv (new_ws protocol already)" "fifo_inv (new_ws protocol True)"
  by (simp_all add: ws_inv_with_def ws_inv_defs measure_defs new_ws_def)

lemma ws_reachable_inv: "ws_reachable P synmsg already s \<Longrightarrow> ws_inv s \<and> (already \<longrightarrow> fifo_inv s)"
proof (induction rule: ws_reachable.induct)
  case (accepting s protocol)
  then show ?case using sendAccept_inv by (auto simp: fifo_inv_def)
next
  case (created protocol)
  show ?case using new_ws_inv by (cases already) simp_all
next
  case (stepped s s')
  then show ?case using ws_step_inv by blast
qed

lemma distinct_count: "(\<And>j. count_list xs j \<le> 1) \<Longrightarrow> distinct xs"
proof (induction xs)
  case (Cons x xs)
  have "count_list xs j \<le> 1" for j using Cons.prems [of j] by (simp split: if_splits)
  moreover have "x \<notin> set xs" using Cons.prems [of x] by (simp add: count_list_0_iff)
  ultimately show ?case using Cons.IH by simp
qed simp

section \<open>Base64 round trip\<close>

lemma b64_digits: "\<forall>n \<in> set [0..<64]. b64_char (b64_digit n) \<and> b64_digit n \<noteq> 61 \<and> b64_value (b64_digit n) = n"
  by code_simp

lemma b64_digit [simp]: "n < 64 \<Longrightarrow> b64_char (b64_digit n)" "n < 64 \<Longrightarrow> b64_digit n \<noteq> 61" "n < 64 \<Longrightarrow> b64_value (b64_digit n) = n"
  using b64_digits by auto

lemma unat_byte_less: "unat (b :: byte) < 256"
  using unsigned_less [where ?'a = nat, of b] by simp

lemma b64_group [simp]:
  "unat (a :: byte) div 4 < 64" "unat a mod 4 * 16 < 64" "unat a mod 4 * 16 + unat (b :: byte) div 16 < 64" "unat b mod 16 * 4 < 64"
  "unat b mod 16 * 4 + unat (c :: byte) div 64 < 64"
  using unat_byte_less [of a] unat_byte_less [of b] unat_byte_less [of c]
    mod_less_divisor [of 4 "unat a"] mod_less_divisor [of 16 "unat b"]
  by (simp_all add: div_less_iff_less_mult)

lemma b64_join [simp]:
  "unat (a :: byte) div 4 * 4 + unat a mod 4 * 16 div 16 = unat a"
  "unat a div 4 * 4 + (unat a mod 4 * 16 + unat (b :: byte) div 16) div 16 = unat a"
  "(unat a mod 4 * 16 + unat b div 16) mod 16 * 16 + unat b mod 16 * 4 div 4 = unat b"
  "(unat a mod 4 * 16 + unat b div 16) mod 16 * 16 + (unat b mod 16 * 4 + unat (c :: byte) div 64) div 4 = unat b"
  "(unat b mod 16 * 4 + unat c div 64) mod 4 * 64 + unat c mod 64 = unat c"
  using unat_byte_less [of a] unat_byte_less [of b] unat_byte_less [of c]
  by (simp_all add: div_less_iff_less_mult)

lemma of_nat_unat_byte: "of_nat (unat b) = (b :: byte)"
  by simp

lemmas b64_simps = base64_encode.simps base64_decode.simps append.simps Let_def b64_digit b64_group b64_join if_False
  if_True refl of_nat_unat_byte mod_less_divisor zero_less_numeral

lemma base64_decode_encode: "base64_decode (base64_encode bs) = bs"
proof (induction bs rule: base64_encode.induct)
  case (4 a b c rest)
  then show ?case by (simp only: b64_simps)
qed (simp_all only: b64_simps)

lemma base64_encode_ok: "is_base64 (base64_encode bs)"
proof (induction bs rule: base64_encode.induct)
  case (4 a b c rest)
  then show ?case by (cases "base64_encode rest") auto
qed simp_all

section \<open>Properties\<close>

text \<open>C31: What a socket sends, its peer receives: the frame of a message passes the frame decoder's checks, and
  handling it queues the same text or the same bytes.\<close>

theorem websocket_message_roundtrip:
  "vws_frame_ok (send_frame P binary d) \<and>
   handleFrame P (vws_json (send_frame P True (BinaryData b))) s = enqueueInbound (BinaryData b) (length b) s \<and>
   handleFrame P (vws_json (send_frame P False (TextData t))) s = enqueueInbound (TextData t) (byteLength t) s"
  using base64_encode_ok base64_decode_encode
  by (simp add: send_frame_def handleFrame_def field_def or_empty_def split: ws_data.splits)


text \<open>C26: A socket that was accepted from the start writes its data frames in the order of the \<open>send\<close> calls,
  and none after a close frame.\<close>

theorem websocket_fifo:
  assumes "ws_reachable P synmsg True s"
  shows "sorted_wrt (<) (data_ids s) \<and> no_data_after_close (map snd (ws_wrote s))"
  using ws_reachable_inv [OF assms] by (simp add: fifo_inv_def sorted_wrt_append)

text \<open>C27: A socket that sent a close frame does not stay open: until the peer answers, the timer of the close
  handshake runs, and when it fires the socket is destroyed, the stream ended and aborted, and the \<open>close\<close>
  event emitted.\<close>

theorem websocket_close_completes:
  assumes "ws_reachable P synmsg already s" and "closeSent s" and "\<not> ws_destroyed s"
  shows "closeTimer s \<and> ws_step P synmsg s (close_timeout s) \<and> ws_destroyed (close_timeout s) \<and> ws_ended (close_timeout s) \<and>
     ws_aborted (close_timeout s) \<and> close_events (close_timeout s) = 1 \<and>
     last (ws_emitted (close_timeout s)) = EvClose 1006 (js ''close handshake timeout'')"
proof -
  from ws_reachable_inv [OF assms(1)] have "closing_inv s" by (simp add: ws_inv_with_def)
  then have "closeTimer s" and "close_events s = 0" using assms(2,3) by (simp_all add: closing_inv_def)
  then show ?thesis
    using assms(3) ws_step.timed_out [of s P synmsg]
    by (auto simp: close_timeout_def close_events_def closing_defs)
qed

section \<open>Sample sockets and what the order of steps can do\<close>

definition say :: "string \<Rightarrow> ws \<Rightarrow> ws" where
  "say t s = snd (send sample_platform False (TextData (js t)) s)"

text \<open>A Guest that sends twice before it accepts; the accept frame was written and the first message is
  being flushed.\<close>

definition two_queued :: ws where
  "two_queued = say ''b'' (say ''a'' (new_ws [] False))"

definition flushing :: ws where
  "flushing = write_ok KAccept (take_write 2 (sendAccept None two_queued))"

abbreviation text_entry :: "nat \<Rightarrow> string \<Rightarrow> send_entry" where
  "text_entry i t \<equiv> \<lparr>se_id = i, se_frame = VwsText (js t), se_bytes = 3\<rparr>"

lemma message_bytes_sample [simp]: "message_bytes sample_platform f = 3"
  by (simp add: message_bytes_def byteLength_def sample_platform_def js_def utf8_1_def high_surrogate_def low_surrogate_def)

lemma send_frame_text [simp]: "send_frame P False (TextData t) = VwsText t"
  by (simp add: send_frame_def)

lemmas run_defs = say_def send_def Let_def MAX_MESSAGES_def VWS_MAX_FRAME_BYTES_def new_ws_def sendAccept_def writeLine_def
  take_write_def flush_send_queue_def pumpOutboundQueue_def pump_loop_def settle_sends_def

lemma two_queued_eq:
  "two_queued = (new_ws [] False)\<lparr>sendQueue := [text_entry 0 ''a'', text_entry 1 ''b''], sendQueueBytes := 6, ws_next := 2\<rparr>"
  by (simp add: two_queued_def run_defs)

lemma flushing_eq:
  "flushing = (new_ws [] False)\<lparr>accepted := True, acceptWritten := True, ws_next := 4,
     ws_wrote := [(None, VwsAccept (Some [])), (Some 0, VwsText (js ''a''))],
     ws_writes := [(3, KFlush (text_entry 0 ''a'') [text_entry 1 ''b''])]\<rparr>"
  by (simp add: flushing_def two_queued_eq run_defs)

lemma say_step: "ws_step sample_platform id s (say t s)"
  unfolding say_def by (rule ws_step.sending)

lemma flushing_reachable: "ws_reachable sample_platform id False flushing"
proof -
  have "ws_reachable sample_platform id False two_queued"
    unfolding two_queued_def by (intro ws_reachable.stepped [OF _ say_step] ws_reachable.created)
  then have "ws_reachable sample_platform id False (sendAccept None two_queued)"
    by (rule ws_reachable.accepting) (simp add: two_queued_eq new_ws_def)
  then show ?thesis
    unfolding flushing_def
    by (rule ws_reachable.stepped) (rule ws_step.wrote, simp add: two_queued_eq run_defs)
qed

text \<open>A message sent while the queue of the handshake is being flushed overtakes the messages still in that
  queue: the frames go out in the order 0, 4, 1.\<close>

lemma flush_is_overtaken: "\<exists>s. ws_reachable sample_platform id False s \<and> data_ids s = [0, 4, 1]"
proof -
  let ?c = "say ''c'' flushing"
  have c: "?c = flushing\<lparr>ws_next := 6, writingOutbound := True, outboundQueueBytes := 3,
      ws_wrote := ws_wrote flushing @ [(Some 4, VwsText (js ''c''))], ws_writes := ws_writes flushing @ [(5, KPump (text_entry 4 ''c''))]\<rparr>"
    by (simp add: flushing_eq run_defs)
  let ?s = "write_ok (KFlush (text_entry 0 ''a'') [text_entry 1 ''b'']) (take_write 3 ?c)"
  have "ws_reachable sample_platform id False ?s"
    by (rule ws_reachable.stepped [OF ws_reachable.stepped [OF flushing_reachable say_step [of _ "''c''"]]], rule ws_step.wrote)
      (simp add: c, simp add: flushing_eq)
  moreover have "data_ids ?s = [0, 4, 1]"
    by (simp add: c flushing_eq run_defs data_ids_def is_data_def)
  ultimately show ?thesis by blast
qed

text \<open>Closing the socket during that flush does not stop it: a data frame follows the close frame.\<close>

lemma data_after_close: "\<exists>s. ws_reachable sample_platform id False s \<and> \<not> no_data_after_close (map snd (ws_wrote s))"
proof -
  let ?c = "snd (ws_close sample_platform 1000 [] flushing)"
  have c: "?c = flushing\<lparr>closeSent := True, closeTimer := True, ws_next := 5,
      ws_wrote := ws_wrote flushing @ [(None, VwsClose 1000 (Some []))], ws_writes := ws_writes flushing @ [(4, KIgnore)]\<rparr>"
    by (simp add: flushing_eq run_defs ws_close_def validateClose_def close_code_ok_def close_now_def failOutboundQueue_def byteLength_def)
  let ?s = "write_ok (KFlush (text_entry 0 ''a'') [text_entry 1 ''b'']) (take_write 3 ?c)"
  have "ws_reachable sample_platform id False ?s"
    by (rule ws_reachable.stepped [OF ws_reachable.stepped [OF flushing_reachable ws_step.closing [of _ _ _ 1000 "[]"]]],
        rule ws_step.wrote) (simp add: c, simp add: flushing_eq)
  moreover have "\<not> no_data_after_close (map snd (ws_wrote ?s))"
    by (simp add: c) (simp add: flushing_eq run_defs is_data_def)
  ultimately show ?thesis by blast
qed

text \<open>When the stream closes before the accept frame is written, the queued promises are never settled: the
  socket is destroyed, nothing is being written, and the messages are still in the queue.\<close>

lemma queued_sends_hang:
  "\<exists>s. ws_reachable sample_platform id False s \<and> ws_destroyed s \<and> ws_writes s = [] \<and> ws_settled s = [] \<and> length (sendQueue s) = 2"
proof -
  let ?a = "sendAccept None two_queued"
  have "ws_reachable sample_platform id False two_queued"
    unfolding two_queued_def by (intro ws_reachable.stepped [OF _ say_step] ws_reachable.created)
  then have "ws_reachable sample_platform id False ?a"
    by (rule ws_reachable.accepting) (simp add: two_queued_eq new_ws_def)
  then have "ws_reachable sample_platform id False (on_close ?a)"
    by (rule ws_reachable.stepped) (rule ws_step.source_close)
  then have "ws_reachable sample_platform id False (write_failed (PlainErr [] None) KAccept (take_write 2 (on_close ?a)))" (is "ws_reachable _ _ _ ?s")
    by (rule ws_reachable.stepped) (rule ws_step.not_wrote, simp add: two_queued_eq run_defs on_close_def stream_gone_def failOutboundQueue_def ws_emit_def)
  moreover have "ws_destroyed ?s \<and> ws_writes ?s = [] \<and> ws_settled ?s = [] \<and> length (sendQueue ?s) = 2"
    by (simp add: two_queued_eq run_defs on_close_def stream_gone_def failOutboundQueue_def ws_emit_def)
  ultimately show ?thesis by blast
qed


definition broker_said :: ws where
  "broker_said = say ''b'' (say ''a'' (new_ws [] True))"

lemma broker_said_reachable: "ws_reachable sample_platform id True broker_said"
  unfolding broker_said_def by (intro ws_reachable.stepped [OF _ say_step] ws_reachable.created)

theorem websocket_fifo_witness: "sorted_wrt (<) (data_ids broker_said) \<and> no_data_after_close (map snd (ws_wrote broker_said))"
  using websocket_fifo [OF broker_said_reachable] .

definition broker_closing :: ws where
  "broker_closing = snd (ws_close sample_platform 1000 [] broker_said)"

theorem websocket_close_completes_witness: "ws_destroyed (close_timeout broker_closing) \<and> close_events (close_timeout broker_closing) = 1"
proof -
  have "ws_reachable sample_platform id True broker_closing"
    unfolding broker_closing_def by (rule ws_reachable.stepped [OF broker_said_reachable ws_step.closing])
  moreover have "closeSent broker_closing" "\<not> ws_destroyed broker_closing"
    by (simp_all add: broker_closing_def broker_said_def run_defs ws_close_def validateClose_def close_code_ok_def close_now_def
        failOutboundQueue_def byteLength_def)
  ultimately show ?thesis using websocket_close_completes by blast
qed

end
