(* ===== verification/Remote_Broker.thy ===== *)
theory Remote_Broker
  imports Line_Frames Local_Broker
begin

text \<open>
  A Broker connected to a Host, class \<open>Http2VerserBroker\<close> of
  \<open>verser2-guest-node/src/lib/http2-verser-broker.ts\<close>: its view of the routes, kept by the frames of its
  control stream, the promises of \<open>waitForRoute\<close> and the events of \<open>onRouteChange\<close>.

  A control frame is a value of the declared frame type; \<open>untyped\<close> stands for what the handler does with
  JSON of any other shape. A listener that applies the changes it is told of has the Broker's routes, and
  every promise is either pending or resolved, once.
\<close>

section \<open>The route view\<close>

datatype control_frame =
    RoutesSnapshot "RoutedDomainRegistration list"
  | LifecycleEvents "raw_lifecycle_event list"
  | OtherFrame

record RemoteBroker =
  rb_routes :: "RoutedDomainRegistration list"
  rb_routeWaiters :: "(jsstr \<times> nat list) list"
  rb_promises :: nat
  rb_resolved :: "nat list"
  rb_changes :: "raw_lifecycle_event list"
  rb_frames :: nat

definition new_RemoteBroker :: RemoteBroker where
  "new_RemoteBroker = \<lparr>rb_routes = [], rb_routeWaiters = [], rb_promises = 0, rb_resolved = [], rb_changes = [], rb_frames = 0\<rparr>"

definition rb_waiters_for :: "jsstr \<Rightarrow> RemoteBroker \<Rightarrow> nat list" where
  "rb_waiters_for d b = (case map_of (rb_routeWaiters b) d of Some ws \<Rightarrow> ws | None \<Rightarrow> [])"

definition resolveRouteWaiters :: "jsstr \<Rightarrow> RemoteBroker \<Rightarrow> RemoteBroker" where
  "resolveRouteWaiters d b =
     b\<lparr>rb_resolved := rb_resolved b @ rb_waiters_for d b, rb_routeWaiters := AList.delete d (rb_routeWaiters b)\<rparr>"

text \<open>\<open>None\<close> is a promise that is already resolved.\<close>

definition waitForRoute :: "jsstr \<Rightarrow> RemoteBroker \<Rightarrow> nat option \<times> RemoteBroker" where
  "waitForRoute d b =
     (if \<exists>r \<in> set (rb_routes b). domain r = d then (None, b)
      else (Some (rb_promises b),
            b\<lparr>rb_promises := rb_promises b + 1,
              rb_routeWaiters := AList.update d (rb_waiters_for d b @ [rb_promises b]) (rb_routeWaiters b)\<rparr>))"

definition route_key :: "RoutedDomainRegistration \<Rightarrow> jsstr" where
  "route_key r = targetId r @ nul @ domain r"

definition route_map :: "RoutedDomainRegistration list \<Rightarrow> (jsstr \<times> RoutedDomainRegistration) list" where
  "route_map routes = fromEntries (map (\<lambda>r. (route_key r, r)) routes)"

definition route_change :: "string \<Rightarrow> RoutedDomainRegistration \<Rightarrow> raw_lifecycle_event" where
  "route_change type r =
     \<lparr>raw_type = js type, raw_targetId = targetId r, raw_domain = domain r, raw_reason = None, raw_generation = None\<rparr>"

definition snapshot_changes :: "RoutedDomainRegistration list \<Rightarrow> RoutedDomainRegistration list \<Rightarrow> raw_lifecycle_event list" where
  "snapshot_changes old new =
     map (\<lambda>(k, r). route_change ''removed'' r) (filter (\<lambda>(k, r). map_of (route_map new) k = None) (route_map old)) @
     map (\<lambda>(k, r). route_change ''added'' r) (filter (\<lambda>(k, r). map_of (route_map old) k = None) (route_map new))"

text \<open>Replacing the route at the index that was found stores the same two fields again.\<close>

definition push_route :: "raw_lifecycle_event \<Rightarrow> RoutedDomainRegistration list \<Rightarrow> RoutedDomainRegistration list" where
  "push_route event routes =
     (if \<exists>r \<in> set routes. same_route event r then routes
      else routes @ [\<lparr>targetId = raw_targetId event, domain = raw_domain event\<rparr>])"

definition event_routes :: "raw_lifecycle_event \<Rightarrow> RoutedDomainRegistration list \<Rightarrow> RoutedDomainRegistration list" where
  "event_routes event routes =
     (if raw_type event = js ''added'' \<or> raw_type event = js ''changed'' then push_route event routes
      else if raw_type event = js ''removed'' then filter (\<lambda>r. \<not> same_route event r) routes
      else if raw_type event = js ''degraded'' then push_route event routes
      else routes)"

definition emitted_event :: "raw_lifecycle_event \<Rightarrow> raw_lifecycle_event" where
  "emitted_event event =
     event\<lparr>raw_generation := map_option (\<lambda>(g, s). (Some (case g of Some i \<Rightarrow> i | None \<Rightarrow> []), s)) (raw_generation event)\<rparr>"

definition handle_event :: "raw_lifecycle_event \<Rightarrow> RemoteBroker \<Rightarrow> RemoteBroker" where
  "handle_event event b =
     (let b1 = b\<lparr>rb_routes := event_routes event (rb_routes b)\<rparr>;
          b2 = (if raw_type event = js ''added'' \<or> raw_type event = js ''changed''
                then resolveRouteWaiters (raw_domain event) b1 else b1)
      in b2\<lparr>rb_changes := rb_changes b2 @ [emitted_event event]\<rparr>)"

definition handle_snapshot :: "RoutedDomainRegistration list \<Rightarrow> RemoteBroker \<Rightarrow> RemoteBroker" where
  "handle_snapshot routes b =
     (let b1 = foldl (\<lambda>b r. resolveRouteWaiters (domain r) b) (b\<lparr>rb_routes := routes\<rparr>) routes
      in b1\<lparr>rb_changes := rb_changes b1 @ snapshot_changes (rb_routes b) routes\<rparr>)"

definition handleControlFrame :: "control_frame \<Rightarrow> RemoteBroker \<Rightarrow> RemoteBroker" where
  "handleControlFrame f b =
     (let b1 = (case f of
                  RoutesSnapshot routes \<Rightarrow> handle_snapshot routes b
                | LifecycleEvents events \<Rightarrow> foldl (\<lambda>b e. handle_event e b) b events
                | OtherFrame \<Rightarrow> b)
      in b1\<lparr>rb_frames := rb_frames b1 + 1\<rparr>)"

text \<open>The reader of the control stream. A frame whose JSON has the declared type is handled; there is no
  error callback.\<close>

definition control_callbacks :: "(json \<Rightarrow> control_frame option) \<Rightarrow> (json \<Rightarrow> RemoteBroker \<Rightarrow> unit result \<times> RemoteBroker)
    \<Rightarrow> (jsstr \<Rightarrow> jsstr) \<Rightarrow> RemoteBroker ndjson_callbacks" where
  "control_callbacks typed untyped synmsg =
     \<lparr>nd_onFrame = (\<lambda>j b. case typed j of Some f \<Rightarrow> (Inr (), handleControlFrame f b) | None \<Rightarrow> untyped j b),
      nd_onError = None, nd_syntax = synmsg, nd_destroys = True\<rparr>"

section \<open>What a listener of route changes sees\<close>

definition nul_free :: "RoutedDomainRegistration list \<Rightarrow> bool" where
  "nul_free routes \<longleftrightarrow> (\<forall>r \<in> set routes. 0 \<notin> set (targetId r))"

fun control_frame_ok :: "control_frame \<Rightarrow> bool" where
  "control_frame_ok (RoutesSnapshot routes) \<longleftrightarrow> nul_free routes"
| "control_frame_ok (LifecycleEvents events) \<longleftrightarrow> (\<forall>e \<in> set events. 0 \<notin> set (raw_targetId e))"
| "control_frame_ok OtherFrame \<longleftrightarrow> True"

text \<open>A listener keeps the same view by applying every change it is told to its own list.\<close>

definition follow :: "raw_lifecycle_event list \<Rightarrow> RoutedDomainRegistration list \<Rightarrow> RoutedDomainRegistration list" where
  "follow changes routes = fold event_routes changes routes"

lemma fromEntries_map_of: "map_of (fromEntries es) = map_of (rev es)"
  by (induction es rule: rev_induct) (auto simp: fromEntries_def fun_eq_iff update_conv')

lemma fromEntries_distinct_keys: "distinct (map fst (fromEntries es))"
  by (induction es rule: rev_induct) (auto simp: fromEntries_def distinct_update)

lemma fromEntries_entries: "(k, v) \<in> set (fromEntries es) \<longleftrightarrow> map_of (rev es) k = Some v"
  by (metis fromEntries_distinct_keys fromEntries_map_of map_of_eq_Some_iff)

lemma route_key_eq:
  assumes "route_key r = route_key q" and "0 \<notin> set (targetId r)" and "0 \<notin> set (targetId q)"
  shows "r = q"
proof -
  have "takeWhile (\<lambda>c. c \<noteq> 0) (route_key x) = targetId x \<and> dropWhile (\<lambda>c. c \<noteq> 0) (route_key x) = nul @ domain x"
    if "0 \<notin> set (targetId x)" for x
    using that by (auto simp: route_key_def takeWhile_append dropWhile_append)
  then have "targetId r = targetId q \<and> nul @ domain r = nul @ domain q" using assms by metis
  then show ?thesis by simp
qed

lemma route_map_lookup:
  assumes "nul_free routes" and "0 \<notin> set (targetId r)"
  shows "map_of (route_map routes) (route_key r) = (if r \<in> set routes then Some r else None)"
proof -
  have "map_of (map (\<lambda>r. (route_key r, r)) qs) (route_key r) = (if r \<in> set qs then Some r else None)"
    if "\<forall>q \<in> set qs. 0 \<notin> set (targetId q)" for qs
    using that by (induction qs) (auto dest: route_key_eq [OF _ assms(2)] route_key_eq [OF _ _ assms(2)])
  from this [of "rev routes"] assms(1) show ?thesis
    by (simp add: route_map_def fromEntries_map_of rev_map nul_free_def)
qed

lemma route_map_entries:
  assumes "nul_free routes"
  shows "(k, r) \<in> set (route_map routes) \<longleftrightarrow> k = route_key r \<and> r \<in> set routes"
proof
  assume "(k, r) \<in> set (route_map routes)"
  then have "(k, r) \<in> set (map (\<lambda>r. (route_key r, r)) (rev routes))"
    unfolding route_map_def fromEntries_entries rev_map by (rule map_of_SomeD)
  then show "k = route_key r \<and> r \<in> set routes" by auto
next
  assume "k = route_key r \<and> r \<in> set routes"
  then show "(k, r) \<in> set (route_map routes)"
    using route_map_lookup [OF assms, of r] assms by (auto simp: nul_free_def intro: map_of_SomeD)
qed

text \<open>What each kind of change does to the set of routes.\<close>

definition event_route :: "raw_lifecycle_event \<Rightarrow> RoutedDomainRegistration" where
  "event_route e = \<lparr>targetId = raw_targetId e, domain = raw_domain e\<rparr>"

lemma same_route_iff: "same_route e r \<longleftrightarrow> r = event_route e"
  by (cases r) (simp add: same_route_def event_route_def)

lemma event_routes_set:
  "set (event_routes e routes) =
     (if raw_type e \<in> {js ''added'', js ''changed'', js ''degraded''} then insert (event_route e) (set routes)
      else if raw_type e = js ''removed'' then set routes - {event_route e} else set routes)"
  by (auto simp: event_routes_def push_route_def same_route_iff) (auto simp: event_route_def)

lemma follow_set_cong: "set a = set b \<Longrightarrow> set (follow changes a) = set (follow changes b)"
  by (induction changes arbitrary: a b) (simp_all add: follow_def event_routes_set)

lemma follow_append [simp]: "follow (xs @ ys) routes = follow ys (follow xs routes)"
  by (simp add: follow_def)

lemma follow_removed:
  "set (follow (map (route_change ''removed'') rs) routes) = set routes - set rs"
  by (induction rs arbitrary: routes)
    (auto simp: follow_def event_routes_set route_change_def event_route_def js_eq_iff)

lemma follow_added: "set (follow (map (route_change ''added'') rs) routes) = set routes \<union> set rs"
  by (induction rs arbitrary: routes)
    (auto simp: follow_def event_routes_set route_change_def event_route_def)

lemma snapshot_changes_complete:
  assumes "nul_free old" and "nul_free new"
  shows "set (follow (snapshot_changes old new) old) = set new"
proof -
  let ?gone = "map snd (filter (\<lambda>(k, r). map_of (route_map new) k = None) (route_map old))"
  let ?come = "map snd (filter (\<lambda>(k, r). map_of (route_map old) k = None) (route_map new))"
  have split: "snapshot_changes old new = map (route_change ''removed'') ?gone @ map (route_change ''added'') ?come"
    by (simp add: snapshot_changes_def comp_def case_prod_unfold)
  have "set ?gone = set old - set new" "set ?come = set new - set old"
    using assms route_map_lookup [of new] route_map_lookup [of old]
    by (force simp: route_map_entries nul_free_def image_iff)+
  then show ?thesis unfolding split follow_append follow_added follow_removed by auto
qed

section \<open>The states a Broker reaches\<close>

inductive rb_step :: "RemoteBroker \<Rightarrow> RemoteBroker \<Rightarrow> bool" where
  wait: "rb_step b (snd (waitForRoute d b))"
| frame: "control_frame_ok f \<Longrightarrow> rb_step b (handleControlFrame f b)"

inductive rb_reachable :: "RemoteBroker \<Rightarrow> bool" where
  start: "rb_reachable new_RemoteBroker"
| step: "rb_reachable b \<Longrightarrow> rb_step b b' \<Longrightarrow> rb_reachable b'"

definition pending_promises :: "(jsstr \<times> nat list) list \<Rightarrow> nat multiset" where
  "pending_promises ws = mset (concat (map snd ws))"

text \<open>A domain whose waiters are pending although it has a route was only ever reported as degraded.\<close>

definition waits_degraded :: "RemoteBroker \<Rightarrow> bool" where
  "waits_degraded b \<longleftrightarrow>
     (\<forall>d r. d \<in> set (map fst (rb_routeWaiters b)) \<and> r \<in> set (rb_routes b) \<and> domain r = d \<longrightarrow>
        (\<exists>e \<in> set (rb_changes b). raw_type e = js ''degraded'' \<and> raw_domain e = d))"

definition rb_inv :: "RemoteBroker \<Rightarrow> bool" where
  "rb_inv b \<longleftrightarrow>
     nul_free (rb_routes b) \<and> set (follow (rb_changes b) []) = set (rb_routes b) \<and>
     distinct (map fst (rb_routeWaiters b)) \<and>
     mset (rb_resolved b) + pending_promises (rb_routeWaiters b) = mset [0..<rb_promises b] \<and> waits_degraded b"

lemma pending_simps [simp]:
  "pending_promises [] = {#}" "pending_promises ((k, w) # ws) = mset w + pending_promises ws"
  by (simp_all add: pending_promises_def)

lemma new_key: "d \<notin> set (map fst ws) \<Longrightarrow> map_of ws d = None \<and> AList.delete d ws = ws"
  by (simp add: map_of_eq_None_iff delete_id)

lemma pending_delete:
  assumes "distinct (map fst ws)"
  shows "pending_promises ws =
    mset (case map_of ws d of Some w \<Rightarrow> w | None \<Rightarrow> []) + pending_promises (AList.delete d ws)"
  using assms
proof (induction ws)
  case (Cons x ws)
  then show ?case
    by (cases "fst x = d"; cases x) (simp_all add: new_key)
qed simp

lemma pending_update:
  assumes "distinct (map fst ws)"
  shows "pending_promises (AList.update d (v @ [n]) ws) + mset (case map_of ws d of Some w \<Rightarrow> w | None \<Rightarrow> []) =
    mset v + {#n#} + pending_promises ws"
  using assms
proof (induction ws)
  case (Cons x ws)
  then show ?case
    by (cases "fst x = d"; cases x) (simp_all add: new_key)
qed simp

lemma waiter_keys_delete: "fst ` set (AList.delete d ws) = fst ` set ws - {d}"
  by (induction ws) auto

lemma waiter_keys_update: "fst ` set (AList.update d v ws) = insert d (fst ` set ws)"
  by (induction ws) auto

lemma promises_Suc: "mset [0..<Suc n] = add_mset n (mset [0..<n])"
  by simp

lemma resolveRouteWaiters_sel [simp]:
  "rb_routes (resolveRouteWaiters d b) = rb_routes b" "rb_changes (resolveRouteWaiters d b) = rb_changes b"
  "rb_promises (resolveRouteWaiters d b) = rb_promises b"
  "rb_routeWaiters (resolveRouteWaiters d b) = AList.delete d (rb_routeWaiters b)"
  by (simp_all add: resolveRouteWaiters_def)

lemma resolveRouteWaiters_promises:
  "distinct (map fst (rb_routeWaiters b)) \<Longrightarrow>
   mset (rb_resolved (resolveRouteWaiters d b)) + pending_promises (rb_routeWaiters (resolveRouteWaiters d b)) =
   mset (rb_resolved b) + pending_promises (rb_routeWaiters b)"
  using pending_delete [of "rb_routeWaiters b" d] by (simp add: resolveRouteWaiters_def rb_waiters_for_def)

abbreviation woken :: "RoutedDomainRegistration list \<Rightarrow> RemoteBroker \<Rightarrow> RemoteBroker" where
  "woken rs b \<equiv> foldl (\<lambda>b r. resolveRouteWaiters (domain r) b) b rs"

lemma woken_sel [simp]:
  "rb_routes (woken rs b) = rb_routes b" "rb_changes (woken rs b) = rb_changes b" "rb_promises (woken rs b) = rb_promises b"
  by (induction rs arbitrary: b) simp_all

lemma woken_waiters:
  assumes "distinct (map fst (rb_routeWaiters b))"
  shows "distinct (map fst (rb_routeWaiters (woken rs b)))"
    and "mset (rb_resolved (woken rs b)) + pending_promises (rb_routeWaiters (woken rs b)) =
      mset (rb_resolved b) + pending_promises (rb_routeWaiters b)"
    and "set (map fst (rb_routeWaiters (woken rs b))) = set (map fst (rb_routeWaiters b)) - domain ` set rs"
  using assms
proof (induction rs arbitrary: b)
  case (Cons r rs)
  {
    case 1
    then show ?case using Cons.IH(1) by (simp add: distinct_delete)
  next
    case 2
    then show ?case
      using Cons.IH(2) [of "resolveRouteWaiters (domain r) b"] resolveRouteWaiters_promises [of b "domain r"]
      by (simp add: distinct_delete)
  next
    case 3
    then show ?case
      using Cons.IH(3) [of "resolveRouteWaiters (domain r) b"] by (simp add: distinct_delete waiter_keys_delete) blast
  }
qed simp_all

lemma rb_inv_wait: "rb_inv b \<Longrightarrow> rb_inv (snd (waitForRoute d b))"
  using pending_update [of "rb_routeWaiters b" d "rb_waiters_for d b" "rb_promises b"]
  by (auto simp: rb_inv_def waitForRoute_def waits_degraded_def distinct_update waiter_keys_update rb_waiters_for_def
        promises_Suc simp del: mset_upt upt_Suc)

text \<open>Adding or losing routes, with the change recorded, keeps the invariant when the waiters of every new route
  are woken or the change is a degradation.\<close>

lemma rb_inv_event:
  assumes "rb_inv b" and "0 \<notin> set (raw_targetId e)"
  shows "rb_inv (handle_event e b)"
proof -
  have follow: "set (follow (rb_changes b @ [emitted_event e]) []) = set (event_routes e (rb_routes b))"
    using assms(1) by (auto simp: rb_inv_def follow_def event_routes_set emitted_event_def event_route_def)
  have free: "nul_free (event_routes e (rb_routes b))"
    using assms by (auto simp: rb_inv_def nul_free_def event_routes_set event_route_def)
  show ?thesis
  proof (cases "raw_type e = js ''added'' \<or> raw_type e = js ''changed''")
    case True
    let ?b = "b\<lparr>rb_routes := event_routes e (rb_routes b)\<rparr>"
    have "waits_degraded (handle_event e b)"
      using assms(1) True
      by (auto simp: rb_inv_def waits_degraded_def handle_event_def waiter_keys_delete event_routes_set event_route_def
            split: if_splits)
    then show ?thesis
      using assms(1) True follow free resolveRouteWaiters_promises [of ?b "raw_domain e"]
      by (auto simp: rb_inv_def handle_event_def distinct_delete)
  next
    case False
    have "waits_degraded (handle_event e b)"
      using assms(1) False
      by (auto simp: rb_inv_def waits_degraded_def handle_event_def event_routes_set event_route_def emitted_event_def
            split: if_splits)
    then show ?thesis
      using assms(1) False follow free by (auto simp: rb_inv_def handle_event_def)
  qed
qed

lemma rb_inv_snapshot:
  assumes "rb_inv b" and "nul_free routes"
  shows "rb_inv (handle_snapshot routes b)"
proof -
  let ?b = "b\<lparr>rb_routes := routes\<rparr>"
  have "set (follow (snapshot_changes (rb_routes b) routes) (follow (rb_changes b) [])) = set routes"
    using assms snapshot_changes_complete [of "rb_routes b" routes]
      follow_set_cong [of "follow (rb_changes b) []" "rb_routes b"] by (simp add: rb_inv_def)
  moreover have "waits_degraded (handle_snapshot routes b)"
    using woken_waiters(3) [of ?b routes] assms(1)
    by (auto simp: waits_degraded_def handle_snapshot_def rb_inv_def image_iff split: if_splits)
  ultimately show ?thesis
    using assms woken_waiters(1,2) [of ?b routes] by (simp add: rb_inv_def handle_snapshot_def)
qed

lemma rb_inv_frame: "rb_inv b \<Longrightarrow> control_frame_ok f \<Longrightarrow> rb_inv (handleControlFrame f b)"
proof -
  have frames: "rb_inv (b\<lparr>rb_frames := n\<rparr>) = rb_inv b" for b n
    by (simp add: rb_inv_def waits_degraded_def)
  have events: "rb_inv b \<Longrightarrow> \<forall>e \<in> set es. 0 \<notin> set (raw_targetId e) \<Longrightarrow> rb_inv (foldl (\<lambda>b e. handle_event e b) b es)" for b es
    by (induction es arbitrary: b) (simp_all add: rb_inv_event)
  assume "rb_inv b" "control_frame_ok f"
  then show ?thesis by (cases f) (simp_all add: handleControlFrame_def Let_def frames events rb_inv_snapshot)
qed

lemma rb_reachable_inv: "rb_reachable b \<Longrightarrow> rb_inv b"
proof (induction rule: rb_reachable.induct)
  case start
  show ?case by (simp add: rb_inv_def new_RemoteBroker_def nul_free_def follow_def pending_promises_def waits_degraded_def)
next
  case (step b b')
  from step.hyps(2) step.IH show ?case by cases (auto intro: rb_inv_wait rb_inv_frame)
qed

section \<open>Properties\<close>

text \<open>The control stream is read by \<open>readNdjsonLines\<close>; the stream has a \<open>destroy\<close> method.\<close>

interpretation control_stream: line_reader P "control_callbacks typed untyped synmsg"
  for P typed untyped synmsg
  by unfold_locales (simp add: control_callbacks_def)

text \<open>C16: A listener of \<open>onRouteChange\<close> that applies every change to its own list has exactly the routes that
  \<open>getRoutes\<close> returns, after any sequence of snapshots, lifecycle frames and waits, when no target id has a NUL
  character, by which the Broker separates the two parts of a route's key.\<close>

theorem route_changes_complete:
  assumes "rb_reachable b"
  shows "set (follow (rb_changes b) []) = set (rb_routes b)"
  using rb_reachable_inv [OF assms] by (simp add: rb_inv_def)

definition listed_route :: RoutedDomainRegistration where
  "listed_route = \<lparr>targetId = js ''g'', domain = js ''d''\<rparr>"

lemma sample_broker_reachable: "rb_reachable (handleControlFrame (RoutesSnapshot [listed_route]) (snd (waitForRoute (js ''d'') new_RemoteBroker)))"
  by (rule rb_reachable.step [OF rb_reachable.step [OF rb_reachable.start rb_step.wait] rb_step.frame])
    (simp add: nul_free_def listed_route_def js_def)

theorem route_changes_complete_witness:
  "set (follow (rb_changes (handleControlFrame (RoutesSnapshot [listed_route]) (snd (waitForRoute (js ''d'') new_RemoteBroker)))) []) =
   {listed_route}"
  using route_changes_complete [OF sample_broker_reachable]
  by (simp add: handleControlFrame_def handle_snapshot_def waitForRoute_def new_RemoteBroker_def)

text \<open>C18: Every promise that \<open>waitForRoute\<close> created is either pending or resolved, and resolved once; and a promise is
  pending for a domain that has a route only when the domain was reported as degraded.\<close>

theorem broker_waiters_settled:
  assumes "rb_reachable b"
  shows "mset (rb_resolved b @ concat (map snd (rb_routeWaiters b))) = mset [0..<rb_promises b] \<and>
    (\<forall>r \<in> set (rb_routes b). domain r \<in> fst ` set (rb_routeWaiters b) \<longrightarrow>
       (\<exists>e \<in> set (rb_changes b). raw_type e = js ''degraded'' \<and> raw_domain e = domain r))"
proof (intro conjI ballI impI)
  note inv = rb_reachable_inv [OF assms, unfolded rb_inv_def]
  then show "mset (rb_resolved b @ concat (map snd (rb_routeWaiters b))) = mset [0..<rb_promises b]"
    unfolding pending_promises_def mset_append by blast
  fix r
  assume "r \<in> set (rb_routes b)" "domain r \<in> fst ` set (rb_routeWaiters b)"
  with inv show "\<exists>e \<in> set (rb_changes b). raw_type e = js ''degraded'' \<and> raw_domain e = domain r"
    unfolding waits_degraded_def by auto
qed

theorem broker_waiters_settled_witness:
  "rb_resolved (handleControlFrame (RoutesSnapshot [listed_route]) (snd (waitForRoute (js ''d'') new_RemoteBroker))) = [0]"
proof -
  let ?b = "handleControlFrame (RoutesSnapshot [listed_route]) (snd (waitForRoute (js ''d'') new_RemoteBroker))"
  have "rb_routeWaiters ?b = []" "rb_promises ?b = 1"
    by (simp_all add: handleControlFrame_def handle_snapshot_def waitForRoute_def new_RemoteBroker_def listed_route_def
        rb_waiters_for_def)
  then show ?thesis using broker_waiters_settled [OF sample_broker_reachable] by simp
qed

text \<open>A route that arrives as degraded is in the routes, so a new \<open>waitForRoute\<close> resolves at once, but a promise
  that waits for its domain stays pending.\<close>

lemma degraded_route_wakes_nobody:
  "let e = \<lparr>raw_type = js ''degraded'', raw_targetId = js ''g'', raw_domain = js ''d'', raw_reason = None, raw_generation = None\<rparr>;
       b = handleControlFrame (LifecycleEvents [e]) (snd (waitForRoute (js ''d'') new_RemoteBroker))
   in fst (waitForRoute (js ''d'') b) = None \<and> rb_resolved b = [] \<and> rb_routeWaiters b = [(js ''d'', [0])]"
  by (simp add: handleControlFrame_def handle_event_def waitForRoute_def new_RemoteBroker_def event_routes_def push_route_def
      rb_waiters_for_def)

text \<open>Reading a control stream: however the text is cut, the Broker's state is that of handling the complete
  lines in order, up to the first that is no frame.\<close>

theorem control_stream_reads:
  "abs_reading (readNdjsonLines P (control_callbacks typed untyped synmsg) chunks (new_reader b)) =
   read_lines P (control_callbacks typed untyped synmsg) (complete_lines (concat chunks)) b"
  using control_stream.reader_refines [of "new_reader b" P typed untyped synmsg chunks] by (simp add: new_reader_def)

end
