(* ===== verification/Broker_Requests.thy ===== *)
theory Broker_Requests
  imports Remote_Broker Headers
begin

text \<open>
  The requests of a Broker that is connected to a Host, the rest of
  \<open>verser2-guest-node/src/lib/http2-verser-broker.ts\<close>: the request body that is kept for a replay, a single
  request and its promise, and the internal redirects.

  A single request is modelled as the handlers of its stream's events, each with the state of the abort
  signal; \<open>requestWithInternalRedirects\<close> over the outcome of each single request, the parsed \<open>Location\<close> and
  the abort signal at each test.
\<close>

section \<open>The replayable request body\<close>

text \<open>The body as a list of buffers; \<open>None\<close> when it is not kept.\<close>

fun replay_chunks :: "nat \<Rightarrow> nat \<Rightarrow> bytes list \<Rightarrow> bytes list \<Rightarrow> bytes list option" where
  "replay_chunks limit tot acc [] = Some acc"
| "replay_chunks limit tot acc (c # cs) =
     (if limit < tot + length c then None else replay_chunks limit (tot + length c) (acc @ [c]) cs)"

text \<open>The body as a stream that is teed while it is buffered. \<open>rp_decision\<close> is the promise of the replay
  body.\<close>

record replay =
  rp_chunks :: "bytes list"
  rp_total :: nat
  rp_replayable :: bool
  rp_tee :: "bytes list"
  rp_teeEnded :: bool
  rp_teeDestroyed :: bool
  rp_decision :: "bytes list option option"
  rp_sourceEnded :: bool
  rp_sourceAborted :: bool
  rp_failed :: bool

definition new_replay :: replay where
  "new_replay = \<lparr>rp_chunks = [], rp_total = 0, rp_replayable = True, rp_tee = [], rp_teeEnded = False, rp_teeDestroyed = False,
     rp_decision = None, rp_sourceEnded = False, rp_sourceAborted = False, rp_failed = False\<rparr>"

definition settleReplayDecision :: "bytes list option \<Rightarrow> replay \<Rightarrow> replay" where
  "settleReplayDecision body r = (if rp_decision r \<noteq> None then r else r\<lparr>rp_decision := Some body\<rparr>)"

text \<open>The listeners are gone once the source ended, failed or was aborted.\<close>

definition listening :: "replay \<Rightarrow> bool" where
  "listening r \<longleftrightarrow> \<not> rp_sourceEnded r \<and> \<not> rp_sourceAborted r"

definition replay_onData :: "nat \<Rightarrow> bytes \<Rightarrow> replay \<Rightarrow> replay" where
  "replay_onData limit buffer r =
     (if \<not> listening r then r
      else
        (let r1 = r\<lparr>rp_total := rp_total r + length buffer\<rparr>;
             r2 = (if limit < rp_total r1 then r1\<lparr>rp_replayable := False, rp_chunks := []\<rparr>
                   else if rp_replayable r1 then r1\<lparr>rp_chunks := rp_chunks r1 @ [buffer]\<rparr> else r1)
         in r2\<lparr>rp_tee := rp_tee r2 @ [buffer]\<rparr>))"

definition replay_onEnd :: "replay \<Rightarrow> replay" where
  "replay_onEnd r =
     (if \<not> listening r then r
      else settleReplayDecision (if rp_replayable r then Some (rp_chunks r) else None)
             (r\<lparr>rp_sourceEnded := True, rp_teeEnded := True\<rparr>))"

definition replay_onError :: "replay \<Rightarrow> replay" where
  "replay_onError r =
     (if rp_sourceEnded r then r
      else settleReplayDecision None (r\<lparr>rp_failed := True, rp_sourceAborted := True, rp_teeDestroyed := True\<rparr>))"

definition abortSource :: "replay \<Rightarrow> replay" where
  "abortSource r =
     (if rp_sourceAborted r \<or> rp_sourceEnded r then r else settleReplayDecision None (r\<lparr>rp_sourceAborted := True\<rparr>))"

definition replay_abort :: "replay \<Rightarrow> replay" where
  "replay_abort r = (abortSource r)\<lparr>rp_teeDestroyed := True\<rparr>"

definition getReplayBody :: "replay \<Rightarrow> bytes list option option" where
  "getReplayBody r = (if rp_failed r then Some None else rp_decision r)"

section \<open>A single request\<close>

text \<open>The error body of a Host. A context that is no object is spread as its indexed members.\<close>

fun context_entries :: "json option \<Rightarrow> VerserErrorContext" where
  "context_entries (Some (JObj es)) = map (\<lambda>(k, v). (k, json_ctx (Some v))) es"
| "context_entries (Some (JArr vs)) = map (\<lambda>(i, v). (dec i, json_ctx (Some v))) (enumerate 0 vs)"
| "context_entries (Some (JStr s)) = map (\<lambda>(i, c). (dec i, CStr [c])) (enumerate 0 s)"
| "context_entries _ = []"

fun error_message :: "'p platform_scheme \<Rightarrow> json option \<Rightarrow> jsstr" where
  "error_message P (Some (JStr s)) = s"
| "error_message P None = js ''Broker request failed''"
| "error_message P (Some JNull) = js ''Broker request failed''"
| "error_message P (Some j) = stringOf P j"

fun error_code :: "json option \<Rightarrow> VerserErrorCode" where
  "error_code (Some (JStr s)) = toVerserErrorCode (Some s)"
| "error_code _ = toVerserErrorCode None"

definition verserErrorFromResponseBody :: "'p platform_scheme \<Rightarrow> (jsstr \<Rightarrow> jsstr) \<Rightarrow> bytes \<Rightarrow> jsstr \<Rightarrow> VerserError result" where
  "verserErrorFromResponseBody P synmsg body target =
     (let text = utf8ToString P body
      in case jsonParse P text of
           None \<Rightarrow> Inl (PlainErr (synmsg text) None)
         | Some JNull \<Rightarrow> Inl (TypeErr (js ''Cannot read properties of null''))
         | Some parsed \<Rightarrow>
             (let err = (case obj_get parsed ''error'' of Some e \<Rightarrow> e | None \<Rightarrow> JNull)
              in Inr (createVerserError P (error_code (obj_get err ''code'')) (error_message P (obj_get err ''message''))
                   (fromEntries ((js ''targetId'', CStr target) # context_entries (obj_get err ''context''))))))"

record broker_request =
  rq_targetId :: jsstr
  rq_routeDomain :: "jsstr option"
  rq_method :: jsstr
  rq_path :: jsstr
  rq_headers :: "(jsstr \<times> jsstr) list"
  rq_body :: "bytes list"

record broker_response =
  rs_requestId :: jsstr
  rs_statusCode :: int
  rs_headers :: "(jsstr \<times> jsstr) list"
  rs_statusText :: "jsstr option"
  rs_headerPairs :: "VerserHeaderPair list option"

text \<open>\<open>AbortError\<close>; its \<open>cause\<close> is the reason of the signal.\<close>

definition createAbortError :: "'b result" where
  "createAbortError = Inl (PlainErr (js ''The operation was aborted'') None)"

text \<open>The id of the request and the counter after it; the counter is not touched when a guard refuses the request.\<close>

definition requestOnce_id :: "jsstr \<Rightarrow> bool \<Rightarrow> bool \<Rightarrow> nat \<Rightarrow> jsstr option \<times> nat" where
  "requestOnce_id brokerId aborted has_session counter =
     (if aborted \<or> \<not> has_session then (None, counter)
      else (Some (brokerId @ js ''-'' @ dec (counter + 1)), counter + 1))"

definition request_headers :: "'p platform_scheme \<Rightarrow> jsstr \<Rightarrow> jsstr \<Rightarrow> jsnumber option \<Rightarrow> broker_request \<Rightarrow> (jsstr \<times> jsstr) list" where
  "request_headers P requestId brokerId leaseTimeout req =
     [(js '':method'', js ''POST''), (js '':path'', js ''/verser/request''),
      (js ''x-verser-request-id'', requestId), (js ''x-verser-source-id'', brokerId),
      (js ''x-verser-target-id'', rq_targetId req)] @
     (case rq_routeDomain req of None \<Rightarrow> [] | Some d \<Rightarrow> [(js ''x-verser-route-domain'', d)]) @
     [(js ''x-verser-method'', rq_method req), (js ''x-verser-path'', rq_path req),
      (js ''x-verser-headers'', jsonStringify P (JObj (map (\<lambda>(k, v). (k, JStr v)) (rq_headers req))))] @
     (case leaseTimeout of None \<Rightarrow> [] | Some n \<Rightarrow> [(js ''x-verser-lease-acquire-timeout-ms'', numberToString P n)])"

text \<open>The promise of \<open>requestOnce\<close> and its stream. \<open>on_outcome\<close> is what the promise was settled with;
  a promise keeps its first outcome.\<close>

record once =
  on_settled :: bool
  on_outcome :: "broker_response result option"
  on_written :: "bytes list"
  on_ended :: bool
  on_reset :: bool
  on_bodyDestroyed :: bool

definition new_once :: once where
  "new_once = \<lparr>on_settled = False, on_outcome = None, on_written = [], on_ended = False, on_reset = False,
     on_bodyDestroyed = False\<rparr>"

definition settle_first :: "broker_response result \<Rightarrow> once \<Rightarrow> once" where
  "settle_first v s = (if on_outcome s = None then s\<lparr>on_outcome := Some v\<rparr> else s)"

definition settleReject :: "bool \<Rightarrow> thrown \<Rightarrow> once \<Rightarrow> once" where
  "settleReject aborted e s =
     (if on_settled s then s
      else settle_first (if aborted then createAbortError else Inl e) (s\<lparr>on_settled := True\<rparr>))"

fun write_chunks :: "(nat \<Rightarrow> bool) \<Rightarrow> nat \<Rightarrow> bytes list \<Rightarrow> once \<Rightarrow> once" where
  "write_chunks aborted i [] s = s\<lparr>on_ended := True\<rparr>"
| "write_chunks aborted i (c # cs) s =
     (if aborted i then settleReject True NotAFunction (s\<lparr>on_reset := True\<rparr>)
      else write_chunks aborted (i + 1) cs (s\<lparr>on_written := on_written s @ [c]\<rparr>))"

text \<open>The headers of a response: without metadata those of the stream, less the pseudo-headers and the
  metadata header.\<close>

definition legacy_headers :: "(jsstr \<times> jsstr option) list \<Rightarrow> (jsstr \<times> jsstr) list" where
  "legacy_headers headers =
     fromEntries (filter (\<lambda>(name, v). name \<noteq> js ''x-verser-response-metadata'') (stripHttp2PseudoHeaders headers))"

definition build_response :: "'p platform_scheme \<Rightarrow> jsstr \<Rightarrow> int \<Rightarrow> (jsstr \<times> jsstr option) list
    \<Rightarrow> VerserResponseMetadata option \<Rightarrow> broker_response result" where
  "build_response P requestId status headers metadata =
     (case metadata of
        None \<Rightarrow> Inr \<lparr>rs_requestId = requestId, rs_statusCode = status, rs_headers = legacy_headers headers,
                     rs_statusText = None, rs_headerPairs = None\<rparr>
      | Some m \<Rightarrow>
          bindE (flattenVerserHeaderPairs P (map pair_json (md_headers m))) (\<lambda>flat.
          Inr \<lparr>rs_requestId = requestId, rs_statusCode = md_statusCode m, rs_headers = flat,
               rs_statusText = md_statusText m, rs_headerPairs = Some (md_headers m)\<rparr>))"

definition on_response :: "'p platform_scheme \<Rightarrow> jsstr \<Rightarrow> bool \<Rightarrow> int \<Rightarrow> jsstr list option \<Rightarrow> (jsstr \<times> jsstr option) list
    \<Rightarrow> once \<Rightarrow> once" where
  "on_response P requestId aborted status metadataValues headers s =
     (case classifyVerserResponseMetadata P status requestId metadataValues of
        Inl e \<Rightarrow> settleReject aborted e (s\<lparr>on_reset := True\<rparr>)
      | Inr transport_error \<Rightarrow> s
      | Inr (application_response metadata) \<Rightarrow>
          (let s1 = s\<lparr>on_settled := True\<rparr>
           in case build_response P requestId status headers metadata of
                Inr resp \<Rightarrow> settle_first (Inr resp) s1
              | Inl e \<Rightarrow> settleReject aborted e (s1\<lparr>on_reset := True\<rparr>)))"

text \<open>\<open>buffer(stream).then(\<dots>)\<close>, after a response that is a transport error.\<close>

definition on_errorBody :: "'p platform_scheme \<Rightarrow> (jsstr \<Rightarrow> jsstr) \<Rightarrow> jsstr \<Rightarrow> bool \<Rightarrow> bytes result \<Rightarrow> once \<Rightarrow> once" where
  "on_errorBody P synmsg target aborted body s =
     (case body of
        Inl e \<Rightarrow> settleReject aborted e s
      | Inr b \<Rightarrow>
          (case verserErrorFromResponseBody P synmsg b target of
             Inr err \<Rightarrow> settleReject aborted (Verser err) s
           | Inl e \<Rightarrow> settleReject aborted e s))"

text \<open>The listeners of \<open>close\<close> run in the order they were added: the second exists only for a body that is a
  stream.\<close>

definition on_close_first :: "'p platform_scheme \<Rightarrow> jsstr \<Rightarrow> bool \<Rightarrow> once \<Rightarrow> once" where
  "on_close_first P target aborted s =
     (if on_settled s then s
      else settleReject aborted
             (Verser (createVerserError P stream_failure (js ''Stream closed before response headers'')
                [(js ''targetId'', CStr target)])) s)"

definition on_close_body :: "'p platform_scheme \<Rightarrow> jsstr \<Rightarrow> bool \<Rightarrow> int option \<Rightarrow> once \<Rightarrow> once" where
  "on_close_body P target aborted rstCode s =
     (let s1 = s\<lparr>on_bodyDestroyed := True\<rparr>
      in case rstCode of
           None \<Rightarrow> s1
         | Some c \<Rightarrow>
             if c = 0 then s1
             else settleReject aborted
                    (Verser (createVerserError P stream_failure (js ''Stream was reset by remote peer'')
                       [(js ''targetId'', CStr target), (js ''rstCode'', CStr (numberToString P (Fin (of_int c))))])) s1)"

definition on_bodyError :: "bool \<Rightarrow> thrown \<Rightarrow> once \<Rightarrow> once" where
  "on_bodyError aborted e s = settleReject aborted e (s\<lparr>on_bodyDestroyed := True, on_reset := True\<rparr>)"

datatype once_event =
    Response int "jsstr list option" "(jsstr \<times> jsstr option) list"
  | ErrorBody "bytes result"
  | StreamError thrown
  | StreamClose "int option"
  | BodyError thrown

record once_request =
  oq_requestId :: jsstr
  oq_target :: jsstr
  oq_streaming :: bool

fun handle_once :: "'p platform_scheme \<Rightarrow> (jsstr \<Rightarrow> jsstr) \<Rightarrow> once_request \<Rightarrow> bool \<times> once_event \<Rightarrow> once \<Rightarrow> once" where
  "handle_once P synmsg q (aborted, Response status vals headers) s = on_response P (oq_requestId q) aborted status vals headers s"
| "handle_once P synmsg q (aborted, ErrorBody body) s = on_errorBody P synmsg (oq_target q) aborted body s"
| "handle_once P synmsg q (aborted, StreamError e) s = settleReject aborted e s"
| "handle_once P synmsg q (aborted, StreamClose rst) s =
     (let s1 = on_close_first P (oq_target q) aborted s
      in if oq_streaming q then on_close_body P (oq_target q) aborted rst s1 else s1)"
| "handle_once P synmsg q (aborted, BodyError e) s = (if oq_streaming q then on_bodyError aborted e s else s)"

text \<open>The synchronous part: the guards, the request on the session (\<open>opened\<close> is what it threw, if it threw)
  and the body. A stream body is piped; \<open>aborted 0\<close> to \<open>aborted 2\<close> are the tests before the request.\<close>

datatype request_body = NoBody | BufferBody "bytes list" | StreamBody

definition requestOnce_start :: "'p platform_scheme \<Rightarrow> (nat \<Rightarrow> bool) \<Rightarrow> bool \<Rightarrow> thrown option \<Rightarrow> request_body \<Rightarrow> once" where
  "requestOnce_start P aborted has_session opened body =
     (if aborted 0 then settle_first createAbortError new_once
      else if \<not> has_session
      then settle_first (throwE P disconnected_target ''Broker is not connected'' []) new_once
      else if aborted 1 then settle_first createAbortError new_once
      else case opened of
        Some e \<Rightarrow> settle_first (if aborted 2 then createAbortError else Inl e) new_once
      | None \<Rightarrow>
          (case body of
             NoBody \<Rightarrow> new_once\<lparr>on_ended := True\<rparr>
           | StreamBody \<Rightarrow> new_once
           | BufferBody cs \<Rightarrow> write_chunks aborted 3 cs new_once))"

definition run_once :: "'p platform_scheme \<Rightarrow> (jsstr \<Rightarrow> jsstr) \<Rightarrow> once_request \<Rightarrow> (bool \<times> once_event) list \<Rightarrow> once \<Rightarrow> once" where
  "run_once P synmsg q events s = fold (handle_once P synmsg q) events s"

section \<open>Internal redirects\<close>

record parsed_url =
  url_hostname :: jsstr
  url_pathname :: jsstr
  url_search :: jsstr

text \<open>\<open>parse location base\<close> is \<open>new URL(location, base)\<close>, \<open>None\<close> when it throws.\<close>

definition resolveInternalRedirect :: "(jsstr \<Rightarrow> jsstr \<Rightarrow> parsed_url option) \<Rightarrow> RoutedDomainRegistration list \<Rightarrow> broker_response \<Rightarrow> jsstr
    \<Rightarrow> (RoutedDomainRegistration \<times> parsed_url) option" where
  "resolveInternalRedirect parse routes resp path =
     (if rs_statusCode resp \<noteq> 307 \<and> rs_statusCode resp \<noteq> 308 then None
      else case map_of (rs_headers resp) (js ''location'') of
        None \<Rightarrow> None
      | Some location \<Rightarrow>
          (case parse location (js ''http://verser.invalid'' @ path) of
             None \<Rightarrow> None
           | Some url \<Rightarrow>
               if url_hostname url = js ''verser.invalid'' then None
               else map_option (\<lambda>route. (route, url)) (resolveRouteForUrl routes (url_hostname url))))"

text \<open>What the world does while \<open>requestWithInternalRedirects\<close> runs: the answer to each request, the routes when
  it came, whether the signal is aborted at each of its tests (the fourth, index 3, is whether it was aborted
  while the replay body was awaited), and what the promise of a teed body resolved to.\<close>

record redirect_world =
  rw_once :: "nat \<Rightarrow> broker_request \<Rightarrow> broker_response result"
  rw_routes :: "nat \<Rightarrow> RoutedDomainRegistration list"
  rw_aborted :: "nat \<Rightarrow> nat \<Rightarrow> bool"
  rw_teed :: "nat \<Rightarrow> bytes list option"
  rw_parse :: "jsstr \<Rightarrow> jsstr \<Rightarrow> parsed_url option"

fun createReplayableRequestBody :: "request_body \<Rightarrow> nat \<Rightarrow> (nat \<Rightarrow> bytes list option) \<Rightarrow> nat \<Rightarrow> bytes list option" where
  "createReplayableRequestBody NoBody limit teed hop = Some []"
| "createReplayableRequestBody (BufferBody cs) limit teed hop = replay_chunks limit 0 [] cs"
| "createReplayableRequestBody StreamBody limit teed hop = teed hop"

definition awaitReplayOrAbort :: "redirect_world \<Rightarrow> (nat \<Rightarrow> bytes list option) \<Rightarrow> nat \<Rightarrow> bytes list option result" where
  "awaitReplayOrAbort w replayBody hop =
     (if rw_aborted w hop 2 then createAbortError
      else if rw_aborted w hop 3 then createAbortError
      else Inr (replayBody hop))"

definition redirected :: "broker_request \<Rightarrow> RoutedDomainRegistration \<times> parsed_url \<Rightarrow> bytes list \<Rightarrow> broker_request" where
  "redirected req target replayBody =
     req\<lparr>rq_targetId := targetId (fst target), rq_routeDomain := Some (domain (fst target)),
       rq_path := url_pathname (snd target) @ url_search (snd target), rq_body := replayBody\<rparr>"

function requestWithInternalRedirects :: "'p platform_scheme \<Rightarrow> redirect_world \<Rightarrow> (nat \<Rightarrow> bytes list option) \<Rightarrow> int \<Rightarrow> nat
    \<Rightarrow> broker_request \<Rightarrow> broker_response result \<times> broker_request list" where
  "requestWithInternalRedirects P w rb maxr hop req =
     (if rw_aborted w hop 0 then (createAbortError, [])
      else case rw_once w hop req of
        Inl e \<Rightarrow> (Inl e, [req])
      | Inr resp \<Rightarrow>
          if rw_aborted w hop 1 then (createAbortError, [req])
          else case resolveInternalRedirect (rw_parse w) (rw_routes w hop) resp (rq_path req) of
            None \<Rightarrow> (Inr resp, [req])
          | Some target \<Rightarrow>
              if maxr \<le> int hop
              then (throwE P protocol_error ''Broker internal redirect limit exceeded''
                      [(''maxInternalRedirects'', CNum (Fin (of_int maxr))),
                       (''redirectLocation'', case map_of (rs_headers resp) (js ''location'') of Some l \<Rightarrow> CStr l | None \<Rightarrow> CUndef)], [req])
              else case awaitReplayOrAbort w rb hop of
                Inl e \<Rightarrow> (Inl e, [req])
              | Inr body \<Rightarrow>
                  if rw_aborted w hop 4 then (createAbortError, [req])
                  else case body of
                    None \<Rightarrow> (Inr resp, [req])
                  | Some replayBody \<Rightarrow>
                      (case requestWithInternalRedirects P w rb maxr (hop + 1) (redirected req target replayBody) of
                         (res, sent) \<Rightarrow> (res, req # sent)))"
  by auto
termination
  by (relation "measure (\<lambda>(P, w, rb, maxr, hop, req). nat (maxr - int hop))") auto

declare requestWithInternalRedirects.simps [simp del]

definition DEFAULT_INTERNAL_REDIRECT_REPLAY_BUFFER_BYTES :: nat where
  "DEFAULT_INTERNAL_REDIRECT_REPLAY_BUFFER_BYTES = 16 * 1024"

definition DEFAULT_MAX_INTERNAL_REDIRECTS :: int where
  "DEFAULT_MAX_INTERNAL_REDIRECTS = 3"

text \<open>\<open>request\<close>. The last component tells whether the replayable body was aborted.\<close>

definition broker_request_api :: "'p platform_scheme \<Rightarrow> redirect_world \<Rightarrow> int option \<Rightarrow> nat option \<Rightarrow> bool \<Rightarrow> bool \<Rightarrow> VerserHeaders
    \<Rightarrow> request_body \<Rightarrow> broker_request \<Rightarrow> broker_response result \<times> broker_request list \<times> bool" where
  "broker_request_api P w maxRedirects replayBytes aborted has_session headers body req =
     (if aborted then (createAbortError, [], False)
      else case bindE (validateLocalHeaders P headers) (\<lambda>v. Inr (flattenVerserHeaders v)) of
        Inl e \<Rightarrow> (Inl e, [], False)
      | Inr hs \<Rightarrow>
          if \<not> has_session then (throwE P disconnected_target ''Broker is not connected'' [], [], False)
          else
            (let maxr = (case maxRedirects of Some m \<Rightarrow> m | None \<Rightarrow> DEFAULT_MAX_INTERNAL_REDIRECTS);
                 limit = (case replayBytes of Some n \<Rightarrow> n | None \<Rightarrow> DEFAULT_INTERNAL_REDIRECT_REPLAY_BUFFER_BYTES);
                 (res, sent) = requestWithInternalRedirects P w (createReplayableRequestBody body limit (rw_teed w)) maxr 0
                                 (req\<lparr>rq_headers := hs\<rparr>)
             in (res, sent, isl res)))"

section \<open>The replay body\<close>

datatype source_event = Data bytes | Ended | Failed | TeeClosed | Aborted

fun replay_event :: "nat \<Rightarrow> source_event \<Rightarrow> replay \<Rightarrow> replay" where
  "replay_event limit (Data b) r = replay_onData limit b r"
| "replay_event limit Ended r = replay_onEnd r"
| "replay_event limit Failed r = replay_onError r"
| "replay_event limit TeeClosed r = abortSource r"
| "replay_event limit Aborted r = replay_abort r"

definition replay_run :: "nat \<Rightarrow> source_event list \<Rightarrow> replay" where
  "replay_run limit es = fold (replay_event limit) es new_replay"

definition bytes_total :: "bytes list \<Rightarrow> nat" where
  "bytes_total cs = sum_list (map length cs)"

lemma bytes_total_simps [simp]: "bytes_total [] = 0" "bytes_total (cs @ ds) = bytes_total cs + bytes_total ds" "bytes_total (c # cs) = length c + bytes_total cs"
  by (simp_all add: bytes_total_def)

definition replay_inv :: "nat \<Rightarrow> replay \<Rightarrow> bool" where
  "replay_inv limit r \<longleftrightarrow>
     rp_total r = bytes_total (rp_tee r) \<and> rp_replayable r = (rp_total r \<le> limit) \<and>
     rp_chunks r = (if rp_replayable r then rp_tee r else []) \<and> \<not> (rp_sourceEnded r \<and> rp_sourceAborted r) \<and>
     (rp_failed r \<longrightarrow> rp_sourceAborted r) \<and>
     rp_decision r = (if rp_sourceEnded r then Some (if rp_total r \<le> limit then Some (rp_tee r) else None)
                      else if rp_sourceAborted r then Some None else None)"

lemmas replay_defs = replay_onData_def replay_onEnd_def replay_onError_def abortSource_def replay_abort_def
  settleReplayDecision_def listening_def Let_def

lemma replay_inv_new: "replay_inv limit new_replay"
  by (simp add: replay_inv_def new_replay_def)

lemma replay_inv_event: "replay_inv limit r \<Longrightarrow> replay_inv limit (replay_event limit e r)"
  by (cases e) (auto simp: replay_defs replay_inv_def)

lemma replay_inv_run: "replay_inv limit (replay_run limit es)"
  unfolding replay_run_def
  by (rule fold_invariant [where Q = "\<lambda>_. True"]) (simp_all add: replay_inv_new replay_inv_event)

lemma replay_chunks_exact:
  "replay_chunks limit tot acc cs = (if tot + bytes_total cs \<le> limit \<or> cs = [] then Some (acc @ cs) else None)"
  by (induction cs arbitrary: tot acc) auto

section \<open>The promise of a single request\<close>

lemma settle_first_keeps: "on_outcome s = Some v \<Longrightarrow> settle_first w s = s"
  by (simp add: settle_first_def)

lemma settleReject_keeps: "on_outcome s = Some v \<Longrightarrow> on_outcome (settleReject a e s) = Some v"
  by (simp add: settleReject_def settle_first_def)

lemma handle_once_keeps: "on_outcome s = Some v \<Longrightarrow> on_outcome (handle_once P synmsg q ev s) = Some v"
  by (cases "(P, synmsg, q, ev, s)" rule: handle_once.cases)
    (auto simp: on_response_def on_errorBody_def on_close_first_def on_close_body_def on_bodyError_def Let_def
      settleReject_keeps settle_first_def split: sum.splits VerserResponseClassification.splits option.splits)

lemma run_once_keeps: "on_outcome s = Some v \<Longrightarrow> on_outcome (run_once P synmsg q evs s) = Some v"
  unfolding run_once_def by (induction evs arbitrary: s) (simp_all add: handle_once_keeps)

lemma decoded_headers_ok:
  assumes "lower_ok P" and "metadata_headers P False v = Inr hs"
  shows "\<forall>p \<in> set hs. pair_ok P p"
proof -
  obtain raw where "normalizeHeaderPairs P raw = Inr hs"
    using assms(2)
    by (auto simp: metadata_headers_def protocolError_def bindE_Inr_iff split: option.splits json.splits if_splits)
      (auto simp: protocolError_def bindE_Inr_iff split: sum.splits if_splits)
  then show ?thesis by (rule normalizeHeaderPairs_ok [OF assms(1)])
qed

lemma classified_headers_ok:
  assumes "lower_ok P" and "classifyVerserResponseMetadata P status rid vals = Inr (application_response (Some m))"
  shows "\<forall>p \<in> set (md_headers m). pair_ok P p"
proof -
  obtain encoded where "decodeVerserResponseMetadata P encoded = Inr m"
    using assms(2)
    by (auto simp: classifyVerserResponseMetadata_def protocolError_def bindE_Inr_iff split: option.splits if_splits)
  then obtain parsed where "validateResponseMetadata P False parsed = Inr m"
    by (auto simp: decodeVerserResponseMetadata_def protocolError_def bindE_Inr_iff split: option.splits)
  then obtain v where "metadata_headers P False v = Inr (md_headers m)"
    by (auto simp: validateResponseMetadata_def protocolError_def bindE_Inr_iff split: json.splits if_splits)
  then show ?thesis by (rule decoded_headers_ok [OF assms(1)])
qed

text \<open>The headers of decoded metadata have been validated, so building the response cannot throw.\<close>

lemma build_response_ok:
  assumes "lower_ok P" and "classifyVerserResponseMetadata P status rid vals = Inr (application_response metadata)"
  shows "\<exists>resp. build_response P rid status headers metadata = Inr resp"
proof (cases metadata)
  case (Some m)
  then have "normalizeHeaderPairs P (map pair_json (md_headers m)) = Inr (md_headers m)"
    using classified_headers_ok [OF assms(1)] assms(2) by (intro normalizeHeaderPairs_id) blast
  then show ?thesis using Some by (simp add: build_response_def flattenVerserHeaderPairs_def)
qed (simp add: build_response_def)

definition once_ok :: "once \<Rightarrow> bool" where
  "once_ok s \<longleftrightarrow> (on_settled s \<longrightarrow> on_outcome s \<noteq> None)"

lemma settleReject_settles [simp]: "once_ok s \<Longrightarrow> on_outcome (settleReject a e s) \<noteq> None"
  by (auto simp: settleReject_def settle_first_def once_ok_def)

lemma settleReject_once_ok [simp]: "once_ok s \<Longrightarrow> once_ok (settleReject a e s)"
  unfolding once_ok_def [of "settleReject a e s"] by simp

lemma once_ok_update [simp]:
  "once_ok (s\<lparr>on_reset := x\<rparr>) = once_ok s" "once_ok (s\<lparr>on_bodyDestroyed := x\<rparr>) = once_ok s"
  "once_ok (s\<lparr>on_written := ws\<rparr>) = once_ok s" "once_ok (s\<lparr>on_ended := x\<rparr>) = once_ok s"
  by (simp_all add: once_ok_def)

lemma on_response_once_ok:
  assumes "lower_ok P" and "once_ok s"
  shows "once_ok (on_response P rid aborted status vals headers s)"
proof (cases "classifyVerserResponseMetadata P status rid vals")
  case (Inl e)
  then show ?thesis using assms(2) by (simp add: on_response_def)
next
  case (Inr c)
  show ?thesis
  proof (cases c)
    case (application_response metadata)
    obtain resp where "build_response P rid status headers metadata = Inr resp"
      using build_response_ok [OF assms(1)] Inr application_response by blast
    with Inr application_response show ?thesis
      by (simp add: on_response_def once_ok_def settle_first_def Let_def)
  qed (use Inr assms(2) in \<open>simp add: on_response_def\<close>)
qed

lemma handle_once_ok:
  assumes "lower_ok P" and "once_ok s"
  shows "once_ok (handle_once P synmsg q ev s)"
  using assms on_response_once_ok [OF assms]
  by (cases "(P, synmsg, q, ev, s)" rule: handle_once.cases)
    (auto simp: on_errorBody_def on_close_first_def on_close_body_def on_bodyError_def Let_def split: sum.splits option.splits)

lemma run_once_ok: "lower_ok P \<Longrightarrow> once_ok s \<Longrightarrow> once_ok (run_once P synmsg q evs s)"
  unfolding run_once_def by (induction evs arbitrary: s) (simp_all add: handle_once_ok)

lemma write_chunks_once_ok: "once_ok s \<Longrightarrow> once_ok (write_chunks aborted i cs s)"
  by (induction cs arbitrary: i s) simp_all

lemma start_once_ok: "once_ok (requestOnce_start P aborted has_session opened body)"
proof -
  have "once_ok new_once" "once_ok (settle_first v new_once)" for v
    by (simp_all add: once_ok_def new_once_def settle_first_def)
  then show ?thesis
    by (simp add: requestOnce_start_def write_chunks_once_ok split: option.split request_body.split)
qed

lemma close_settles:
  assumes "once_ok s"
  shows "on_outcome (handle_once P synmsg q (aborted, StreamClose rst) s) \<noteq> None"
proof -
  have first: "on_outcome (on_close_first P (oq_target q) aborted s) \<noteq> None"
    using settleReject_settles [OF assms] assms by (simp only: on_close_first_def once_ok_def split: if_split) blast
  then show ?thesis
    by (auto simp: on_close_body_def Let_def settleReject_def settle_first_def split: option.splits)
qed

section \<open>Chains of redirects\<close>

text \<open>The request \<open>q'\<close> is what the answer to \<open>q\<close> in round \<open>hop\<close> redirects it to.\<close>

definition redirect_follows :: "redirect_world \<Rightarrow> (nat \<Rightarrow> bytes list option) \<Rightarrow> nat \<Rightarrow> broker_request \<Rightarrow> broker_request \<Rightarrow> bool" where
  "redirect_follows w rb hop q q' \<longleftrightarrow>
     (\<exists>resp route (url :: parsed_url) body. rw_once w hop q = Inr resp \<and> rs_statusCode resp \<in> {307, 308} \<and>
        route \<in> set (rw_routes w hop) \<and> domain route = url_hostname url \<and> rb hop = Some body \<and>
        q' = q\<lparr>rq_targetId := targetId route, rq_routeDomain := Some (domain route),
               rq_path := url_pathname url @ url_search url, rq_body := body\<rparr>)"

fun redirect_chain :: "redirect_world \<Rightarrow> (nat \<Rightarrow> bytes list option) \<Rightarrow> nat \<Rightarrow> broker_request list \<Rightarrow> bool" where
  "redirect_chain w rb hop (q # q' # qs) \<longleftrightarrow> redirect_follows w rb hop q q' \<and> redirect_chain w rb (hop + 1) (q' # qs)"
| "redirect_chain w rb hop _ \<longleftrightarrow> True"

lemma resolveInternalRedirect_Some:
  assumes "resolveInternalRedirect parse routes resp path = Some (route, url)"
  shows "rs_statusCode resp \<in> {307, 308} \<and> route \<in> set routes \<and> domain route = url_hostname url"
  using assms
  by (auto simp: resolveInternalRedirect_def resolveRouteForUrl_def resolveRouteForHostname_def
        find_Some_iff split: if_splits option.splits)

lemma awaitReplay_Inr: "awaitReplayOrAbort w rb hop = Inr body \<Longrightarrow> rb hop = body"
  by (auto simp: awaitReplayOrAbort_def createAbortError_def split: if_splits)

text \<open>One round: the request ends here, or its answer is followed.\<close>

lemma redirect_round:
  obtains (stop) res where "requestWithInternalRedirects P w rb maxr hop q = (res, [])" and "isl res"
  | (last_round) res where "requestWithInternalRedirects P w rb maxr hop q = (res, [q])" and
      "\<forall>resp. res = Inr resp \<longrightarrow> rw_once w hop q = Inr resp"
  | (follow_on) q' res sent where "int hop < maxr" and "redirect_follows w rb hop q q'" and
      "requestWithInternalRedirects P w rb maxr (hop + 1) q' = (res, sent)" and
      "requestWithInternalRedirects P w rb maxr hop q = (res, q # sent)"
proof -
  let ?f = "requestWithInternalRedirects P w rb maxr"
  note unfold = requestWithInternalRedirects.simps [of P w rb maxr hop q]
  show thesis
  proof (cases "\<not> rw_aborted w hop 0 \<and> (\<exists>resp target body. rw_once w hop q = Inr resp \<and> \<not> rw_aborted w hop 1 \<and>
      resolveInternalRedirect (rw_parse w) (rw_routes w hop) resp (rq_path q) = Some target \<and> int hop < maxr \<and>
      awaitReplayOrAbort w rb hop = Inr (Some body) \<and> \<not> rw_aborted w hop 4)")
    case True
    then obtain resp route url body where t: "\<not> rw_aborted w hop 0" "rw_once w hop q = Inr resp" "\<not> rw_aborted w hop 1"
      "resolveInternalRedirect (rw_parse w) (rw_routes w hop) resp (rq_path q) = Some (route, url)" "int hop < maxr"
      "awaitReplayOrAbort w rb hop = Inr (Some body)" "\<not> rw_aborted w hop 4" by (metis surj_pair)
    have "redirect_follows w rb hop q (redirected q (route, url) body)"
      using resolveInternalRedirect_Some [OF t(4)] awaitReplay_Inr [OF t(6)] t(2)
      unfolding redirect_follows_def redirected_def
      by (intro exI [of _ resp] exI [of _ route] exI [of _ url] exI [of _ body]) simp
    moreover obtain res sent where "?f (hop + 1) (redirected q (route, url) body) = (res, sent)" by fastforce
    ultimately show thesis using t by (intro follow_on) (simp_all add: unfold)
  next
    case False
    show thesis
    proof (cases "rw_aborted w hop 0")
      case True
      then show thesis by (intro stop [of createAbortError]) (simp_all add: unfold createAbortError_def)
    next
      case go: False
      obtain res sent where r: "?f hop q = (res, sent)" by fastforce
      with False go have "sent = [q] \<and> (\<forall>resp. res = Inr resp \<longrightarrow> rw_once w hop q = Inr resp)"
        by (auto simp: unfold createAbortError_def throwE_def not_le split: sum.splits if_splits option.splits)
      then show thesis using r by (intro last_round [of res]) auto
    qed
  qed
qed

lemma redirects_correct:
  assumes "requestWithInternalRedirects P w rb maxr hop q = (res, sent)"
  shows "length sent \<le> nat (maxr - int hop) + 1 \<and> redirect_chain w rb hop sent \<and> (sent \<noteq> [] \<longrightarrow> hd sent = q) \<and>
    (\<forall>resp. res = Inr resp \<longrightarrow> sent \<noteq> [] \<and> rw_once w (hop + length sent - 1) (last sent) = Inr resp)"
  using assms
proof (induction "nat (maxr - int hop)" arbitrary: hop q res sent rule: less_induct)
  case less
  show ?case
  proof (cases rule: redirect_round [of P w rb maxr hop q])
    case (follow_on q' res' sent')
    have IH: "length sent' \<le> nat (maxr - int (hop + 1)) + 1 \<and> redirect_chain w rb (hop + 1) sent' \<and> (sent' \<noteq> [] \<longrightarrow> hd sent' = q') \<and>
      (\<forall>resp. res' = Inr resp \<longrightarrow> sent' \<noteq> [] \<and> rw_once w (hop + 1 + length sent' - 1) (last sent') = Inr resp)"
      using follow_on(1,3) by (intro less.hyps) auto
    moreover have "sent = q # sent'" "res = res'" using less.prems follow_on(4) by auto
    moreover have "redirect_chain w rb hop (q # sent')"
      using IH follow_on(2) by (cases sent') auto
    ultimately show ?thesis using follow_on(1) by auto
  qed (use less.prems in auto)
qed

lemma redirect_chain_same:
  "redirect_chain w rb hop (q # qs) \<Longrightarrow> q' \<in> set qs \<Longrightarrow> rq_method q' = rq_method q \<and> rq_headers q' = rq_headers q"
proof (induction qs arbitrary: hop q)
  case (Cons p qs)
  then show ?case by (auto simp: redirect_follows_def)
qed simp

section \<open>Properties\<close>

text \<open>A request body that is a stream is kept exactly: what the promise of the replay body resolves to is
  settled once the source ended, failed or was aborted, it is the whole body that was forwarded when the source ended
  within the limit and nothing otherwise, and never more bytes than the limit are kept.\<close>

theorem replay_body_exact:
  "(let r = replay_run limit events in
     getReplayBody r =
       (if rp_sourceEnded r then Some (if bytes_total (rp_tee r) \<le> limit then Some (rp_tee r) else None)
        else if rp_sourceAborted r then Some None else None) \<and>
     bytes_total (rp_chunks r) \<le> limit)"
  using replay_inv_run [of limit events] by (auto simp: Let_def replay_inv_def getReplayBody_def)

text \<open>C17: The promise of a single request is settled when its stream has closed, whatever the events before it
  were, and no later event changes its outcome.\<close>

theorem request_promise_settles:
  assumes "lower_ok P"
  shows "\<exists>v. \<forall>later. on_outcome (run_once P synmsg q (before @ (aborted, StreamClose rst) # later)
             (requestOnce_start P abort_at has_session opened body)) = Some v"
proof -
  let ?s = "run_once P synmsg q before (requestOnce_start P abort_at has_session opened body)"
  let ?c = "handle_once P synmsg q (aborted, StreamClose rst) ?s"
  obtain v where v: "on_outcome ?c = Some v"
    using close_settles [OF run_once_ok [OF assms start_once_ok]] by (metis not_None_eq)
  moreover have "run_once P synmsg q (before @ (aborted, StreamClose rst) # later)
      (requestOnce_start P abort_at has_session opened body) = run_once P synmsg q later ?c" for later
    by (simp add: run_once_def)
  ultimately show ?thesis using run_once_keeps [OF v] by (intro exI [of _ v] allI) (simp only:)
qed

definition sample_once :: once_request where
  "sample_once = \<lparr>oq_requestId = js ''b-1'', oq_target = js ''g'', oq_streaming = False\<rparr>"

theorem request_promise_settles_witness:
  "\<exists>v. \<forall>later. on_outcome (run_once sample_platform id sample_once
       ([(False, Response 502 None [])] @ (False, StreamClose None) # later)
       (requestOnce_start sample_platform (\<lambda>_. False) True None NoBody)) = Some v"
  by (rule request_promise_settles) simp

text \<open>A stream that is closed before its response is reported by the listener of \<open>close\<close> that was added first, so
  the message of the second listener, with the reset code, is never seen.\<close>

lemma reset_message_unreachable:
  "once_ok s \<Longrightarrow> on_outcome (handle_once P synmsg q (aborted, StreamClose rst) s) =
     on_outcome (on_close_first P (oq_target q) aborted s)"
  using close_settles [of s P synmsg "q\<lparr>oq_streaming := False\<rparr>" aborted rst]
  by (auto simp: Let_def on_close_body_def settleReject_def settle_first_def split: option.splits)

text \<open>C15: Internal redirects are bounded and faithful: at most \<open>maxInternalRedirects\<close> requests follow the first,
  each is what a 307 or 308 answer to the one before it leads to, on a route the Broker knew then, with the
  kept body and the same method and headers; and a response that is returned is the answer to the last
  request that was sent.\<close>

theorem redirects_bounded:
  assumes "broker_request_api P w maxRedirects replayBytes aborted has_session headers body req = (res, sent, dropped)"
  shows "length sent \<le> nat (case maxRedirects of Some m \<Rightarrow> m | None \<Rightarrow> DEFAULT_MAX_INTERNAL_REDIRECTS) + 1 \<and>
    redirect_chain w (createReplayableRequestBody body (case replayBytes of Some n \<Rightarrow> n | None \<Rightarrow> DEFAULT_INTERNAL_REDIRECT_REPLAY_BUFFER_BYTES)
      (rw_teed w)) 0 sent \<and>
    (\<forall>q \<in> set sent. rq_method q = rq_method req \<and> rq_headers q = rq_headers (hd sent)) \<and>
    (\<forall>resp. res = Inr resp \<longrightarrow> sent \<noteq> [] \<and> rw_once w (length sent - 1) (last sent) = Inr resp)"
proof (cases "sent = []")
  case True
  then show ?thesis
    using assms redirects_correct
    by (auto simp: broker_request_api_def Let_def createAbortError_def throwE_def split: if_splits sum.splits prod.splits) fastforce
next
  case False
  then obtain hs where r: "requestWithInternalRedirects P w
      (createReplayableRequestBody body (case replayBytes of Some n \<Rightarrow> n | None \<Rightarrow> DEFAULT_INTERNAL_REDIRECT_REPLAY_BUFFER_BYTES) (rw_teed w))
      (case maxRedirects of Some m \<Rightarrow> m | None \<Rightarrow> DEFAULT_MAX_INTERNAL_REDIRECTS) 0 (req\<lparr>rq_headers := hs\<rparr>) = (res, sent)"
    using assms by (auto simp: broker_request_api_def Let_def split: if_splits sum.splits prod.splits)
  note all = redirects_correct [OF r]
  have "sent = (req\<lparr>rq_headers := hs\<rparr>) # tl sent" using all False by (cases sent) auto
  then have "\<forall>q \<in> set sent. rq_method q = rq_method req \<and> rq_headers q = rq_headers (hd sent)"
    using all redirect_chain_same by (metis (no_types, lifting) broker_request.select_convs(3) broker_request.surjective
        broker_request.update_convs(5) list.sel(1) set_ConsD)
  then show ?thesis using all False by simp
qed

definition sample_world :: redirect_world where
  "sample_world = \<lparr>rw_once = (\<lambda>hop q. Inr \<lparr>rs_requestId = [], rs_statusCode = (if hop = 0 then 307 else 200),
      rs_headers = [(js ''location'', js ''http://b/x'')], rs_statusText = None, rs_headerPairs = None\<rparr>),
     rw_routes = (\<lambda>_. [\<lparr>targetId = js ''g'', domain = js ''b''\<rparr>]), rw_aborted = (\<lambda>_ _. False), rw_teed = (\<lambda>_. None),
     rw_parse = (\<lambda>_ _. Some \<lparr>url_hostname = js ''b'', url_pathname = js ''/x'', url_search = []\<rparr>)\<rparr>"

definition sample_broker_request :: broker_request where
  "sample_broker_request = \<lparr>rq_targetId = js ''f'', rq_routeDomain = None, rq_method = js ''GET'', rq_path = js ''/'',
     rq_headers = [], rq_body = [[1]]\<rparr>"

theorem redirects_bounded_witness:
  "\<exists>sent. fst (snd (broker_request_api sample_platform sample_world None None False True [] (BufferBody [[1]]) sample_broker_request)) = sent \<and>
     map rq_targetId sent = [js ''f'', js ''g''] \<and> length sent \<le> nat DEFAULT_MAX_INTERNAL_REDIRECTS + 1"
proof -
  let ?r = "broker_request_api sample_platform sample_world None None False True [] (BufferBody [[1]]) sample_broker_request"
  have "map rq_targetId (fst (snd ?r)) = [js ''f'', js ''g'']"
    by (simp add: broker_request_api_def validateLocalHeaders_def flattenVerserHeaders_def sample_world_def sample_broker_request_def
        requestWithInternalRedirects.simps resolveInternalRedirect_def resolveRouteForUrl_def resolveRouteForHostname_def
        awaitReplayOrAbort_def DEFAULT_MAX_INTERNAL_REDIRECTS_def DEFAULT_INTERNAL_REDIRECT_REPLAY_BUFFER_BYTES_def
        redirected_def)
  moreover have "?r = (fst ?r, fst (snd ?r), snd (snd ?r))" by simp
  from redirects_bounded [OF this] have "length (fst (snd ?r)) \<le> nat DEFAULT_MAX_INTERNAL_REDIRECTS + 1" by simp
  ultimately show ?thesis by auto
qed

end
