(* ===== verification/Broker_Session.thy ===== *)
theory Broker_Session
  imports Broker_Requests
begin

text \<open>
  The connection of a Broker to its Host and the handshake of a WebSocket, the methods \<open>connect\<close>, \<open>close\<close>,
  \<open>register\<close>, \<open>waitForRegistration\<close> and \<open>webSocket\<close> of
  \<open>verser2-guest-node/src/lib/http2-verser-broker.ts\<close>.

  HTTP/2 sessions are numbered in the order they are opened. \<open>cn_dead\<close> holds the sessions that are closed or
  destroyed; the \<open>close\<close> event of such a session is a later step.
  The TLS options and the wait of \<open>close\<close> for the session to end are not modelled.
\<close>

section \<open>The session\<close>

record broker_connection =
  cn_session :: "nat option"
  cn_controlStream :: "nat option"
  cn_dead :: "nat list"
  cn_opened :: nat

definition new_connection :: broker_connection where
  "new_connection = \<lparr>cn_session = None, cn_controlStream = None, cn_dead = [], cn_opened = 0\<rparr>"

definition broker_constructor :: "'p platform_scheme \<Rightarrow> (jsstr \<times> jsstr) list \<Rightarrow> broker_connection result" where
  "broker_constructor P options =
     (if map_of options (js ''brokerHopDomain'') \<noteq> None
      then throwE P invalid_registration ''brokerHopDomain is not supported; use brokerDomain''
             [(''brokerId'', CStr (case map_of options (js ''brokerId'') of Some b \<Rightarrow> b | None \<Rightarrow> []))]
      else Inr new_connection)"

text \<open>\<open>connect\<close> up to its first \<open>await\<close>; \<open>None\<close> when there is nothing to do.\<close>

definition connect_begin :: "broker_connection \<Rightarrow> nat option \<times> broker_connection" where
  "connect_begin c =
     (if \<exists>s. cn_session c = Some s \<and> s \<notin> set (cn_dead c) then (None, c)
      else (Some (cn_opened c), c\<lparr>cn_session := Some (cn_opened c), cn_opened := cn_opened c + 1\<rparr>))"

definition forget_session :: "nat \<Rightarrow> broker_connection \<Rightarrow> broker_connection" where
  "forget_session s c = (if cn_session c = Some s then c\<lparr>cn_session := None, cn_controlStream := None\<rparr> else c)"

definition on_session_close :: "nat \<Rightarrow> broker_connection \<Rightarrow> broker_connection" where
  "on_session_close s c = forget_session s (c\<lparr>cn_dead := List.insert s (cn_dead c)\<rparr>)"

definition connect_failed :: "nat \<Rightarrow> broker_connection \<Rightarrow> broker_connection" where
  "connect_failed s c = forget_session s (c\<lparr>cn_dead := List.insert s (cn_dead c)\<rparr>)"

text \<open>\<open>register\<close>: the control stream is opened and read before the domain is checked. The body is what is sent.\<close>

definition register_body :: "'p platform_scheme \<Rightarrow> jsstr \<Rightarrow> jsstr option \<Rightarrow> json result" where
  "register_body P brokerId brokerDomain =
     (let normalized = map_option (normalizeVerserRouteDomain P) brokerDomain
      in if brokerDomain \<noteq> None \<and> normalized = Some []
         then throwE P invalid_registration ''brokerDomain must be a non-empty domain'' [(''brokerId'', CStr brokerId)]
         else Inr (JObj ([(js ''peerId'', JStr brokerId), (js ''role'', JStr (js ''broker''))] @
                (case normalized of None \<Rightarrow> [] | Some d \<Rightarrow> [(js ''brokerDomain'', JStr d)]))))"

definition register :: "'p platform_scheme \<Rightarrow> jsstr \<Rightarrow> jsstr option \<Rightarrow> nat \<Rightarrow> broker_connection \<Rightarrow> json result \<times> broker_connection" where
  "register P brokerId brokerDomain s c = (register_body P brokerId brokerDomain, c\<lparr>cn_controlStream := Some s\<rparr>)"

text \<open>\<open>waitForRegistration\<close> is settled by the first frame, error or close; \<open>None\<close> while it waits.\<close>

datatype registration_event = GotFrame | RegistrationError thrown | RegistrationClose

fun waitForRegistration :: "'p platform_scheme \<Rightarrow> registration_event list \<Rightarrow> unit result option" where
  "waitForRegistration P [] = None"
| "waitForRegistration P (GotFrame # es) = Some (Inr ())"
| "waitForRegistration P (RegistrationError e # es) = Some (Inl e)"
| "waitForRegistration P (RegistrationClose # es) = Some (throwE P invalid_registration ''Broker registration stream closed'' [])"

definition close_broker :: "broker_connection \<Rightarrow> broker_connection" where
  "close_broker c =
     (case cn_session c of
        None \<Rightarrow> c
      | Some s \<Rightarrow> c\<lparr>cn_session := None, cn_dead := List.insert s (cn_dead c)\<rparr>)"

text \<open>The whole of \<open>connect\<close> for one opened session: the outcome of the connection, then the registration.\<close>

definition connect_rest :: "'p platform_scheme \<Rightarrow> jsstr \<Rightarrow> jsstr option \<Rightarrow> unit result \<Rightarrow> registration_event list \<Rightarrow> nat
    \<Rightarrow> broker_connection \<Rightarrow> unit result option \<times> broker_connection" where
  "connect_rest P brokerId brokerDomain tcp es s c =
     (case tcp of
        Inl e \<Rightarrow> (Some (Inl e), connect_failed s c)
      | Inr _ \<Rightarrow>
          (case register P brokerId brokerDomain s c of
             (Inl e, c1) \<Rightarrow> (Some (Inl e), connect_failed s c1)
           | (Inr _, c1) \<Rightarrow>
               (case waitForRegistration P es of
                  None \<Rightarrow> (None, c1)
                | Some (Inl e) \<Rightarrow> (Some (Inl e), connect_failed s c1)
                | Some (Inr _) \<Rightarrow> (Some (Inr ()), c1))))"

inductive cn_step :: "broker_connection \<Rightarrow> broker_connection \<Rightarrow> bool" where
  connect: "cn_step c (snd (connect_begin c))"
| connected: "s < cn_opened c \<Longrightarrow> cn_step c (snd (connect_rest (P :: platform) brokerId brokerDomain tcp es s c))"
| closed: "s < cn_opened c \<Longrightarrow> cn_step c (on_session_close s c)"
| close: "cn_step c (close_broker c)"

inductive cn_reachable :: "broker_connection \<Rightarrow> bool" where
  start: "cn_reachable new_connection"
| step: "cn_reachable c \<Longrightarrow> cn_step c c' \<Longrightarrow> cn_reachable c'"

definition cn_inv :: "broker_connection \<Rightarrow> bool" where
  "cn_inv c \<longleftrightarrow>
     set_option (cn_session c) \<subseteq> {..<cn_opened c} \<and> set (cn_dead c) \<subseteq> {..<cn_opened c} \<and>
     {..<cn_opened c} - set (cn_dead c) \<subseteq> set_option (cn_session c)"

lemma cn_inv_forget: "s \<in> set (cn_dead c) \<Longrightarrow> cn_inv c \<Longrightarrow> cn_inv (forget_session s c)"
  by (fastforce simp: cn_inv_def forget_session_def)

lemma cn_inv_dead: "s < cn_opened c \<Longrightarrow> cn_inv c \<Longrightarrow> cn_inv (forget_session s (c\<lparr>cn_dead := List.insert s (cn_dead c)\<rparr>))"
  by (rule cn_inv_forget) (auto simp: cn_inv_def)

lemma cn_inv_control: "cn_inv (c\<lparr>cn_controlStream := x\<rparr>) = cn_inv c"
  by (simp add: cn_inv_def)

lemma cn_inv_connect_rest:
  "s < cn_opened c \<Longrightarrow> cn_inv c \<Longrightarrow> cn_inv (snd (connect_rest P brokerId brokerDomain tcp es s c))"
  using cn_inv_dead [of s "c\<lparr>cn_controlStream := Some s\<rparr>"] cn_inv_dead [of s c]
  by (auto simp: connect_rest_def register_def connect_failed_def cn_inv_control split: sum.split option.split)

lemma cn_inv_begin: "cn_inv c \<Longrightarrow> cn_inv (snd (connect_begin c))"
  by (auto simp: connect_begin_def cn_inv_def less_Suc_eq)

lemma cn_inv_close: "cn_inv c \<Longrightarrow> cn_inv (close_broker c)"
  by (auto simp: close_broker_def cn_inv_def split: option.split)

lemma cn_reachable_inv: "cn_reachable c \<Longrightarrow> cn_inv c"
proof (induction rule: cn_reachable.induct)
  case start
  show ?case by (simp add: cn_inv_def new_connection_def)
next
  case (step c c')
  from step.hyps(2) step.IH show ?case
    by cases (auto simp: on_session_close_def intro: cn_inv_begin cn_inv_connect_rest cn_inv_close cn_inv_dead)
qed

section \<open>The WebSocket handshake\<close>

definition websocket_headers :: "jsstr \<Rightarrow> jsstr \<Rightarrow> jsstr \<Rightarrow> jsstr option \<Rightarrow> jsstr option \<Rightarrow> (jsstr \<times> jsstr) list" where
  "websocket_headers brokerId target dmn protocol path =
     [(js '':method'', js ''POST''), (js '':path'', js ''/verser/websocket''), (js ''x-verser-target-id'', target),
      (js ''x-verser-domain'', dmn), (js ''x-verser-source-id'', brokerId)] @
     (case protocol of Some p \<Rightarrow> if 0 < length p then [(js ''x-verser-ws-protocol'', p)] else [] | None \<Rightarrow> []) @
     (case path of Some p \<Rightarrow> if 0 < length p then [(js ''x-verser-ws-path'', p)] else [] | None \<Rightarrow> [])"

definition maxErrorBodyBytes :: nat where
  "maxErrorBodyBytes = 64 * 1024"

text \<open>\<open>hs_status\<close> is the status of a refused handshake, for which the listeners of the body exist.\<close>

record handshake =
  hs_outcome :: "jsstr result option"
  hs_status :: "int option"
  hs_chunks :: "bytes list"
  hs_bodyBytes :: nat

definition new_handshake :: handshake where
  "new_handshake = \<lparr>hs_outcome = None, hs_status = None, hs_chunks = [], hs_bodyBytes = 0\<rparr>"

definition settleOnce :: "jsstr result \<Rightarrow> handshake \<Rightarrow> handshake" where
  "settleOnce v h = (if hs_outcome h = None then h\<lparr>hs_outcome := Some v\<rparr> else h)"

definition handshake_response :: "int \<Rightarrow> jsstr option \<Rightarrow> handshake \<Rightarrow> handshake" where
  "handshake_response status protocol h =
     (if status \<noteq> 200 then h\<lparr>hs_status := Some status\<rparr>
      else settleOnce (Inr (case protocol of Some p \<Rightarrow> p | None \<Rightarrow> [])) h)"

definition handshake_data :: "bytes \<Rightarrow> handshake \<Rightarrow> handshake" where
  "handshake_data chunk h =
     (if hs_status h \<noteq> None \<and> hs_bodyBytes h < maxErrorBodyBytes
      then (let bounded = take (maxErrorBodyBytes - hs_bodyBytes h) chunk
            in h\<lparr>hs_chunks := hs_chunks h @ [bounded], hs_bodyBytes := hs_bodyBytes h + length bounded\<rparr>)
      else h)"

definition refused_error :: "'p platform_scheme \<Rightarrow> (jsstr \<Rightarrow> jsstr) \<Rightarrow> jsstr \<Rightarrow> jsstr \<Rightarrow> int \<Rightarrow> bytes \<Rightarrow> jsstr result" where
  "refused_error P synmsg target dmn status body =
     (case verserErrorFromResponseBody P synmsg body target of
        Inr parsed \<Rightarrow>
          Inl (Verser (createVerserError P (err_code parsed) (err_message parsed)
                 (fromEntries (err_context parsed @
                    [(js ''domain'', CStr dmn),
                     (js ''status'', CNum (Fin (if err_code parsed = missing_guest then 404 else of_int status)))]))))
      | Inl _ \<Rightarrow>
          Inl (Verser (createVerserError P (if status = 404 then missing_guest else protocol_error)
                 (js ''WebSocket request failed with status '' @ numberToString P (Fin (of_int status)))
                 [(js ''targetId'', CStr target), (js ''domain'', CStr dmn)])))"

definition handshake_end :: "'p platform_scheme \<Rightarrow> (jsstr \<Rightarrow> jsstr) \<Rightarrow> jsstr \<Rightarrow> jsstr \<Rightarrow> handshake \<Rightarrow> handshake" where
  "handshake_end P synmsg target dmn h =
     (case hs_status h of
        None \<Rightarrow> h
      | Some status \<Rightarrow> settleOnce (refused_error P synmsg target dmn status (concat (hs_chunks h))) h)"

definition handshake_close :: "'p platform_scheme \<Rightarrow> jsstr \<Rightarrow> handshake \<Rightarrow> handshake" where
  "handshake_close P target h =
     settleOnce (throwE P protocol_error ''WebSocket stream closed before handshake response'' [(''targetId'', CStr target)]) h"

datatype handshake_event = HsResponse int "jsstr option" | HsData bytes | HsEnd | HsError thrown | HsClose

fun handshake_step :: "'p platform_scheme \<Rightarrow> (jsstr \<Rightarrow> jsstr) \<Rightarrow> jsstr \<Rightarrow> jsstr \<Rightarrow> handshake_event \<Rightarrow> handshake \<Rightarrow> handshake" where
  "handshake_step P synmsg target dmn (HsResponse status protocol) h = handshake_response status protocol h"
| "handshake_step P synmsg target dmn (HsData chunk) h = handshake_data chunk h"
| "handshake_step P synmsg target dmn HsEnd h = handshake_end P synmsg target dmn h"
| "handshake_step P synmsg target dmn (HsError e) h = settleOnce (Inl e) h"
| "handshake_step P synmsg target dmn HsClose h = handshake_close P target h"

definition handshake_run :: "'p platform_scheme \<Rightarrow> (jsstr \<Rightarrow> jsstr) \<Rightarrow> jsstr \<Rightarrow> jsstr \<Rightarrow> handshake_event list \<Rightarrow> handshake \<Rightarrow> handshake" where
  "handshake_run P synmsg target dmn es h = fold (handshake_step P synmsg target dmn) es h"

definition data_of :: "handshake_event list \<Rightarrow> bytes" where
  "data_of es = concat (map (\<lambda>e. case e of HsData c \<Rightarrow> c | _ \<Rightarrow> []) es)"

lemma settleOnce_sel [simp]:
  "hs_status (settleOnce v h) = hs_status h" "hs_chunks (settleOnce v h) = hs_chunks h" "hs_bodyBytes (settleOnce v h) = hs_bodyBytes h"
  by (simp_all add: settleOnce_def)

lemma settleOnce_keeps: "hs_outcome h = Some v \<Longrightarrow> settleOnce w h = h"
  by (simp add: settleOnce_def)

lemma handshake_step_keeps: "hs_outcome h = Some v \<Longrightarrow> hs_outcome (handshake_step P synmsg target dmn e h) = Some v"
  by (cases e) (auto simp: handshake_response_def handshake_data_def handshake_end_def handshake_close_def Let_def settleOnce_keeps
      split: option.split)

lemma handshake_run_keeps: "hs_outcome h = Some v \<Longrightarrow> hs_outcome (handshake_run P synmsg target dmn es h) = Some v"
  unfolding handshake_run_def by (induction es arbitrary: h) (simp_all add: handshake_step_keeps)

text \<open>The collected body is a prefix of what was received: the collected bytes are at most the bound, and short of
  the bound nothing is missing.\<close>

lemma handshake_data_body:
  assumes "hs_status h \<noteq> None" and "hs_bodyBytes h = length (concat (hs_chunks h))" and "concat (hs_chunks h) = take maxErrorBodyBytes got"
  shows "concat (hs_chunks (handshake_data chunk h)) = take maxErrorBodyBytes (got @ chunk)"
  using assms by (auto simp: handshake_data_def Let_def min_def not_less)

lemma handshake_step_status: "hs_status h \<noteq> None \<Longrightarrow> hs_status (handshake_step P synmsg target dmn e h) \<noteq> None"
  by (cases e) (auto simp: handshake_response_def handshake_data_def handshake_end_def handshake_close_def Let_def split: option.split)

lemma handshake_step_bytes:
  "hs_bodyBytes h = length (concat (hs_chunks h)) \<Longrightarrow>
   hs_bodyBytes (handshake_step P synmsg target dmn e h) = length (concat (hs_chunks (handshake_step P synmsg target dmn e h)))"
  by (cases e) (auto simp: handshake_response_def handshake_data_def handshake_end_def handshake_close_def Let_def split: option.split)

lemma handshake_step_body:
  assumes "hs_status h \<noteq> None" and "hs_bodyBytes h = length (concat (hs_chunks h))" and "concat (hs_chunks h) = take maxErrorBodyBytes got"
  shows "concat (hs_chunks (handshake_step P synmsg target dmn e h)) = take maxErrorBodyBytes (got @ data_of [e])"
  using assms handshake_data_body [OF assms]
  by (cases e) (auto simp: data_of_def handshake_response_def handshake_end_def handshake_close_def split: option.split)

lemma handshake_run_body:
  assumes "hs_status h \<noteq> None" and "hs_bodyBytes h = length (concat (hs_chunks h))" and "concat (hs_chunks h) = take maxErrorBodyBytes got"
  shows "concat (hs_chunks (handshake_run P synmsg target dmn es h)) = take maxErrorBodyBytes (got @ data_of es)"
  using assms
proof (induction es arbitrary: h got)
  case (Cons e es)
  let ?h = "handshake_step P synmsg target dmn e h"
  have "concat (hs_chunks (handshake_run P synmsg target dmn es ?h)) = take maxErrorBodyBytes ((got @ data_of [e]) @ data_of es)"
    by (rule Cons.IH [OF handshake_step_status handshake_step_bytes handshake_step_body]) (use Cons.prems in auto)
  then show ?case by (simp add: handshake_run_def data_of_def)
qed (simp add: handshake_run_def data_of_def)

section \<open>Properties\<close>

text \<open>C19: A Broker never leaks a session: over any interleaving of \<open>connect\<close>, its failures, \<open>close\<close> and the
  sessions' own \<open>close\<close> events, every session that is neither closed nor destroyed is the current one.\<close>

theorem broker_session_unique:
  assumes "cn_reachable c" and "s < cn_opened c" and "s \<notin> set (cn_dead c)"
  shows "cn_session c = Some s"
proof -
  have "s \<in> set_option (cn_session c)"
    using cn_reachable_inv [OF assms(1)] assms(2,3) unfolding cn_inv_def by blast
  then show ?thesis by (cases "cn_session c") auto
qed

theorem broker_session_unique_witness:
  "cn_session (snd (connect_begin (connect_failed 0 (snd (connect_begin new_connection))))) = Some 1"
proof -
  let ?a = "snd (connect_begin new_connection)"
  let ?b = "snd (connect_rest sample_platform [] None (Inl NotAFunction) [] 0 ?a)"
  have "cn_reachable (snd (connect_begin ?b))"
    by (rule cn_reachable.step [OF cn_reachable.step [OF cn_reachable.step [OF cn_reachable.start cn_step.connect]
          cn_step.connected] cn_step.connect]) (simp add: connect_begin_def new_connection_def)
  moreover have b: "?b = connect_failed 0 ?a" by (simp add: connect_rest_def)
  ultimately have "cn_reachable (snd (connect_begin (connect_failed 0 ?a)))" by simp
  from broker_session_unique [OF this, of 1] show ?thesis
    by (simp add: connect_failed_def forget_session_def connect_begin_def new_connection_def)
qed

text \<open>The promise of \<open>webSocket\<close> is settled when the stream has closed, and stays as it was settled; a handshake
  that is refused is settled, at the end of the error body, with the error made from the first 64 KiB of it.\<close>

theorem websocket_handshake_settles:
  "(\<exists>v. \<forall>later. hs_outcome (handshake_run P synmsg target dmn (before @ HsClose # later) new_handshake) = Some v) \<and>
   (\<forall>status protocol chunks later. status = 200 \<or>
      hs_outcome (handshake_run P synmsg target dmn (HsResponse status protocol # map HsData chunks @ HsEnd # later) new_handshake) =
      Some (refused_error P synmsg target dmn status (take maxErrorBodyBytes (concat chunks))))"
proof (intro conjI allI)
  let ?run = "handshake_run P synmsg target dmn"
  let ?c = "handshake_step P synmsg target dmn HsClose (?run before new_handshake)"
  have "hs_outcome ?c \<noteq> None" by (auto simp: handshake_close_def settleOnce_def)
  then obtain v where v: "hs_outcome ?c = Some v" by blast
  have "?run (before @ HsClose # later) new_handshake = ?run later ?c" for later by (simp add: handshake_run_def)
  then show "\<exists>v. \<forall>later. hs_outcome (?run (before @ HsClose # later) new_handshake) = Some v"
    using handshake_run_keeps [OF v, of P synmsg target dmn] by (intro exI [of _ v] allI) (simp only:)
  fix status protocol chunks later
  let ?h = "new_handshake\<lparr>hs_status := Some status\<rparr>"
  let ?d = "?run (map HsData chunks) ?h"
  have body: "concat (hs_chunks ?d) = take maxErrorBodyBytes (concat chunks)"
    using handshake_run_body [of ?h "[]" P synmsg target dmn "map HsData chunks"] by (simp add: new_handshake_def data_of_def comp_def)
  have open_still: "hs_outcome (?run (map HsData cs) h) = hs_outcome h \<and> hs_status (?run (map HsData cs) h) = hs_status h" for cs h
    unfolding handshake_run_def by (induction cs arbitrary: h) (simp_all add: handshake_data_def Let_def)
  have "hs_outcome (handshake_step P synmsg target dmn HsEnd ?d) =
      Some (refused_error P synmsg target dmn status (take maxErrorBodyBytes (concat chunks)))"
    using open_still [of chunks ?h] body by (simp add: handshake_end_def settleOnce_def new_handshake_def)
  from handshake_run_keeps [OF this] show "status = 200 \<or>
      hs_outcome (?run (HsResponse status protocol # map HsData chunks @ HsEnd # later) new_handshake) =
      Some (refused_error P synmsg target dmn status (take maxErrorBodyBytes (concat chunks)))"
    by (cases "status = 200") (simp_all add: handshake_run_def handshake_response_def)
qed

text \<open>The error of a refused handshake formats the message of an error again that is formatted already, so the
  code and the context are in it twice.\<close>

lemma refused_message_nested:
  assumes "verserErrorFromResponseBody P synmsg body target = Inr parsed"
  shows "\<exists>err rest. refused_error P synmsg target dmn status body = Inl (Verser err) \<and>
    err_message err = js ''['' @ code_string (err_code parsed) @ js ''] '' @ err_message parsed @ rest"
  using assms by (simp add: refused_error_def createVerserError_def formatVerserErrorMessage_def Let_def)

end
