(* ===== verification/Node_Guest.thy ===== *)
theory Node_Guest
  imports Routing
begin

text \<open>
  The Guest of a Node process, class \<open>Http2VerserNodeGuest\<close> of
  \<open>verser2-guest-node/src/lib/http2-verser-node-guest.ts\<close>: its session, the pools of lease streams it keeps
  open to the Host, the answer to a request that arrives on a lease stream, and the decision about a
  WebSocket.

  Sessions and streams are numbered in the order they are opened; \<open>gu_dead\<close> holds the sessions that are
  closed or destroyed, whose \<open>close\<close> event is a later step. The pool sizes of the options are finite numbers.
  A lease stream that is not accepted in time is closed, which is its \<open>close\<close> event.
  Not modelled here: the lifecycle events of the connection, the requests that register the Guest and revoke
  routes, the in-memory request and response objects of \<open>minimal-http.ts\<close>, beyond the flags
  \<open>headersStarted\<close> and \<open>finished\<close> the Guest reads, and \<open>dispatchRoutedRequest\<close>.
\<close>

section \<open>State\<close>

datatype GuestLeaseState = LsOpening | LsWaiting | LsActive

record Guest =
  gu_session :: "nat option"
  gu_dead :: "nat list"
  gu_sessions :: nat
  gu_leaseStreams :: "(nat \<times> GuestLeaseState) list"
  gu_leaseCounter :: nat
  gu_closing :: bool
  gu_listener :: bool
  gu_wsHandler :: bool
  gu_nativeWsHandler :: bool
  gu_wsStreams :: "nat list"
  gu_wsOpened :: nat
  gu_attachedDomain :: "jsstr option"
  gu_wsDomain :: "jsstr option"

record guest_options =
  go_guestId :: jsstr
  go_routedDomains :: "jsstr list option"
  go_minWaitingStreams :: "rat option"
  go_maxOpenStreams :: "rat option"

definition new_Guest :: Guest where
  "new_Guest = \<lparr>gu_session = None, gu_dead = [], gu_sessions = 0, gu_leaseStreams = [], gu_leaseCounter = 0, gu_closing = False,
     gu_listener = False, gu_wsHandler = False, gu_nativeWsHandler = False, gu_wsStreams = [], gu_wsOpened = 0, gu_attachedDomain = None, gu_wsDomain = None\<rparr>"

definition live :: "Guest \<Rightarrow> bool" where
  "live g \<longleftrightarrow> (case gu_session g of Some s \<Rightarrow> s \<notin> set (gu_dead g) | None \<Rightarrow> False)"

section \<open>Handlers and domains\<close>

text \<open>\<open>server\<close> is the number of request listeners of an HTTP server, \<open>None\<close> when a listener is attached itself.\<close>

definition attach :: "'p platform_scheme \<Rightarrow> guest_options \<Rightarrow> nat option \<Rightarrow> jsstr option \<Rightarrow> Guest \<Rightarrow> unit result \<times> Guest" where
  "attach P opts server d g =
     (if server = Some 0
      then (throwE P local_handler_failure ''Attached HTTP server has no request listener'' [(''guestId'', CStr (go_guestId opts))], g)
      else (Inr (), g\<lparr>gu_listener := True, gu_attachedDomain := Some (case d of Some x \<Rightarrow> x | None \<Rightarrow> go_guestId opts)\<rparr>))"

definition attachWebSocket :: "guest_options \<Rightarrow> jsstr option \<Rightarrow> Guest \<Rightarrow> Guest" where
  "attachWebSocket opts d g =
     g\<lparr>gu_wsHandler := True, gu_wsDomain := Some (case d of Some x \<Rightarrow> x | None \<Rightarrow> go_guestId opts)\<rparr>"

definition attachNativeWebSocket :: "guest_options \<Rightarrow> jsstr option \<Rightarrow> Guest \<Rightarrow> Guest" where
  "attachNativeWebSocket opts d g =
     g\<lparr>gu_nativeWsHandler := True, gu_wsDomain := Some (case d of Some x \<Rightarrow> x | None \<Rightarrow> go_guestId opts)\<rparr>"

definition guest_routedDomains :: "guest_options \<Rightarrow> Guest \<Rightarrow> jsstr list" where
  "guest_routedDomains opts g =
     (let ds = (case gu_attachedDomain g of Some d \<Rightarrow> [d] | None \<Rightarrow> []);
          ds' = (case gu_wsDomain g of Some w \<Rightarrow> if w \<notin> set ds then ds @ [w] else ds | None \<Rightarrow> ds)
      in if 0 < length ds' then ds' else (case go_routedDomains opts of Some rs \<Rightarrow> rs | None \<Rightarrow> []))"

section \<open>The lease pool\<close>

definition normalizedMinWaitingStreams :: "guest_options \<Rightarrow> int" where
  "normalizedMinWaitingStreams opts = max 0 \<lfloor>case go_minWaitingStreams opts of Some n \<Rightarrow> n | None \<Rightarrow> 1\<rfloor>"

definition normalizedMaxOpenStreams :: "guest_options \<Rightarrow> int" where
  "normalizedMaxOpenStreams opts = max 0 \<lfloor>case go_maxOpenStreams opts of Some n \<Rightarrow> n | None \<Rightarrow> 16\<rfloor>"

definition countLeases :: "GuestLeaseState \<Rightarrow> Guest \<Rightarrow> nat" where
  "countLeases st g = length (filter (\<lambda>(i, s). s = st) (gu_leaseStreams g))"

definition ready_leases :: "Guest \<Rightarrow> nat" where
  "ready_leases g = countLeases LsWaiting g + countLeases LsOpening g"

definition openLeaseStream :: "Guest \<Rightarrow> Guest" where
  "openLeaseStream g =
     g\<lparr>gu_leaseCounter := gu_leaseCounter g + 1,
       gu_leaseStreams := AList.update (gu_leaseCounter g + 1) LsOpening (gu_leaseStreams g)\<rparr>"

definition pool_wanting :: "guest_options \<Rightarrow> Guest \<Rightarrow> bool" where
  "pool_wanting opts g \<longleftrightarrow>
     int (ready_leases g) < normalizedMinWaitingStreams opts \<and>
     int (length (gu_leaseStreams g)) < normalizedMaxOpenStreams opts"

text \<open>\<open>Map.set\<close> adds an entry or, for a number in use, replaces one; then fewer numbers above the counter are in
  use. Either way the loop ends.\<close>

lemma length_alist_update: "length (AList.update k v ws) = length ws + (if k \<in> set (map fst ws) then 0 else 1)"
  by (induction ws) auto

definition numbers_ahead :: "Guest \<Rightarrow> nat" where
  "numbers_ahead g = card {k \<in> set (map fst (gu_leaseStreams g)). gu_leaseCounter g < k}"

lemma alist_update_keys: "set (map fst (AList.update k v ws)) = insert k (set (map fst ws))"
  by (induction ws) auto

lemma numbers_ahead_less:
  assumes "gu_leaseCounter g + 1 \<in> set (map fst (gu_leaseStreams g))"
  shows "numbers_ahead (openLeaseStream g) < numbers_ahead g"
  unfolding numbers_ahead_def
proof (rule psubset_card_mono)
  show "{k \<in> set (map fst (gu_leaseStreams (openLeaseStream g))). gu_leaseCounter (openLeaseStream g) < k} \<subset>
    {k \<in> set (map fst (gu_leaseStreams g)). gu_leaseCounter g < k}"
    using assms unfolding openLeaseStream_def by (auto simp: alist_update_keys [simplified])
qed simp

function maintain_loop :: "guest_options \<Rightarrow> Guest \<Rightarrow> Guest" where
  "maintain_loop opts g = (if pool_wanting opts g then maintain_loop opts (openLeaseStream g) else g)"
  by auto
termination
proof (relation "measures [\<lambda>(opts, g). nat (normalizedMaxOpenStreams opts - int (length (gu_leaseStreams g))),
    \<lambda>(opts, g). numbers_ahead g]")
  fix opts g
  assume "pool_wanting opts g"
  then show "((opts, openLeaseStream g), (opts, g)) \<in> measures [\<lambda>(opts, g). nat (normalizedMaxOpenStreams opts - int (length (gu_leaseStreams g))),
    \<lambda>(opts, g). numbers_ahead g]"
    using numbers_ahead_less [of g]
    by (cases "gu_leaseCounter g + 1 \<in> set (map fst (gu_leaseStreams g))")
      (auto simp: pool_wanting_def openLeaseStream_def length_alist_update)
qed simp

declare maintain_loop.simps [simp del]

definition maintainLeasePool :: "guest_options \<Rightarrow> Guest \<Rightarrow> Guest" where
  "maintainLeasePool opts g = (if \<not> live g \<or> gu_closing g then g else maintain_loop opts g)"

text \<open>The events of a lease stream. A status other than 200 closes the stream, so that its \<open>close\<close> event
  follows.\<close>

definition lease_response :: "guest_options \<Rightarrow> nat \<Rightarrow> int \<Rightarrow> Guest \<Rightarrow> Guest" where
  "lease_response opts i status g =
     (if status = 200
      then maintainLeasePool opts
             (if i \<in> set (map fst (gu_leaseStreams g))
              then g\<lparr>gu_leaseStreams := AList.update i LsWaiting (gu_leaseStreams g)\<rparr> else g)
      else g)"

definition lease_close :: "guest_options \<Rightarrow> nat \<Rightarrow> Guest \<Rightarrow> Guest" where
  "lease_close opts i g =
     (let g1 = g\<lparr>gu_leaseStreams := AList.delete i (gu_leaseStreams g)\<rparr>
      in if gu_closing g1 then g1 else maintainLeasePool opts g1)"

text \<open>\<open>handleLeaseStream\<close>, when the metadata of a request has been read.\<close>

definition lease_active :: "nat \<Rightarrow> Guest \<Rightarrow> Guest" where
  "lease_active i g =
     (if i \<in> set (map fst (gu_leaseStreams g))
      then g\<lparr>gu_leaseStreams := AList.update i LsActive (gu_leaseStreams g)\<rparr> else g)"

definition closeLeaseStreams :: "Guest \<Rightarrow> Guest" where
  "closeLeaseStreams g = g\<lparr>gu_leaseStreams := []\<rparr>"

section \<open>The pool of WebSocket leases\<close>

definition openWsLeaseStream :: "Guest \<Rightarrow> Guest" where
  "openWsLeaseStream g = g\<lparr>gu_wsOpened := gu_wsOpened g + 1, gu_wsStreams := gu_wsStreams g @ [gu_wsOpened g]\<rparr>"

definition maintainWsLeasePool :: "Guest \<Rightarrow> Guest" where
  "maintainWsLeasePool g =
     (if (\<not> gu_wsHandler g \<and> \<not> gu_nativeWsHandler g) \<or> gu_closing g then g
      else if \<not> live g then g
      else if length (gu_wsStreams g) < 4 then openWsLeaseStream g else g)"

definition ws_lease_response :: "nat \<Rightarrow> int \<Rightarrow> Guest \<Rightarrow> Guest" where
  "ws_lease_response i status g =
     (if status \<noteq> 200 then g\<lparr>gu_wsStreams := removeAll i (gu_wsStreams g)\<rparr> else maintainWsLeasePool g)"

text \<open>\<open>handleWsLeaseStream\<close> threw, or accepted.\<close>

definition ws_lease_failed :: "nat \<Rightarrow> Guest \<Rightarrow> Guest" where
  "ws_lease_failed i g =
     (if gu_closing g then g else maintainWsLeasePool (g\<lparr>gu_wsStreams := removeAll i (gu_wsStreams g)\<rparr>))"

definition ws_lease_close :: "nat \<Rightarrow> Guest \<Rightarrow> Guest" where
  "ws_lease_close i g =
     (let g1 = g\<lparr>gu_wsStreams := removeAll i (gu_wsStreams g)\<rparr>
      in if gu_closing g1 then g1 else maintainWsLeasePool g1)"

definition closeWsLeaseStreams :: "Guest \<Rightarrow> Guest" where
  "closeWsLeaseStreams g = g\<lparr>gu_wsStreams := []\<rparr>"

section \<open>The session\<close>

definition guest_connect_begin :: "Guest \<Rightarrow> Guest" where
  "guest_connect_begin g =
     (if live g then g
      else g\<lparr>gu_session := Some (gu_sessions g), gu_sessions := gu_sessions g + 1, gu_closing := False\<rparr>)"

text \<open>After \<open>register\<close>.\<close>

definition guest_connected :: "guest_options \<Rightarrow> Guest \<Rightarrow> Guest" where
  "guest_connected opts g = maintainWsLeasePool (maintainLeasePool opts g)"

definition guest_session_close :: "nat \<Rightarrow> Guest \<Rightarrow> Guest" where
  "guest_session_close s g =
     g\<lparr>gu_session := None, gu_dead := List.insert s (gu_dead g), gu_leaseStreams := [], gu_wsStreams := []\<rparr>"

definition guest_close :: "Guest \<Rightarrow> Guest" where
  "guest_close g =
     (case gu_session g of
        None \<Rightarrow> g
      | Some s \<Rightarrow>
          closeWsLeaseStreams (closeLeaseStreams (g\<lparr>gu_closing := True\<rparr>))\<lparr>gu_dead := List.insert s (gu_dead g)\<rparr>)"

inductive gu_step :: "guest_options \<Rightarrow> Guest \<Rightarrow> Guest \<Rightarrow> bool" for opts where
  attach_http: "gu_step opts g (snd (attach (P :: platform) opts server d g))"
| attach_ws: "gu_step opts g (attachWebSocket opts d g)"
| attach_native: "gu_step opts g (attachNativeWebSocket opts d g)"
| connect: "gu_step opts g (guest_connect_begin g)"
| connected: "gu_step opts g (guest_connected opts g)"
| session_close: "gu_step opts g (guest_session_close s g)"
| close: "gu_step opts g (guest_close g)"
| response: "gu_step opts g (lease_response opts i status g)"
| active: "gu_step opts g (lease_active i g)"
| lease_close: "gu_step opts g (lease_close opts i g)"
| ws_response: "gu_step opts g (ws_lease_response i status g)"
| ws_accepted: "gu_step opts g (maintainWsLeasePool g)"
| ws_failed: "gu_step opts g (ws_lease_failed i g)"
| ws_close: "gu_step opts g (ws_lease_close i g)"

inductive gu_reachable :: "guest_options \<Rightarrow> Guest \<Rightarrow> bool" for opts where
  start: "gu_reachable opts new_Guest"
| step: "gu_reachable opts g \<Longrightarrow> gu_step opts g g' \<Longrightarrow> gu_reachable opts g'"

definition gu_inv :: "guest_options \<Rightarrow> Guest \<Rightarrow> bool" where
  "gu_inv opts g \<longleftrightarrow>
     int (length (gu_leaseStreams g)) \<le> normalizedMaxOpenStreams opts \<and> distinct (map fst (gu_leaseStreams g)) \<and>
     set (map fst (gu_leaseStreams g)) \<subseteq> {1..gu_leaseCounter g} \<and>
     length (gu_wsStreams g) \<le> 4 \<and> distinct (gu_wsStreams g) \<and> set (gu_wsStreams g) \<subseteq> {..<gu_wsOpened g}"

lemma gu_inv_openLease: "gu_inv opts g \<Longrightarrow> pool_wanting opts g \<Longrightarrow> gu_inv opts (openLeaseStream g)"
  by (auto simp: gu_inv_def openLeaseStream_def pool_wanting_def length_alist_update alist_update_keys [simplified] distinct_update)

lemma gu_inv_loop: "gu_inv opts g \<Longrightarrow> gu_inv opts (maintain_loop opts g)"
proof (induction opts g rule: maintain_loop.induct)
  case (1 opts g)
  then show ?case using gu_inv_openLease by (simp add: maintain_loop.simps [of opts g])
qed

lemma gu_inv_maintain: "gu_inv opts g \<Longrightarrow> gu_inv opts (maintainLeasePool opts g)"
  by (simp add: maintainLeasePool_def gu_inv_loop)

lemma gu_inv_ws: "gu_inv opts g \<Longrightarrow> gu_inv opts (maintainWsLeasePool g)"
  by (auto simp: gu_inv_def maintainWsLeasePool_def openWsLeaseStream_def)

lemma gu_inv_states:
  "gu_inv opts g \<Longrightarrow> i \<in> set (map fst (gu_leaseStreams g)) \<Longrightarrow> gu_inv opts (g\<lparr>gu_leaseStreams := AList.update i st (gu_leaseStreams g)\<rparr>)"
  by (auto simp: gu_inv_def length_alist_update alist_update_keys [simplified] distinct_update)

lemma length_alist_delete: "length (AList.delete k ws) \<le> length ws"
  by (induction ws) auto

lemma alist_delete_keys: "fst ` set (AList.delete k ws) = fst ` set ws - {k}"
  by (induction ws) auto

lemma gu_inv_delete: "gu_inv opts g \<Longrightarrow> gu_inv opts (g\<lparr>gu_leaseStreams := AList.delete i (gu_leaseStreams g)\<rparr>)"
  using length_alist_delete [of i "gu_leaseStreams g"]
  by (auto simp: gu_inv_def alist_delete_keys distinct_delete)

lemma gu_inv_ws_delete: "gu_inv opts g \<Longrightarrow> gu_inv opts (g\<lparr>gu_wsStreams := removeAll i (gu_wsStreams g)\<rparr>)"
  unfolding gu_inv_def by (auto simp: distinct_removeAll intro: order_trans [OF length_removeAll_less_eq])

lemma gu_step_inv: "gu_step opts g g' \<Longrightarrow> gu_inv opts g \<Longrightarrow> gu_inv opts g'"
proof (induction rule: gu_step.induct)
  case (connected g)
  then show ?case by (simp add: guest_connected_def gu_inv_ws gu_inv_maintain)
next
  case (response g i status)
  then show ?case using gu_inv_states [of opts g i LsWaiting] by (auto simp: lease_response_def intro!: gu_inv_maintain)
next
  case (active g i)
  then show ?case using gu_inv_states [of opts g i LsActive] by (simp add: lease_active_def)
next
  case (lease_close g i)
  then show ?case by (auto simp: Node_Guest.lease_close_def Let_def intro!: gu_inv_maintain gu_inv_delete)
next
  case (ws_response g i status)
  then show ?case by (auto simp: ws_lease_response_def intro!: gu_inv_ws gu_inv_ws_delete)
next
  case (ws_failed g i)
  then show ?case by (auto simp: ws_lease_failed_def intro!: gu_inv_ws gu_inv_ws_delete)
next
  case (ws_close g i)
  then show ?case by (auto simp: ws_lease_close_def Let_def intro!: gu_inv_ws gu_inv_ws_delete)
next
  case (ws_accepted g)
  then show ?case by (rule gu_inv_ws)
qed (auto simp: gu_inv_def attach_def attachWebSocket_def attachNativeWebSocket_def guest_connect_begin_def guest_session_close_def
      guest_close_def closeWsLeaseStreams_def closeLeaseStreams_def normalizedMaxOpenStreams_def split: option.split)

lemma gu_reachable_inv: "gu_reachable opts g \<Longrightarrow> gu_inv opts g"
proof (induction rule: gu_reachable.induct)
  case start
  show ?case by (simp add: gu_inv_def new_Guest_def normalizedMaxOpenStreams_def)
qed (rule gu_step_inv)

section \<open>The answer to a leased request\<close>

text \<open>The flags of \<open>dispatchLeasedRequest\<close>, those of the response it reads, and what it did: the error envelopes
  that end the lease stream, its cancellation, the errors emitted on the request and the lifecycle events.\<close>

record dispatch =
  dp_completed :: bool
  dp_transportTerminated :: bool
  dp_selfCancelled :: bool
  dp_requestFailureNotified :: bool
  dp_headersStarted :: bool
  dp_finished :: bool
  dp_resolved :: bool
  dp_envelopes :: "VerserError list"
  dp_cancels :: nat
  dp_requestErrors :: "VerserError list"
  dp_events :: "VerserError option list"

record leased =
  le_guestId :: jsstr
  le_requestId :: jsstr
  le_leaseId :: jsstr
  le_path :: jsstr

definition new_dispatch :: dispatch where
  "new_dispatch = \<lparr>dp_completed = False, dp_transportTerminated = False, dp_selfCancelled = False, dp_requestFailureNotified = False,
     dp_headersStarted = False, dp_finished = False, dp_resolved = False, dp_envelopes = [], dp_cancels = 0, dp_requestErrors = [],
     dp_events = []\<rparr>"

definition no_handler_error :: "'p platform_scheme \<Rightarrow> leased \<Rightarrow> VerserError" where
  "no_handler_error P l =
     \<lparr>err_code = local_handler_failure, err_message = js ''No local HTTP handler is attached'',
      err_context = [(js ''guestId'', CStr (le_guestId l)), (js ''requestId'', CStr (le_requestId l))]\<rparr>"

text \<open>Without a listener the request is answered at once.\<close>

definition dispatch_start :: "'p platform_scheme \<Rightarrow> leased \<Rightarrow> bool \<Rightarrow> dispatch" where
  "dispatch_start P l has_listener =
     (if \<not> has_listener then new_dispatch\<lparr>dp_envelopes := [no_handler_error P l], dp_resolved := True\<rparr>
      else new_dispatch)"

definition handler_failure :: "'p platform_scheme \<Rightarrow> leased \<Rightarrow> thrown \<Rightarrow> VerserError" where
  "handler_failure P l err =
     (case err of
        Verser e \<Rightarrow>
          if err_code e = protocol_error then e
          else createVerserError P local_handler_failure (err_message e)
                 [(js ''guestId'', CStr (le_guestId l)), (js ''requestId'', CStr (le_requestId l)), (js ''path'', CStr (le_path l))]
      | _ \<Rightarrow>
          createVerserError P local_handler_failure (thrown_message err)
            [(js ''guestId'', CStr (le_guestId l)), (js ''requestId'', CStr (le_requestId l)), (js ''path'', CStr (le_path l))])"

definition answer_failure :: "VerserError \<Rightarrow> dispatch \<Rightarrow> dispatch" where
  "answer_failure e s =
     (let s1 = s\<lparr>dp_events := dp_events s @ [Some e]\<rparr>
      in if dp_headersStarted s1
         then s1\<lparr>dp_selfCancelled := True, dp_cancels := dp_cancels s1 + 1, dp_resolved := True\<rparr>
         else s1\<lparr>dp_envelopes := dp_envelopes s1 @ [e], dp_resolved := True\<rparr>)"

definition dispatch_threw :: "'p platform_scheme \<Rightarrow> leased \<Rightarrow> thrown \<Rightarrow> dispatch \<Rightarrow> dispatch" where
  "dispatch_threw P l err s = answer_failure (handler_failure P l err) s"

definition dispatch_complete :: "dispatch \<Rightarrow> dispatch" where
  "dispatch_complete s = (if dp_completed s then s else s\<lparr>dp_completed := True, dp_resolved := True\<rparr>)"

definition dispatch_finish :: "dispatch \<Rightarrow> dispatch" where
  "dispatch_finish s =
     (if dp_finished s then s
      else dispatch_complete (s\<lparr>dp_finished := True, dp_headersStarted := True, dp_events := dp_events s @ [None]\<rparr>))"

definition rst_failure :: "int option \<Rightarrow> bool" where
  "rst_failure rst \<longleftrightarrow> (case rst of Some c \<Rightarrow> c \<noteq> 0 | None \<Rightarrow> False)"

definition guest_toVerserError :: "'p platform_scheme \<Rightarrow> thrown \<Rightarrow> VerserError" where
  "guest_toVerserError P err =
     (case err of Verser e \<Rightarrow> e
      | _ \<Rightarrow> createVerserError P protocol_error (thrown_message err) [(js ''guestId'', CStr (js ''unknown''))])"

definition dispatch_error :: "'p platform_scheme \<Rightarrow> leased \<Rightarrow> int option \<Rightarrow> thrown \<Rightarrow> dispatch \<Rightarrow> dispatch" where
  "dispatch_error P l rst err s =
     (let s1 = (if rst_failure rst then s\<lparr>dp_transportTerminated := True\<rparr> else s)
      in if dp_completed s1 \<or> dp_transportTerminated s1
         then s1\<lparr>dp_events := dp_events s1 @ [Some (guest_toVerserError P err)]\<rparr>
         else answer_failure (handler_failure P l err) (s1\<lparr>dp_completed := True\<rparr>))"

definition notify_request :: "VerserError \<Rightarrow> dispatch \<Rightarrow> dispatch" where
  "notify_request e s = s\<lparr>dp_requestFailureNotified := True, dp_requestErrors := dp_requestErrors s @ [e]\<rparr>"

definition dispatch_aborted :: "'p platform_scheme \<Rightarrow> leased \<Rightarrow> int option \<Rightarrow> dispatch \<Rightarrow> dispatch" where
  "dispatch_aborted P l rst s =
     (if dp_selfCancelled s \<or> dp_requestFailureNotified s then s
      else
        (let s1 = s\<lparr>dp_transportTerminated := True\<rparr>
         in if rst_failure rst
            then notify_request
                   (createVerserError P stream_failure (js ''Request stream was cancelled by the remote peer'')
                      [(js ''requestId'', CStr (le_requestId l)), (js ''leaseId'', CStr (le_leaseId l)),
                       (js ''rstCode'', CStr (case rst of Some c \<Rightarrow> numberToString P (Fin (of_int c)) | None \<Rightarrow> []))]) s1
            else s1))"

definition dispatch_close :: "'p platform_scheme \<Rightarrow> leased \<Rightarrow> dispatch \<Rightarrow> dispatch" where
  "dispatch_close P l s =
     dispatch_complete
       (if \<not> dp_finished s \<and> \<not> dp_selfCancelled s
        then (let s1 = s\<lparr>dp_transportTerminated := True\<rparr>
              in if \<not> dp_requestFailureNotified s1
                 then notify_request
                        (createVerserError P stream_failure (js ''Request transport closed before response completion'')
                           [(js ''requestId'', CStr (le_requestId l)), (js ''leaseId'', CStr (le_leaseId l))]) s1
                 else s1)
        else s)"

datatype dispatch_event =
    DpThrew thrown
  | DpHeaders
  | DpFinish
  | DpError "int option" thrown
  | DpAborted "int option"
  | DpClose

fun dispatch_step :: "'p platform_scheme \<Rightarrow> leased \<Rightarrow> dispatch_event \<Rightarrow> dispatch \<Rightarrow> dispatch" where
  "dispatch_step P l (DpThrew e) s = dispatch_threw P l e s"
| "dispatch_step P l DpHeaders s = s\<lparr>dp_headersStarted := True\<rparr>"
| "dispatch_step P l DpFinish s = dispatch_finish s"
| "dispatch_step P l (DpError rst e) s = dispatch_error P l rst e s"
| "dispatch_step P l (DpAborted rst) s = dispatch_aborted P l rst s"
| "dispatch_step P l DpClose s = dispatch_close P l s"

definition dispatch_run :: "'p platform_scheme \<Rightarrow> leased \<Rightarrow> dispatch_event list \<Rightarrow> dispatch" where
  "dispatch_run P l es = fold (dispatch_step P l) es (dispatch_start P l True)"

definition answers :: "dispatch \<Rightarrow> nat" where
  "answers s = length (dp_envelopes s) + dp_cancels s"

definition dp_inv :: "nat \<Rightarrow> dispatch \<Rightarrow> bool" where
  "dp_inv n s \<longleftrightarrow>
     length (dp_requestErrors s) = (if dp_requestFailureNotified s then 1 else 0) \<and>
     answers s \<le> (if dp_completed s then 1 else 0) + n \<and> (dp_completed s \<longrightarrow> dp_resolved s) \<and>
     (0 < answers s \<longrightarrow> dp_resolved s)"

definition throws :: "dispatch_event list \<Rightarrow> nat" where
  "throws es = length (filter (\<lambda>e. case e of DpThrew _ \<Rightarrow> True | _ \<Rightarrow> False) es)"

lemmas dispatch_defs = dispatch_threw_def answer_failure_def dispatch_finish_def dispatch_complete_def dispatch_error_def
  dispatch_aborted_def dispatch_close_def notify_request_def answers_def Let_def

lemma dp_inv_step: "dp_inv n s \<Longrightarrow> dp_inv (n + throws [e]) (dispatch_step P l e s)"
  by (cases e) (auto simp: dispatch_defs dp_inv_def throws_def split: if_splits)

lemma dp_inv_fold: "dp_inv n s \<Longrightarrow> dp_inv (n + throws es) (fold (dispatch_step P l) es s)"
proof (induction es arbitrary: n s)
  case (Cons e es)
  have "dp_inv (n + throws [e] + throws es) (fold (dispatch_step P l) es (dispatch_step P l e s))"
    by (rule Cons.IH [OF dp_inv_step [OF Cons.prems]])
  moreover have "throws (e # es) = throws [e] + throws es" by (simp add: throws_def)
  ultimately show ?case by (simp add: add.assoc)
qed (simp add: throws_def)

lemma dp_inv_run: "dp_inv (throws es) (dispatch_run P l es)"
  using dp_inv_fold [of 0 "dispatch_start P l True" es P l]
  by (simp add: dispatch_run_def dispatch_start_def new_dispatch_def dp_inv_def answers_def)

lemma dispatch_resolved_keeps: "dp_resolved s \<Longrightarrow> dp_resolved (dispatch_step P l e s)"
  by (cases e) (auto simp: dispatch_defs)

lemma dispatch_resolved_fold: "dp_resolved s \<Longrightarrow> dp_resolved (fold (dispatch_step P l) es s)"
  by (induction es arbitrary: s) (simp_all add: dispatch_resolved_keeps)

lemma dispatch_close_resolves: "dp_inv n s \<Longrightarrow> dp_resolved (dispatch_step P l DpClose s)"
  by (auto simp: dispatch_defs dp_inv_def)

section \<open>The decision about a WebSocket\<close>

text \<open>What a handler resolves to; \<open>ArObject\<close> carries the value of the key \<open>protocol\<close>, when the object has the
  key: \<open>Some None\<close> is \<open>undefined\<close>.\<close>

datatype accept_result = ArUndefined | ArNull | ArFalse | ArObject "json option option" | ArOther

datatype ws_decision = WsAccept "jsstr option" | WsReject VerserError | WsThrow thrown

text \<open>\<open>(await handler(\<dots>)) ?? undefined\<close>.\<close>

definition or_undefined :: "accept_result \<Rightarrow> accept_result" where
  "or_undefined r = (if r = ArNull then ArUndefined else r)"

definition optional_text :: "json option \<Rightarrow> bool" where
  "optional_text v \<longleftrightarrow> (case v of None \<Rightarrow> True | Some (JStr s) \<Rightarrow> True | _ \<Rightarrow> False)"

definition text_or :: "json option \<Rightarrow> jsstr \<Rightarrow> jsstr" where
  "text_or v d = (case v of Some (JStr s) \<Rightarrow> s | _ \<Rightarrow> d)"

definition parse_open :: "'p platform_scheme \<Rightarrow> (jsstr \<Rightarrow> jsstr) \<Rightarrow> jsstr \<Rightarrow> (jsstr \<times> jsstr \<times> jsstr) result" where
  "parse_open P synmsg line =
     (case jsonParse P line of
        None \<Rightarrow> Inl (PlainErr (synmsg line) None)
      | Some JNull \<Rightarrow> Inl (TypeErr (js ''Cannot read properties of null''))
      | Some v \<Rightarrow>
          if obj_get v ''type'' \<noteq> Some (JStr (js ''open''))
          then Inl (Verser (createVerserError P protocol_error
                 (js ''Expected VWS open frame, got '' @ (case obj_get v ''type'' of Some t \<Rightarrow> (case t of JStr s \<Rightarrow> s | _ \<Rightarrow> stringOf P t)
                                                          | None \<Rightarrow> js ''undefined'')) []))
          else (case obj_get v ''domain'' of
                  Some (JStr d) \<Rightarrow>
                    if optional_text (obj_get v ''path'') \<and> optional_text (obj_get v ''protocol'')
                    then Inr (d, text_or (obj_get v ''path'') (js ''/''), text_or (obj_get v ''protocol'') [])
                    else throwE P protocol_error ''Malformed VWS open frame'' []
                | _ \<Rightarrow> throwE P protocol_error ''Malformed VWS open frame'' []))"

definition accept_decision :: "'p platform_scheme \<Rightarrow> jsstr \<Rightarrow> accept_result \<Rightarrow> ws_decision" where
  "accept_decision P requested r =
     (let chosen = (case r of ArObject (Some p) \<Rightarrow> p | _ \<Rightarrow> Some (JStr requested))
      in case chosen of
           None \<Rightarrow> WsAccept None
         | Some (JStr p) \<Rightarrow>
             if p \<noteq> [] \<and> p \<noteq> requested
             then WsThrow (Verser (createVerserError P protocol_error
                    (js ''Guest-selected WebSocket subprotocol was not offered by the Broker'') []))
             else WsAccept (Some p)
         | Some _ \<Rightarrow> WsThrow (Verser (createVerserError P protocol_error (js ''Malformed WebSocket accept protocol'') [])))"

text \<open>\<open>native\<close> and \<open>plain\<close> are the handlers that are attached, each a function of the open metadata.\<close>

definition handleWsLeaseStream :: "'p platform_scheme \<Rightarrow> (jsstr \<Rightarrow> jsstr) \<Rightarrow> jsstr \<Rightarrow> (jsstr \<times> jsstr \<times> jsstr \<Rightarrow> accept_result result) option
    \<Rightarrow> (jsstr \<times> jsstr \<times> jsstr \<Rightarrow> accept_result result) option \<Rightarrow> jsstr \<Rightarrow> ws_decision" where
  "handleWsLeaseStream P synmsg guestId native plain line =
     (case parse_open P synmsg line of
        Inl e \<Rightarrow> WsThrow e
      | Inr (d, path, requested) \<Rightarrow>
          (let decide = (\<lambda>r. if or_undefined r = ArFalse \<or> or_undefined r = ArNull
                then WsReject (createVerserError P missing_guest (js ''WebSocket endpoint is unavailable'')
                       [(js ''guestId'', CStr guestId), (js ''domain'', CStr d), (js ''path'', CStr path), (js ''status'', CNum (Fin 404))])
                else accept_decision P requested (or_undefined r))
           in case native of
                Some h \<Rightarrow> (case h (d, path, requested) of Inl e \<Rightarrow> WsReject (guest_toVerserError P e) | Inr r \<Rightarrow> decide r)
              | None \<Rightarrow>
                  (case plain of
                     Some h \<Rightarrow> (case h (d, path, requested) of Inl e \<Rightarrow> WsThrow e | Inr r \<Rightarrow> decide r)
                   | None \<Rightarrow> accept_decision P requested ArUndefined)))"

section \<open>Properties\<close>

text \<open>The pools of a Guest stay within their bounds in every state it can reach: no more lease streams than
  \<open>maxOpenStreams\<close>, no more than four WebSocket leases, and no stream entered twice.\<close>

theorem guest_pool_bounded:
  assumes "gu_reachable opts g"
  shows "int (length (gu_leaseStreams g)) \<le> normalizedMaxOpenStreams opts \<and> length (gu_wsStreams g) \<le> 4 \<and>
    distinct (map fst (gu_leaseStreams g)) \<and> distinct (gu_wsStreams g)"
  using gu_reachable_inv [OF assms] by (simp add: gu_inv_def)

definition sample_options :: guest_options where
  "sample_options = \<lparr>go_guestId = js ''g'', go_routedDomains = None, go_minWaitingStreams = Some 2, go_maxOpenStreams = Some 1\<rparr>"

lemma sample_node_guest_reachable: "gu_reachable sample_options (guest_connected sample_options (guest_connect_begin new_Guest))"
  by (rule gu_reachable.step [OF gu_reachable.step [OF gu_reachable.start gu_step.connect] gu_step.connected])

theorem guest_pool_bounded_witness:
  "length (gu_leaseStreams (guest_connected sample_options (guest_connect_begin new_Guest))) \<le> 1"
  using guest_pool_bounded [OF sample_node_guest_reachable]
  by (simp add: normalizedMaxOpenStreams_def sample_options_def)

lemma maintain_loop_target:
  "int (ready_leases (maintain_loop opts g)) \<ge> normalizedMinWaitingStreams opts \<or>
   int (length (gu_leaseStreams (maintain_loop opts g))) \<ge> normalizedMaxOpenStreams opts"
proof (induction opts g rule: maintain_loop.induct)
  case (1 opts g)
  then show ?case by (cases "pool_wanting opts g") (auto simp: maintain_loop.simps [of opts g] pool_wanting_def)
qed

lemma maintain_loop_keeps:
  assumes "gu_inv opts g"
  shows "\<exists>more. gu_leaseStreams (maintain_loop opts g) = gu_leaseStreams g @ more \<and> (\<forall>l \<in> set more. snd l = LsOpening)"
  using assms
proof (induction opts g rule: maintain_loop.induct)
  case (1 opts g)
  show ?case
  proof (cases "pool_wanting opts g")
    case True
    have "gu_leaseCounter g + 1 \<notin> fst ` set (gu_leaseStreams g)"
      using 1(2) unfolding gu_inv_def by fastforce
    then have "gu_leaseStreams (openLeaseStream g) = gu_leaseStreams g @ [(gu_leaseCounter g + 1, LsOpening)]"
      by (simp add: openLeaseStream_def update_new)
    then show ?thesis
      using 1(1) [OF True gu_inv_openLease [OF 1(2) True]] True
      by (auto simp: maintain_loop.simps [of opts g])
  qed (simp add: maintain_loop.simps [of opts g])
qed

text \<open>C21: Maintaining the pool of a connected Guest ends with the wanted number of ready leases or the maximum of
  open ones, and changes no lease that was open.\<close>

theorem guest_pool_maintained:
  assumes "gu_reachable opts g" and "live g" and "\<not> gu_closing g"
  shows "(int (ready_leases (maintainLeasePool opts g)) \<ge> normalizedMinWaitingStreams opts \<or>
      int (length (gu_leaseStreams (maintainLeasePool opts g))) = normalizedMaxOpenStreams opts) \<and>
    (\<exists>more. gu_leaseStreams (maintainLeasePool opts g) = gu_leaseStreams g @ more \<and> (\<forall>l \<in> set more. snd l = LsOpening))"
proof -
  note inv = gu_reachable_inv [OF assms(1)]
  have "int (length (gu_leaseStreams (maintain_loop opts g))) \<le> normalizedMaxOpenStreams opts"
    using gu_inv_loop [OF inv] by (simp add: gu_inv_def)
  then show ?thesis
    using maintain_loop_target [of opts g] maintain_loop_keeps [OF inv] assms(2,3) by (auto simp: maintainLeasePool_def)
qed

theorem guest_pool_maintained_witness:
  "(int (ready_leases (maintainLeasePool sample_options (guest_connect_begin new_Guest))) \<ge> 2 \<or>
    int (length (gu_leaseStreams (maintainLeasePool sample_options (guest_connect_begin new_Guest)))) = 1)"
proof -
  have "gu_reachable sample_options (guest_connect_begin new_Guest)"
    by (rule gu_reachable.step [OF gu_reachable.start gu_step.connect])
  from guest_pool_maintained [OF this] show ?thesis
    by (simp add: guest_connect_begin_def new_Guest_def live_def normalizedMinWaitingStreams_def normalizedMaxOpenStreams_def
        sample_options_def)
qed

text \<open>A lease that becomes active is not replaced: the pool is maintained only when a stream is answered or
  closes. With the default options a Guest that serves one request has no ready lease.\<close>

definition default_options :: guest_options where
  "default_options = \<lparr>go_guestId = js ''g'', go_routedDomains = None, go_minWaitingStreams = None, go_maxOpenStreams = None\<rparr>"

lemma maintain_loop_stop: "\<not> pool_wanting opts g \<Longrightarrow> maintain_loop opts g = g"
  by (simp add: maintain_loop.simps [of opts g])

lemma maintain_loop_open: "pool_wanting opts g \<Longrightarrow> maintain_loop opts g = maintain_loop opts (openLeaseStream g)"
  by (simp add: maintain_loop.simps [of opts g])

lemmas pool_eval = guest_connected_def guest_connect_begin_def new_Guest_def live_def maintainLeasePool_def
  pool_wanting_def ready_leases_def countLeases_def openLeaseStream_def normalizedMinWaitingStreams_def normalizedMaxOpenStreams_def
  lease_response_def lease_active_def maintainWsLeasePool_def default_options_def maintain_loop_stop maintain_loop_open

lemma active_lease_not_replaced:
  "let g = lease_active 1 (lease_response default_options 1 200 (guest_connected default_options (guest_connect_begin new_Guest)))
   in live g \<and> ready_leases g < nat (normalizedMinWaitingStreams default_options) \<and>
      int (length (gu_leaseStreams g)) < normalizedMaxOpenStreams default_options"
  by (simp add: pool_eval)

text \<open>The \<open>close\<close> event of a session that was replaced forgets the session that replaced it, which stays open.\<close>

lemma stale_close_forgets_session:
  "let g = guest_session_close 0 (guest_connect_begin (guest_close (guest_connect_begin new_Guest)))
   in gu_session g = None \<and> gu_sessions g = 2 \<and> 1 \<notin> set (gu_dead g)"
  by (simp add: guest_session_close_def guest_connect_begin_def guest_close_def new_Guest_def live_def closeLeaseStreams_def
      closeWsLeaseStreams_def)

text \<open>A Guest with a WebSocket handler opens a further lease for every one that is accepted, up to four, although
  none of them is in use.\<close>

lemma idle_ws_leases_grow:
  "let g = attachWebSocket sample_options None (guest_connect_begin new_Guest)
   in length (gu_wsStreams (ws_lease_response 1 200 (ws_lease_response 0 200 (maintainWsLeasePool g)))) = 3"
  by (simp add: attachWebSocket_def guest_connect_begin_def new_Guest_def live_def ws_lease_response_def maintainWsLeasePool_def
      openWsLeaseStream_def)

text \<open>C20: A leased request is answered: whatever happens to it, its promise is resolved when the stream has closed, its
  request object is told of a failure at most once, and the Guest ends the stream with at most one error
  envelope or cancellation, and one more only when the listener threw.\<close>

theorem leased_request_answered:
  "dp_resolved (dispatch_run P l (before @ DpClose # later)) \<and>
   length (dp_requestErrors (dispatch_run P l events)) \<le> 1 \<and>
   length (dp_envelopes (dispatch_run P l events)) + dp_cancels (dispatch_run P l events) \<le> 1 + throws events"
proof (intro conjI)
  have "dp_resolved (dispatch_step P l DpClose (dispatch_run P l before))"
    by (rule dispatch_close_resolves [OF dp_inv_run])
  then show "dp_resolved (dispatch_run P l (before @ DpClose # later))"
    unfolding dispatch_run_def fold_append fold.simps o_apply by (rule dispatch_resolved_fold)
  note inv = dp_inv_run [of events P l, unfolded dp_inv_def answers_def]
  then show "length (dp_requestErrors (dispatch_run P l events)) \<le> 1" by simp
  from inv show "length (dp_envelopes (dispatch_run P l events)) + dp_cancels (dispatch_run P l events) \<le> 1 + throws events"
    by (auto split: if_splits)
qed

text \<open>A listener that throws does not mark the request as completed, so an error of its response ends the lease
  stream with a second envelope.\<close>

lemma throw_then_error_answers_twice:
  "length (dp_envelopes (dispatch_run P l [DpThrew (PlainErr (js ''a'') None), DpError None (PlainErr (js ''b'') None)])) = 2"
  by (simp add: dispatch_run_def dispatch_start_def new_dispatch_def dispatch_defs rst_failure_def)

text \<open>A Guest only accepts a subprotocol that the Broker asked for, or none.\<close>

theorem ws_protocol_offered:
  assumes "handleWsLeaseStream P synmsg guestId native plain line = WsAccept (Some p)"
  shows "p = [] \<or> (\<exists>d path. parse_open P synmsg line = Inr (d, path, p))"
proof -
  have decision: "p = [] \<or> p = requested" if "accept_decision P requested r = WsAccept (Some p)" for requested r
    using that by (auto simp: accept_decision_def Let_def split: option.splits json.splits if_splits accept_result.splits)
  from assms show ?thesis
    by (auto simp: handleWsLeaseStream_def Let_def split: sum.splits option.splits if_splits dest!: decision)
qed

definition open_platform :: platform where
  "open_platform = sample_platform\<lparr>jsonParse := (\<lambda>_. Some (JObj [(js ''type'', JStr (js ''open'')), (js ''domain'', JStr (js ''d'')),
     (js ''protocol'', JStr (js ''v''))]))\<rparr>"

lemma open_platform_accepts:
  "handleWsLeaseStream open_platform id (js ''g'') None (Some (\<lambda>_. Inr ArNull)) [] = WsAccept (Some (js ''v''))"
  by (simp add: handleWsLeaseStream_def parse_open_def open_platform_def or_undefined_def accept_decision_def optional_text_def
      text_or_def)

theorem ws_protocol_offered_witness: "\<exists>d path. parse_open open_platform id [] = Inr (d, path, js ''v'')"
  using ws_protocol_offered [OF open_platform_accepts] by simp

text \<open>A handler that resolves to \<open>null\<close> accepts, because \<open>null ?? undefined\<close> is \<open>undefined\<close>.\<close>

lemma null_result_accepts:
  assumes "parse_open P synmsg line = Inr (d, path, requested)"
  shows "handleWsLeaseStream P synmsg guestId None (Some (\<lambda>_. Inr ArNull)) line = WsAccept (Some requested)"
  using assms by (simp add: handleWsLeaseStream_def or_undefined_def accept_decision_def)

end
