(* ===== verification/Bun_Routes.thy ===== *)
theory Bun_Routes
  imports Prelude
begin

text \<open>
  The route table of a Bun Guest, \<open>verser2-guest-bun/src/lib/routes.ts\<close>: exact, parameter and wildcard paths,
  and values per method.

  A route value is a function or response, kept abstract as \<open>'v\<close>, or another object with its own enumerable
  keys, \<open>None\<close> for \<open>undefined\<close>. \<open>decode\<close> is \<open>decodeURIComponent\<close>, \<open>None\<close> when it throws. The three loops of
  \<open>resolveRoute\<close>, which differ only in the match, are one definition with the match as an argument.
\<close>

section \<open>Matching\<close>

definition VERSER_BUN_METHODS :: "jsstr list" where
  "VERSER_BUN_METHODS = map js
     [''ACL'', ''BIND'', ''CHECKOUT'', ''CONNECT'', ''COPY'', ''DELETE'', ''GET'', ''HEAD'', ''LINK'', ''LOCK'', ''M-SEARCH'', ''MERGE'',
      ''MKACTIVITY'', ''MKCOL'', ''MKREDIRECTREF'', ''MKWORKSPACE'', ''MOVE'', ''OPTIONS'', ''PATCH'', ''POST'', ''PROPFIND'',
      ''PROPPATCH'', ''PURGE'', ''PUT'', ''REBIND'', ''REPORT'', ''SEARCH'', ''TRACE'', ''UNBIND'', ''UNLINK'', ''UNLOCK'']"

datatype 'v bun_route = RouteValue 'v | RouteObject "(jsstr \<times> 'v option) list"

record 'v VerserBunMatchedRoute =
  mr_value :: "'v bun_route option"
  mr_params :: "(jsstr \<times> jsstr) list"
  mr_allow :: "jsstr option"

definition splitRoutePath :: "jsstr \<Rightarrow> jsstr list" where
  "splitRoutePath path = (if path = js ''/'' then [] else filter (\<lambda>segment. 0 < length segment) (split_on 47 path))"

fun isPotentialRouteMethodObject :: "'v bun_route \<Rightarrow> bool" where
  "isPotentialRouteMethodObject (RouteValue v) \<longleftrightarrow> False"
| "isPotentialRouteMethodObject (RouteObject es) \<longleftrightarrow> 0 < length es \<and> (\<forall>k \<in> set (map fst es). k \<in> set VERSER_BUN_METHODS)"

definition ends_with :: "jsstr \<Rightarrow> jsstr \<Rightarrow> bool" where
  "ends_with s t \<longleftrightarrow> length t \<le> length s \<and> drop (length s - length t) s = t"

definition isWildcardRoutePath :: "jsstr \<Rightarrow> bool" where
  "isWildcardRoutePath routePath \<longleftrightarrow>
     routePath = js ''*'' \<or> routePath = js ''/*'' \<or> ends_with routePath (js ''/*'')"

definition tryMatchExactRoute :: "jsstr \<Rightarrow> jsstr \<Rightarrow> (jsstr \<times> jsstr) list option" where
  "tryMatchExactRoute routePath requestPath = (if routePath = requestPath then Some [] else None)"

definition is_param :: "jsstr \<Rightarrow> bool" where
  "is_param part \<longleftrightarrow> part \<noteq> [] \<and> hd part = 58"

definition decoded :: "(jsstr \<Rightarrow> jsstr option) \<Rightarrow> jsstr \<Rightarrow> jsstr" where
  "decoded decode part = (case decode part of Some s \<Rightarrow> s | None \<Rightarrow> part)"

fun match_parts :: "(jsstr \<Rightarrow> jsstr option) \<Rightarrow> jsstr list \<Rightarrow> jsstr list \<Rightarrow> (jsstr \<times> jsstr) list \<Rightarrow> (jsstr \<times> jsstr) list option" where
  "match_parts decode (r # rs) (q # qs) params =
     (if is_param r then match_parts decode rs qs (obj_set (tl r) (decoded decode q) params)
      else if r \<noteq> q then None
      else match_parts decode rs qs params)"
| "match_parts decode rs qs params = Some params"

definition tryMatchParamRoute :: "(jsstr \<Rightarrow> jsstr option) \<Rightarrow> jsstr \<Rightarrow> jsstr \<Rightarrow> (jsstr \<times> jsstr) list option" where
  "tryMatchParamRoute decode routePath requestPath =
     (if length (splitRoutePath routePath) \<noteq> length (splitRoutePath requestPath) then None
      else match_parts decode (splitRoutePath routePath) (splitRoutePath requestPath) [])"

fun same_prefix :: "jsstr list \<Rightarrow> jsstr list \<Rightarrow> bool" where
  "same_prefix (p # ps) (q # qs) \<longleftrightarrow> p = q \<and> same_prefix ps qs"
| "same_prefix _ _ \<longleftrightarrow> True"

definition tryMatchWildcardRoute :: "jsstr \<Rightarrow> jsstr \<Rightarrow> (jsstr \<times> jsstr) list option" where
  "tryMatchWildcardRoute routePath requestPath =
     (if routePath = js ''*'' then Some [(js ''*'', if requestPath = js ''/'' then [] else drop 1 requestPath)]
      else
        (let routeParts = splitRoutePath routePath; requestParts = splitRoutePath requestPath
         in if length routeParts = 0 \<or> last routeParts \<noteq> js ''*'' then None
            else
              (let prefixParts = butlast routeParts
               in if length requestParts < length prefixParts then None
                  else if \<not> same_prefix prefixParts requestParts then None
                  else Some [(js ''*'', join_with (js ''/'') (drop (length prefixParts) requestParts))])))"

section \<open>Resolution\<close>

definition method_value :: "jsstr \<Rightarrow> (jsstr \<times> 'v option) list \<Rightarrow> 'v option" where
  "method_value method es = (case map_of es method of Some v \<Rightarrow> v | None \<Rightarrow> None)"

definition resolveRouteMethodValues :: "(jsstr \<times> 'v option) list \<Rightarrow> jsstr list" where
  "resolveRouteMethodValues es = filter (\<lambda>m. method_value m es \<noteq> None) VERSER_BUN_METHODS"

definition resolveMethodRoute :: "jsstr \<Rightarrow> (jsstr \<times> 'v option) list \<Rightarrow> (jsstr \<times> jsstr) list \<Rightarrow> 'v VerserBunMatchedRoute option" where
  "resolveMethodRoute method es params =
     (case method_value method es of
        Some v \<Rightarrow> Some \<lparr>mr_value = Some (RouteValue v), mr_params = params, mr_allow = None\<rparr>
      | None \<Rightarrow>
          (let allow = resolveRouteMethodValues es
           in if length allow = 0 then None
              else Some \<lparr>mr_value = None, mr_params = params, mr_allow = Some (join_with (js '', '') allow)\<rparr>))"

text \<open>One turn of a loop: \<open>None\<close> when it goes on.\<close>

definition try_entry :: "(jsstr \<Rightarrow> (jsstr \<times> jsstr) list option) \<Rightarrow> jsstr \<Rightarrow> jsstr \<times> 'v bun_route \<Rightarrow> 'v VerserBunMatchedRoute option" where
  "try_entry matching method entry =
     (case matching (fst entry) of
        None \<Rightarrow> None
      | Some params \<Rightarrow>
          (case snd entry of
             RouteObject es \<Rightarrow>
               if isPotentialRouteMethodObject (snd entry) then resolveMethodRoute method es params
               else Some \<lparr>mr_value = Some (snd entry), mr_params = params, mr_allow = None\<rparr>
           | RouteValue v \<Rightarrow> Some \<lparr>mr_value = Some (snd entry), mr_params = params, mr_allow = None\<rparr>))"

fun try_entries :: "(jsstr \<Rightarrow> (jsstr \<times> jsstr) list option) \<Rightarrow> jsstr \<Rightarrow> (jsstr \<times> 'v bun_route) list \<Rightarrow> 'v VerserBunMatchedRoute option" where
  "try_entries matching method [] = None"
| "try_entries matching method (e # es) =
     (case try_entry matching method e of Some m \<Rightarrow> Some m | None \<Rightarrow> try_entries matching method es)"

definition is_pattern :: "jsstr \<Rightarrow> bool" where
  "is_pattern routePath \<longleftrightarrow> 58 \<in> set routePath \<or> 42 \<in> set routePath"

definition resolveRoute :: "'p platform_scheme \<Rightarrow> (jsstr \<Rightarrow> jsstr option) \<Rightarrow> (jsstr \<times> 'v bun_route) list \<Rightarrow> jsstr \<Rightarrow> jsstr
    \<Rightarrow> 'v VerserBunMatchedRoute option" where
  "resolveRoute P decode routes requestPath requestMethod =
     (let method = toUpperCase P requestMethod;
          exactEntries = filter (\<lambda>(p, v). \<not> is_pattern p) routes;
          paramEntries = filter (\<lambda>(p, v). is_pattern p \<and> \<not> isWildcardRoutePath p) routes;
          wildcardEntries = filter (\<lambda>(p, v). is_pattern p \<and> isWildcardRoutePath p) routes
      in case try_entries (\<lambda>p. tryMatchExactRoute p requestPath) method exactEntries of
           Some m \<Rightarrow> Some m
         | None \<Rightarrow>
             (case try_entries (\<lambda>p. tryMatchParamRoute decode p requestPath) method paramEntries of
                Some m \<Rightarrow> Some m
              | None \<Rightarrow> try_entries (\<lambda>p. tryMatchWildcardRoute p requestPath) method wildcardEntries))"

section \<open>What a match is\<close>

lemma match_parts_iff:
  assumes "length rs = length qs"
  shows "(match_parts decode rs qs params \<noteq> None) = list_all2 (\<lambda>r q. is_param r \<or> r = q) rs qs"
  using assms by (induction decode rs qs params rule: match_parts.induct) auto

lemma match_parts_params:
  assumes "match_parts decode rs qs params = Some out" and "length rs = length qs"
  shows "out = fold (\<lambda>(r, q) ps. if is_param r then obj_set (tl r) (decoded decode q) ps else ps) (zip rs qs) params"
  using assms by (induction decode rs qs params rule: match_parts.induct) (auto split: if_splits)

lemma same_prefix_iff: "length ps \<le> length qs \<Longrightarrow> same_prefix ps qs = (take (length ps) qs = ps)"
  by (induction ps qs rule: same_prefix.induct) auto

text \<open>The reference: a route of its class, the match of its class, and the result for the method.\<close>

definition route_class :: "jsstr \<Rightarrow> nat" where
  "route_class p = (if \<not> is_pattern p then 0 else if \<not> isWildcardRoutePath p then 1 else 2)"

definition entry_result :: "'p platform_scheme \<Rightarrow> (jsstr \<Rightarrow> jsstr option) \<Rightarrow> jsstr \<Rightarrow> jsstr \<Rightarrow> jsstr \<times> 'v bun_route
    \<Rightarrow> 'v VerserBunMatchedRoute option" where
  "entry_result P decode requestPath requestMethod e =
     try_entry (\<lambda>p. if route_class p = 0 then tryMatchExactRoute p requestPath
                    else if route_class p = 1 then tryMatchParamRoute decode p requestPath
                    else tryMatchWildcardRoute p requestPath) (toUpperCase P requestMethod) e"

fun first_some :: "('a \<Rightarrow> 'b option) \<Rightarrow> 'a list \<Rightarrow> 'b option" where
  "first_some f [] = None"
| "first_some f (x # xs) = (case f x of Some y \<Rightarrow> Some y | None \<Rightarrow> first_some f xs)"

lemma first_some_append: "first_some f (xs @ ys) = (case first_some f xs of Some y \<Rightarrow> Some y | None \<Rightarrow> first_some f ys)"
  by (induction xs) (auto split: option.split)

lemma insort_key_skip: "\<forall>a \<in> set xs. f a < f x \<Longrightarrow> insort_key f x (xs @ ys) = xs @ insort_key f x ys"
  by (induction xs) auto

lemma insort_key_front: "\<forall>a \<in> set xs. f x \<le> f a \<Longrightarrow> insort_key f x xs = x # xs"
  by (cases xs) auto

text \<open>Sorting by a key of three values, stably, is three filters.\<close>

lemma sort_key_three:
  fixes f :: "'a \<Rightarrow> nat"
  assumes "\<And>x. f x \<le> 2"
  shows "sort_key f xs = filter (\<lambda>x. f x = 0) xs @ filter (\<lambda>x. f x = 1) xs @ filter (\<lambda>x. f x = 2) xs"
proof (induction xs)
  case (Cons x xs)
  let ?k = "\<lambda>n. filter (\<lambda>x. f x = n) xs"
  have sorted: "sort_key f (x # xs) = insort_key f x (?k 0 @ ?k 1 @ ?k 2)"
    using Cons by simp
  consider (zero) "f x = 0" | (one) "f x = 1" | (two) "f x = 2" using assms [of x] by linarith
  then show ?case
  proof cases
    case zero
    have "insort_key f x (?k 0 @ ?k 1 @ ?k 2) = x # ?k 0 @ ?k 1 @ ?k 2"
      using zero by (intro insort_key_front) auto
    then show ?thesis unfolding sorted using zero by simp
  next
    case one
    have "insort_key f x (?k 0 @ ?k 1 @ ?k 2) = ?k 0 @ insort_key f x (?k 1 @ ?k 2)"
      using one by (intro insort_key_skip) auto
    moreover have "insort_key f x (?k 1 @ ?k 2) = x # ?k 1 @ ?k 2"
      using one by (intro insort_key_front) auto
    ultimately show ?thesis unfolding sorted using one by simp
  next
    case two
    have "insort_key f x ((?k 0 @ ?k 1) @ ?k 2) = (?k 0 @ ?k 1) @ insort_key f x (?k 2)"
      using two by (intro insort_key_skip) auto
    moreover have "insort_key f x (?k 2) = x # ?k 2"
      using two by (intro insort_key_front) auto
    ultimately show ?thesis unfolding sorted using two by simp
  qed
qed simp

lemma try_entries_first_some:
  "\<forall>e \<in> set es. try_entry matching method e = f e \<Longrightarrow> try_entries matching method es = first_some f es"
  by (induction es) (auto split: option.split)

lemma entry_result_class:
  "route_class (fst e) = 0 \<Longrightarrow> entry_result P decode path method e = try_entry (\<lambda>p. tryMatchExactRoute p path) (toUpperCase P method) e"
  "route_class (fst e) = 1 \<Longrightarrow> entry_result P decode path method e = try_entry (\<lambda>p. tryMatchParamRoute decode p path) (toUpperCase P method) e"
  "route_class (fst e) = 2 \<Longrightarrow> entry_result P decode path method e = try_entry (\<lambda>p. tryMatchWildcardRoute p path) (toUpperCase P method) e"
  by (simp_all add: entry_result_def try_entry_def)

lemma class_filters:
  "filter (\<lambda>(p, v). \<not> is_pattern p) routes = filter (\<lambda>e. route_class (fst e) = 0) routes"
  "filter (\<lambda>(p, v). is_pattern p \<and> \<not> isWildcardRoutePath p) routes = filter (\<lambda>e. route_class (fst e) = 1) routes"
  "filter (\<lambda>(p, v). is_pattern p \<and> isWildcardRoutePath p) routes = filter (\<lambda>e. route_class (fst e) = 2) routes"
  by (auto simp: route_class_def intro!: filter_cong)

section \<open>Properties\<close>

text \<open>C23: The three loops of \<open>resolveRoute\<close> are equivalent to one pass over the routes, sorted stably by their kind,
  exact before parameter before wildcard, that returns the first usable result.\<close>

theorem bun_route_resolution:
  "resolveRoute P decode routes path method =
     first_some (entry_result P decode path method) (sort_key (\<lambda>e. route_class (fst e)) routes)"
proof -
  let ?f = "entry_result P decode path method"
  have sorted: "sort_key (\<lambda>e. route_class (fst e)) routes =
      filter (\<lambda>e. route_class (fst e) = 0) routes @ filter (\<lambda>e. route_class (fst e) = 1) routes @
      filter (\<lambda>e. route_class (fst e) = 2) routes"
    by (rule sort_key_three) (simp add: route_class_def)
  have "try_entries (\<lambda>p. tryMatchExactRoute p path) (toUpperCase P method) (filter (\<lambda>e. route_class (fst e) = 0) routes) =
      first_some ?f (filter (\<lambda>e. route_class (fst e) = 0) routes)"
    by (rule try_entries_first_some) (simp add: entry_result_class(1))
  moreover have "try_entries (\<lambda>p. tryMatchParamRoute decode p path) (toUpperCase P method) (filter (\<lambda>e. route_class (fst e) = 1) routes) =
      first_some ?f (filter (\<lambda>e. route_class (fst e) = 1) routes)"
    by (rule try_entries_first_some) (simp add: entry_result_class(2))
  moreover have "try_entries (\<lambda>p. tryMatchWildcardRoute p path) (toUpperCase P method) (filter (\<lambda>e. route_class (fst e) = 2) routes) =
      first_some ?f (filter (\<lambda>e. route_class (fst e) = 2) routes)"
    by (rule try_entries_first_some) (simp add: entry_result_class(3))
  ultimately show ?thesis
    unfolding sorted first_some_append resolveRoute_def class_filters Let_def by (simp only:)
qed

text \<open>A parameter route matches a path exactly when both have the same number of segments and every segment
  that is no parameter is equal; a wildcard route matches exactly the paths that start with its segments, and its
  parameter is the rest of the path.\<close>

theorem bun_match_exact:
  "(tryMatchParamRoute decode routePath path \<noteq> None \<longleftrightarrow>
      list_all2 (\<lambda>r q. is_param r \<or> r = q) (splitRoutePath routePath) (splitRoutePath path)) \<and>
   (tryMatchWildcardRoute (js ''/'' @ routePath) path = Some params \<longleftrightarrow>
      (\<exists>prefix rest. splitRoutePath (js ''/'' @ routePath) = prefix @ [js ''*''] \<and> splitRoutePath path = prefix @ rest \<and>
         params = [(js ''*'', join_with (js ''/'') rest)]))"
proof (intro conjI)
  show "tryMatchParamRoute decode routePath path \<noteq> None \<longleftrightarrow>
      list_all2 (\<lambda>r q. is_param r \<or> r = q) (splitRoutePath routePath) (splitRoutePath path)"
    using match_parts_iff [of "splitRoutePath routePath" "splitRoutePath path" decode "[]"]
      list_all2_lengthD [of "\<lambda>r q. is_param r \<or> r = q" "splitRoutePath routePath" "splitRoutePath path"]
    unfolding tryMatchParamRoute_def by (auto split: if_splits)
  let ?r = "splitRoutePath (js ''/'' @ routePath)"
  have star: "js ''/'' @ routePath \<noteq> js ''*''" by (simp add: js_def)
  show "tryMatchWildcardRoute (js ''/'' @ routePath) path = Some params \<longleftrightarrow>
      (\<exists>prefix rest. ?r = prefix @ [js ''*''] \<and> splitRoutePath path = prefix @ rest \<and>
         params = [(js ''*'', join_with (js ''/'') rest)])" (is "?L \<longleftrightarrow> ?R")
  proof
    assume ?L
    then have nonempty: "?r \<noteq> []" and last: "last ?r = js ''*''" and len: "length (butlast ?r) \<le> length (splitRoutePath path)"
      and same: "same_prefix (butlast ?r) (splitRoutePath path)"
      and params: "params = [(js ''*'', join_with (js ''/'') (drop (length (butlast ?r)) (splitRoutePath path)))]"
      using star by (auto simp: tryMatchWildcardRoute_def Let_def split: if_splits)
    have "take (length (butlast ?r)) (splitRoutePath path) = butlast ?r"
      using same_prefix_iff [OF len] same by (rule iffD1)
    then have "splitRoutePath path = butlast ?r @ drop (length (butlast ?r)) (splitRoutePath path)"
      using append_take_drop_id [of "length (butlast ?r)" "splitRoutePath path"] by presburger
    moreover have "?r = butlast ?r @ [js ''*'']" using append_butlast_last_id [OF nonempty] last by simp
    ultimately show ?R using params by blast
  next
    assume ?R
    then obtain pre rest where r: "?r = pre @ [js ''*'']" "splitRoutePath path = pre @ rest"
      "params = [(js ''*'', join_with (js ''/'') rest)]" by blast
    then have "same_prefix pre (pre @ rest)" by (simp add: same_prefix_iff)
    with r star show ?L by (simp add: tryMatchWildcardRoute_def)
  qed
qed

text \<open>A parameter in front of a wildcard is compared as text: the route \<open>/users/:id/*\<close> does not match the path
  \<open>/users/7/a\<close>.\<close>

lemma wildcard_ignores_params:
  "tryMatchWildcardRoute (js ''/users/:id/*'') (js ''/users/7/a'') = None"
  by (simp add: tryMatchWildcardRoute_def splitRoutePath_def js_def)

end
