(* ===== verification/Dispatch_Controller.thy ===== *)
theory Dispatch_Controller
  imports Errors
begin

text \<open>
  The controller of a dispatched request, class \<open>VerserDispatchController\<close> of
  \<open>verser2-guest-node/src/lib/dispatch-controller.ts\<close>: one terminal state, reached once.

  Streams and cleanup callbacks are numbers. A callback of the handler may throw; \<open>dc_throws\<close> tells what it
  throws, for the notification of a failure and for the report of sent bytes. What a cleanup callback throws is
  dropped by the code. Pausing and resuming the response body is not recorded beyond \<open>dc_pausedState\<close>. \<open>dc_destroyed\<close>, \<open>dc_cleaned\<close> and \<open>dc_notified\<close> record what was done, in order.
\<close>

datatype terminal_state = active | failed | completed

record handler_callbacks =
  dh_notify :: "thrown \<Rightarrow> thrown option"
  dh_bodySent :: "nat \<Rightarrow> nat \<Rightarrow> thrown option"

record dispatch_controller =
  dc_terminalState :: terminal_state
  dc_signalAborted :: bool
  dc_responseBody :: "nat option"
  dc_requestBody :: "nat option"
  dc_pausedState :: bool
  dc_abortReason :: "thrown option"
  dc_failureNotified :: bool
  dc_totalBytesSent :: nat
  dc_cleanupCallbacks :: "nat list"
  dc_cleaned :: "nat list"
  dc_destroyed :: "nat list"
  dc_notified :: "thrown list"

definition new_dispatch_controller :: dispatch_controller where
  "new_dispatch_controller = \<lparr>dc_terminalState = active, dc_signalAborted = False, dc_responseBody = None, dc_requestBody = None,
     dc_pausedState = False, dc_abortReason = None, dc_failureNotified = False, dc_totalBytesSent = 0, dc_cleanupCallbacks = [],
     dc_cleaned = [], dc_destroyed = [], dc_notified = []\<rparr>"

definition attachResponseBody :: "nat \<Rightarrow> dispatch_controller \<Rightarrow> dispatch_controller" where
  "attachResponseBody body c = c\<lparr>dc_responseBody := Some body\<rparr>"

definition attachRequestBody :: "nat \<Rightarrow> dispatch_controller \<Rightarrow> dispatch_controller" where
  "attachRequestBody body c = (if dc_terminalState c \<noteq> active then c else c\<lparr>dc_requestBody := Some body\<rparr>)"

definition onTerminal :: "nat \<Rightarrow> dispatch_controller \<Rightarrow> dispatch_controller" where
  "onTerminal k c =
     (if dc_terminalState c \<noteq> active then c\<lparr>dc_cleaned := dc_cleaned c @ [k]\<rparr>
      else c\<lparr>dc_cleanupCallbacks := List.insert k (dc_cleanupCallbacks c)\<rparr>)"

text \<open>The function that \<open>onTerminal\<close> returns.\<close>

definition offTerminal :: "nat \<Rightarrow> dispatch_controller \<Rightarrow> dispatch_controller" where
  "offTerminal k c = c\<lparr>dc_cleanupCallbacks := removeAll k (dc_cleanupCallbacks c)\<rparr>"

definition cleanup :: "dispatch_controller \<Rightarrow> dispatch_controller" where
  "cleanup c = c\<lparr>dc_cleaned := dc_cleaned c @ dc_cleanupCallbacks c, dc_cleanupCallbacks := []\<rparr>"

definition complete_dispatch :: "dispatch_controller \<Rightarrow> dispatch_controller" where
  "complete_dispatch c = (if dc_terminalState c \<noteq> active then c else cleanup (c\<lparr>dc_terminalState := completed\<rparr>))"

definition notifyFailure :: "handler_callbacks \<Rightarrow> thrown \<Rightarrow> dispatch_controller \<Rightarrow> unit result \<times> dispatch_controller" where
  "notifyFailure h e c =
     (if dc_failureNotified c then (Inr (), c)
      else ((case dh_notify h e of Some t \<Rightarrow> Inl t | None \<Rightarrow> Inr ()),
            c\<lparr>dc_failureNotified := True, dc_notified := dc_notified c @ [e]\<rparr>))"

definition destroy_bodies :: "dispatch_controller \<Rightarrow> dispatch_controller" where
  "destroy_bodies c =
     c\<lparr>dc_destroyed := dc_destroyed c @ (case dc_requestBody c of Some b \<Rightarrow> [b] | None \<Rightarrow> []) @
         (case dc_responseBody c of Some b \<Rightarrow> [b] | None \<Rightarrow> [])\<rparr>"

definition abort :: "handler_callbacks \<Rightarrow> thrown \<Rightarrow> dispatch_controller \<Rightarrow> unit result \<times> dispatch_controller" where
  "abort h reason c =
     (if dc_terminalState c \<noteq> active then (Inr (), c)
      else notifyFailure h reason
             (destroy_bodies (cleanup (c\<lparr>dc_terminalState := failed, dc_abortReason := Some reason, dc_signalAborted := True\<rparr>))))"

definition pause_dispatch :: "dispatch_controller \<Rightarrow> dispatch_controller" where
  "pause_dispatch c = c\<lparr>dc_pausedState := True\<rparr>"

definition resume_dispatch :: "dispatch_controller \<Rightarrow> dispatch_controller" where
  "resume_dispatch c = c\<lparr>dc_pausedState := False\<rparr>"

definition fail :: "handler_callbacks \<Rightarrow> thrown \<Rightarrow> dispatch_controller \<Rightarrow> unit result \<times> dispatch_controller" where
  "fail h e c = abort h e c"

text \<open>The body of \<open>callback\<close> is what it did to the controller and what it threw.\<close>

definition invoke :: "handler_callbacks \<Rightarrow> (dispatch_controller \<Rightarrow> unit result \<times> dispatch_controller) \<Rightarrow> dispatch_controller
    \<Rightarrow> bool result \<times> dispatch_controller" where
  "invoke h callback c =
     (case callback c of
        (Inr _, c1) \<Rightarrow> (Inr True, c1)
      | (Inl e, c1) \<Rightarrow> (case abort h e c1 of (Inl t, c2) \<Rightarrow> (Inl t, c2) | (Inr _, c2) \<Rightarrow> (Inr False, c2)))"

definition emitBodySent :: "handler_callbacks \<Rightarrow> nat \<Rightarrow> dispatch_controller \<Rightarrow> unit result \<times> dispatch_controller" where
  "emitBodySent h n c =
     (if dc_terminalState c \<noteq> active then (Inr (), c)
      else
        (let c1 = c\<lparr>dc_totalBytesSent := dc_totalBytesSent c + n\<rparr>
         in case dh_bodySent h n (dc_totalBytesSent c1) of None \<Rightarrow> (Inr (), c1) | Some e \<Rightarrow> abort h e c1))"

definition request_body_error :: "handler_callbacks \<Rightarrow> thrown \<Rightarrow> dispatch_controller \<Rightarrow> unit result \<times> dispatch_controller" where
  "request_body_error h e c = (if dc_terminalState c = active then abort h e c else (Inr (), c))"

section \<open>The terminal state\<close>

text \<open>What a callback of \<open>invoke\<close> does to the controller are steps of their own, before the step of its return
  or throw.\<close>

inductive dc_step :: "handler_callbacks \<Rightarrow> dispatch_controller \<Rightarrow> dispatch_controller \<Rightarrow> bool" for h where
  response_body: "dc_step h c (attachResponseBody b c)"
| request_body: "dc_step h c (attachRequestBody b c)"
| on_terminal: "k \<notin> set (dc_cleanupCallbacks c) \<Longrightarrow> k \<notin> set (dc_cleaned c) \<Longrightarrow> dc_step h c (onTerminal k c)"
| off_terminal: "dc_step h c (offTerminal k c)"
| complete: "dc_step h c (complete_dispatch c)"
| abort: "dc_step h c (snd (abort h e c))"
| pause: "dc_step h c (pause_dispatch c)"
| resume: "dc_step h c (resume_dispatch c)"
| failed: "dc_step h c (snd (fail h e c))"
| invoked: "dc_step h c (snd (invoke h (\<lambda>c. (r, c)) c))"
| sent: "dc_step h c (snd (emitBodySent h n c))"
| body_error: "dc_step h c (snd (request_body_error h e c))"

inductive dc_reachable :: "handler_callbacks \<Rightarrow> dispatch_controller \<Rightarrow> bool" for h where
  start: "dc_reachable h new_dispatch_controller"
| step: "dc_reachable h c \<Longrightarrow> dc_step h c c' \<Longrightarrow> dc_reachable h c'"

definition dc_inv :: "dispatch_controller \<Rightarrow> bool" where
  "dc_inv c \<longleftrightarrow>
     dc_notified c = (case dc_abortReason c of Some e \<Rightarrow> [e] | None \<Rightarrow> []) \<and>
     (dc_terminalState c = failed \<longleftrightarrow> dc_abortReason c \<noteq> None) \<and>
     dc_failureNotified c = (dc_terminalState c = failed) \<and> dc_signalAborted c = (dc_terminalState c = failed) \<and>
     (dc_terminalState c \<noteq> active \<longrightarrow> dc_cleanupCallbacks c = []) \<and>
     distinct (dc_cleaned c @ dc_cleanupCallbacks c)"

lemma abort_dc_inv: "dc_inv c \<Longrightarrow> dc_inv (snd (abort h e c))"
  by (auto simp: dc_inv_def abort_def notifyFailure_def destroy_bodies_def cleanup_def)

lemma offTerminal_inv: "dc_inv c \<Longrightarrow> dc_inv (offTerminal k c)"
  by (auto simp: dc_inv_def offTerminal_def distinct_removeAll)

lemma onTerminal_inv:
  "dc_inv c \<Longrightarrow> k \<notin> set (dc_cleanupCallbacks c) \<Longrightarrow> k \<notin> set (dc_cleaned c) \<Longrightarrow> dc_inv (onTerminal k c)"
  by (auto simp: dc_inv_def onTerminal_def)

lemma complete_inv: "dc_inv c \<Longrightarrow> dc_inv (complete_dispatch c)"
  by (auto simp: dc_inv_def complete_dispatch_def cleanup_def)

lemma invoke_snd: "snd (invoke h (\<lambda>c. (r, c)) c) = (case r of Inl e \<Rightarrow> snd (abort h e c) | Inr _ \<Rightarrow> c)"
  by (simp add: invoke_def split: sum.split prod.split)

lemma sent_snd:
  "\<exists>n'. snd (emitBodySent h n c) = c\<lparr>dc_totalBytesSent := n'\<rparr> \<or>
     (\<exists>e. snd (emitBodySent h n c) = snd (abort h e (c\<lparr>dc_totalBytesSent := n'\<rparr>)))"
  by (auto simp: emitBodySent_def Let_def split: option.split intro: exI [of _ "dc_totalBytesSent c"])

lemma dc_step_inv: "dc_step h c c' \<Longrightarrow> dc_inv c \<Longrightarrow> dc_inv c'"
proof (induction rule: dc_step.induct)
  case (sent c n)
  have "dc_inv (c\<lparr>dc_totalBytesSent := m\<rparr>)" for m using sent by (simp add: dc_inv_def)
  then show ?case using sent_snd [of h n c] abort_dc_inv by metis
next
  case (on_terminal k c)
  then show ?case by (simp add: onTerminal_inv)
next
  case (invoked c r)
  then show ?case by (auto simp: invoke_snd abort_dc_inv split: sum.split)
next
  case (request_body c b)
  then show ?case by (auto simp: dc_inv_def attachRequestBody_def)
next
  case (body_error c e)
  then show ?case by (simp add: request_body_error_def abort_dc_inv)
next
  case (response_body c b)
  then show ?case by (simp add: dc_inv_def attachResponseBody_def)
next
  case (pause c)
  then show ?case by (simp add: dc_inv_def pause_dispatch_def)
next
  case (resume c)
  then show ?case by (simp add: dc_inv_def resume_dispatch_def)
qed (simp_all add: fail_def abort_dc_inv offTerminal_inv complete_inv)

lemma dc_reachable_inv: "dc_reachable h c \<Longrightarrow> dc_inv c"
proof (induction rule: dc_reachable.induct)
  case start
  show ?case by (simp add: dc_inv_def new_dispatch_controller_def)
qed (rule dc_step_inv)

lemma abort_terminal: "dc_terminalState c \<noteq> active \<Longrightarrow> snd (abort h e c) = c"
  by (simp add: abort_def)

lemma dc_step_terminal:
  assumes "dc_step h c c'" and "dc_terminalState c \<noteq> active"
  shows "dc_terminalState c' = dc_terminalState c \<and> dc_notified c' = dc_notified c"
  using assms
  by cases (auto simp: attachResponseBody_def attachRequestBody_def onTerminal_def offTerminal_def complete_dispatch_def
      pause_dispatch_def resume_dispatch_def fail_def invoke_snd emitBodySent_def request_body_error_def abort_terminal split: sum.splits)

section \<open>Properties\<close>

text \<open>C22: A dispatched request ends once: whatever its handler and its streams do, the handler is told of a failure
  exactly when the request failed, once, with the reason of the abort; every cleanup callback runs at most once, and
  none is left when the request has ended; and no step leaves a terminal state.\<close>

theorem dispatch_ends_once:
  assumes "dc_reachable h c"
  shows "dc_notified c = (if dc_terminalState c = failed then [the (dc_abortReason c)] else []) \<and>
    distinct (dc_cleaned c) \<and> (dc_terminalState c \<noteq> active \<longrightarrow> dc_cleanupCallbacks c = []) \<and>
    (\<forall>c'. dc_step h c c' \<and> dc_terminalState c \<noteq> active \<longrightarrow>
       dc_terminalState c' = dc_terminalState c \<and> dc_notified c' = dc_notified c)"
  using dc_reachable_inv [OF assms] dc_step_terminal [of h c] by (auto simp: dc_inv_def split: option.splits)

definition quiet_handler :: handler_callbacks where
  "quiet_handler = \<lparr>dh_notify = (\<lambda>_. None), dh_bodySent = (\<lambda>_ _. None)\<rparr>"

theorem dispatch_ends_once_witness:
  "dc_notified (snd (fail quiet_handler NotAFunction (snd (abort quiet_handler (TypeErr []) (onTerminal 7 new_dispatch_controller))))) =
   [TypeErr []]"
proof -
  let ?c = "snd (fail quiet_handler NotAFunction (snd (abort quiet_handler (TypeErr []) (onTerminal 7 new_dispatch_controller))))"
  have "dc_reachable quiet_handler (onTerminal 7 new_dispatch_controller)"
    by (rule dc_reachable.step [OF dc_reachable.start dc_step.on_terminal]) (simp_all add: new_dispatch_controller_def)
  then have "dc_reachable quiet_handler ?c"
    by (rule dc_reachable.step [OF dc_reachable.step [OF _ dc_step.abort] dc_step.failed])
  moreover have "dc_terminalState ?c = failed" "dc_abortReason ?c = Some (TypeErr [])"
    by (simp_all add: fail_def abort_def onTerminal_def new_dispatch_controller_def notifyFailure_def destroy_bodies_def cleanup_def)
  ultimately show ?thesis using dispatch_ends_once by fastforce
qed

end
