(* ===== verification/Unauthorized_Gate.thy ===== *)
theory Unauthorized_Gate
  imports Headers
begin

text \<open>
  The gate for clients without a valid certificate, \<open>verser2-host/src/lib/unauthorized-client.ts\<close>, and the session
  and stream listeners of the Host that use it (\<open>trackSession\<close> and \<open>handleUnauthorizedClientStream\<close> of
  \<open>node-http2-verser-host.ts\<close>).

  Sessions and streams are numbers. The asynchronous \<open>handleUnauthorizedClientFirstStream\<close> is cut at its awaits: the
  reading of the body and the call of the handler are handlers of events that settle a promise once, and the answer is
  a function of their outcomes. The state of the streams themselves (\<open>closed\<close>, \<open>headersSent\<close>) is an argument.
\<close>

section \<open>Sessions\<close>

record uc_session =
  uc_claimed :: bool
  uc_closing :: bool
  uc_aborted :: bool
  uc_hardCloseTimer :: bool

text \<open>\<open>ug_first\<close> are the streams given to the handler, with their session and path.\<close>

record gate =
  ug_sessions :: "(nat \<times> uc_session) list"
  ug_first :: "(nat \<times> nat \<times> jsstr) list"
  ug_refused :: "nat list"
  ug_closedSessions :: "nat list"
  ug_destroyedSessions :: "nat list"

definition new_gate :: gate where
  "new_gate = \<lparr>ug_sessions = [], ug_first = [], ug_refused = [], ug_closedSessions = [], ug_destroyedSessions = []\<rparr>"

definition isAuthorizedClientSession :: "bool \<Rightarrow> bytes option \<Rightarrow> bool" where
  "isAuthorizedClientSession authorized raw \<longleftrightarrow> authorized \<and> (case raw of Some r \<Rightarrow> 0 < length r | None \<Rightarrow> False)"

definition trackUnauthorizedSession :: "nat \<Rightarrow> gate \<Rightarrow> gate" where
  "trackUnauthorizedSession s g =
     g\<lparr>ug_sessions := AList.update s \<lparr>uc_claimed = False, uc_closing = False, uc_aborted = False, uc_hardCloseTimer = False\<rparr>
        (ug_sessions g)\<rparr>"

definition isReservedUnauthorizedClientPath :: "jsstr \<Rightarrow> bool" where
  "isReservedUnauthorizedClientPath path \<longleftrightarrow> path = js ''/verser'' \<or> take 8 path = js ''/verser/''"

definition refuseUnauthorizedClientStream :: "bool \<Rightarrow> nat \<Rightarrow> gate \<Rightarrow> gate" where
  "refuseUnauthorizedClientStream stream_closed stream g =
     (if stream_closed then g else g\<lparr>ug_refused := ug_refused g @ [stream]\<rparr>)"

text \<open>The state of a session that was removed lives on in the closures; it has no entry to update.\<close>

definition set_session :: "nat \<Rightarrow> uc_session \<Rightarrow> gate \<Rightarrow> gate" where
  "set_session s st g =
     (if map_of (ug_sessions g) s = None then g else g\<lparr>ug_sessions := AList.update s st (ug_sessions g)\<rparr>)"

definition closeUnauthorizedClientSession :: "nat \<Rightarrow> uc_session \<Rightarrow> gate \<Rightarrow> gate" where
  "closeUnauthorizedClientSession s st g =
     (if uc_closing st then g
      else if s \<in> set (ug_destroyedSessions g) then set_session s (st\<lparr>uc_closing := True, uc_aborted := True\<rparr>) g
      else (set_session s (st\<lparr>uc_closing := True, uc_aborted := True, uc_hardCloseTimer := True\<rparr>) g)
             \<lparr>ug_closedSessions := List.insert s (ug_closedSessions g)\<rparr>)"

text \<open>\<open>handleStream\<close>. \<open>goaway\<close> tells whether \<open>session.goaway\<close> returned.\<close>

definition gate_handleStream :: "nat option \<Rightarrow> nat \<Rightarrow> jsstr \<Rightarrow> bool \<Rightarrow> bool \<Rightarrow> gate \<Rightarrow> bool \<times> gate" where
  "gate_handleStream session stream path stream_closed goaway g =
     (case session of
        None \<Rightarrow> (False, g)
      | Some s \<Rightarrow>
          (case map_of (ug_sessions g) s of
             None \<Rightarrow> (False, g)
           | Some st \<Rightarrow>
               if uc_claimed st then (True, refuseUnauthorizedClientStream stream_closed stream g)
               else
                 (let st1 = st\<lparr>uc_claimed := True\<rparr>; g1 = set_session s st1 g
                  in if isReservedUnauthorizedClientPath path
                     then (True, closeUnauthorizedClientSession s st1 (refuseUnauthorizedClientStream stream_closed stream g1))
                     else if \<not> goaway then (True, closeUnauthorizedClientSession s st1 g1)
                     else (True, g1\<lparr>ug_first := ug_first g1 @ [(s, stream, path)]\<rparr>))))"

definition gate_handleSessionClose :: "nat \<Rightarrow> gate \<Rightarrow> bool \<times> gate" where
  "gate_handleSessionClose s g =
     (if map_of (ug_sessions g) s = None then (False, g)
      else (True, g\<lparr>ug_sessions := AList.delete s (ug_sessions g)\<rparr>))"

definition hard_close :: "nat \<Rightarrow> gate \<Rightarrow> gate" where
  "hard_close s g = g\<lparr>ug_destroyedSessions := List.insert s (ug_destroyedSessions g)\<rparr>"

text \<open>The end of the first stream: its \<open>finally\<close>.\<close>

definition first_stream_done :: "nat \<Rightarrow> bool \<Rightarrow> nat \<Rightarrow> bool \<Rightarrow> gate \<Rightarrow> gate" where
  "first_stream_done s refuses stream stream_closed g =
     (let g1 = (if refuses then refuseUnauthorizedClientStream stream_closed stream g else g)
      in case map_of (ug_sessions g1) s of
           Some st \<Rightarrow> closeUnauthorizedClientSession s st g1
         | None \<Rightarrow> g1)"

text \<open>\<open>trackSession\<close> of the Host; the first component tells whether the connection is announced.\<close>

definition host_trackSession :: "bool \<Rightarrow> bool \<Rightarrow> bytes option \<Rightarrow> nat \<Rightarrow> gate \<Rightarrow> bool \<times> gate" where
  "host_trackSession has_gate authorized raw s g =
     (if has_gate \<and> \<not> isAuthorizedClientSession authorized raw then (False, trackUnauthorizedSession s g) else (True, g))"

section \<open>The request body\<close>

datatype uc_failure = UcFailure int

record body_read =
  br_chunks :: "bytes list"
  br_total :: nat
  br_outcome :: "(uc_failure + bytes) option"

definition new_body_read :: body_read where
  "new_body_read = \<lparr>br_chunks = [], br_total = 0, br_outcome = None\<rparr>"

definition finish_read :: "uc_failure + bytes \<Rightarrow> body_read \<Rightarrow> body_read" where
  "finish_read v b = (if br_outcome b \<noteq> None then b else b\<lparr>br_outcome := Some v\<rparr>)"

datatype body_event = BrData bytes | BrEnd | BrAborted | BrError | BrClose | BrAbort | BrTimeout

text \<open>\<open>finish\<close> removes the listeners, so nothing is read after it.\<close>

fun readUnauthorizedClientRequestBody :: "nat \<Rightarrow> body_event \<Rightarrow> body_read \<Rightarrow> body_read" where
  "readUnauthorizedClientRequestBody limit (BrData chunk) b =
     (if br_outcome b \<noteq> None then b
      else
        (let b1 = b\<lparr>br_total := br_total b + length chunk\<rparr>
         in if limit < br_total b1 then finish_read (Inl (UcFailure 413)) b1 else b1\<lparr>br_chunks := br_chunks b1 @ [chunk]\<rparr>))"
| "readUnauthorizedClientRequestBody limit BrEnd b = finish_read (Inr (concat (br_chunks b))) b"
| "readUnauthorizedClientRequestBody limit BrAborted b = finish_read (Inl (UcFailure 400)) b"
| "readUnauthorizedClientRequestBody limit BrError b = finish_read (Inl (UcFailure 400)) b"
| "readUnauthorizedClientRequestBody limit BrClose b = finish_read (Inl (UcFailure 400)) b"
| "readUnauthorizedClientRequestBody limit BrAbort b = finish_read (Inl (UcFailure 408)) b"
| "readUnauthorizedClientRequestBody limit BrTimeout b = finish_read (Inl (UcFailure 408)) b"

definition read_run :: "nat \<Rightarrow> body_event list \<Rightarrow> body_read" where
  "read_run limit es = fold (readUnauthorizedClientRequestBody limit) es new_body_read"

section \<open>The handler and its answer\<close>

definition getUnauthorizedClientRequestHeaders :: "(jsstr \<times> header_out option) list \<Rightarrow> (jsstr \<times> header_out) list" where
  "getUnauthorizedClientRequestHeaders headers =
     foldl (\<lambda>ordinary (name, value).
        case value of None \<Rightarrow> ordinary
        | Some v \<Rightarrow> if name \<noteq> [] \<and> hd name = 58 then ordinary else obj_set name v ordinary) [] headers"

datatype handler_event = HeResult | HeFailed | HeAbort | HeTimeout

text \<open>\<open>invokeUnauthorizedClientHandler\<close>: the first event decides; \<open>Inr ()\<close> is that the handler's result is used.\<close>

fun invokeUnauthorizedClientHandler :: "handler_event list \<Rightarrow> (uc_failure + unit) option" where
  "invokeUnauthorizedClientHandler [] = None"
| "invokeUnauthorizedClientHandler (HeResult # es) = Some (Inr ())"
| "invokeUnauthorizedClientHandler (HeFailed # es) = Some (Inl (UcFailure 500))"
| "invokeUnauthorizedClientHandler (HeAbort # es) = Some (Inl (UcFailure 408))"
| "invokeUnauthorizedClientHandler (HeTimeout # es) = Some (Inl (UcFailure 500))"

text \<open>What a handler returned: not an object, or its fields. Headers are given when they are a plain object, and
  \<open>None\<close> inside when they are anything else; a body is text, bytes, absent or something else.\<close>

datatype result_body = NoResultBody | TextBody jsstr | BytesBody bytes | OtherBody

record handler_result =
  hr_statusCode :: jsnumber
  hr_headers :: "VerserHeaders option option"
  hr_body :: result_body

record uc_response =
  ur_status :: int
  ur_headers :: "(jsstr \<times> jsstr) list"
  ur_body :: bytes

definition header_out_value :: "header_out \<Rightarrow> VerserHeaderValue" where
  "header_out_value v = (case v of One s \<Rightarrow> HAtom (AStr s) | Many ss \<Rightarrow> HArr (map AStr ss))"

fun body_bytes :: "result_body \<Rightarrow> (uc_failure + bytes)" where
  "body_bytes NoResultBody = Inr []"
| "body_bytes (TextBody s) = Inr (utf8 s)"
| "body_bytes (BytesBody b) = Inr b"
| "body_bytes OtherBody = Inl (UcFailure 500)"

text \<open>\<open>writeUnauthorizedClientResponse\<close>. An error of the header validation is no \<open>UnauthorizedClientFailure\<close>, which
  the caller answers with status 500 as well.\<close>

definition writeUnauthorizedClientResponse :: "'p platform_scheme \<Rightarrow> nat \<Rightarrow> handler_result option \<Rightarrow> uc_failure + uc_response" where
  "writeUnauthorizedClientResponse P limit result =
     (case result of
        None \<Rightarrow> Inl (UcFailure 500)
      | Some r \<Rightarrow>
          if \<not> isSafeInteger (hr_statusCode r) \<or> num_lt (hr_statusCode r) 100 \<or> num_gt (hr_statusCode r) 599
          then Inl (UcFailure 500)
          else if hr_headers r = Some None then Inl (UcFailure 500)
          else
            (case body_bytes (hr_body r) of
               Inl f \<Rightarrow> Inl f
             | Inr body \<Rightarrow>
                 if limit < length body then Inl (UcFailure 500)
                 else
                   (case validateVerserHeaders P (case hr_headers r of Some (Some hs) \<Rightarrow> hs | _ \<Rightarrow> []) of
                      Inl e \<Rightarrow> Inl (UcFailure 500)
                    | Inr hs \<Rightarrow>
                        (let sanitized = sanitizeHttp2ResponseHeaders P (map (\<lambda>(k, v). (k, header_out_value v)) hs);
                             kept = fromEntries (filter (\<lambda>(k, v). k \<noteq> js ''content-length'') sanitized)
                         in Inr \<lparr>ur_status = int_of_num (hr_statusCode r),
                                 ur_headers = AList.update (js ''content-length'') (numberToString P (Fin (of_nat (length body)))) kept,
                                 ur_body = body\<rparr>))))"

datatype uc_answer = Silent | Refuse | Answer uc_response | Fail int bool

text \<open>\<open>handleUnauthorizedClientFirstStream\<close>: \<open>aborted1\<close> and \<open>aborted2\<close> are the tests of the signal; \<open>result\<close> is the value
  of the handler, \<open>None\<close> when it is \<open>undefined\<close>; \<open>gone\<close> tells whether the session or the stream is closed or destroyed.
  \<open>Fail status True\<close> also refuses the stream.\<close>

definition failure_answer :: "bool \<Rightarrow> uc_failure \<Rightarrow> uc_answer" where
  "failure_answer gone f = (case f of UcFailure status \<Rightarrow> if gone then Silent else Fail status (status = 408))"

definition handleUnauthorizedClientFirstStream :: "'p platform_scheme \<Rightarrow> nat \<Rightarrow> uc_failure + bytes \<Rightarrow> bool \<Rightarrow> uc_failure + unit
    \<Rightarrow> handler_result option option \<Rightarrow> bool \<Rightarrow> bool \<Rightarrow> uc_answer" where
  "handleUnauthorizedClientFirstStream P limit body aborted1 called result aborted2 gone =
     (case body of
        Inl f \<Rightarrow> failure_answer gone f
      | Inr _ \<Rightarrow>
          if aborted1 then Silent
          else case called of
            Inl f \<Rightarrow> failure_answer gone f
          | Inr _ \<Rightarrow>
              if aborted2 then Silent
              else case result of
                None \<Rightarrow> Refuse
              | Some r \<Rightarrow>
                  (case writeUnauthorizedClientResponse P limit r of
                     Inl f \<Rightarrow> failure_answer gone f
                   | Inr resp \<Rightarrow> if gone then Silent else Answer resp))"

section \<open>The states of a gate\<close>

text \<open>The Host tracks a session once, when it begins.\<close>

inductive ug_step :: "gate \<Rightarrow> gate \<Rightarrow> bool" where
  track: "s \<notin> fst ` set (ug_sessions g) \<Longrightarrow> s \<notin> fst ` set (ug_first g) \<Longrightarrow> ug_step g (trackUnauthorizedSession s g)"
| stream: "ug_step g (snd (gate_handleStream session stream path stream_closed goaway g))"
| answered: "ug_step g (first_stream_done s refuses stream stream_closed g)"
| hard: "ug_step g (hard_close s g)"
| session_close: "ug_step g (snd (gate_handleSessionClose s g))"

inductive ug_reachable :: "gate \<Rightarrow> bool" where
  start: "ug_reachable new_gate"
| step: "ug_reachable g \<Longrightarrow> ug_step g g' \<Longrightarrow> ug_reachable g'"

definition ug_inv :: "gate \<Rightarrow> bool" where
  "ug_inv g \<longleftrightarrow>
     distinct (map fst (ug_first g)) \<and> distinct (map fst (ug_sessions g)) \<and>
     (\<forall>s st. map_of (ug_sessions g) s = Some st \<and> s \<in> fst ` set (ug_first g) \<longrightarrow> uc_claimed st) \<and>
     (\<forall>(s, stream, path) \<in> set (ug_first g). \<not> isReservedUnauthorizedClientPath path)"

lemma ug_inv_set_session:
  "ug_inv g \<Longrightarrow> (s \<in> fst ` set (ug_first g) \<longrightarrow> uc_claimed st) \<Longrightarrow> ug_inv (set_session s st g)"
  by (auto simp: ug_inv_def set_session_def assoc_simps simp del: map_of_eq_Some_iff split: if_splits)

lemma ug_inv_refuse: "ug_inv g \<Longrightarrow> ug_inv (refuseUnauthorizedClientStream stream_closed stream g)"
  by (simp add: ug_inv_def refuseUnauthorizedClientStream_def)

lemma ug_inv_closed: "ug_inv (g\<lparr>ug_closedSessions := x\<rparr>) = ug_inv g"
  by (simp add: ug_inv_def)

lemma ug_inv_close_session:
  "ug_inv g \<Longrightarrow> (s \<in> fst ` set (ug_first g) \<longrightarrow> uc_claimed st) \<Longrightarrow> ug_inv (closeUnauthorizedClientSession s st g)"
  by (auto simp: closeUnauthorizedClientSession_def ug_inv_closed intro!: ug_inv_set_session)

lemma ug_inv_stream: "ug_inv g \<Longrightarrow> ug_inv (snd (gate_handleStream session stream path stream_closed goaway g))"
proof (cases "\<exists>s st. session = Some s \<and> map_of (ug_sessions g) s = Some st \<and> \<not> uc_claimed st")
  case True
  assume inv: "ug_inv g"
  from True obtain s st where s: "session = Some s" "map_of (ug_sessions g) s = Some st" "\<not> uc_claimed st" by blast
  have new: "s \<notin> fst ` set (ug_first g)" using inv s unfolding ug_inv_def by blast
  let ?st = "st\<lparr>uc_claimed := True\<rparr>"
  let ?g = "set_session s ?st g"
  have g: "ug_inv ?g" by (rule ug_inv_set_session [OF inv]) simp
  have first: "ug_inv (?g\<lparr>ug_first := ug_first ?g @ [(s, stream, path)]\<rparr>)" if "\<not> isReservedUnauthorizedClientPath path"
    using g new that s(2) by (auto simp: ug_inv_def set_session_def assoc_simps simp del: map_of_eq_Some_iff split: if_splits)
  have "ug_inv (closeUnauthorizedClientSession s ?st (refuseUnauthorizedClientStream stream_closed stream ?g))"
    by (rule ug_inv_close_session [OF ug_inv_refuse [OF g]]) simp
  moreover have "ug_inv (closeUnauthorizedClientSession s ?st ?g)"
    by (rule ug_inv_close_session [OF g]) simp
  ultimately show ?thesis using s first by (simp add: gate_handleStream_def Let_def)
next
  case False
  assume "ug_inv g"
  with False show ?thesis by (auto simp: gate_handleStream_def ug_inv_refuse split: option.split)
qed

lemma ug_inv_done: "ug_inv g \<Longrightarrow> ug_inv (first_stream_done s refuses stream stream_closed g)"
proof -
  assume inv: "ug_inv g"
  let ?g = "if refuses then refuseUnauthorizedClientStream stream_closed stream g else g"
  have g: "ug_inv ?g" using inv ug_inv_refuse by simp
  then show ?thesis
  proof (cases "map_of (ug_sessions ?g) s")
    case (Some st)
    then have "s \<in> fst ` set (ug_first ?g) \<longrightarrow> uc_claimed st" using g unfolding ug_inv_def by blast
    from ug_inv_close_session [OF g this] Some show ?thesis by (simp add: first_stream_done_def Let_def)
  qed (simp add: first_stream_done_def Let_def)
qed

lemma ug_inv_track:
  "ug_inv g \<Longrightarrow> s \<notin> fst ` set (ug_first g) \<Longrightarrow> ug_inv (trackUnauthorizedSession s g)"
  by (auto simp: ug_inv_def trackUnauthorizedSession_def assoc_simps simp del: map_of_eq_Some_iff split: if_splits)

lemma ug_inv_session_close: "ug_inv g \<Longrightarrow> ug_inv (snd (gate_handleSessionClose s g))"
  by (auto simp: ug_inv_def gate_handleSessionClose_def assoc_simps simp del: map_of_eq_Some_iff split: if_splits)

lemma ug_reachable_inv: "ug_reachable g \<Longrightarrow> ug_inv g"
proof (induction rule: ug_reachable.induct)
  case start
  show ?case by (simp add: ug_inv_def new_gate_def)
next
  case (step g g')
  from step.hyps(2) step.IH show ?case
  proof cases
    case (hard s)
    then show ?thesis using step.IH by (simp add: hard_close_def ug_inv_def)
  qed (simp_all add: ug_inv_track ug_inv_stream ug_inv_done ug_inv_session_close)
qed

section \<open>Bounds\<close>

definition received :: "body_event list \<Rightarrow> bytes" where
  "received es = concat (map (\<lambda>e. case e of BrData c \<Rightarrow> c | _ \<Rightarrow> []) es)"

lemma read_settled: "br_outcome b \<noteq> None \<Longrightarrow> fold (readUnauthorizedClientRequestBody limit) es b = b"
proof (induction es)
  case (Cons e es)
  then have "readUnauthorizedClientRequestBody limit e b = b" by (cases e) (auto simp: finish_read_def)
  with Cons show ?case by simp
qed simp

lemma read_bounded:
  assumes "br_outcome b = None" and "br_total b = length (concat (br_chunks b))" and "br_total b \<le> limit"
    and "br_outcome (fold (readUnauthorizedClientRequestBody limit) es b) = Some (Inr body)"
  shows "length body \<le> limit \<and> (\<exists>before later. es = before @ BrEnd # later \<and> body = concat (br_chunks b) @ received before)"
  using assms
proof (induction es arbitrary: b)
  case (Cons e es)
  let ?b = "readUnauthorizedClientRequestBody limit e b"
  show ?case
  proof (cases e)
    case (BrData chunk)
    show ?thesis
    proof (cases "limit < br_total b + length chunk")
      case True
      then show ?thesis using Cons.prems BrData read_settled [of ?b limit es] by (simp add: finish_read_def)
    next
      case False
      have "length body \<le> limit \<and> (\<exists>before later. es = before @ BrEnd # later \<and> body = concat (br_chunks ?b) @ received before)"
        by (rule Cons.IH) (use Cons.prems BrData False in simp_all)
      then obtain before later where "length body \<le> limit" "es = before @ BrEnd # later"
        "body = concat (br_chunks ?b) @ received before" by blast
      then show ?thesis using Cons.prems(1) BrData False
        by (intro conjI exI [of _ "e # before"] exI [of _ later]) (simp_all add: received_def)
    qed
  next
    case BrEnd
    then show ?thesis using Cons.prems read_settled [of ?b limit es]
      by (intro conjI exI [of _ "[]"] exI [of _ es]) (simp_all add: finish_read_def received_def)
  qed (use Cons.prems read_settled [of ?b limit es] in \<open>simp_all add: finish_read_def\<close>)
qed simp

lemma gate_obj_set_entries: "(k, v) \<in> set (obj_set n w es) \<Longrightarrow> (k, v) \<in> set es \<or> k = n"
  by (induction es) (auto simp: obj_set_def split: if_splits)

lemma sanitized_hop_free:
  "(k, v) \<in> set (sanitizeHttp2ResponseHeaders P headers) \<Longrightarrow> toLowerCase P k \<notin> set HOP_BY_HOP_HEADERS"
proof -
  let ?step = "\<lambda>sanitized (name, value).
          case flattenHeaderValue P value of
            None \<Rightarrow> sanitized
          | Some v \<Rightarrow>
            (let normalizedName = toLowerCase P name in
             if normalizedName \<in> set HOP_BY_HOP_HEADERS \<or> normalizedName \<in> set (record_connectionTokens P headers) \<or>
                normalizedName = VERSER_RESPONSE_METADATA_HEADER
             then sanitized else obj_set name v sanitized)"
  have "\<forall>(k, v) \<in> set (foldl ?step acc hs). toLowerCase P k \<notin> set HOP_BY_HOP_HEADERS"
    if "\<forall>(k, v) \<in> set acc. toLowerCase P k \<notin> set HOP_BY_HOP_HEADERS" for acc hs
    using that
  proof (induction hs arbitrary: acc)
    case (Cons h hs)
    have "\<forall>(k, v) \<in> set (?step acc h). toLowerCase P k \<notin> set HOP_BY_HOP_HEADERS"
      using Cons.prems by (cases h) (auto simp: Let_def split: option.split dest!: gate_obj_set_entries)
    from Cons.IH [OF this] show ?case by simp
  qed simp
  from this [of "[]" headers] show "(k, v) \<in> set (sanitizeHttp2ResponseHeaders P headers) \<Longrightarrow> toLowerCase P k \<notin> set HOP_BY_HOP_HEADERS"
    by (auto simp: sanitizeHttp2ResponseHeaders_def Let_def)
qed

lemma fromEntries_subset: "set (fromEntries es) \<subseteq> set es"
proof (induction es rule: rev_induct)
  case (snoc e es)
  have "set (AList.update k v xs) \<subseteq> insert (k, v) (set xs)" for k :: jsstr and v :: 'a and xs by (induction xs) auto
  with snoc show ?case by (cases e) (fastforce simp: fromEntries_def)
qed (simp add: fromEntries_def)

lemma update_entries: "(k, v) \<in> set (AList.update n w es) \<Longrightarrow> (k, v) \<in> set es \<or> k = n"
  by (induction es) (auto split: if_splits)

lemma written_response:
  assumes "writeUnauthorizedClientResponse P limit r = Inr resp"
  shows "100 \<le> ur_status resp \<and> ur_status resp \<le> 599 \<and> length (ur_body resp) \<le> limit \<and>
    map_of (ur_headers resp) (js ''content-length'') = Some (numberToString P (Fin (of_nat (length (ur_body resp))))) \<and>
    (\<forall>(k, v) \<in> set (ur_headers resp). k = js ''content-length'' \<or> toLowerCase P k \<notin> set HOP_BY_HOP_HEADERS)"
proof -
  from assms obtain hr hs where r: "r = Some hr" "isSafeInteger (hr_statusCode hr)" "\<not> num_lt (hr_statusCode hr) 100" "\<not> num_gt (hr_statusCode hr) 599"
    "length (ur_body resp) \<le> limit" "ur_status resp = int_of_num (hr_statusCode hr)"
    "ur_headers resp = AList.update (js ''content-length'') (numberToString P (Fin (of_nat (length (ur_body resp)))))
       (fromEntries (filter (\<lambda>(k, v). k \<noteq> js ''content-length'') (sanitizeHttp2ResponseHeaders P hs)))"
    by (auto simp: writeUnauthorizedClientResponse_def Let_def not_less split: option.splits if_splits sum.splits)
  have "100 \<le> ur_status resp \<and> ur_status resp \<le> 599"
    using r(2-4,6) by (cases "hr_statusCode hr") (auto simp: not_less floor_le_iff le_floor_iff)
  moreover have "k = js ''content-length'' \<or> toLowerCase P k \<notin> set HOP_BY_HOP_HEADERS" if "(k, v) \<in> set (ur_headers resp)" for k v
    using that fromEntries_subset [of "filter (\<lambda>(k, v). k \<noteq> js ''content-length'') (sanitizeHttp2ResponseHeaders P hs)"]
    unfolding r(7) by (auto dest!: update_entries sanitized_hop_free)
  ultimately show ?thesis using r(5,7) by (auto simp: update_conv')
qed

section \<open>Properties\<close>

text \<open>C24: A client without a valid certificate is served once: of the streams of a session at most one is given to the
  handler, never one under the reserved path, and every stream of such a session is consumed by the gate, so that
  none reaches the routes of the Host.\<close>

theorem unauthorized_served_once:
  assumes "ug_reachable g"
  shows "distinct (map fst (ug_first g)) \<and> (\<forall>(s, stream, path) \<in> set (ug_first g). \<not> isReservedUnauthorizedClientPath path) \<and>
    (\<forall>s \<in> fst ` set (ug_sessions g). \<forall>stream path stream_closed goaway. fst (gate_handleStream (Some s) stream path stream_closed goaway g))"
proof -
  have "fst (gate_handleStream (Some s) stream path stream_closed goaway g)" if "s \<in> fst ` set (ug_sessions g)" for s stream path stream_closed goaway
  proof -
    obtain st where "map_of (ug_sessions g) s = Some st" using \<open>s \<in> _\<close> by (metis map_of_eq_None_iff not_None_eq)
    then show ?thesis by (simp add: gate_handleStream_def Let_def)
  qed
  then show ?thesis using ug_reachable_inv [OF assms] by (simp add: ug_inv_def)
qed

theorem unauthorized_served_once_witness:
  "fst (gate_handleStream (Some 0) 2 (js ''/x'') False True (snd (gate_handleStream (Some 0) 1 (js ''/'') False True (trackUnauthorizedSession 0 new_gate))))"
proof -
  let ?g = "snd (gate_handleStream (Some 0) 1 (js ''/'') False True (trackUnauthorizedSession 0 new_gate))"
  have "ug_reachable ?g"
    by (rule ug_reachable.step [OF ug_reachable.step [OF ug_reachable.start ug_step.track] ug_step.stream])
      (simp_all add: new_gate_def)
  moreover have "0 \<in> fst ` set (ug_sessions ?g)"
    by (simp add: gate_handleStream_def trackUnauthorizedSession_def new_gate_def isReservedUnauthorizedClientPath_def js_def set_session_def)
  ultimately show ?thesis using unauthorized_served_once by blast
qed

text \<open>C25: The exchange with such a client is bounded: a request body that is passed on is what was received before its end,
  within the limit, and an answer has a valid status, a body within the limit, its exact length as the only
  content-length, and no hop-by-hop header.\<close>

theorem unauthorized_exchange_bounded:
  "(br_outcome (read_run limit events) = Some (Inr body) \<longrightarrow>
      length body \<le> limit \<and> (\<exists>before later. events = before @ BrEnd # later \<and> body = received before)) \<and>
   (handleUnauthorizedClientFirstStream P rlimit outcome aborted1 called result aborted2 gone = Answer resp \<longrightarrow>
      100 \<le> ur_status resp \<and> ur_status resp \<le> 599 \<and> length (ur_body resp) \<le> rlimit \<and>
      map_of (ur_headers resp) (js ''content-length'') = Some (numberToString P (Fin (of_nat (length (ur_body resp))))) \<and>
      (\<forall>(k, v) \<in> set (ur_headers resp). k = js ''content-length'' \<or> toLowerCase P k \<notin> set HOP_BY_HOP_HEADERS))"
proof (intro conjI [OF impI impI])
  assume "br_outcome (read_run limit events) = Some (Inr body)"
  then show "length body \<le> limit \<and> (\<exists>before later. events = before @ BrEnd # later \<and> body = received before)"
    using read_bounded [of new_body_read limit events body] by (simp add: read_run_def new_body_read_def)
next
  assume "handleUnauthorizedClientFirstStream P rlimit outcome aborted1 called result aborted2 gone = Answer resp"
  then obtain r where "writeUnauthorizedClientResponse P rlimit r = Inr resp"
    by (auto simp: handleUnauthorizedClientFirstStream_def failure_answer_def split: sum.splits option.splits if_splits uc_failure.splits)
  then show "100 \<le> ur_status resp \<and> ur_status resp \<le> 599 \<and> length (ur_body resp) \<le> rlimit \<and>
      map_of (ur_headers resp) (js ''content-length'') = Some (numberToString P (Fin (of_nat (length (ur_body resp))))) \<and>
      (\<forall>(k, v) \<in> set (ur_headers resp). k = js ''content-length'' \<or> toLowerCase P k \<notin> set HOP_BY_HOP_HEADERS)"
    by (rule written_response)
qed

definition sample_result :: handler_result where
  "sample_result = \<lparr>hr_statusCode = Fin 200, hr_headers = None, hr_body = BytesBody [7]\<rparr>"

theorem unauthorized_exchange_bounded_witness:
  "length [1, 2 :: byte] \<le> 3 \<and>
   (\<exists>resp. handleUnauthorizedClientFirstStream sample_platform 5 (Inr [1, 2]) False (Inr ()) (Some (Some sample_result)) False False =
      Answer resp \<and> ur_body resp = [7] \<and> length (ur_body resp) \<le> 5)"
proof -
  let ?es = "[BrData [1], BrData [2], BrEnd, BrData [4]]"
  have "br_outcome (read_run 3 ?es) = Some (Inr [1, 2])"
    by (simp add: read_run_def new_body_read_def finish_read_def)
  moreover obtain resp where resp: "handleUnauthorizedClientFirstStream sample_platform 5 (Inr [1, 2]) False (Inr ())
      (Some (Some sample_result)) False False = Answer resp" "ur_body resp = [7]"
    by (simp add: handleUnauthorizedClientFirstStream_def writeUnauthorizedClientResponse_def sample_result_def
        validateVerserHeaders_def max_safe_integer_def Let_def)
  ultimately show ?thesis
    using unauthorized_exchange_bounded [of 3 ?es "[1, 2]" sample_platform 5 "Inr [1, 2]" False "Inr ()" "Some (Some sample_result)" False False resp]
    by blast
qed

end
