(* ===== verification/Spec2Isabelle.thy ===== *)
theory Spec2Isabelle
  imports Headers Envelope Chunked_Decoder Host_Properties Host_Routing Vws_Open Web_Socket Broker_Session Node_Guest Bun_Routes
    Dispatch_Controller Unauthorized_Gate
begin

text \<open>
  A verification development of verser2, a toolkit for reverse HTTP.

  \<^bold>\<open>The program.\<close> A Guest serves HTTP without a listening port: it connects to a Host over HTTP/2, registers the domains it
  serves and keeps a pool of lease streams open. A Broker connects to the same Host, receives the routes, and sends
  requests; the Host writes each on a lease stream of the Guest that serves the domain and pipes the answer back. Hosts
  can be linked: they exchange routes over NDJSON control streams and carry requests and WebSockets for each other, under
  the rules of a route authorizer. The sources are \<open>packages/verser-common\<close> (protocol), \<open>verser2-host\<close>,
  \<open>verser2-guest-node\<close> (Node Guest and Broker) and \<open>verser2-guest-bun\<close>, all under \<open>src/\<close>.

  \<^bold>\<open>Conventions.\<close> A JavaScript string is a list of 16-bit code units (\<open>jsstr\<close>), bytes are 8-bit words, a number is a rational,
  NaN or an infinity. A function that can throw returns \<open>thrown + 'a\<close>. An object or \<open>Map\<close> whose order matters is an association list, and an
  assignment to a plain object loses the key \<open>__proto__\<close> (\<open>obj_set\<close>). Functions of the platform that are not in the
  repository (collation, Unicode case, \<open>URL\<close>, \<open>JSON\<close>, UTF-8 decoding) are fields of the record \<open>platform\<close>, an argument of
  every definition that uses them; what a theorem needs of them is a hypothesis, and its witness uses a concrete platform. A class
  is a record and one definition per method; an \<open>async\<close> method is cut at its awaits, and what happens between two
  pieces is any sequence of steps of the component. Promises, timers and stream operations are recorded in the state, so that
  theorems can say that a promise is settled once and a timer is cleared.

  \<^bold>\<open>Protocol.\<close>
  \<^item> \<open>Prelude\<close>: strings, numbers, JSON, the platform, results, association lists, sorting with a comparison (locale
    \<open>comparison\<close>).
  \<^item> \<open>Errors\<close>: \<open>errors.ts\<close>, \<open>error-response.ts\<close>, \<open>utils.ts\<close>, \<open>protocol-headers.ts\<close>.
  \<^item> \<open>Routing\<close>, \<open>Federation_Common\<close>: \<open>routing.ts\<close>, \<open>route-lifecycle.ts\<close>, \<open>registration.ts\<close>, \<open>federation.ts\<close>.
  \<^item> \<open>Headers\<close>: \<open>headers.ts\<close>, \<open>header-serialization.ts\<close>, \<open>http2-headers.ts\<close>. Sanitised headers hold no hop-by-hop header;
    response metadata is read back; a malformed response is never taken for a plain one.
  \<^item> \<open>Envelope\<close>: \<open>envelope.ts\<close>, \<open>stream-readers.ts\<close> over a model of a paused \<open>Readable\<close>. An envelope is read back from any
    chunks, and a truncated one is an error.
  \<^item> \<open>Line_Frames\<close>: \<open>ndjson.ts\<close>; the reader refines a reader of whole lines (locale \<open>line_reader\<close>).
  \<^item> \<open>Vws_Frames\<close>: \<open>vws.ts\<close> and the framed bridge of the Host.

  \<^bold>\<open>Host.\<close>
  \<^item> \<open>Route_Registry\<close>, \<open>Lease_Pool\<close>, \<open>Route_Authorizer\<close>, \<open>Local_Broker\<close>: \<open>route-registry.ts\<close>, \<open>lease-pool.ts\<close>,
    \<open>route-authorizer.ts\<close> and the Broker state of \<open>local-peers.ts\<close>, each with an invariant of its reachable states.
  \<^item> \<open>Federated_Streams\<close>: the request streams between Hosts, their waiters and the pool to an upstream.
  \<^item> \<open>Host_Core\<close>, \<open>Host_Guests\<close>, \<open>Host_Federation\<close>, \<open>Host_Invariant\<close>, \<open>Host_System\<close>, \<open>Host_Properties\<close>:
    \<open>node-http2-verser-host.ts\<close>, \<open>federation.ts\<close>, \<open>degraded-route-cleanup.ts\<close>: state, advertisement, registration,
    departure, revocation, links, shutdown, the step relation \<open>host_step\<close> and its invariant. The locale
    \<open>cleanup_owner\<close> is the contract of the cleanup timer with its owner, interpreted on the Host.
  \<^item> \<open>Broker_Routing\<close>, \<open>Host_Authority\<close>, \<open>Host_Routing\<close>: \<open>broker-routing.ts\<close> over its record of callbacks (locale
    \<open>routing_world\<close>), and the callbacks the Host gives it (locale \<open>host_awaits\<close>). A request is attributed to the Broker of
    its session and leaves for another Host only with a decision of the authorizer.
  \<^item> \<open>Vws_Open\<close>: WebSockets across Hosts; an open frame visits no Host twice.
  \<^item> \<open>Unauthorized_Gate\<close>: \<open>unauthorized-client.ts\<close>; a client without a certificate is served once, within bounds.

  \<^bold>\<open>Broker and Guest.\<close>
  \<^item> \<open>Remote_Broker\<close>, \<open>Broker_Requests\<close>, \<open>Broker_Session\<close>: \<open>http2-verser-broker.ts\<close>. Route changes tell the whole
    route view; promises are settled; redirects are bounded; no session is leaked.
  \<^item> \<open>Node_Guest\<close>: \<open>http2-verser-node-guest.ts\<close>. Lease pools within their bounds and at their target; leased requests are
    answered.
  \<^item> \<open>Web_Socket\<close>: \<open>verser-websocket.ts\<close>; \<open>Dispatch_Controller\<close>: \<open>dispatch-controller.ts\<close>; \<open>Chunked_Decoder\<close>:
    \<open>chunked-body-decoder.ts\<close> and its use in \<open>broker-socket.ts\<close>; \<open>Bun_Routes\<close>: \<open>routes.ts\<close> of the Bun Guest.
  \<^item> this theory: the request of a Broker as the Host reads it.

  \<^bold>\<open>Bounds and termination.\<close> Loops are \<open>fun\<close> or \<open>function\<close> with a measure: the bytes that are left, the candidates that are
  left, the streams short of the maximum, the redirects short of the limit, the peers that are left at shutdown. No definition
  uses fuel. Limits of the sources (frame, metadata and body sizes, hop and redirect limits, queue lengths) are constants or
  arguments with the value of the code.

  \<^bold>\<open>What the model shows to be wrong\<close> is stated by lemmas beside the properties: among others
  \<open>Node_Guest.null_result_accepts\<close> (a WebSocket handler that returns \<open>null\<close> accepts), \<open>Node_Guest.stale_close_forgets_session\<close>,
  \<open>Node_Guest.active_lease_not_replaced\<close>, \<open>Web_Socket.flush_is_overtaken\<close>, \<open>Web_Socket.data_after_close\<close>,
  \<open>Web_Socket.queued_sends_hang\<close>, \<open>Chunked_Decoder.split_terminator_throws\<close>,
  \<open>Federated_Streams.stale_pool_close_grants_twice\<close>, \<open>Lease_Pool.lease_key_collision\<close>,
  \<open>Broker_Routing.second_host_spelling_wins\<close>, \<open>Remote_Broker.degraded_route_wakes_nobody\<close>.

  \<^bold>\<open>Not modelled.\<close> Server start, TLS options and certificates (file I/O and \<open>node:tls\<close>); the pool and routing of WebSocket
  leases in the Host and the dispatch of a stream by its path; the in-memory request and response objects of
  \<open>minimal-http.ts\<close> and \<open>local-peers.ts\<close>, the emulated socket, the undici and \<open>node:http\<close> adapters, the native WebSocket
  facade and the Bun adapter, which present the modelled parts through interfaces of the platform; the Python Guest.
\<close>

section \<open>From a Broker to a Host\<close>

lemma valid_value_append: "isValidHeaderValue (a @ b) \<longleftrightarrow> isValidHeaderValue a \<and> isValidHeaderValue b"
  by (auto simp: isValidHeaderValue_def)

lemma valid_value_comma: "isValidHeaderValue []" "isValidHeaderValue (44 # s) \<longleftrightarrow> isValidHeaderValue s"
  by (simp_all add: isValidHeaderValue_def valid_value_char_def)

lemma join_valid: "\<forall>v \<in> set vs. isValidHeaderValue v \<Longrightarrow> isValidHeaderValue (join_with comma vs)"
proof (induction vs)
  case (Cons v vs)
  then show ?case by (cases vs) (simp_all add: valid_value_append valid_value_comma)
qed (simp add: valid_value_comma)

definition out_valid :: "jsstr \<times> header_out \<Rightarrow> bool" where
  "out_valid e \<longleftrightarrow> isValidHeaderName (fst e) \<and> isValidHeaderValue (header_out_string (snd e))"

lemma obj_set_all: "\<forall>e \<in> set es. Q e \<Longrightarrow> Q (k, v) \<Longrightarrow> \<forall>e \<in> set (obj_set k v es). Q e"
proof (induction es)
  case (Cons e es)
  then show ?case by (cases e) (auto simp: obj_set_def split: if_splits)
qed (simp add: obj_set_def)

lemma header_out_valid:
  assumes "\<forall>s \<in> set (header_values P v). isValidHeaderValue s"
  shows "isValidHeaderValue (header_out_string (header_out_of v (header_values P v)))"
  using assms join_valid [of "header_values P v"] by (cases v) (auto simp: header_out_of_def)

lemma local_headers_valid: "validateLocalHeaders P headers = Inr out \<Longrightarrow> (\<forall>e \<in> set out. out_valid e) \<and> distinct (map fst out)"
  unfolding validateLocalHeaders_def
proof (erule foldE_invariant, goal_cases)
  case (2 x s t)
  obtain name v where x: "x = (name, v)" by fastforce
  consider "t = s" | "isValidHeaderName (toLowerCase P name)" "\<forall>s \<in> set (header_values P v). isValidHeaderValue s"
    "t = obj_set (toLowerCase P name) (header_out_of v (header_values P v)) s"
    using 2(2) by (auto simp: x Let_def split: if_splits)
  then show ?case
  proof cases
    case 2
    then show ?thesis
      using \<open>(\<forall>e \<in> set s. out_valid e) \<and> distinct (map fst s)\<close> header_out_valid [of P v]
        obj_set_all [of s out_valid "toLowerCase P name" "header_out_of v (header_values P v)"]
      by (simp add: out_valid_def obj_set_distinct)
  qed (use 2 in simp)
qed simp

lemma flatten_distinct:
  "distinct (map fst hs) \<Longrightarrow> flattenVerserHeaders hs = map (\<lambda>(k, v). (k, header_out_string v)) (filter (\<lambda>(k, v). k \<noteq> js ''__proto__'') hs)"
proof (induction hs rule: rev_induct)
  case (snoc h hs)
  have new: "fst h \<notin> fst ` set (map (\<lambda>(k, v). (k, header_out_string v)) (filter (\<lambda>(k, v). k \<noteq> js ''__proto__'') hs))"
    using snoc.prems by (auto simp: image_iff)
  have "flattenVerserHeaders (hs @ [h]) = obj_set (fst h) (header_out_string (snd h)) (flattenVerserHeaders hs)"
    by (simp add: flattenVerserHeaders_def case_prod_unfold)
  then show ?case using snoc new by (cases h) (simp add: obj_set_def update_new)
qed (simp add: flattenVerserHeaders_def)

text \<open>The headers a Broker sends.\<close>

lemma sent_headers_valid:
  assumes "bindE (validateLocalHeaders P headers) (\<lambda>v. Inr (flattenVerserHeaders v)) = Inr hs"
  shows "(\<forall>(k, v) \<in> set hs. isValidHeaderName k \<and> isValidHeaderValue v) \<and> distinct (map fst hs)"
proof -
  obtain out where out: "validateLocalHeaders P headers = Inr out" "hs = flattenVerserHeaders out"
    using assms by (auto simp: bindE_Inr_iff)
  note valid = local_headers_valid [OF out(1)]
  then show ?thesis
    unfolding out(2) flatten_distinct [OF conjunct2 [OF valid]]
    by (auto simp: out_valid_def distinct_map_filter case_prod_unfold comp_def intro: distinct_map_filter)
qed

definition as_received :: "(jsstr \<times> jsstr) list \<Rightarrow> http_headers" where
  "as_received hs = map (\<lambda>(k, v). (k, RStr v)) hs"

lemma carried_headers_decoded:
  assumes "\<forall>(k, v) \<in> set hs. isValidHeaderName k \<and> isValidHeaderValue v" and "distinct (map fst hs)"
    and "jsonParse P text = Some (JObj (map (\<lambda>(k, v). (k, JStr v)) hs))"
  shows "decodeHeaderMap P text = Inr (map (\<lambda>(k, v). (k, One v)) hs)"
proof -
  have "mapE (decode_header_entry P) (map (\<lambda>(k, v). (k, JStr v)) hs) = Inr (map (\<lambda>(k, v). (k, One v)) hs)"
    unfolding mapE_map using assms(1)
    by (intro mapE_Inr_map) (auto simp: decode_header_entry_def)
  moreover have "fromEntries (map (\<lambda>(k, v). (k, One v)) hs) = map (\<lambda>(k, v). (k, One v)) hs"
    using assms(2) by (intro fromEntries_distinct) (simp add: case_prod_unfold comp_def)
  ultimately show ?thesis using assms(3) by (simp add: decodeHeaderMap_def)
qed


definition one_header_platform :: platform where
  "one_header_platform = sample_platform\<lparr>jsonParse := (\<lambda>_. Some (JObj [(js ''a'', JStr (js ''1''))]))\<rparr>"


end
